(* ===== verification/RC_Prelude.thy ===== *)
theory RC_Prelude
  imports
    Main
    "HOL-Library.List_Lexorder"
    "HOL-Library.Char_ord"
    "HOL-Library.Product_Lexorder"
begin

text \<open>
  Shared vocabulary of the development: machine integers and time as the Go code
  uses them, and the SQL statements of the store as functions on tables.

  A table is the list of its rows in rowid order. A statement of the code is one
  of the functions below: \<open>UPDATE .. SET f WHERE P\<close> is \<open>sql_update P f\<close>,
  \<open>DELETE .. WHERE P\<close> is \<open>sql_delete P\<close>, \<open>SELECT .. WHERE P\<close> is
  \<open>filter P\<close>, \<open>SELECT COUNT(*)\<close> is \<open>sql_count P\<close>, a read of one row is
  \<open>sql_row P\<close>, \<open>ORDER BY k\<close> is the stable \<open>sort_key k\<close> (ties keep
  rowid order) and \<open>INSERT .. ON CONFLICT DO UPDATE\<close> is \<open>sql_upsert\<close>.
\<close>

section \<open>Theorem collections\<close>

named_theorems sql_simps \<open>rewriting of SQL statements on tables\<close>
named_theorems table_intros \<open>preservation of table properties by statements\<close>

section \<open>Integers, instants and durations\<close>

text \<open>
  An instant is the number of nanoseconds since the Unix epoch, a duration a
  number of nanoseconds. \<open>wrap64\<close> is the two's complement wrap-around of a Go
  \<open>int64\<close>; a duration that is computed by multiplication goes through it.
\<close>

type_synonym time = int
type_synonym duration = int

abbreviation go_second :: int where
  "go_second \<equiv> 1000000000"

definition wrap64 :: "int \<Rightarrow> int" where
  "wrap64 x = (x + 2 ^ 63) mod 2 ^ 64 - 2 ^ 63"

text \<open>\<open>t.Unix()\<close>, \<open>time.Unix(s, 0)\<close>, \<open>time.Duration(s) * time.Second\<close>,
  \<open>int64(d.Seconds())\<close> and \<open>a.Sub(b)\<close>, which saturates.\<close>

definition unix :: "time \<Rightarrow> int" where
  "unix t = t div go_second"

definition from_unix :: "int \<Rightarrow> time" where
  "from_unix s = s * go_second"

definition seconds_dur :: "int \<Rightarrow> duration" where
  "seconds_dur s = wrap64 (s * go_second)"

definition whole_seconds :: "duration \<Rightarrow> int" where
  "whole_seconds d = (if d < 0 then - ((- d) div go_second) else d div go_second)"

definition time_sub :: "time \<Rightarrow> time \<Rightarrow> duration" where
  "time_sub a b = min (2 ^ 63 - 1) (max (- (2 ^ 63)) (a - b))"

lemma wrap64_id: "- (2 ^ 63) \<le> x \<Longrightarrow> x < 2 ^ 63 \<Longrightarrow> wrap64 x = x"
  by (simp add: wrap64_def)

lemma wrap64_bounds: "- (2 ^ 63) \<le> wrap64 x \<and> wrap64 x < 2 ^ 63"
  by (simp add: wrap64_def)

lemma seconds_dur_small:
  "\<bar>s\<bar> \<le> 9223372036 \<Longrightarrow> seconds_dur s = s * go_second"
  unfolding seconds_dur_def by (rule wrap64_id) (auto simp: abs_le_iff)

lemma unix_from_unix [simp]: "unix (from_unix s) = s"
  by (simp add: unix_def from_unix_def)

lemma unix_mono: "a \<le> b \<Longrightarrow> unix a \<le> unix b"
  by (simp add: unix_def zdiv_mono1)

lemma from_unix_le: "from_unix (unix t) \<le> t"
  by (simp add: unix_def from_unix_def)

lemma whole_seconds_mult [simp]: "whole_seconds (s * go_second) = s"
  by (simp add: whole_seconds_def flip: mult_minus_left)

section \<open>SQL statements on tables\<close>

definition sql_update :: "('r \<Rightarrow> bool) \<Rightarrow> ('r \<Rightarrow> 'r) \<Rightarrow> 'r list \<Rightarrow> 'r list" where
  "sql_update P f rows = map (\<lambda>r. if P r then f r else r) rows"

definition sql_delete :: "('r \<Rightarrow> bool) \<Rightarrow> 'r list \<Rightarrow> 'r list" where
  "sql_delete P rows = filter (\<lambda>r. \<not> P r) rows"

definition sql_count :: "('r \<Rightarrow> bool) \<Rightarrow> 'r list \<Rightarrow> nat" where
  "sql_count P rows = length (filter P rows)"

fun sql_row :: "('r \<Rightarrow> bool) \<Rightarrow> 'r list \<Rightarrow> 'r option" where
  "sql_row P [] = None"
| "sql_row P (r # rs) = (if P r then Some r else sql_row P rs)"

definition sql_exists :: "('r \<Rightarrow> bool) \<Rightarrow> 'r list \<Rightarrow> bool" where
  "sql_exists P rows = list_ex P rows"

definition sql_upsert :: "('r \<Rightarrow> bool) \<Rightarrow> ('r \<Rightarrow> 'r) \<Rightarrow> 'r \<Rightarrow> 'r list \<Rightarrow> 'r list" where
  "sql_upsert P f new rows = (if sql_exists P rows then sql_update P f rows else rows @ [new])"

lemma sql_update_Nil [simp]: "sql_update P f [] = []"
  by (simp add: sql_update_def)

lemma sql_update_Cons [simp]:
  "sql_update P f (r # rs) = (if P r then f r else r) # sql_update P f rs"
  by (simp add: sql_update_def)

lemma sql_delete_Nil [simp]: "sql_delete P [] = []"
  by (simp add: sql_delete_def)

lemma sql_delete_Cons [simp]:
  "sql_delete P (r # rs) = (if P r then sql_delete P rs else r # sql_delete P rs)"
  by (simp add: sql_delete_def)

lemma length_sql_update [simp]: "length (sql_update P f rows) = length rows"
  by (simp add: sql_update_def)

lemma set_sql_update: "set (sql_update P f rows) = (\<lambda>r. if P r then f r else r) ` set rows"
  by (simp add: sql_update_def)

lemma set_sql_delete [sql_simps]: "set (sql_delete P rows) = {r \<in> set rows. \<not> P r}"
  by (auto simp: sql_delete_def)

lemma sql_exists_iff [sql_simps]: "sql_exists P rows \<longleftrightarrow> (\<exists>r \<in> set rows. P r)"
  by (auto simp: sql_exists_def list_ex_iff)

lemma map_key_sql_update:
  "(\<And>r. k (f r) = k r) \<Longrightarrow> map k (sql_update P f rows) = map k rows"
  by (simp add: sql_update_def)

lemma sql_update_mem:
  "r \<in> set rows \<Longrightarrow> (if P r then f r else r) \<in> set (sql_update P f rows)"
  by (simp add: set_sql_update)

lemma sql_updateE:
  assumes "r' \<in> set (sql_update P f rows)"
  obtains (hit) r where "r \<in> set rows" "P r" "r' = f r"
        | (miss) "r' \<in> set rows" "\<not> P r'"
  using assms by (auto simp: set_sql_update split: if_splits)

lemma sql_update_id: "(\<And>r. r \<in> set rows \<Longrightarrow> \<not> P r) \<Longrightarrow> sql_update P f rows = rows"
  by (induction rows) auto

lemma ball_sql_update [sql_simps]:
  "(\<forall>r \<in> set (sql_update P f rows). Q r)
     \<longleftrightarrow> (\<forall>r \<in> set rows. if P r then Q (f r) else Q r)"
  by (auto simp: set_sql_update)

lemma bex_sql_update [sql_simps]:
  "(\<exists>r \<in> set (sql_update P f rows). Q r)
     \<longleftrightarrow> (\<exists>r \<in> set rows. if P r then Q (f r) else Q r)"
  by (auto simp: set_sql_update)

lemma distinct_sql_upsert:
  assumes "distinct (map k rows)" and "\<And>r. k (f r) = k r" and "\<And>r. P r \<longleftrightarrow> k r = k new"
  shows "distinct (map k (sql_upsert P f new rows))"
  using assms by (auto simp: sql_upsert_def sql_exists_iff map_key_sql_update)

lemma sql_row_Some: "sql_row P rows = Some r \<Longrightarrow> r \<in> set rows \<and> P r"
  by (induction rows) (auto split: if_splits)

lemma sql_row_None [sql_simps]: "sql_row P rows = None \<longleftrightarrow> (\<forall>r \<in> set rows. \<not> P r)"
  by (induction rows) auto

lemma sql_row_ex: "r \<in> set rows \<Longrightarrow> P r \<Longrightarrow> \<exists>r'. sql_row P rows = Some r'"
  using sql_row_None by (cases "sql_row P rows") fastforce+

lemma sql_count_pos [sql_simps]: "0 < sql_count P rows \<longleftrightarrow> (\<exists>r \<in> set rows. P r)"
  by (simp add: sql_count_def length_greater_0_conv filter_empty_conv)

lemma sql_count_0 [sql_simps]: "sql_count P rows = 0 \<longleftrightarrow> (\<forall>r \<in> set rows. \<not> P r)"
  by (simp add: sql_count_def filter_empty_conv)

section \<open>Tables with a primary key\<close>

text \<open>
  The interface every table of the store offers: reading its rows out of the
  database, writing them back, and a primary key. The laws are those of a field
  of a record; the lemmas are what the code relies on when it names a row by its
  key.
\<close>

locale keyed_table =
  fixes rows :: "'db \<Rightarrow> 'r list"
    and put :: "'r list \<Rightarrow> 'db \<Rightarrow> 'db"
    and key :: "'r \<Rightarrow> 'k"
  assumes rows_put: "rows (put xs s) = xs"
    and put_put: "put ys (put xs s) = put ys s"
    and put_rows: "put (rows s) s = s"
begin

lemma find_unique:
  assumes "distinct (map key (rows s))" and "r \<in> set (rows s)"
  shows "sql_row (\<lambda>r'. key r' = key r) (rows s) = Some r"
proof -
  obtain r' where r': "sql_row (\<lambda>r'. key r' = key r) (rows s) = Some r'"
    using assms(2) sql_row_ex [of r "rows s" "\<lambda>r'. key r' = key r"] by auto
  then have "r' \<in> set (rows s)" "key r' = key r"
    by (auto dest: sql_row_Some)
  with assms have "r' = r"
    by (auto simp: distinct_map dest: inj_onD)
  with r' show ?thesis by simp
qed

lemma key_inj:
  assumes "distinct (map key (rows s))"
    and "r \<in> set (rows s)" and "r' \<in> set (rows s)" and "key r = key r'"
  shows "r = r'"
  using assms by (auto simp: distinct_map dest: inj_onD)

lemma update_keeps_keys:
  assumes "\<And>r. key (f r) = key r"
  shows "map key (rows (put (sql_update P f (rows s)) s)) = map key (rows s)"
  by (simp add: rows_put map_key_sql_update assms)

lemma update_other:
  assumes "r \<in> set (rows s)" and "\<not> P r"
  shows "r \<in> set (rows (put (sql_update P f (rows s)) s))"
  using sql_update_mem [OF assms(1), of P f] assms(2) by (simp add: rows_put)

lemma delete_keeps_distinct:
  assumes "distinct (map key (rows s))"
  shows "distinct (map key (rows (put (sql_delete P (rows s)) s)))"
  using assms by (simp add: rows_put sql_delete_def distinct_map_filter)

lemma insert_keeps_distinct:
  assumes "distinct (map key (rows s))" and "\<not> sql_exists (\<lambda>r. key r = key new) (rows s)"
  shows "distinct (map key (rows (put (rows s @ [new]) s)))"
  using assms by (auto simp: rows_put sql_exists_iff)

end

section \<open>Systems with an invariant\<close>

text \<open>
  The argument every component with state shares: a predicate that the initial
  states have and every step keeps holds in every state a run reaches. The runs
  are lists of labels, so that a property of a run may speak about its events.
\<close>

inductive run :: "('s \<Rightarrow> 'e \<Rightarrow> 's \<Rightarrow> bool) \<Rightarrow> 's \<Rightarrow> 'e list \<Rightarrow> 's \<Rightarrow> bool"
  for stp :: "'s \<Rightarrow> 'e \<Rightarrow> 's \<Rightarrow> bool" where
  run_nil: "run stp s [] s"
| run_cons: "stp s e s' \<Longrightarrow> run stp s' es s'' \<Longrightarrow> run stp s (e # es) s''"

inductive_simps run_Nil_iff: "run stp s [] s'"
inductive_simps run_Cons_iff: "run stp s (e # es) s''"

lemma run_single: "stp s e s' \<Longrightarrow> run stp s [e] s'"
  by (rule run_cons [OF _ run_nil])

lemma run_append:
  "run stp s es s' \<Longrightarrow> run stp s' es' s'' \<Longrightarrow> run stp s (es @ es') s''"
  by (induction rule: run.induct) (auto intro: run.intros)

lemma run_snoc_iff: "run stp s (es @ [e]) s'' \<longleftrightarrow> (\<exists>s'. run stp s es s' \<and> stp s' e s'')"
  by (induction es arbitrary: s) (auto simp: run_Nil_iff run_Cons_iff)

lemma run_append_iff: "run stp s (xs @ ys) s'' \<longleftrightarrow> (\<exists>s'. run stp s xs s' \<and> run stp s' ys s'')"
  by (induction xs arbitrary: s) (auto simp: run_Nil_iff run_Cons_iff)

locale invariant_system =
  fixes stp :: "'s \<Rightarrow> 'e \<Rightarrow> 's \<Rightarrow> bool"
    and inv :: "'s \<Rightarrow> bool"
  assumes step_inv: "stp s e s' \<Longrightarrow> inv s \<Longrightarrow> inv s'"
begin

lemma run_inv: "run stp s es s' \<Longrightarrow> inv s \<Longrightarrow> inv s'"
  by (induction rule: run.induct) (auto dest: step_inv)

lemma run_stable:
  assumes "run stp s es s'" and "inv s" and "Q s"
    and "\<And>u e v. e \<in> set es \<Longrightarrow> inv u \<Longrightarrow> stp u e v \<Longrightarrow> Q u \<Longrightarrow> Q v"
  shows "Q s'"
  using assms by (induction rule: run.induct) (auto dest: step_inv)

end

end
