(* ===== verification/Model.thy ===== *)
theory Model
  imports RC_Prelude
begin

text \<open>
  The entities of \<open>src/internal/model/model.go\<close>: device and job states, the kinds
  and sources the store compares strings against, and the recovery proof a worker
  presents at registration. States are Go strings with named constants; a value
  outside the constants (which JSON input can hold) is the last constructor.
\<close>

section \<open>States\<close>

datatype device_state =
    DeviceReady | DeviceBusy | DeviceUnknown | DeviceUnhealthy | DeviceStateOther string

datatype job_state =
    JobAssigned | JobRunning | JobSucceeded | JobFailed | JobKilled | JobLost | JobQueued
  | JobStateOther string

fun terminal :: "job_state \<Rightarrow> bool" where
  "terminal JobSucceeded = True"
| "terminal JobFailed = True"
| "terminal JobKilled = True"
| "terminal JobLost = True"
| "terminal _ = False"

text \<open>\<open>state IN (assigned, running)\<close>, the test every statement on live jobs makes.\<close>

definition in_flight :: "job_state \<Rightarrow> bool" where
  "in_flight st \<longleftrightarrow> st = JobAssigned \<or> st = JobRunning"

lemma in_flight_simps [simp]:
  "in_flight JobAssigned" "in_flight JobRunning" "\<not> in_flight JobQueued"
  "\<not> in_flight JobSucceeded" "\<not> in_flight JobFailed" "\<not> in_flight JobKilled"
  "\<not> in_flight JobLost" "\<not> in_flight (JobStateOther u)"
  by (simp_all add: in_flight_def)

lemma terminal_not_in_flight: "terminal st \<Longrightarrow> \<not> in_flight st"
  by (cases st) auto

section \<open>Constants\<close>

abbreviation SourceDetected :: string where "SourceDetected \<equiv> ''detected''"
abbreviation SourceDeclared :: string where "SourceDeclared \<equiv> ''declared''"

abbreviation LeaseKindJob :: string where "LeaseKindJob \<equiv> ''job''"
abbreviation LeaseKindHold :: string where "LeaseKindHold \<equiv> ''hold''"

abbreviation StdioLogs :: string where "StdioLogs \<equiv> ''''"
abbreviation StdioTTY :: string where "StdioTTY \<equiv> ''tty''"
abbreviation StdioPipe :: string where "StdioPipe \<equiv> ''pipe''"

definition stdio_attached :: "string \<Rightarrow> bool" where
  "stdio_attached mode \<longleftrightarrow> mode = StdioTTY \<or> mode = StdioPipe"

section \<open>Recovery proofs\<close>

record recovery_proof =
  rp_isolated :: bool
  rp_survivors_checked :: bool
  rp_survivors_found :: bool

definition proves :: "recovery_proof \<Rightarrow> bool" where
  "proves p \<longleftrightarrow> rp_isolated p \<or> (rp_survivors_checked p \<and> \<not> rp_survivors_found p)"

definition summary :: "recovery_proof \<Rightarrow> string" where
  "summary p =
     (if rp_isolated p then ''worker restarted in an isolated PID namespace''
      else if rp_survivors_checked p \<and> \<not> rp_survivors_found p
      then ''worker found no surviving processes from its previous run''
      else '''')"

definition zero_proof :: recovery_proof where
  "zero_proof = \<lparr>rp_isolated = False, rp_survivors_checked = False, rp_survivors_found = False\<rparr>"

lemma summary_iff_proves: "summary p = '''' \<longleftrightarrow> \<not> proves p"
  by (simp add: summary_def proves_def)

end
