(* ===== verification/Store_DB.thy ===== *)
theory Store_DB
  imports Model
begin

text \<open>
  The database of the controller (\<open>src/internal/store/schema.sql\<close> and the columns
  the migrations add): one record per table row and the record of all tables. The
  JSON columns \<open>command\<close> and \<open>env\<close> hold the decoded values. The interpretations of
  \<open>keyed_table\<close> give every table its primary-key lemmas.
\<close>

section \<open>Rows\<close>

text \<open>Why a device is quarantined: the vocabulary of the \<open>quarantine_reason\<close> column;
  \<open>QuarNone\<close> is the empty string, \<^emph>\<open>cause unknown\<close> on an unhealthy row.\<close>

datatype quarantine =
    QuarNone | QuarFault | QuarWorkerLost | QuarLeaseExpired | QuarRegistration

fun quarantine_text :: "quarantine \<Rightarrow> string" where
  "quarantine_text QuarNone = ''''"
| "quarantine_text QuarFault = ''fault''"
| "quarantine_text QuarWorkerLost = ''worker_lost''"
| "quarantine_text QuarLeaseExpired = ''lease_expired''"
| "quarantine_text QuarRegistration = ''registration''"

definition reboot_clearable :: "quarantine \<Rightarrow> bool" where
  "reboot_clearable q \<longleftrightarrow> List.member [QuarWorkerLost, QuarLeaseExpired, QuarRegistration] q"

record worker_row =
  w_id :: string
  w_host :: string
  w_boot_id :: string
  w_heartbeat :: int

record device_row =
  d_id :: string
  d_host :: string
  d_name :: string
  d_worker_id :: string
  d_state :: device_state
  d_heartbeat :: int
  d_max_runtime :: int
  d_quarantine :: quarantine
  d_detail :: string

record job_row =
  j_id :: string
  j_selector :: string
  j_command :: "string list"
  j_cwd :: string
  j_env :: "string \<rightharpoonup> string"
  j_submitter :: string
  j_idempotency_key :: "string option"
  j_state :: job_state
  j_device_id :: string
  j_worker_id :: string
  j_exit_code :: "int option"
  j_kill_reason :: string
  j_submitted_at :: int
  j_started_at :: "int option"
  j_finished_at :: "int option"
  j_priority :: int
  j_max_runtime :: int
  j_idle_timeout :: int
  j_queued_at :: int
  j_kind :: string
  j_reason :: string
  j_stdio :: string
  j_kill_requested :: bool
  j_kill_delivered_at :: int

record lease_row =
  l_id :: string
  l_device_id :: string
  l_holder :: string
  l_job_id :: string
  l_acquired_at :: int
  l_expires_at :: int
  l_released_at :: "int option"
  l_kind :: string
  l_reason :: string

record reservation_row =
  rv_job_id :: string
  rv_device_id :: string
  rv_created_at :: int

record label_row =
  lb_device_id :: string
  lb_key :: string
  lb_value :: string
  lb_source :: string
  lb_updated_at :: int

record doc_row =
  hd_host :: string
  hd_device_id :: string
  hd_body :: string
  hd_updated_at :: int

record recovery_row =
  dr_device_id :: string
  dr_at :: int
  dr_reason :: quarantine

record db =
  workers :: "worker_row list"
  devices :: "device_row list"
  jobs :: "job_row list"
  leases :: "lease_row list"
  reservations :: "reservation_row list"
  device_labels :: "label_row list"
  host_docs :: "doc_row list"
  device_recoveries :: "recovery_row list"

definition empty_db :: db where
  "empty_db =
     \<lparr>workers = [], devices = [], jobs = [], leases = [], reservations = [],
      device_labels = [], host_docs = [], device_recoveries = []\<rparr>"

section \<open>Errors\<close>

text \<open>
  The store's error values. \<open>ErrConstraint\<close> is a violated primary key or unique
  index; the remaining failures of the driver (I/O) are not modelled.
\<close>

datatype store_error =
    ErrDeviceNotFound string
  | ErrWorkerNotFound string
  | ErrNoDevice
  | ErrJobNoLongerQueued
  | ErrRuntimeAboveCeiling string
  | ErrUnknownDevice string
  | ErrNoMatchingDevice string
  | ErrDeviceBusy string
  | ErrNoRows
  | ErrConstraint string
  | ErrSelector string
  | ErrText string

type_synonym 'a result = "store_error + 'a"

section \<open>Primary keys\<close>

interpretation device_table: keyed_table devices "\<lambda>xs s. s\<lparr>devices := xs\<rparr>" d_id
  by unfold_locales simp_all

interpretation job_table: keyed_table jobs "\<lambda>xs s. s\<lparr>jobs := xs\<rparr>" j_id
  by unfold_locales simp_all

interpretation lease_table: keyed_table leases "\<lambda>xs s. s\<lparr>leases := xs\<rparr>" l_id
  by unfold_locales simp_all

interpretation worker_table: keyed_table workers "\<lambda>xs s. s\<lparr>workers := xs\<rparr>" w_id
  by unfold_locales simp_all

section \<open>Live leases\<close>

definition live :: "lease_row \<Rightarrow> bool" where
  "live l \<longleftrightarrow> l_released_at l = None"

definition live_on :: "db \<Rightarrow> string \<Rightarrow> bool" where
  "live_on s d \<longleftrightarrow> sql_exists (\<lambda>l. l_device_id l = d \<and> live l) (leases s)"

text \<open>The partial unique index \<open>leases_one_live_per_device\<close> and the primary key.\<close>

definition insert_lease :: "lease_row \<Rightarrow> db \<Rightarrow> db result" where
  "insert_lease l s =
     (if sql_exists (\<lambda>l'. l_id l' = l_id l) (leases s) then Inl (ErrConstraint ''leases.id'')
      else if live l \<and> live_on s (l_device_id l) then Inl (ErrConstraint ''leases_one_live_per_device'')
      else Inr (s\<lparr>leases := leases s @ [l]\<rparr>))"

text \<open>\<open>INSERT INTO jobs\<close>: the primary key and the index \<open>jobs_idempotency\<close>.\<close>

definition insert_job :: "job_row \<Rightarrow> db \<Rightarrow> db result" where
  "insert_job j s =
     (if sql_exists (\<lambda>j'. j_id j' = j_id j) (jobs s) then Inl (ErrConstraint ''jobs.id'')
      else if j_idempotency_key j \<noteq> None
           \<and> sql_exists (\<lambda>j'. j_idempotency_key j' = j_idempotency_key j) (jobs s)
      then Inl (ErrConstraint ''jobs_idempotency'')
      else Inr (s\<lparr>jobs := jobs s @ [j]\<rparr>))"

text \<open>\<open>UPDATE leases SET released_at = t WHERE job_id = ? AND released_at IS NULL\<close>,
  which every path that ends a job runs.\<close>

definition release_leases_of :: "string \<Rightarrow> int \<Rightarrow> db \<Rightarrow> db" where
  "release_leases_of job at s =
     s\<lparr>leases := sql_update (\<lambda>l. l_job_id l = job \<and> live l)
                   (\<lambda>l. l\<lparr>l_released_at := Some at\<rparr>) (leases s)\<rparr>"

section \<open>Invariants\<close>

text \<open>
  Keys are unique and at most one live lease stands per device: what the schema
  itself enforces.
\<close>

definition schema_ok :: "db \<Rightarrow> bool" where
  "schema_ok s \<longleftrightarrow>
     distinct (map w_id (workers s)) \<and>
     distinct (map d_id (devices s)) \<and>
     distinct (map j_id (jobs s)) \<and>
     distinct (map l_id (leases s)) \<and>
     distinct (map l_device_id (filter live (leases s)))"

text \<open>
  The lease table, the job table and the device table agree: a live lease belongs
  to the one in-flight job it names and stands on that job's device; an in-flight
  job has its live lease, on a device its worker owns; a busy device is leased and
  a ready one is not.
\<close>

definition leases_agree :: "db \<Rightarrow> bool" where
  "leases_agree s \<longleftrightarrow>
     (\<forall>l \<in> set (leases s). live l \<longrightarrow>
        (\<exists>j \<in> set (jobs s). j_id j = l_job_id l \<and> in_flight (j_state j)
            \<and> j_device_id j = l_device_id l))"

definition jobs_leased :: "db \<Rightarrow> bool" where
  "jobs_leased s \<longleftrightarrow>
     (\<forall>j \<in> set (jobs s). in_flight (j_state j) \<longrightarrow>
        (\<exists>l \<in> set (leases s). live l \<and> l_job_id l = j_id j \<and> l_device_id l = j_device_id j) \<and>
        (\<exists>d \<in> set (devices s). d_id d = j_device_id j \<and> d_worker_id d = j_worker_id j))"

definition ready_free :: "db \<Rightarrow> bool" where
  "ready_free s \<longleftrightarrow>
     (\<forall>d \<in> set (devices s). d_state d = DeviceReady \<longrightarrow> \<not> live_on s (d_id d))"

definition busy_leased :: "string set \<Rightarrow> db \<Rightarrow> bool" where
  "busy_leased D s \<longleftrightarrow>
     (\<forall>d \<in> set (devices s). d_state d = DeviceBusy \<longrightarrow> d_id d \<notin> D \<longrightarrow> live_on s (d_id d))"

text \<open>
  A job is queued, and then no worker owns it yet, or it is in flight, or it has
  ended. So a worker that names itself the owner of a job never names a queued one.
  No job has the empty identifier a lease without a job would carry.
\<close>

definition jobs_known :: "db \<Rightarrow> bool" where
  "jobs_known s \<longleftrightarrow>
     (\<forall>j \<in> set (jobs s). j_id j \<noteq> '''' \<and>
        ((j_state j = JobQueued \<and> j_worker_id j = '''')
          \<or> in_flight (j_state j) \<or> terminal (j_state j)))"

text \<open>A quarantine reason or detail stands only on an unhealthy device.\<close>

definition quarantine_ok :: "db \<Rightarrow> bool" where
  "quarantine_ok s \<longleftrightarrow>
     (\<forall>d \<in> set (devices s). d_state d \<noteq> DeviceUnhealthy \<longrightarrow>
        d_quarantine d = QuarNone \<and> d_detail d = '''')"

text \<open>
  \<open>core_ok\<close> holds between the statements of a transaction too; the set in
  \<open>busy_leased\<close> names the devices whose lease a transaction has already released.
\<close>

definition core_ok :: "db \<Rightarrow> bool" where
  "core_ok s \<longleftrightarrow>
     schema_ok s \<and> leases_agree s \<and> jobs_leased s \<and> jobs_known s \<and> ready_free s
     \<and> quarantine_ok s"

definition db_ok :: "db \<Rightarrow> bool" where
  "db_ok s \<longleftrightarrow> core_ok s \<and> busy_leased {} s"

lemmas core_defs =
  core_ok_def schema_ok_def leases_agree_def jobs_leased_def jobs_known_def
  ready_free_def quarantine_ok_def

lemma db_ok_empty: "db_ok empty_db"
  by (simp add: db_ok_def core_defs busy_leased_def empty_db_def)

lemma live_on_iff: "live_on s d \<longleftrightarrow> (\<exists>l \<in> set (leases s). l_device_id l = d \<and> live l)"
  by (simp add: live_on_def sql_exists_iff)

lemma busy_leased_mono: "busy_leased D s \<Longrightarrow> D \<subseteq> E \<Longrightarrow> busy_leased E s"
  by (auto simp: busy_leased_def)

section \<open>Statements that keep the invariant\<close>

text \<open>Statements on the tables the invariant does not read.\<close>

lemma core_ok_other [simp]:
  "core_ok (s\<lparr>reservations := rs\<rparr>) = core_ok s"
  "core_ok (s\<lparr>device_labels := ls\<rparr>) = core_ok s"
  "core_ok (s\<lparr>host_docs := hs\<rparr>) = core_ok s"
  "core_ok (s\<lparr>device_recoveries := qs\<rparr>) = core_ok s"
  by (simp_all add: core_defs live_on_def)

lemma busy_leased_other [simp]:
  "busy_leased D (s\<lparr>reservations := rs\<rparr>) = busy_leased D s"
  "busy_leased D (s\<lparr>device_labels := ls\<rparr>) = busy_leased D s"
  "busy_leased D (s\<lparr>host_docs := hs\<rparr>) = busy_leased D s"
  "busy_leased D (s\<lparr>device_recoveries := qs\<rparr>) = busy_leased D s"
  "busy_leased D (s\<lparr>workers := ws\<rparr>) = busy_leased D s"
  "busy_leased D (s\<lparr>jobs := js\<rparr>) = busy_leased D s"
  by (simp_all add: busy_leased_def live_on_def)

lemma db_ok_other [simp]:
  "db_ok (s\<lparr>reservations := rs\<rparr>) = db_ok s"
  "db_ok (s\<lparr>device_labels := ls\<rparr>) = db_ok s"
  "db_ok (s\<lparr>host_docs := hs\<rparr>) = db_ok s"
  "db_ok (s\<lparr>device_recoveries := qs\<rparr>) = db_ok s"
  by (simp_all add: db_ok_def)

lemma live_on_other [simp]:
  "live_on (s\<lparr>reservations := rs\<rparr>) d = live_on s d"
  "live_on (s\<lparr>device_labels := ls\<rparr>) d = live_on s d"
  "live_on (s\<lparr>host_docs := hs\<rparr>) d = live_on s d"
  "live_on (s\<lparr>device_recoveries := qs\<rparr>) d = live_on s d"
  "live_on (s\<lparr>workers := ws\<rparr>) d = live_on s d"
  "live_on (s\<lparr>jobs := js\<rparr>) d = live_on s d"
  "live_on (s\<lparr>devices := ds\<rparr>) d = live_on s d"
  by (simp_all add: live_on_def)

lemma core_ok_workers:
  "core_ok s \<Longrightarrow> distinct (map w_id ws) \<Longrightarrow> core_ok (s\<lparr>workers := ws\<rparr>)"
  by (simp add: core_defs live_on_def)

text \<open>An \<open>UPDATE devices\<close> that moves no device to another worker.\<close>

lemma core_ok_devices:
  assumes "core_ok s"
    and keep: "\<And>d. d_id (f d) = d_id d"
    and own: "\<And>d. d \<in> set (devices s) \<Longrightarrow> P d \<Longrightarrow> d_worker_id (f d) = d_worker_id d"
    and ready: "\<And>d. d \<in> set (devices s) \<Longrightarrow> P d \<Longrightarrow> d_state (f d) = DeviceReady
                  \<Longrightarrow> \<not> live_on s (d_id d)"
    and quar: "\<And>d. d \<in> set (devices s) \<Longrightarrow> P d \<Longrightarrow> d_state (f d) \<noteq> DeviceUnhealthy
                  \<Longrightarrow> d_quarantine (f d) = QuarNone \<and> d_detail (f d) = ''''"
  shows "core_ok (s\<lparr>devices := sql_update P f (devices s)\<rparr>)"
proof -
  have "map d_id (sql_update P f (devices s)) = map d_id (devices s)"
    by (rule map_key_sql_update) (rule keep)
  moreover have "jobs_leased (s\<lparr>devices := sql_update P f (devices s)\<rparr>)"
    using assms(1) own by (fastforce simp: core_ok_def jobs_leased_def bex_sql_update keep)
  ultimately show ?thesis
    using assms(1) ready quar
    by (auto simp: core_defs live_on_def ball_sql_update bex_sql_update keep)
qed

lemma busy_leased_devices:
  assumes "busy_leased D s" and "\<And>d. d_id (f d) = d_id d"
    and "\<And>d. d \<in> set (devices s) \<Longrightarrow> P d \<Longrightarrow> d_state (f d) = DeviceBusy
           \<Longrightarrow> d_id d \<notin> E \<Longrightarrow> live_on s (d_id d)"
    and "\<And>d. d \<in> set (devices s) \<Longrightarrow> \<not> P d \<Longrightarrow> d_state d = DeviceBusy \<Longrightarrow> d_id d \<in> D \<Longrightarrow> d_id d \<in> E"
  shows "busy_leased E (s\<lparr>devices := sql_update P f (devices s)\<rparr>)"
  using assms unfolding busy_leased_def by (auto simp: ball_sql_update)

text \<open>An \<open>UPDATE jobs\<close> that starts and ends no job.\<close>

lemma core_ok_jobs:
  assumes "core_ok s"
    and keep: "\<And>j. j_id (f j) = j_id j" "\<And>j. j_device_id (f j) = j_device_id j"
      "\<And>j. j_worker_id (f j) = j_worker_id j"
    and flight: "\<And>j. P j \<Longrightarrow> in_flight (j_state (f j)) = in_flight (j_state j)"
    and known: "\<And>j. P j \<Longrightarrow> j_state (f j) = j_state j
                  \<or> in_flight (j_state (f j)) \<or> terminal (j_state (f j))"
  shows "core_ok (s\<lparr>jobs := sql_update P f (jobs s)\<rparr>)"
proof -
  have "map j_id (sql_update P f (jobs s)) = map j_id (jobs s)"
    by (rule map_key_sql_update) (rule keep)
  moreover have "leases_agree (s\<lparr>jobs := sql_update P f (jobs s)\<rparr>)"
    using assms(1) flight
    by (fastforce simp: core_ok_def leases_agree_def bex_sql_update keep)
  moreover have "jobs_known (s\<lparr>jobs := sql_update P f (jobs s)\<rparr>)"
    using assms(1) known by (fastforce simp: core_ok_def jobs_known_def ball_sql_update keep)
  ultimately show ?thesis
    using assms(1) flight
    by (auto simp: core_defs live_on_def ball_sql_update keep)
qed

text \<open>An \<open>UPDATE leases\<close> that neither moves nor releases one.\<close>

lemma live_on_leases:
  assumes "\<And>l. l_device_id (f l) = l_device_id l" "\<And>l. l_released_at (f l) = l_released_at l"
  shows "live_on (s\<lparr>leases := sql_update P f (leases s)\<rparr>) d = live_on s d"
  unfolding live_on_iff using assms by (auto simp: bex_sql_update live_def split: if_splits)

lemma core_ok_leases:
  assumes "core_ok s"
    and keep: "\<And>l. l_id (f l) = l_id l" "\<And>l. l_device_id (f l) = l_device_id l"
      "\<And>l. l_job_id (f l) = l_job_id l" "\<And>l. l_released_at (f l) = l_released_at l"
  shows "core_ok (s\<lparr>leases := sql_update P f (leases s)\<rparr>)"
proof -
  have lv: "live (f l) = live l" for l by (simp add: live_def keep)
  have "map l_id (sql_update P f (leases s)) = map l_id (leases s)"
    by (rule map_key_sql_update) (rule keep)
  moreover have "map l_device_id (filter live (sql_update P f ls))
      = map l_device_id (filter live ls)" for ls
    by (induction ls) (auto simp: lv keep)
  moreover have "jobs_leased (s\<lparr>leases := sql_update P f (leases s)\<rparr>)"
    using assms(1) by (fastforce simp: core_ok_def jobs_leased_def bex_sql_update keep lv)
  moreover have "ready_free (s\<lparr>leases := sql_update P f (leases s)\<rparr>)"
    using assms(1) by (simp add: core_ok_def ready_free_def live_on_leases keep)
  ultimately show ?thesis
    using assms(1) by (auto simp: core_defs ball_sql_update keep lv)
qed

lemma busy_leased_leases:
  assumes "\<And>l. l_device_id (f l) = l_device_id l" "\<And>l. l_released_at (f l) = l_released_at l"
  shows "busy_leased D (s\<lparr>leases := sql_update P f (leases s)\<rparr>) = busy_leased D s"
  using assms by (simp add: busy_leased_def live_on_leases)

lemma live_device_inj:
  assumes "core_ok s" and "l \<in> set (leases s)" "live l" and "l' \<in> set (leases s)" "live l'"
    and "l_device_id l = l_device_id l'"
  shows "l = l'"
proof -
  have "inj_on l_device_id (set (filter live (leases s)))"
    using assms(1) by (simp add: core_ok_def schema_ok_def distinct_map)
  then show ?thesis using assms by (auto dest: inj_onD)
qed

text \<open>A device no in-flight job stands on carries no live lease.\<close>

lemma no_flight_not_live:
  assumes "core_ok s" and "\<And>j. j \<in> set (jobs s) \<Longrightarrow> in_flight (j_state j) \<Longrightarrow> j_device_id j \<noteq> dev"
  shows "\<not> live_on s dev"
  using assms by (fastforce simp: live_on_iff core_ok_def leases_agree_def)

text \<open>A job has at most one live lease, because its device has.\<close>

lemma live_lease_unique:
  assumes "core_ok s" and "l \<in> set (leases s)" "live l" and "l' \<in> set (leases s)" "live l'"
    and "l_job_id l = l_job_id l'"
  shows "l = l'"
proof -
  obtain j where j: "j \<in> set (jobs s)" "j_id j = l_job_id l" "j_device_id j = l_device_id l"
    using assms by (auto simp: core_ok_def leases_agree_def)
  obtain j' where j': "j' \<in> set (jobs s)" "j_id j' = l_job_id l'" "j_device_id j' = l_device_id l'"
    using assms by (auto simp: core_ok_def leases_agree_def)
  have "j = j'"
    using assms(1,6) j j' job_table.key_inj [of s j j'] by (simp add: core_ok_def schema_ok_def)
  with j j' have "l_device_id l = l_device_id l'" by simp
  then show ?thesis using live_device_inj assms(1-5) by blast
qed

text \<open>
  Ending a job: it leaves the in-flight states and its leases are released. The
  device it stood on is the one the rest of the transaction still has to settle.
\<close>

lemma core_ok_end_job:
  assumes "core_ok s"
    and keep: "\<And>j. j_id (f j) = j_id j"
    and ended: "\<And>j. P j \<Longrightarrow> terminal (j_state (f j))"
    and only: "\<And>j. P j \<Longrightarrow> j_id j = job"
    and all: "\<And>j. j \<in> set (jobs s) \<Longrightarrow> j_id j = job \<Longrightarrow> in_flight (j_state j) \<Longrightarrow> P j"
  shows "core_ok (release_leases_of job at (s\<lparr>jobs := sql_update P f (jobs s)\<rparr>))"
proof -
  let ?js = "sql_update P f (jobs s)"
  let ?ls = "sql_update (\<lambda>l. l_job_id l = job \<and> live l) (\<lambda>l. l\<lparr>l_released_at := Some at\<rparr>) (leases s)"
  have lv: "filter live (sql_update (\<lambda>l. l_job_id l = job \<and> live l)
      (\<lambda>l. l\<lparr>l_released_at := Some at\<rparr>) ls) = filter (\<lambda>l. live l \<and> l_job_id l \<noteq> job) ls" for ls
    by (induction ls) (auto simp: live_def)
  then have "set (filter live ?ls) = set (filter (\<lambda>l. live l \<and> l_job_id l \<noteq> job) (leases s))"
    by simp
  then have still: "l \<in> set ?ls \<and> live l \<longleftrightarrow> l \<in> set (leases s) \<and> live l \<and> l_job_id l \<noteq> job" for l
    unfolding set_filter by blast
  have ids: "map j_id ?js = map j_id (jobs s)" "map l_id ?ls = map l_id (leases s)"
    by (simp_all add: map_key_sql_update keep)
  have dist: "distinct (map l_device_id (filter live ?ls))"
    using assms(1) unfolding lv core_defs
    by (metis (no_types, lifting) distinct_map_filter filter_filter filter_cong)
  have fl: "j \<in> set (jobs s) \<and> \<not> P j" if "j \<in> set ?js" "in_flight (j_state j)" for j
    using that ended terminal_not_in_flight by (fastforce simp: set_sql_update split: if_splits)
  have agree: "leases_agree (s\<lparr>jobs := ?js, leases := ?ls\<rparr>)"
    unfolding leases_agree_def
  proof (intro ballI impI)
    fix l assume "l \<in> set (leases (s\<lparr>jobs := ?js, leases := ?ls\<rparr>))" "live l"
    then have l: "l \<in> set (leases s)" "live l" "l_job_id l \<noteq> job" using still by auto
    then obtain j where "j \<in> set (jobs s)" "j_id j = l_job_id l" "in_flight (j_state j)"
      "j_device_id j = l_device_id l" using assms(1) by (auto simp: core_ok_def leases_agree_def)
    moreover from this l only have "j \<in> set ?js" by (auto simp: set_sql_update image_iff)
    ultimately show "\<exists>j \<in> set (jobs (s\<lparr>jobs := ?js, leases := ?ls\<rparr>)).
        j_id j = l_job_id l \<and> in_flight (j_state j) \<and> j_device_id j = l_device_id l" by auto
  qed
  have leased: "jobs_leased (s\<lparr>jobs := ?js, leases := ?ls\<rparr>)"
    unfolding jobs_leased_def
  proof (intro ballI impI)
    fix j assume "j \<in> set (jobs (s\<lparr>jobs := ?js, leases := ?ls\<rparr>))" "in_flight (j_state j)"
    then have j: "j \<in> set (jobs s)" "\<not> P j" "in_flight (j_state j)" using fl by auto
    have "j_id j \<noteq> job" using all j by blast
    obtain l d where l: "l \<in> set (leases s)" "live l" "l_job_id l = j_id j"
      "l_device_id l = j_device_id j" and d: "d \<in> set (devices s)" "d_id d = j_device_id j"
      "d_worker_id d = j_worker_id j"
      using j assms(1) unfolding core_ok_def jobs_leased_def by blast
    have "l \<in> set ?ls" using still [of l] l \<open>j_id j \<noteq> job\<close> by simp
    with l d show "(\<exists>l \<in> set (leases (s\<lparr>jobs := ?js, leases := ?ls\<rparr>)).
          live l \<and> l_job_id l = j_id j \<and> l_device_id l = j_device_id j) \<and>
        (\<exists>d \<in> set (devices (s\<lparr>jobs := ?js, leases := ?ls\<rparr>)).
          d_id d = j_device_id j \<and> d_worker_id d = j_worker_id j)"
      by auto
  qed
  have "jobs_known (s\<lparr>jobs := ?js, leases := ?ls\<rparr>)"
    using assms(1) ended by (auto simp: core_ok_def jobs_known_def ball_sql_update keep)
  moreover have "ready_free (s\<lparr>jobs := ?js, leases := ?ls\<rparr>)"
    using assms(1) still by (auto simp: core_ok_def ready_free_def live_on_iff)
  ultimately show ?thesis
    using agree leased dist ids assms(1)
    by (auto simp: core_ok_def schema_ok_def quarantine_ok_def release_leases_of_def)
qed

lemma busy_leased_end_job:
  assumes "core_ok s" and "busy_leased D s"
    and "\<And>j. j \<in> set (jobs s) \<Longrightarrow> j_id j = job \<Longrightarrow> in_flight (j_state j) \<Longrightarrow> j_device_id j \<in> E"
    and "D \<subseteq> E"
  shows "busy_leased E (release_leases_of job at (s\<lparr>jobs := js\<rparr>))"
  unfolding busy_leased_def
proof (intro ballI impI)
  fix d
  assume d: "d \<in> set (devices (release_leases_of job at (s\<lparr>jobs := js\<rparr>)))"
    "d_state d = DeviceBusy" "d_id d \<notin> E"
  then have "live_on s (d_id d)"
    using assms(2,4) by (auto simp: busy_leased_def release_leases_of_def)
  then obtain l where l: "l \<in> set (leases s)" "l_device_id l = d_id d" "live l"
    by (auto simp: live_on_iff)
  then obtain j where "j \<in> set (jobs s)" "j_id j = l_job_id l" "in_flight (j_state j)"
    "j_device_id j = d_id d" using assms(1) by (auto simp: core_ok_def leases_agree_def)
  then have "l_job_id l \<noteq> job" using assms(3) d(3) by metis
  with l show "live_on (release_leases_of job at (s\<lparr>jobs := js\<rparr>)) (d_id d)"
    by (force simp: live_on_iff release_leases_of_def set_sql_update)
qed

end
