(* ===== verification/Store_Jobs.thy ===== *)
theory Store_Jobs
  imports Store_DB
begin

text \<open>
  Job rows and the moments a device changes hands
  (\<open>src/internal/store/allocate.go\<close>): \<open>Allocate\<close>, \<open>Release\<close>, \<open>Job\<close>,
  \<open>assignQueued\<close> and \<open>MarkRunning\<close>. Each is one transaction: a result is the new
  database, an error leaves the old one. The identifiers \<open>uuid.NewString\<close> draws are
  arguments.
\<close>

section \<open>Reading a job\<close>

definition get_job :: "string \<Rightarrow> db \<Rightarrow> job_row result" where
  "get_job job s =
     (case sql_row (\<lambda>j. j_id j = job) (jobs s) of None \<Rightarrow> Inl ErrNoRows | Some j \<Rightarrow> Inr j)"

text \<open>The pointer fields of \<open>model.Job\<close>: absent for NULL, and \<open>QueuedAt\<close> for 0.\<close>

definition job_queued_at :: "job_row \<Rightarrow> time option" where
  "job_queued_at j = (if 0 < j_queued_at j then Some (from_unix (j_queued_at j)) else None)"

definition job_started_at :: "job_row \<Rightarrow> time option" where
  "job_started_at j = map_option from_unix (j_started_at j)"

definition job_finished_at :: "job_row \<Rightarrow> time option" where
  "job_finished_at j = map_option from_unix (j_finished_at j)"

section \<open>Allocate\<close>

abbreviation default_lease_ttl :: duration where
  "default_lease_ttl \<equiv> 5 * 60 * go_second"

abbreviation lease_grace_over_runtime :: duration where
  "lease_grace_over_runtime \<equiv> 10 * 60 * go_second"

record allocate_request =
  ar_device_id :: string
  ar_command :: "string list"
  ar_cwd :: string
  ar_env :: "string \<rightharpoonup> string"
  ar_submitter :: string
  ar_idempotency_key :: string
  ar_lease_ttl :: duration

definition mark_busy :: "string \<Rightarrow> db \<Rightarrow> db" where
  "mark_busy dev s =
     s\<lparr>devices := sql_update (\<lambda>d. d_id d = dev \<and> d_state d = DeviceReady)
                    (\<lambda>d. d\<lparr>d_state := DeviceBusy\<rparr>) (devices s)\<rparr>"

text \<open>The columns \<open>Allocate\<close> does not name take the defaults of the schema.\<close>

definition allocated_job :: "string \<Rightarrow> device_row \<Rightarrow> allocate_request \<Rightarrow> time \<Rightarrow> job_row" where
  "allocated_job job_id d req now =
     \<lparr>j_id = job_id, j_selector = '''', j_command = ar_command req, j_cwd = ar_cwd req,
      j_env = ar_env req, j_submitter = ar_submitter req,
      j_idempotency_key =
        (if ar_idempotency_key req \<noteq> '''' then Some (ar_idempotency_key req) else None),
      j_state = JobAssigned, j_device_id = d_id d, j_worker_id = d_worker_id d,
      j_exit_code = None, j_kill_reason = '''', j_submitted_at = unix now,
      j_started_at = None, j_finished_at = None, j_priority = 0, j_max_runtime = 0,
      j_idle_timeout = 0, j_queued_at = 0, j_kind = LeaseKindJob, j_reason = '''',
      j_stdio = '''', j_kill_requested = False, j_kill_delivered_at = 0\<rparr>"

definition allocated_lease :: "string \<Rightarrow> string \<Rightarrow> string \<Rightarrow> string \<Rightarrow> time \<Rightarrow> duration \<Rightarrow> lease_row" where
  "allocated_lease lease_id dev holder job_id now ttl =
     \<lparr>l_id = lease_id, l_device_id = dev, l_holder = holder, l_job_id = job_id,
      l_acquired_at = unix now, l_expires_at = unix (now + ttl), l_released_at = None,
      l_kind = LeaseKindJob, l_reason = ''''\<rparr>"

definition allocate ::
  "string \<Rightarrow> string \<Rightarrow> allocate_request \<Rightarrow> time \<Rightarrow> db \<Rightarrow> (db \<times> job_row) result" where
  "allocate job_id lease_id req now s =
     (if ar_command req = [] then Inl (ErrText ''command required'')
      else
        let ttl = (if ar_lease_ttl req \<le> 0 then default_lease_ttl else ar_lease_ttl req);
            existing = (if ar_idempotency_key req = '''' then None
                        else sql_row (\<lambda>j. j_idempotency_key j = Some (ar_idempotency_key req)) (jobs s))
        in case existing of
             Some j \<Rightarrow> Inr (s, j)
           | None \<Rightarrow>
               (case sql_row (\<lambda>d. d_id d = ar_device_id req \<and> d_state d = DeviceReady) (devices s) of
                  None \<Rightarrow> Inl ErrNoDevice
                | Some d \<Rightarrow>
                    (let j = allocated_job job_id d req now
                     in case insert_job j (mark_busy (d_id d) s) of
                          Inl e \<Rightarrow> Inl e
                        | Inr s2 \<Rightarrow>
                            (case insert_lease (allocated_lease lease_id (d_id d) (ar_submitter req)
                                                  job_id now ttl) s2 of
                               Inl e \<Rightarrow> Inl e
                             | Inr s3 \<Rightarrow> Inr (s3, j\<lparr>j_kind := ''''\<rparr>)))))"

section \<open>Release\<close>

text \<open>Only a busy device returns to ready.\<close>

definition free_device :: "string \<Rightarrow> db \<Rightarrow> db" where
  "free_device dev s =
     s\<lparr>devices := sql_update (\<lambda>d. d_id d = dev \<and> d_state d = DeviceBusy)
                    (\<lambda>d. d\<lparr>d_state := DeviceReady\<rparr>) (devices s)\<rparr>"

definition finish_job :: "job_state \<Rightarrow> int option \<Rightarrow> string \<Rightarrow> int \<Rightarrow> job_row \<Rightarrow> job_row" where
  "finish_job st code reason at j =
     j\<lparr>j_state := st, j_exit_code := code, j_kill_reason := reason, j_finished_at := Some at\<rparr>"

definition release ::
  "string \<Rightarrow> job_state \<Rightarrow> int option \<Rightarrow> string \<Rightarrow> time \<Rightarrow> db \<Rightarrow> db result" where
  "release job st code reason now s =
     (if \<not> terminal st then Inl (ErrText ''release requires a terminal state'')
      else
        (case sql_row (\<lambda>j. j_id j = job) (jobs s) of
           None \<Rightarrow> Inl ErrNoRows
         | Some j \<Rightarrow>
             (if terminal (j_state j) then Inr s
              else
                (let s1 = s\<lparr>jobs := sql_update (\<lambda>j. j_id j = job)
                                      (finish_job st code reason (unix now)) (jobs s)\<rparr>
                 in Inr (free_device (j_device_id j) (release_leases_of job (unix now) s1))))))"

section \<open>assignQueued\<close>

text \<open>The runtime a job gets on the device: its own, or the device's ceiling.\<close>

definition landing_runtime :: "job_row \<Rightarrow> device_row \<Rightarrow> int" where
  "landing_runtime j d =
     (if j_max_runtime j = 0 \<and> 0 < d_max_runtime d then d_max_runtime d else j_max_runtime j)"

definition lease_expiry :: "int \<Rightarrow> time \<Rightarrow> time" where
  "lease_expiry ttl now =
     (if 0 < ttl then now + wrap64 (seconds_dur ttl + lease_grace_over_runtime)
      else now + default_lease_ttl)"

definition assign_row :: "device_row \<Rightarrow> int \<Rightarrow> job_row \<Rightarrow> job_row" where
  "assign_row d ttl j =
     j\<lparr>j_state := JobAssigned, j_device_id := d_id d, j_worker_id := d_worker_id d,
       j_max_runtime := ttl\<rparr>"

definition granted_lease :: "string \<Rightarrow> device_row \<Rightarrow> job_row \<Rightarrow> time \<Rightarrow> lease_row" where
  "granted_lease lease_id d j now =
     \<lparr>l_id = lease_id, l_device_id = d_id d, l_holder = j_submitter j, l_job_id = j_id j,
      l_acquired_at = unix now, l_expires_at = unix (lease_expiry (landing_runtime j d) now),
      l_released_at = None, l_kind = j_kind j, l_reason = j_reason j\<rparr>"

definition assign_queued :: "string \<Rightarrow> string \<Rightarrow> string \<Rightarrow> time \<Rightarrow> db \<Rightarrow> (db \<times> job_row) result" where
  "assign_queued lease_id job dev now s =
     (case sql_row (\<lambda>d. d_id d = dev \<and> d_state d = DeviceReady) (devices s) of
        None \<Rightarrow> Inl ErrNoDevice
      | Some d \<Rightarrow>
          (case sql_row (\<lambda>j. j_id j = job \<and> j_state j = JobQueued) (jobs s) of
             None \<Rightarrow> Inl ErrJobNoLongerQueued
           | Some j \<Rightarrow>
               (let s1 = mark_busy dev s;
                    s2 = s1\<lparr>jobs := sql_update (\<lambda>j. j_id j = job)
                                       (assign_row d (landing_runtime j d)) (jobs s1)\<rparr>
                in case insert_lease (granted_lease lease_id d j now) s2 of
                     Inl e \<Rightarrow> Inl e
                   | Inr s3 \<Rightarrow>
                       (let s4 = s3\<lparr>reservations :=
                                     sql_delete (\<lambda>r. rv_device_id r = dev) (reservations s3)\<rparr>
                        in case get_job job s4 of Inl e \<Rightarrow> Inl e | Inr j' \<Rightarrow> Inr (s4, j')))))"

section \<open>MarkRunning\<close>

definition mark_running :: "string \<Rightarrow> time \<Rightarrow> db \<Rightarrow> db" where
  "mark_running job at s =
     s\<lparr>jobs := sql_update (\<lambda>j. j_id j = job \<and> j_state j = JobAssigned)
                 (\<lambda>j. j\<lparr>j_state := JobRunning, j_started_at := Some (unix at)\<rparr>) (jobs s)\<rparr>"

section \<open>The invariant\<close>

lemma get_job_Inr:
  assumes "core_ok s" and "j \<in> set (jobs s)"
  shows "get_job (j_id j) s = Inr j"
  using job_table.find_unique [of s j] assms by (simp add: get_job_def core_ok_def schema_ok_def)

lemma get_job_SomeD: "get_job job s = Inr j \<Longrightarrow> j \<in> set (jobs s) \<and> j_id j = job"
  by (auto simp: get_job_def dest: sql_row_Some split: option.splits)

lemma job_unique:
  "core_ok s \<Longrightarrow> j \<in> set (jobs s) \<Longrightarrow> j' \<in> set (jobs s) \<Longrightarrow> j_id j = j_id j' \<Longrightarrow> j = j'"
  by (rule job_table.key_inj [of s]) (simp_all add: core_ok_def schema_ok_def)

lemma device_unique:
  "core_ok s \<Longrightarrow> d \<in> set (devices s) \<Longrightarrow> d' \<in> set (devices s) \<Longrightarrow> d_id d = d_id d' \<Longrightarrow> d = d'"
  by (rule device_table.key_inj [of s]) (simp_all add: core_ok_def schema_ok_def)

text \<open>Once a job's leases are released, its device carries no live lease.\<close>

lemma released_device_free:
  assumes "core_ok s" and "j \<in> set (jobs s)" and "in_flight (j_state j)"
  shows "\<not> live_on (release_leases_of (j_id j) at (s\<lparr>jobs := js\<rparr>)) (j_device_id j)"
proof
  assume "live_on (release_leases_of (j_id j) at (s\<lparr>jobs := js\<rparr>)) (j_device_id j)"
  then obtain l where l: "l \<in> set (leases s)" "live l" "l_device_id l = j_device_id j"
    "l_job_id l \<noteq> j_id j"
    by (fastforce simp: live_on_iff release_leases_of_def live_def elim!: sql_updateE)
  obtain l' where l': "l' \<in> set (leases s)" "live l'" "l_job_id l' = j_id j"
    "l_device_id l' = j_device_id j"
    using assms by (auto simp: core_ok_def jobs_leased_def)
  have "l = l'" using live_device_inj [OF assms(1)] l l' by metis
  with l l' show False by simp
qed

lemma core_ok_free_device:
  "core_ok s \<Longrightarrow> \<not> live_on s dev \<Longrightarrow> core_ok (free_device dev s)"
  unfolding free_device_def
  by (rule core_ok_devices) (auto simp: core_ok_def quarantine_ok_def)

lemma busy_leased_free_device:
  "busy_leased (insert dev D) s \<Longrightarrow> dev \<notin> D \<Longrightarrow> busy_leased D (free_device dev s)"
  unfolding free_device_def by (erule busy_leased_devices) auto

text \<open>\<open>Release\<close> is only sound on a job some worker owns: a queued job names the device
  another job may hold.\<close>

lemma release_db_ok:
  assumes ok: "db_ok s" and rel: "release job st code reason now s = Inr s'"
    and owned: "\<And>j. j \<in> set (jobs s) \<Longrightarrow> j_id j = job \<Longrightarrow> j_worker_id j \<noteq> ''''"
  shows "db_ok s'"
proof -
  have core: "core_ok s" and busy: "busy_leased {} s" using ok by (auto simp: db_ok_def)
  have ended: "terminal st" using rel by (auto simp: release_def split: if_splits)
  obtain j where row: "sql_row (\<lambda>j. j_id j = job) (jobs s) = Some j"
    using rel by (auto simp: release_def split: if_splits option.splits)
  then have j: "j \<in> set (jobs s)" "j_id j = job" by (auto dest: sql_row_Some)
  show ?thesis
  proof (cases "terminal (j_state j)")
    case True
    with rel row ok show ?thesis by (auto simp: release_def split: if_splits)
  next
    case False
    let ?s1 = "s\<lparr>jobs := sql_update (\<lambda>j. j_id j = job) (finish_job st code reason (unix now)) (jobs s)\<rparr>"
    let ?s2 = "release_leases_of job (unix now) ?s1"
    have s': "s' = free_device (j_device_id j) ?s2"
      using rel row False by (auto simp: release_def Let_def split: if_splits)
    have flight: "in_flight (j_state j)"
      using core owned [OF j] j False by (auto simp: core_ok_def jobs_known_def)
    have "core_ok ?s2"
      by (rule core_ok_end_job) (use core ended in \<open>auto simp: finish_job_def\<close>)
    moreover have "\<not> live_on ?s2 (j_device_id j)"
      using released_device_free [OF core j(1) flight] j(2) by simp
    moreover have "busy_leased {j_device_id j} ?s2"
      by (rule busy_leased_end_job [OF core busy]) (use core j job_unique in auto)
    ultimately show ?thesis
      unfolding s' db_ok_def by (simp add: core_ok_free_device busy_leased_free_device)
  qed
qed

lemma mark_running_db_ok: "db_ok s \<Longrightarrow> db_ok (mark_running job at s)"
  unfolding mark_running_def db_ok_def by (auto intro!: core_ok_jobs)

text \<open>
  Handing a ready device to a queued job. The lease row is appended, so the device
  is busy and leased, and the job is in flight on it.
\<close>

lemma hand_out_db_ok:
  assumes ok: "db_ok s"
    and d: "d \<in> set (devices s)" "d_id d = dev" "d_state d = DeviceReady"
    and j: "j \<in> set (jobs s)" "j_id j = job" "j_state j = JobQueued"
    and l: "l_job_id l = job" "l_device_id l = dev" "live l"
    and ins: "insert_lease l ((mark_busy dev s)\<lparr>jobs :=
        sql_update (\<lambda>j. j_id j = job) (assign_row d ttl) (jobs (mark_busy dev s))\<rparr>) = Inr s3"
  shows "db_ok s3"
proof -
  let ?js = "sql_update (\<lambda>j. j_id j = job) (assign_row d ttl) (jobs s)"
  let ?ds = "sql_update (\<lambda>d. d_id d = dev \<and> d_state d = DeviceReady) (\<lambda>d. d\<lparr>d_state := DeviceBusy\<rparr>) (devices s)"
  have core: "core_ok s" and busy: "busy_leased {} s" using ok by (auto simp: db_ok_def)
  have free: "\<not> live_on s dev" using core d by (auto simp: core_ok_def ready_free_def)
  have fresh: "\<not> (\<exists>l' \<in> set (leases s). l_id l' = l_id l)"
    and s3: "s3 = s\<lparr>devices := ?ds, jobs := ?js, leases := leases s @ [l]\<rparr>"
    using ins by (auto simp: insert_lease_def mark_busy_def sql_exists_iff split: if_splits)
  have lon: "live_on s3 x \<longleftrightarrow> live_on s x \<or> x = dev" for x
    using l by (auto simp: live_on_iff s3)
  have dev3: "devices s3 = ?ds" by (simp add: s3)
  have ids: "map j_id ?js = map j_id (jobs s)" "map d_id ?ds = map d_id (devices s)"
    by (auto intro!: map_key_sql_update simp: assign_row_def)
  have dist: "distinct (map l_device_id (filter live (leases s @ [l])))"
    using core free l by (auto simp: core_ok_def schema_ok_def live_on_iff)
  have jj: "j' = assign_row d ttl j \<or> (j' \<in> set (jobs s) \<and> j_id j' \<noteq> job)" if "j' \<in> set ?js" for j'
    using that j job_unique [OF core] by (elim sql_updateE) auto
  have jin: "assign_row d ttl j \<in> set ?js"
    using sql_update_mem [OF j(1), of "\<lambda>j. j_id j = job" "assign_row d ttl"] j(2) by simp
  have keepj: "j' \<in> set ?js" if "j' \<in> set (jobs s)" "j_id j' \<noteq> job" for j'
    using sql_update_mem [OF that(1), of "\<lambda>j. j_id j = job" "assign_row d ttl"] that(2) by simp
  have "leases_agree s3"
    unfolding leases_agree_def
  proof (intro ballI impI)
    fix l' assume l': "l' \<in> set (leases s3)" "live l'"
    show "\<exists>j \<in> set (jobs s3). j_id j = l_job_id l' \<and> in_flight (j_state j) \<and> j_device_id j = l_device_id l'"
    proof (cases "l' = l")
      case True
      then show ?thesis using jin l d j by (intro bexI [of _ "assign_row d ttl j"]) (auto simp: assign_row_def s3)
    next
      case False
      then obtain j' where j': "j' \<in> set (jobs s)" "j_id j' = l_job_id l'" "in_flight (j_state j')"
        "j_device_id j' = l_device_id l'"
        using l' core by (auto simp: s3 core_ok_def leases_agree_def)
      then have "j_id j' \<noteq> job" using j job_unique [OF core, of j j'] by auto
      with j' keepj show ?thesis by (auto simp: s3)
    qed
  qed
  moreover have "jobs_leased s3"
    unfolding jobs_leased_def
  proof (intro ballI impI)
    fix j' assume "j' \<in> set (jobs s3)" and fl: "in_flight (j_state j')"
    then have j': "j' \<in> set ?js" by (simp add: s3)
    have dx: "\<exists>x' \<in> set ?ds. d_id x' = d_id x \<and> d_worker_id x' = d_worker_id x" if "x \<in> set (devices s)" for x
      unfolding bex_sql_update using that by (intro bexI [of _ x]) simp_all
    show "(\<exists>l \<in> set (leases s3). live l \<and> l_job_id l = j_id j' \<and> l_device_id l = j_device_id j') \<and>
      (\<exists>d \<in> set (devices s3). d_id d = j_device_id j' \<and> d_worker_id d = j_worker_id j')"
    proof (cases "j' = assign_row d ttl j")
      case True
      then show ?thesis using l d j dx [OF d(1)] by (auto simp: s3 assign_row_def)
    next
      case False
      with jj [OF j'] have "j' \<in> set (jobs s)" by simp
      then obtain l' x where "l' \<in> set (leases s)" "live l'" "l_job_id l' = j_id j'"
        "l_device_id l' = j_device_id j'" "x \<in> set (devices s)" "d_id x = j_device_id j'"
        "d_worker_id x = j_worker_id j'"
        using fl core unfolding core_ok_def jobs_leased_def by blast
      with dx [of x] show ?thesis by (auto simp: s3)
    qed
  qed
  moreover have "jobs_known s3"
    unfolding jobs_known_def
  proof
    fix j' assume "j' \<in> set (jobs s3)"
    then have "j' = assign_row d ttl j \<or> j' \<in> set (jobs s)" using jj by (auto simp: s3)
    then show "j_id j' \<noteq> '''' \<and> (j_state j' = JobQueued \<and> j_worker_id j' = ''''
        \<or> in_flight (j_state j') \<or> terminal (j_state j'))"
      using core j(1) by (auto simp: core_ok_def jobs_known_def assign_row_def)
  qed
  moreover have "ready_free s3"
    using core by (auto simp: ready_free_def lon core_ok_def dev3 elim!: sql_updateE)
  moreover have "quarantine_ok s3"
    using core d by (fastforce simp: quarantine_ok_def core_ok_def s3 elim!: sql_updateE)
  moreover have "busy_leased {} s3"
    using busy by (auto simp: busy_leased_def lon dev3 elim!: sql_updateE)
  moreover have "schema_ok s3"
    using core ids dist fresh by (auto simp: core_ok_def schema_ok_def s3)
  ultimately show ?thesis by (simp add: db_ok_def core_ok_def)
qed

lemma assign_queued_Inr:
  assumes "assign_queued lease_id job dev now s = Inr (s', j')"
  obtains d j s3 where
    "d \<in> set (devices s)" "d_id d = dev" "d_state d = DeviceReady"
    "j \<in> set (jobs s)" "j_id j = job" "j_state j = JobQueued"
    "insert_lease (granted_lease lease_id d j now) ((mark_busy dev s)\<lparr>jobs :=
        sql_update (\<lambda>j. j_id j = job) (assign_row d (landing_runtime j d)) (jobs (mark_busy dev s))\<rparr>) = Inr s3"
    "s' = s3\<lparr>reservations := sql_delete (\<lambda>r. rv_device_id r = dev) (reservations s3)\<rparr>"
    "get_job job s' = Inr j'"
  using assms
  by (auto simp: assign_queued_def Let_def dest!: sql_row_Some split: option.splits sum.splits)

lemma assign_queued_db_ok:
  assumes "db_ok s" and "assign_queued lease_id job dev now s = Inr (s', j')"
  shows "db_ok s'"
  using assms(2)
proof (rule assign_queued_Inr)
  fix d j s3
  assume a: "d \<in> set (devices s)" "d_id d = dev" "d_state d = DeviceReady"
    "j \<in> set (jobs s)" "j_id j = job" "j_state j = JobQueued"
    "insert_lease (granted_lease lease_id d j now) ((mark_busy dev s)\<lparr>jobs :=
        sql_update (\<lambda>j. j_id j = job) (assign_row d (landing_runtime j d)) (jobs (mark_busy dev s))\<rparr>) = Inr s3"
    and s': "s' = s3\<lparr>reservations := sql_delete (\<lambda>r. rv_device_id r = dev) (reservations s3)\<rparr>"
  have "db_ok s3"
    by (rule hand_out_db_ok [OF assms(1) a(1-6) _ _ _ a(7)])
       (use a in \<open>simp_all add: granted_lease_def live_def\<close>)
  with s' show ?thesis by (simp add: db_ok_def)
qed

end
