(* ===== verification/Store_Workers.thy ===== *)
theory Store_Workers
  imports Store_Jobs
begin

text \<open>
  Workers and devices in the store (\<open>src/internal/store/store.go\<close>): registration
  (\<open>UpsertWorker\<close> with its reconciliation of in-flight jobs and the restoration of
  rebooted devices), a host's own fault report (\<open>SetDeviceState\<close>), and the reads.
\<close>

section \<open>Registration\<close>

text \<open>\<open>model.Worker\<close> and the fields of \<open>model.Device\<close> registration writes.\<close>

record worker_info =
  wi_id :: string
  wi_host :: string
  wi_boot_id :: string
  wi_last_heartbeat :: time

record device_info =
  di_id :: string
  di_host :: string
  di_name :: string
  di_state :: device_state

definition lose_job :: "string \<Rightarrow> int \<Rightarrow> string \<Rightarrow> db \<Rightarrow> db" where
  "lose_job reason at job s =
     release_leases_of job at
       (s\<lparr>jobs := sql_update (\<lambda>j. j_id j = job)
                    (\<lambda>j. j\<lparr>j_state := JobLost, j_kill_reason := reason, j_finished_at := Some at\<rparr>)
                    (jobs s)\<rparr>)"

definition to_ready :: "device_row \<Rightarrow> device_row" where
  "to_ready d = d\<lparr>d_state := DeviceReady, d_quarantine := QuarNone, d_detail := ''''\<rparr>"

text \<open>An existing quarantine keeps its own reason.\<close>

definition quarantine_with :: "quarantine \<Rightarrow> device_row \<Rightarrow> device_row" where
  "quarantine_with q d =
     d\<lparr>d_state := DeviceUnhealthy,
       d_quarantine := (if d_state d = DeviceUnhealthy then d_quarantine d else q)\<rparr>"

definition reap_job :: "string \<Rightarrow> int \<Rightarrow> bool \<Rightarrow> string \<times> string \<Rightarrow> db \<Rightarrow> db" where
  "reap_job reason at rebooted jd s =
     (let s2 = lose_job reason at (fst jd) s
      in if rebooted then
           s2\<lparr>devices := sql_update
                (\<lambda>d. d_id d = snd jd \<and> (d_state d = DeviceBusy \<or> d_state d = DeviceUnknown))
                to_ready (devices s2)\<rparr>
         else
           s2\<lparr>devices := sql_update (\<lambda>d. d_id d = snd jd) (quarantine_with QuarRegistration)
                (devices s2)\<rparr>)"

definition in_flight_of :: "string \<Rightarrow> db \<Rightarrow> (string \<times> string) list" where
  "in_flight_of worker s =
     map (\<lambda>j. (j_id j, j_device_id j))
       (filter (\<lambda>j. j_worker_id j = worker \<and> in_flight (j_state j)) (jobs s))"

definition reap_in_flight :: "string \<Rightarrow> int \<Rightarrow> string \<Rightarrow> bool \<Rightarrow> db \<Rightarrow> db" where
  "reap_in_flight worker at reason rebooted s =
     fold (reap_job reason at rebooted) (in_flight_of worker s) s"

definition restore_rebooted :: "string \<Rightarrow> db \<Rightarrow> db" where
  "restore_rebooted worker s =
     s\<lparr>devices := sql_update
         (\<lambda>d. d_worker_id d = worker \<and> d_state d = DeviceUnhealthy
              \<and> reboot_clearable (d_quarantine d) \<and> \<not> live_on s (d_id d))
         to_ready (devices s)\<rparr>"

definition declared_state :: "device_info \<Rightarrow> device_state" where
  "declared_state di = (if di_state di = DeviceStateOther '''' then DeviceReady else di_state di)"

definition redeclare :: "worker_info \<Rightarrow> device_info \<Rightarrow> device_row \<Rightarrow> device_row" where
  "redeclare w di d =
     d\<lparr>d_worker_id := wi_id w, d_heartbeat := unix (wi_last_heartbeat w),
       d_state := (if d_state d = DeviceUnhealthy then d_state d else declared_state di),
       d_quarantine := (if d_state d = DeviceUnhealthy then d_quarantine d else QuarNone)\<rparr>"

definition declared_row :: "worker_info \<Rightarrow> device_info \<Rightarrow> device_row" where
  "declared_row w di =
     \<lparr>d_id = di_id di, d_host = di_host di, d_name = di_name di, d_worker_id = wi_id w,
      d_state = declared_state di, d_heartbeat = unix (wi_last_heartbeat w),
      d_max_runtime = 0, d_quarantine = QuarNone, d_detail = ''''\<rparr>"

definition upsert_device :: "worker_info \<Rightarrow> device_info \<Rightarrow> db \<Rightarrow> db" where
  "upsert_device w di s =
     s\<lparr>devices := sql_upsert (\<lambda>d. d_id d = di_id di) (redeclare w di) (declared_row w di) (devices s)\<rparr>"

definition is_reboot :: "worker_info \<Rightarrow> db \<Rightarrow> bool" where
  "is_reboot w s =
     (case sql_row (\<lambda>r. w_id r = wi_id w) (workers s) of
        None \<Rightarrow> False
      | Some r \<Rightarrow> w_boot_id r \<noteq> '''' \<and> wi_boot_id w \<noteq> '''' \<and> w_boot_id r \<noteq> wi_boot_id w)"

definition upsert_worker_row :: "worker_info \<Rightarrow> db \<Rightarrow> db" where
  "upsert_worker_row w s =
     s\<lparr>workers := sql_upsert (\<lambda>r. w_id r = wi_id w)
         (\<lambda>r. r\<lparr>w_host := wi_host w, w_boot_id := wi_boot_id w,
                w_heartbeat := unix (wi_last_heartbeat w)\<rparr>)
         \<lparr>w_id = wi_id w, w_host = wi_host w, w_boot_id = wi_boot_id w,
          w_heartbeat = unix (wi_last_heartbeat w)\<rparr> (workers s)\<rparr>"

definition upsert_worker :: "worker_info \<Rightarrow> device_info list \<Rightarrow> db \<Rightarrow> db" where
  "upsert_worker w dis s =
     (let rebooted = is_reboot w s;
          reason = (if rebooted then ''host rebooted'' else ''worker re-registered'');
          s1 = reap_in_flight (wi_id w) (unix (wi_last_heartbeat w)) reason rebooted
                 (upsert_worker_row w s);
          s2 = (if rebooted then restore_rebooted (wi_id w) s1 else s1)
      in fold (upsert_device w) dis s2)"

section \<open>A host's own report\<close>

definition set_device_state ::
  "string \<Rightarrow> device_state \<Rightarrow> time \<Rightarrow> string \<Rightarrow> db \<Rightarrow> db result" where
  "set_device_state dev st at detail s =
     (let q = (if st = DeviceUnhealthy then QuarFault else QuarNone);
          dt = (if st = DeviceUnhealthy then detail else '''')
      in if sql_count (\<lambda>d. d_id d = dev) (devices s) = 0 then Inl (ErrDeviceNotFound dev)
         else Inr (s\<lparr>devices := sql_update (\<lambda>d. d_id d = dev)
                (\<lambda>d. d\<lparr>d_state := st, d_quarantine := q, d_detail := dt, d_heartbeat := unix at\<rparr>)
                (devices s)\<rparr>))"

section \<open>Reads\<close>

definition worker_host :: "string \<Rightarrow> db \<Rightarrow> string result" where
  "worker_host worker s =
     (case sql_row (\<lambda>r. w_id r = worker) (workers s) of
        None \<Rightarrow> Inl (ErrWorkerNotFound worker) | Some r \<Rightarrow> Inr (w_host r))"

definition all_devices :: "db \<Rightarrow> device_row list" where
  "all_devices s = sort_key d_id (devices s)"

definition live_leases :: "db \<Rightarrow> lease_row list" where
  "live_leases s = sort_key l_acquired_at (filter live (leases s))"

record job_filter =
  jf_limit :: int
  jf_device_id :: string
  jf_submitter :: string
  jf_state :: "job_state option"

definition job_filter_accepts :: "job_filter \<Rightarrow> job_row \<Rightarrow> bool" where
  "job_filter_accepts f j \<longleftrightarrow>
     (jf_device_id f \<noteq> '''' \<longrightarrow> j_device_id j = jf_device_id f) \<and>
     (jf_submitter f \<noteq> '''' \<longrightarrow> j_submitter j = jf_submitter f) \<and>
     (case jf_state f of None \<Rightarrow> True | Some st \<Rightarrow> j_state j = st)"

text \<open>\<open>ORDER BY submitted_at DESC, id DESC\<close> is the reverse of the ascending order.\<close>

definition list_jobs :: "job_filter \<Rightarrow> db \<Rightarrow> job_row list result" where
  "list_jobs f s =
     (if jf_limit f < 1 \<or> 200 < jf_limit f
      then Inl (ErrText ''job limit must be between 1 and 200'')
      else Inr (take (nat (jf_limit f))
                  (rev (sort_key (\<lambda>j. (j_submitted_at j, j_id j))
                          (filter (job_filter_accepts f) (jobs s))))))"

definition recent_jobs_for_device :: "string \<Rightarrow> int \<Rightarrow> db \<Rightarrow> job_row list result" where
  "recent_jobs_for_device dev limit s =
     list_jobs \<lparr>jf_limit = limit, jf_device_id = dev, jf_submitter = '''', jf_state = None\<rparr> s"

definition assigned_jobs_for :: "string \<Rightarrow> db \<Rightarrow> job_row list" where
  "assigned_jobs_for worker s =
     sort_key j_submitted_at (filter (\<lambda>j. j_worker_id j = worker \<and> j_state j = JobAssigned) (jobs s))"

text \<open>The newest by \<open>submitted_at\<close>, then by rowid: the last of the stable order.\<close>

definition active_job_on_device :: "string \<Rightarrow> db \<Rightarrow> string" where
  "active_job_on_device dev s =
     (case rev (sort_key j_submitted_at
             (filter (\<lambda>j. j_device_id j = dev \<and> in_flight (j_state j)) (jobs s))) of
        [] \<Rightarrow> '''' | j # _ \<Rightarrow> j_id j)"

definition active_jobs :: "db \<Rightarrow> job_row list" where
  "active_jobs s = sort_key (\<lambda>j. - j_submitted_at j) (filter (\<lambda>j. in_flight (j_state j)) (jobs s))"

section \<open>The invariant\<close>

text \<open>Ending a job as lost leaves the device it stood on to be settled.\<close>

lemma lose_job_core:
  assumes "core_ok s" and "busy_leased D s"
    and "\<And>j. j \<in> set (jobs s) \<Longrightarrow> j_id j = job \<Longrightarrow> in_flight (j_state j) \<Longrightarrow> j_device_id j \<in> E"
    and "D \<subseteq> E"
  shows "core_ok (lose_job reason at job s)" and "busy_leased E (lose_job reason at job s)"
proof -
  show "core_ok (lose_job reason at job s)"
    unfolding lose_job_def by (rule core_ok_end_job [OF assms(1)]) auto
  show "busy_leased E (lose_job reason at job s)"
    unfolding lose_job_def by (rule busy_leased_end_job [OF assms(1,2)]) (use assms in auto)
qed

lemma lose_job_frame [simp]:
  "devices (lose_job reason at job s) = devices s"
  "workers (lose_job reason at job s) = workers s"
  by (simp_all add: lose_job_def release_leases_of_def)

lemma jobs_lose_job:
  "jobs (lose_job reason at job s) = sql_update (\<lambda>j. j_id j = job)
     (\<lambda>j. j\<lparr>j_state := JobLost, j_kill_reason := reason, j_finished_at := Some at\<rparr>) (jobs s)"
  by (simp add: lose_job_def release_leases_of_def)

text \<open>The jobs still in flight after one is lost.\<close>

lemma lose_job_in_flight:
  "j \<in> set (jobs (lose_job reason at job s)) \<and> in_flight (j_state j)
     \<longleftrightarrow> j \<in> set (jobs s) \<and> in_flight (j_state j) \<and> j_id j \<noteq> job"
  unfolding jobs_lose_job set_sql_update by (auto simp: image_iff)

lemma reap_job_jobs [simp]:
  "jobs (reap_job reason at rebooted jd s) = jobs (lose_job reason at (fst jd) s)"
  by (simp add: reap_job_def Let_def)

lemma reap_job_db_ok:
  assumes ok: "db_ok s" and j: "j \<in> set (jobs s)" "in_flight (j_state j)"
  shows "db_ok (reap_job reason at rebooted (j_id j, j_device_id j) s)"
proof -
  let ?s2 = "lose_job reason at (j_id j) s"
  have core: "core_ok s" and busy: "busy_leased {} s" using ok by (auto simp: db_ok_def)
  have dev: "j_device_id j' \<in> {j_device_id j}"
    if "j' \<in> set (jobs s)" "j_id j' = j_id j" "in_flight (j_state j')" for j'
    using that j job_unique [OF core] by auto
  have core2: "core_ok ?s2" and busy2: "busy_leased {j_device_id j} ?s2"
    using lose_job_core [OF core busy dev] by auto
  have free: "\<not> live_on ?s2 (j_device_id j)"
    unfolding lose_job_def using released_device_free [OF core j] by simp
  show ?thesis
  proof (cases rebooted)
    case True
    let ?P = "\<lambda>d. d_id d = j_device_id j \<and> (d_state d = DeviceBusy \<or> d_state d = DeviceUnknown)"
    have "core_ok (?s2\<lparr>devices := sql_update ?P to_ready (devices ?s2)\<rparr>)"
      by (rule core_ok_devices [OF core2]) (use free in \<open>auto simp: to_ready_def\<close>)
    moreover have "busy_leased {} (?s2\<lparr>devices := sql_update ?P to_ready (devices ?s2)\<rparr>)"
      by (rule busy_leased_devices [OF busy2]) (auto simp: to_ready_def)
    ultimately show ?thesis
      using True by (simp add: reap_job_def db_ok_def)
  next
    case False
    let ?P = "\<lambda>d. d_id d = j_device_id j" and ?f = "quarantine_with QuarRegistration"
    have "core_ok (?s2\<lparr>devices := sql_update ?P ?f (devices ?s2)\<rparr>)"
      by (rule core_ok_devices [OF core2]) (auto simp: quarantine_with_def)
    moreover have "busy_leased {} (?s2\<lparr>devices := sql_update ?P ?f (devices ?s2)\<rparr>)"
      by (rule busy_leased_devices [OF busy2]) (auto simp: quarantine_with_def)
    ultimately show ?thesis
      using False by (simp add: reap_job_def db_ok_def)
  qed
qed

lemma fold_reap_db_ok:
  assumes "db_ok s" and "distinct (map j_id js)"
    and "\<forall>j \<in> set js. j \<in> set (jobs s) \<and> in_flight (j_state j)"
  shows "db_ok (fold (reap_job reason at rebooted) (map (\<lambda>j. (j_id j, j_device_id j)) js) s)"
    (is ?ok)
    and "{j \<in> set (jobs (fold (reap_job reason at rebooted) (map (\<lambda>j. (j_id j, j_device_id j)) js) s)).
            in_flight (j_state j)}
       = {j \<in> set (jobs s). in_flight (j_state j) \<and> j_id j \<notin> j_id ` set js}"
proof -
  have "db_ok (fold (reap_job reason at rebooted) (map (\<lambda>j. (j_id j, j_device_id j)) js) s) \<and>
    {j \<in> set (jobs (fold (reap_job reason at rebooted) (map (\<lambda>j. (j_id j, j_device_id j)) js) s)).
            in_flight (j_state j)}
       = {j \<in> set (jobs s). in_flight (j_state j) \<and> j_id j \<notin> j_id ` set js}"
    using assms
  proof (induction js arbitrary: s)
    case (Cons j js)
    let ?s' = "reap_job reason at rebooted (j_id j, j_device_id j) s"
    have fl: "x \<in> set (jobs ?s') \<and> in_flight (j_state x)
        \<longleftrightarrow> x \<in> set (jobs s) \<and> in_flight (j_state x) \<and> j_id x \<noteq> j_id j" for x
      using lose_job_in_flight by simp
    have "db_ok ?s'" using Cons.prems by (intro reap_job_db_ok) auto
    moreover have "x \<in> set (jobs ?s') \<and> in_flight (j_state x)" if "x \<in> set js" for x
    proof -
      have "j_id x \<noteq> j_id j" using Cons.prems(2) that by auto (metis imageI)
      then show ?thesis using Cons.prems(3) that fl [of x] by (metis list.set_intros(2))
    qed
    ultimately have "db_ok (fold (reap_job reason at rebooted) (map (\<lambda>j. (j_id j, j_device_id j)) js) ?s') \<and>
      {j \<in> set (jobs (fold (reap_job reason at rebooted) (map (\<lambda>j. (j_id j, j_device_id j)) js) ?s')).
            in_flight (j_state j)}
       = {x \<in> set (jobs ?s'). in_flight (j_state x) \<and> j_id x \<notin> j_id ` set js}"
      using Cons.prems(2) by (intro Cons.IH) (simp_all del: reap_job_jobs)
    moreover have "{x \<in> set (jobs ?s'). in_flight (j_state x) \<and> j_id x \<notin> j_id ` set js}
      = {x \<in> set (jobs s). in_flight (j_state x) \<and> j_id x \<notin> j_id ` set (j # js)}"
      using fl by (simp del: reap_job_jobs) blast
    ultimately show ?case by (simp del: reap_job_jobs)
  qed simp
  then show ?ok and "{j \<in> set (jobs (fold (reap_job reason at rebooted)
        (map (\<lambda>j. (j_id j, j_device_id j)) js) s)). in_flight (j_state j)}
       = {j \<in> set (jobs s). in_flight (j_state j) \<and> j_id j \<notin> j_id ` set js}"
    by blast+
qed

lemma reap_in_flight_ok:
  assumes "db_ok s"
  shows "db_ok (reap_in_flight worker at reason rebooted s)"
    and "{j \<in> set (jobs (reap_in_flight worker at reason rebooted s)). in_flight (j_state j)}
       = {j \<in> set (jobs s). in_flight (j_state j) \<and> j_worker_id j \<noteq> worker}"
proof -
  let ?js = "filter (\<lambda>j. j_worker_id j = worker \<and> in_flight (j_state j)) (jobs s)"
  have dist: "distinct (map j_id (jobs s))"
    using assms by (simp add: db_ok_def core_ok_def schema_ok_def)
  have "distinct (map j_id ?js)" using dist by (rule distinct_map_filter)
  moreover have "\<forall>j \<in> set ?js. j \<in> set (jobs s) \<and> in_flight (j_state j)" by simp
  ultimately have f:
    "db_ok (reap_in_flight worker at reason rebooted s)"
    "{j \<in> set (jobs (reap_in_flight worker at reason rebooted s)). in_flight (j_state j)}
       = {j \<in> set (jobs s). in_flight (j_state j) \<and> j_id j \<notin> j_id ` set ?js}"
    unfolding reap_in_flight_def in_flight_of_def by (rule fold_reap_db_ok [OF assms])+
  show "db_ok (reap_in_flight worker at reason rebooted s)" by (rule f(1))
  have "{j \<in> set (jobs s). in_flight (j_state j) \<and> j_id j \<notin> j_id ` set ?js}
      = {j \<in> set (jobs s). in_flight (j_state j) \<and> j_worker_id j \<noteq> worker}"
    using dist by (auto simp: distinct_map dest: inj_onD)
  then show "{j \<in> set (jobs (reap_in_flight worker at reason rebooted s)). in_flight (j_state j)}
       = {j \<in> set (jobs s). in_flight (j_state j) \<and> j_worker_id j \<noteq> worker}"
    using f(2) by simp
qed

lemma restore_rebooted_db_ok: "db_ok s \<Longrightarrow> db_ok (restore_rebooted worker s)"
  unfolding restore_rebooted_def db_ok_def
  by (auto intro!: core_ok_devices busy_leased_devices simp: to_ready_def)

lemma upsert_worker_row_db_ok:
  assumes "db_ok s" shows "db_ok (upsert_worker_row w s)"
proof -
  have "distinct (map w_id (workers s))"
    using assms by (simp add: db_ok_def core_ok_def schema_ok_def)
  then have "distinct (map w_id (workers (upsert_worker_row w s)))"
    unfolding upsert_worker_row_def by (simp add: distinct_sql_upsert)
  then show ?thesis
    using assms unfolding upsert_worker_row_def db_ok_def by (simp add: core_ok_workers)
qed

text \<open>
  A registration is orderly when no device it declares is on record under another
  worker, and it declares every device ready, as \<open>handleRegister\<close> does.
\<close>

definition orderly :: "worker_info \<Rightarrow> device_info list \<Rightarrow> db \<Rightarrow> bool" where
  "orderly w dis s \<longleftrightarrow>
     (\<forall>di \<in> set dis. declared_state di = DeviceReady \<and>
        (\<forall>d \<in> set (devices s). d_id d = di_id di \<longrightarrow> d_worker_id d = wi_id w))"

lemma upsert_device_db_ok:
  assumes ok: "db_ok s" and ready: "declared_state di = DeviceReady"
    and own: "\<And>d. d \<in> set (devices s) \<Longrightarrow> d_id d = di_id di \<Longrightarrow> d_worker_id d = wi_id w"
    and free: "\<not> live_on s (di_id di)"
  shows "db_ok (upsert_device w di s)"
proof (cases "sql_exists (\<lambda>d. d_id d = di_id di) (devices s)")
  case True
  have q: "d_detail d = '''' \<and> d_quarantine d = QuarNone"
    if "d \<in> set (devices s)" "d_state d \<noteq> DeviceUnhealthy" for d
    using ok that by (auto simp: db_ok_def core_ok_def quarantine_ok_def)
  have "core_ok s" "busy_leased {} s" using ok by (auto simp: db_ok_def)
  note core = this(1) and busy = this(2)
  have "core_ok (s\<lparr>devices := sql_update (\<lambda>d. d_id d = di_id di) (redeclare w di) (devices s)\<rparr>)"
    by (rule core_ok_devices [OF core])
       (use ready own free q in \<open>auto simp: redeclare_def split: if_splits\<close>)
  moreover have "busy_leased {} (s\<lparr>devices := sql_update (\<lambda>d. d_id d = di_id di) (redeclare w di) (devices s)\<rparr>)"
    by (rule busy_leased_devices [OF busy])
       (use ready in \<open>auto simp: redeclare_def split: if_splits\<close>)
  ultimately show ?thesis using True by (simp add: upsert_device_def sql_upsert_def db_ok_def)
next
  case False
  then have new: "di_id di \<notin> d_id ` set (devices s)" by (auto simp: sql_exists_iff)
  have "jobs_leased (s\<lparr>devices := devices s @ [declared_row w di]\<rparr>)"
    using ok unfolding db_ok_def core_ok_def jobs_leased_def by fastforce
  then show ?thesis
    using ok False new ready free
    by (auto simp: upsert_device_def sql_upsert_def db_ok_def core_defs busy_leased_def
        declared_row_def)
qed

lemma upsert_device_frame:
  "jobs (upsert_device w di s) = jobs s" "leases (upsert_device w di s) = leases s"
  "live_on (upsert_device w di s) x = live_on s x"
  by (simp_all add: upsert_device_def live_on_def)

lemma fold_upsert_device_db_ok:
  assumes "db_ok s" and "orderly w dis s"
    and "\<And>d. d \<in> set (devices s) \<Longrightarrow> d_worker_id d = wi_id w \<Longrightarrow> \<not> live_on s (d_id d)"
    and "\<And>x. x \<notin> d_id ` set (devices s) \<Longrightarrow> \<not> live_on s x"
  shows "db_ok (fold (upsert_device w) dis s)"
  using assms
proof (induction dis arbitrary: s)
  case (Cons di dis)
  have own: "d_worker_id d = wi_id w" if "d \<in> set (devices s)" "d_id d = di_id di" for d
    using Cons.prems(2) that by (auto simp: orderly_def)
  have free: "\<not> live_on s (di_id di)"
    using Cons.prems(3,4) own by (cases "di_id di \<in> d_id ` set (devices s)") auto
  let ?s' = "upsert_device w di s"
  have ds: "d \<in> set (devices s) \<or> (d_id d = di_id di \<and> d_worker_id d = wi_id w)"
    if "d \<in> set (devices ?s')" for d
    using that by (auto simp: upsert_device_def sql_upsert_def declared_row_def redeclare_def
        elim!: sql_updateE split: if_splits)
  have ids: "d_id ` set (devices s) \<subseteq> d_id ` set (devices ?s')"
  proof -
    have "map d_id (sql_update (\<lambda>d. d_id d = di_id di) (redeclare w di) (devices s)) = map d_id (devices s)"
      by (rule map_key_sql_update) (simp add: redeclare_def)
    from arg_cong [OF this, of set] show ?thesis by (auto simp: upsert_device_def sql_upsert_def)
  qed
  have "db_ok ?s'"
    using Cons.prems own free by (intro upsert_device_db_ok) (auto simp: orderly_def)
  moreover have "orderly w dis ?s'"
    using Cons.prems(2) ds by (fastforce simp: orderly_def)
  moreover have "\<not> live_on ?s' (d_id d)" if "d \<in> set (devices ?s')" "d_worker_id d = wi_id w" for d
    using ds [OF that(1)] that(2) Cons.prems(3) free by (auto simp: upsert_device_frame)
  moreover have "\<not> live_on ?s' x" if "x \<notin> d_id ` set (devices ?s')" for x
    using Cons.prems(4) [of x] that ids by (auto simp: upsert_device_frame)
  ultimately have "db_ok (fold (upsert_device w) dis ?s')" by (rule Cons.IH)
  then show ?case by simp
qed simp

text \<open>Which worker owns which device, as the statements before the upserts leave it.\<close>

definition owners :: "db \<Rightarrow> (string \<times> string) list" where
  "owners s = map (\<lambda>d. (d_id d, d_worker_id d)) (devices s)"

lemma owners_reap_in_flight: "owners (reap_in_flight worker at reason reb s) = owners s"
proof -
  have "owners (fold (reap_job reason at reb) jds u) = owners u" for jds u
    by (induction jds arbitrary: u)
       (auto simp: owners_def reap_job_def Let_def to_ready_def quarantine_with_def map_key_sql_update)
  then show ?thesis by (simp add: reap_in_flight_def)
qed

lemma owners_other:
  "owners (restore_rebooted worker s) = owners s"
  "owners (upsert_worker_row w s) = owners s"
  by (simp_all add: owners_def restore_rebooted_def upsert_worker_row_def to_ready_def map_key_sql_update)

lemma upsert_worker_db_ok:
  assumes ok: "db_ok s" and ord: "orderly w dis s"
  shows "db_ok (upsert_worker w dis s)"
proof -
  define reb where "reb = is_reboot w s"
  define reason where "reason = (if reb then ''host rebooted'' else ''worker re-registered'')"
  define s0 where "s0 = upsert_worker_row w s"
  define s1 where "s1 = reap_in_flight (wi_id w) (unix (wi_last_heartbeat w)) reason reb s0"
  define s2 where "s2 = (if reb then restore_rebooted (wi_id w) s1 else s1)"
  have ok0: "db_ok s0" unfolding s0_def by (rule upsert_worker_row_db_ok [OF ok])
  have ok1: "db_ok s1" unfolding s1_def by (rule reap_in_flight_ok(1) [OF ok0])
  have ok2: "db_ok s2" unfolding s2_def using ok1 restore_rebooted_db_ok by auto
  have gone: "j_worker_id j \<noteq> wi_id w" if "j \<in> set (jobs s1)" "in_flight (j_state j)" for j
    using that reap_in_flight_ok(2) [OF ok0, of "wi_id w" "unix (wi_last_heartbeat w)" reason reb]
    by (auto simp: s1_def)
  have jobs2: "jobs s2 = jobs s1" by (simp add: s2_def restore_rebooted_def)
  have core2: "core_ok s2" using ok2 by (simp add: db_ok_def)
  have leased: "\<exists>d \<in> set (devices s2). d_id d = j_device_id j \<and> d_worker_id d = j_worker_id j"
    if "j \<in> set (jobs s2)" "in_flight (j_state j)" for j
    using core2 that by (auto simp: core_ok_def jobs_leased_def)
  have free: "\<not> live_on s2 (d_id d)" if "d \<in> set (devices s2)" "d_worker_id d = wi_id w" for d
    using that gone leased jobs2 device_unique [OF core2]
    by (intro no_flight_not_live [OF core2]) metis
  have absent: "\<not> live_on s2 x" if "x \<notin> d_id ` set (devices s2)" for x
    using that leased by (intro no_flight_not_live [OF core2]) force
  have same: "owners s2 = owners s"
    by (simp add: s2_def s1_def s0_def owners_reap_in_flight owners_other)
  have "orderly w dis s2"
  proof -
    have "(\<lambda>d. (d_id d, d_worker_id d)) ` set (devices s2) = (\<lambda>d. (d_id d, d_worker_id d)) ` set (devices s)"
      using arg_cong [OF same, of set] by (simp add: owners_def)
    then have "\<exists>d' \<in> set (devices s). d_id d' = d_id d \<and> d_worker_id d' = d_worker_id d"
      if "d \<in> set (devices s2)" for d
      using imageI [OF that, of "\<lambda>d. (d_id d, d_worker_id d)"] by auto
    then show ?thesis using ord unfolding orderly_def by metis
  qed
  with ok2 free absent have "db_ok (fold (upsert_device w) dis s2)"
    by (intro fold_upsert_device_db_ok)
  then show ?thesis
    unfolding upsert_worker_def Let_def s2_def s1_def s0_def reason_def reb_def .
qed

lemma set_device_state_db_ok:
  assumes "db_ok s" and "set_device_state dev DeviceUnhealthy at detail s = Inr s'"
  shows "db_ok s'"
proof -
  have s': "s' = s\<lparr>devices := sql_update (\<lambda>d. d_id d = dev)
      (\<lambda>d. d\<lparr>d_state := DeviceUnhealthy, d_quarantine := QuarFault, d_detail := detail,
             d_heartbeat := unix at\<rparr>) (devices s)\<rparr>"
    using assms(2) by (auto simp: set_device_state_def Let_def split: if_splits)
  show ?thesis
    using assms(1) unfolding s' db_ok_def by (auto intro!: core_ok_devices busy_leased_devices)
qed

end
