(* ===== verification/Store_Reaper.thy ===== *)
theory Store_Reaper
  imports Store_Workers
begin

text \<open>
  The reaper (\<open>src/internal/store/reaper.go\<close>): \<open>Sweep\<close>, which demotes silent
  devices, writes off the jobs of lost workers and expires leases; \<open>RecordHeartbeat\<close>,
  which renews and restores; \<open>ClearDevice\<close>; and the reads the notifications make.
\<close>

section \<open>Sweep\<close>

record sweep_result =
  sr_unknown :: "string list"
  sr_unhealthy :: "string list"
  sr_lost :: "string list"
  sr_expired :: "string list"

text \<open>\<open>devices JOIN workers\<close>: a device without a worker row is not judged.\<close>

definition reporting :: "db \<Rightarrow> (string \<times> device_state \<times> int) list" where
  "reporting s =
     concat (map (\<lambda>d. map (\<lambda>w. (d_id d, d_state d, w_heartbeat w))
                        (filter (\<lambda>w. w_id w = d_worker_id d) (workers s))) (devices s))"

definition silence :: "time \<Rightarrow> int \<Rightarrow> duration" where
  "silence now hb = time_sub now (from_unix hb)"

definition judges :: "time \<Rightarrow> time \<Rightarrow> bool" where
  "judges now hold_off \<longleftrightarrow> \<not> now < hold_off"

text \<open>The two results of the first loop: the devices past \<open>unhealthyAfter\<close> and the
  demotions.\<close>

definition written_off :: "bool \<Rightarrow> time \<Rightarrow> duration \<Rightarrow> string \<times> device_state \<times> int \<Rightarrow> bool" where
  "written_off judging now unhealthy_after row \<longleftrightarrow>
     judging \<and> unhealthy_after \<le> silence now (snd (snd row))"

definition demotion ::
  "bool \<Rightarrow> time \<Rightarrow> duration \<Rightarrow> duration \<Rightarrow> string \<times> device_state \<times> int
     \<Rightarrow> (string \<times> device_state) option" where
  "demotion judging now grace unhealthy_after row =
     (case row of (dev, st, hb) \<Rightarrow>
        if judging \<and> unhealthy_after \<le> silence now hb then
          (if st \<noteq> DeviceUnhealthy then Some (dev, DeviceUnhealthy) else None)
        else if grace \<le> silence now hb \<and> (st = DeviceReady \<or> st = DeviceBusy) then
          Some (dev, DeviceUnknown)
        else None)"

definition demote :: "string \<times> device_state \<Rightarrow> db \<Rightarrow> db" where
  "demote p s =
     s\<lparr>devices := sql_update (\<lambda>d. d_id d = fst p)
         (\<lambda>d. d\<lparr>d_state := snd p,
                d_quarantine := (if snd p = DeviceUnhealthy then QuarWorkerLost else QuarNone)\<rparr>)
         (devices s)\<rparr>"

text \<open>The jobs of a device whose worker is gone.\<close>

definition lost_on :: "string \<Rightarrow> db \<Rightarrow> string list" where
  "lost_on dev s = map j_id (filter (\<lambda>j. j_device_id j = dev \<and> in_flight (j_state j)) (jobs s))"

definition reap_device :: "int \<Rightarrow> string \<Rightarrow> string list \<times> db \<Rightarrow> string list \<times> db" where
  "reap_device at dev acc =
     (let gone = lost_on dev (snd acc)
      in (fst acc @ gone, fold (lose_job ''worker lost'' at) gone (snd acc)))"

text \<open>The expired leases; with \<open>RetainDisconnectedJobs\<close> those of jobs are left alone.\<close>

definition stale_leases :: "bool \<Rightarrow> bool \<Rightarrow> time \<Rightarrow> db \<Rightarrow> lease_row list" where
  "stale_leases judging retain now s =
     (if judging then
        filter (\<lambda>l. live l \<and> l_expires_at l \<le> unix now \<and> (retain \<longrightarrow> l_kind l \<noteq> LeaseKindJob)) (leases s)
      else [])"

definition expire_lease :: "int \<Rightarrow> lease_row \<Rightarrow> string list \<times> db \<Rightarrow> string list \<times> db" where
  "expire_lease at e acc =
     (let s = snd acc;
          s1 = s\<lparr>leases := sql_update (\<lambda>l. l_id l = l_id e \<and> live l)
                             (\<lambda>l. l\<lparr>l_released_at := Some at\<rparr>) (leases s)\<rparr>;
          s2 = s1\<lparr>devices := sql_update (\<lambda>d. d_id d = l_device_id e)
                               (quarantine_with QuarLeaseExpired) (devices s1)\<rparr>
      in if l_job_id e \<noteq> '''' then
           (let hit = (\<lambda>j. j_id j = l_job_id e \<and> in_flight (j_state j));
                s3 = s2\<lparr>jobs := sql_update hit
                        (\<lambda>j. j\<lparr>j_state := JobLost, j_kill_reason := ''lease expired'',
                               j_finished_at := Some at\<rparr>) (jobs s2)\<rparr>
            in (if 0 < sql_count hit (jobs s2) then fst acc @ [l_job_id e] else fst acc, s3))
         else (fst acc @ [l_id e], s2))"

definition sweep ::
  "duration \<Rightarrow> duration \<Rightarrow> time \<Rightarrow> bool \<Rightarrow> time \<Rightarrow> db \<Rightarrow> sweep_result \<times> db" where
  "sweep grace unhealthy_after hold_off retain now s =
     (let judging = judges now hold_off;
          rows = reporting s;
          pending = List.map_filter (demotion judging now grace unhealthy_after) rows;
          s1 = fold demote pending s;
          reap = (if retain then []
                  else map fst (filter (written_off judging now unhealthy_after) rows));
          (gone, s2) = fold (reap_device (unix now)) reap ([], s1);
          (ended, s3) = fold (expire_lease (unix now)) (stale_leases judging retain now s2) ([], s2)
      in (\<lparr>sr_unknown = map fst (filter (\<lambda>p. snd p = DeviceUnknown) pending),
           sr_unhealthy = map fst (filter (\<lambda>p. snd p = DeviceUnhealthy) pending),
           sr_lost = gone, sr_expired = ended\<rparr>, s3))"

section \<open>RecordHeartbeat\<close>

abbreviation lease_renew_window :: duration where
  "lease_renew_window \<equiv> 15 * 60 * go_second"

text \<open>The jobs a worker names that are recorded as its own and in flight.\<close>

definition supervised :: "string \<Rightarrow> string list \<Rightarrow> job_row \<Rightarrow> bool" where
  "supervised worker running j \<longleftrightarrow>
     j_worker_id j = worker \<and> in_flight (j_state j) \<and> List.member running (j_id j)"

definition beat_worker :: "string \<Rightarrow> time \<Rightarrow> db \<Rightarrow> db" where
  "beat_worker worker at s =
     s\<lparr>workers := sql_update (\<lambda>w. w_id w = worker) (\<lambda>w. w\<lparr>w_heartbeat := unix at\<rparr>) (workers s)\<rparr>"

definition renew_leases :: "string \<Rightarrow> time \<Rightarrow> string list \<Rightarrow> db \<Rightarrow> db" where
  "renew_leases worker at running s =
     s\<lparr>leases := sql_update
         (\<lambda>l. live l \<and> sql_exists (\<lambda>j. supervised worker running j \<and> j_id j = l_job_id l) (jobs s))
         (\<lambda>l. l\<lparr>l_expires_at := unix (at + lease_renew_window)\<rparr>) (leases s)\<rparr>"

definition restore_lost :: "string \<Rightarrow> time \<Rightarrow> string list \<Rightarrow> db \<Rightarrow> db" where
  "restore_lost worker at running s =
     s\<lparr>devices := sql_update
         (\<lambda>d. d_worker_id d = worker \<and> d_state d = DeviceUnhealthy \<and> d_quarantine d = QuarWorkerLost
              \<and> sql_exists (\<lambda>j. supervised worker running j \<and> j_device_id j = d_id d) (jobs s))
         (\<lambda>d. d\<lparr>d_state := DeviceBusy, d_quarantine := QuarNone, d_detail := '''',
                d_heartbeat := unix at\<rparr>) (devices s)\<rparr>"

definition drop_kill_flags :: "string \<Rightarrow> string list \<Rightarrow> db \<Rightarrow> db" where
  "drop_kill_flags worker running s =
     s\<lparr>jobs := sql_update
         (\<lambda>j. j_worker_id j = worker \<and> j_state j = JobKilled \<and> j_kill_requested j
              \<and> \<not> List.member running (j_id j))
         (\<lambda>j. j\<lparr>j_kill_requested := False\<rparr>) (jobs s)\<rparr>"

definition unknown_to_busy :: "string \<Rightarrow> time \<Rightarrow> string list \<Rightarrow> bool \<Rightarrow> db \<Rightarrow> db" where
  "unknown_to_busy worker at running retain s =
     (let held = (\<lambda>d. if retain then
              sql_exists (\<lambda>j. supervised worker running j \<and> j_device_id j = d_id d
                 \<and> sql_exists (\<lambda>l. l_job_id l = j_id j \<and> live l) (leases s)) (jobs s)
            else live_on s (d_id d))
      in s\<lparr>devices := sql_update
           (\<lambda>d. d_worker_id d = worker \<and> d_state d = DeviceUnknown \<and> held d)
           (\<lambda>d. d\<lparr>d_state := DeviceBusy, d_heartbeat := unix at\<rparr>) (devices s)\<rparr>)"

definition unknown_to_ready :: "string \<Rightarrow> time \<Rightarrow> db \<Rightarrow> db" where
  "unknown_to_ready worker at s =
     s\<lparr>devices := sql_update
         (\<lambda>d. d_worker_id d = worker \<and> d_state d = DeviceUnknown \<and> \<not> live_on s (d_id d)
              \<and> \<not> sql_exists (\<lambda>j. j_device_id j = d_id d \<and> j_worker_id j = worker
                              \<and> j_state j = JobKilled \<and> j_kill_requested j) (jobs s))
         (\<lambda>d. d\<lparr>d_state := DeviceReady, d_heartbeat := unix at\<rparr>) (devices s)\<rparr>"

definition beat_devices :: "string \<Rightarrow> time \<Rightarrow> db \<Rightarrow> db" where
  "beat_devices worker at s =
     s\<lparr>devices := sql_update (\<lambda>d. d_worker_id d = worker) (\<lambda>d. d\<lparr>d_heartbeat := unix at\<rparr>) (devices s)\<rparr>"

text \<open>With no job named the statements with \<open>IN ()\<close> are skipped: they would match nothing.\<close>

definition record_heartbeat :: "string \<Rightarrow> time \<Rightarrow> string list \<Rightarrow> bool \<Rightarrow> db \<Rightarrow> db" where
  "record_heartbeat worker at running retain s =
     (let s1 = beat_worker worker at s;
          s2 = (if running \<noteq> [] then restore_lost worker at running (renew_leases worker at running s1)
                else s1);
          s3 = drop_kill_flags worker running s2;
          s4 = (if retain \<and> running = [] then s3 else unknown_to_busy worker at running retain s3)
      in beat_devices worker at (unknown_to_ready worker at s4))"

section \<open>ClearDevice and the reads\<close>

definition clear_device :: "string \<Rightarrow> db \<Rightarrow> bool \<times> db" where
  "clear_device dev s =
     (let hit = (\<lambda>d. d_id d = dev \<and> d_state d = DeviceUnhealthy \<and> \<not> live_on s (d_id d))
      in (0 < sql_count hit (devices s), s\<lparr>devices := sql_update hit to_ready (devices s)\<rparr>))"

definition quarantine_reasons :: "string list \<Rightarrow> db \<Rightarrow> string \<rightharpoonup> quarantine" where
  "quarantine_reasons ids s =
     fold (\<lambda>d m. m(d_id d \<mapsto> d_quarantine d))
       (filter (\<lambda>d. List.member ids (d_id d)) (devices s)) Map.empty"

definition quarantine_details :: "string list \<Rightarrow> db \<Rightarrow> string \<rightharpoonup> string" where
  "quarantine_details ids s =
     fold (\<lambda>d m. m(d_id d \<mapsto> d_detail d))
       (filter (\<lambda>d. List.member ids (d_id d)) (devices s)) Map.empty"

definition lease_devices :: "string list \<Rightarrow> db \<Rightarrow> string \<rightharpoonup> string" where
  "lease_devices ids s =
     fold (\<lambda>l m. if l_job_id l \<noteq> '''' then m(l_id l \<mapsto> l_device_id l, l_job_id l \<mapsto> l_device_id l)
                 else m(l_id l \<mapsto> l_device_id l))
       (sort_key l_acquired_at
          (filter (\<lambda>l. List.member ids (l_id l) \<or> List.member ids (l_job_id l)) (leases s))) Map.empty"

section \<open>The invariant through a sweep\<close>

lemma lose_job_db_ok:
  assumes ok: "db_ok s"
    and dev: "\<And>j. j \<in> set (jobs s) \<Longrightarrow> j_id j = job \<Longrightarrow> in_flight (j_state j) \<Longrightarrow> j_device_id j = dev"
    and idle: "\<And>d. d \<in> set (devices s) \<Longrightarrow> d_id d = dev \<Longrightarrow> d_state d \<noteq> DeviceBusy"
  shows "db_ok (lose_job reason at job s)"
proof -
  have s: "core_ok s" "busy_leased {} s" using ok by (auto simp: db_ok_def)
  have "core_ok (lose_job reason at job s)" "busy_leased {dev} (lose_job reason at job s)"
    using lose_job_core [OF s, of job "{dev}" reason at] dev by auto
  with idle show ?thesis by (auto simp: db_ok_def busy_leased_def)
qed

lemma fold_lose_job_frame [simp]:
  "devices (fold (lose_job reason at) xs s) = devices s"
  "workers (fold (lose_job reason at) xs s) = workers s"
  by (induction xs arbitrary: s) simp_all

lemma fold_lose_job_in_flight:
  "j \<in> set (jobs (fold (lose_job reason at) xs s)) \<and> in_flight (j_state j)
     \<longleftrightarrow> j \<in> set (jobs s) \<and> in_flight (j_state j) \<and> j_id j \<notin> set xs"
proof (induction xs arbitrary: s)
  case (Cons x xs)
  show ?case using Cons.IH [of "lose_job reason at x s"] lose_job_in_flight [of j reason at x s] by auto
qed simp

lemma fold_lose_job_db_ok:
  assumes "db_ok s"
    and "\<And>j. j \<in> set (jobs s) \<Longrightarrow> j_id j \<in> set xs \<Longrightarrow> in_flight (j_state j) \<Longrightarrow> j_device_id j = dev"
    and "\<And>d. d \<in> set (devices s) \<Longrightarrow> d_id d = dev \<Longrightarrow> d_state d \<noteq> DeviceBusy"
  shows "db_ok (fold (lose_job reason at) xs s)"
  using assms
proof (induction xs arbitrary: s)
  case (Cons x xs)
  have "db_ok (lose_job reason at x s)"
    by (rule lose_job_db_ok [of _ _ dev]) (use Cons.prems in auto)
  moreover have "j_device_id j = dev"
    if "j \<in> set (jobs (lose_job reason at x s))" "j_id j \<in> set xs" "in_flight (j_state j)" for j
    using that lose_job_in_flight [of j reason at x s] Cons.prems(2) by auto
  moreover have "d_state d \<noteq> DeviceBusy" if "d \<in> set (devices (lose_job reason at x s))" "d_id d = dev" for d
    using that Cons.prems(3) by simp
  ultimately have "db_ok (fold (lose_job reason at) xs (lose_job reason at x s))" by (rule Cons.IH)
  then show ?case by simp
qed simp

lemma reap_device_frame [simp]:
  "devices (snd (reap_device at dev acc)) = devices (snd acc)"
  "workers (snd (reap_device at dev acc)) = workers (snd acc)"
  by (simp_all add: reap_device_def Let_def)

lemma reap_device_db_ok:
  assumes "db_ok (snd acc)"
    and "\<And>d. d \<in> set (devices (snd acc)) \<Longrightarrow> d_id d = dev \<Longrightarrow> d_state d \<noteq> DeviceBusy"
  shows "db_ok (snd (reap_device at dev acc))"
proof -
  have "core_ok (snd acc)" using assms(1) by (simp add: db_ok_def)
  then show ?thesis
    unfolding reap_device_def Let_def snd_conv
    by (intro fold_lose_job_db_ok [of _ _ dev])
       (use assms job_unique in \<open>auto simp: lost_on_def\<close>)
qed

lemma reap_device_in_flight:
  assumes "core_ok (snd acc)"
  shows "j \<in> set (jobs (snd (reap_device at dev acc))) \<and> in_flight (j_state j)
     \<longleftrightarrow> j \<in> set (jobs (snd acc)) \<and> in_flight (j_state j) \<and> j_device_id j \<noteq> dev"
  unfolding reap_device_def Let_def snd_conv fold_lose_job_in_flight
  using job_unique [OF assms] by (auto simp: lost_on_def)

lemma fold_reap_device:
  assumes "db_ok (snd acc)"
    and "\<And>d. d \<in> set (devices (snd acc)) \<Longrightarrow> d_id d \<in> set devs \<Longrightarrow> d_state d \<noteq> DeviceBusy"
  shows "db_ok (snd (fold (reap_device at) devs acc))"
    and "devices (snd (fold (reap_device at) devs acc)) = devices (snd acc)"
    and "j \<in> set (jobs (snd (fold (reap_device at) devs acc))) \<and> in_flight (j_state j)
     \<longleftrightarrow> j \<in> set (jobs (snd acc)) \<and> in_flight (j_state j) \<and> j_device_id j \<notin> set devs"
proof -
  have "db_ok (snd (fold (reap_device at) devs acc)) \<and>
    devices (snd (fold (reap_device at) devs acc)) = devices (snd acc) \<and>
    (\<forall>j. j \<in> set (jobs (snd (fold (reap_device at) devs acc))) \<and> in_flight (j_state j)
     \<longleftrightarrow> j \<in> set (jobs (snd acc)) \<and> in_flight (j_state j) \<and> j_device_id j \<notin> set devs)"
    using assms
  proof (induction devs arbitrary: acc)
    case (Cons dev devs)
    have ok: "db_ok (snd (reap_device at dev acc))"
      by (rule reap_device_db_ok) (use Cons.prems in auto)
    have "core_ok (snd acc)" using Cons.prems(1) by (simp add: db_ok_def)
    note fl = reap_device_in_flight [OF this, of _ at dev]
    have "db_ok (snd (fold (reap_device at) devs (reap_device at dev acc))) \<and>
      devices (snd (fold (reap_device at) devs (reap_device at dev acc))) = devices (snd acc) \<and>
      (\<forall>j. j \<in> set (jobs (snd (fold (reap_device at) devs (reap_device at dev acc)))) \<and> in_flight (j_state j)
       \<longleftrightarrow> j \<in> set (jobs (snd (reap_device at dev acc))) \<and> in_flight (j_state j) \<and> j_device_id j \<notin> set devs)"
      using Cons.IH [OF ok] Cons.prems(2) by simp
    then show ?case using fl by auto
  qed simp
  then show "db_ok (snd (fold (reap_device at) devs acc))"
    and "devices (snd (fold (reap_device at) devs acc)) = devices (snd acc)"
    and "j \<in> set (jobs (snd (fold (reap_device at) devs acc))) \<and> in_flight (j_state j)
     \<longleftrightarrow> j \<in> set (jobs (snd acc)) \<and> in_flight (j_state j) \<and> j_device_id j \<notin> set devs"
    by blast+
qed

text \<open>Demotions: what they leave of a device, and the invariant.\<close>

lemma demote_frame [simp]:
  "jobs (demote p s) = jobs s" "leases (demote p s) = leases s"
  "workers (demote p s) = workers s" "live_on (demote p s) x = live_on s x"
  by (simp_all add: demote_def)

lemma fold_demote_frame [simp]:
  "jobs (fold demote ps s) = jobs s" "leases (fold demote ps s) = leases s"
  "workers (fold demote ps s) = workers s" "live_on (fold demote ps s) x = live_on s x"
  by (induction ps arbitrary: s) simp_all

lemma demote_db_ok:
  assumes "db_ok s" and "snd p = DeviceUnhealthy \<or> snd p = DeviceUnknown"
    and "snd p = DeviceUnknown \<Longrightarrow> (\<forall>d \<in> set (devices s). d_id d = fst p \<longrightarrow> d_detail d = '''')"
  shows "db_ok (demote p s)"
proof -
  have s: "core_ok s" "busy_leased {} s" using assms(1) by (auto simp: db_ok_def)
  have "core_ok (demote p s)"
    unfolding demote_def by (rule core_ok_devices [OF s(1)]) (use assms(2,3) in auto)
  moreover have "busy_leased {} (demote p s)"
    unfolding demote_def by (rule busy_leased_devices [OF s(2)]) (use assms(2) in auto)
  ultimately show ?thesis by (simp add: db_ok_def)
qed

lemma devices_demote:
  "devices (demote p s) = sql_update (\<lambda>d. d_id d = fst p)
     (\<lambda>d. d\<lparr>d_state := snd p,
            d_quarantine := (if snd p = DeviceUnhealthy then QuarWorkerLost else QuarNone)\<rparr>) (devices s)"
  by (simp add: demote_def)

lemma devices_fold_demote:
  assumes "d' \<in> set (devices (fold demote ps s))"
  shows "\<exists>d \<in> set (devices s). d_id d' = d_id d \<and> d_worker_id d' = d_worker_id d
      \<and> d_detail d' = d_detail d \<and> d_heartbeat d' = d_heartbeat d
      \<and> (d_id d \<notin> fst ` set ps \<and> d' = d \<or>
         (\<exists>p \<in> set ps. fst p = d_id d \<and> d_state d' = snd p
            \<and> d_quarantine d' = (if snd p = DeviceUnhealthy then QuarWorkerLost else QuarNone)))"
  using assms
proof (induction ps arbitrary: d' rule: rev_induct)
  case (snoc p ps)
  have "d' \<in> set (devices (demote p (fold demote ps s)))" using snoc.prems by simp
  then show ?case
    unfolding devices_demote
  proof (cases rule: sql_updateE)
    case (hit e)
    with snoc.IH [OF hit(1)] show ?thesis by (elim bexE conjE) (intro bexI; force)
  next
    case miss
    from snoc.IH [OF miss(1)] miss(2) show ?thesis by (elim bexE conjE) (intro bexI; auto)
  qed
qed auto

lemma fold_demote_db_ok:
  assumes "db_ok s"
    and "\<And>p. p \<in> set ps \<Longrightarrow> snd p = DeviceUnhealthy \<or> snd p = DeviceUnknown"
    and "\<And>p d. p \<in> set ps \<Longrightarrow> snd p = DeviceUnknown \<Longrightarrow> d \<in> set (devices s)
           \<Longrightarrow> d_id d = fst p \<Longrightarrow> d_detail d = ''''"
  shows "db_ok (fold demote ps s)"
  using assms
proof (induction ps rule: rev_induct)
  case (snoc p ps)
  have "db_ok (fold demote ps s)"
  proof (rule snoc.IH [OF snoc.prems(1)])
    show "snd q = DeviceUnhealthy \<or> snd q = DeviceUnknown" if "q \<in> set ps" for q
      using that snoc.prems(2) [of q] by simp
    show "d_detail d = ''''" if "q \<in> set ps" "snd q = DeviceUnknown" "d \<in> set (devices s)"
      "d_id d = fst q" for q d
      using that snoc.prems(3) [of q d] by simp
  qed
  then have "db_ok (demote p (fold demote ps s))"
  proof (rule demote_db_ok)
    show "snd p = DeviceUnhealthy \<or> snd p = DeviceUnknown" using snoc.prems(2) by simp
  next
    assume "snd p = DeviceUnknown"
    then show "\<forall>d \<in> set (devices (fold demote ps s)). d_id d = fst p \<longrightarrow> d_detail d = ''''"
      using snoc.prems(3) [of p] devices_fold_demote [of _ ps s] by (metis in_set_conv_decomp)
  qed
  then show ?case by simp
qed simp

text \<open>Expiring a live lease is ending the one job it belongs to.\<close>

lemma core_ok_job_ids: "core_ok s \<Longrightarrow> l \<in> set (leases s) \<Longrightarrow> live l \<Longrightarrow> l_job_id l \<noteq> ''''"
  by (fastforce simp: core_ok_def leases_agree_def jobs_known_def)

lemma release_by_lease_id:
  assumes "core_ok s" and "e \<in> set (leases s)" "live e"
  shows "sql_update (\<lambda>l. l_id l = l_id e \<and> live l) f (leases s)
    = sql_update (\<lambda>l. l_job_id l = l_job_id e \<and> live l) f (leases s)"
proof -
  have "(l_id l = l_id e \<and> live l) = (l_job_id l = l_job_id e \<and> live l)" if "l \<in> set (leases s)" for l
    using that assms live_lease_unique [OF assms(1)] lease_table.key_inj [of s l e]
    by (auto simp: core_ok_def schema_ok_def)
  then show ?thesis by (simp add: sql_update_def)
qed

definition end_expired :: "int \<Rightarrow> lease_row \<Rightarrow> db \<Rightarrow> db" where
  "end_expired at e s = release_leases_of (l_job_id e) at
     (s\<lparr>jobs := sql_update (\<lambda>j. j_id j = l_job_id e \<and> in_flight (j_state j))
        (\<lambda>j. j\<lparr>j_state := JobLost, j_kill_reason := ''lease expired'', j_finished_at := Some at\<rparr>)
        (jobs s)\<rparr>)"

lemma expire_lease_state:
  assumes "core_ok (snd acc)" and "e \<in> set (leases (snd acc))" "live e"
  shows "snd (expire_lease at e acc) = (end_expired at e (snd acc))
    \<lparr>devices := sql_update (\<lambda>d. d_id d = l_device_id e) (quarantine_with QuarLeaseExpired)
        (devices (snd acc))\<rparr>"
  using core_ok_job_ids [OF assms] release_by_lease_id [OF assms]
  by (simp add: expire_lease_def Let_def end_expired_def release_leases_of_def)

lemma expire_lease_db_ok:
  assumes ok: "db_ok (snd acc)" and e: "e \<in> set (leases (snd acc))" "live e"
  shows "db_ok (snd (expire_lease at e acc))"
proof -
  have s: "core_ok (snd acc)" "busy_leased {} (snd acc)" using ok by (auto simp: db_ok_def)
  obtain j where j: "j \<in> set (jobs (snd acc))" "j_id j = l_job_id e" "j_device_id j = l_device_id e"
    using s e by (auto simp: core_ok_def leases_agree_def)
  have core2: "core_ok (end_expired at e (snd acc))"
    unfolding end_expired_def by (rule core_ok_end_job [OF s(1)]) auto
  have busy2: "busy_leased {l_device_id e} (end_expired at e (snd acc))"
    unfolding end_expired_def
  proof (rule busy_leased_end_job [OF s])
    fix x assume "x \<in> set (jobs (snd acc))" "j_id x = l_job_id e"
    then have "x = j" using job_unique [OF s(1)] j by simp
    with j show "j_device_id x \<in> {l_device_id e}" by simp
  qed simp
  have dv: "devices (end_expired at e (snd acc)) = devices (snd acc)"
    by (simp add: end_expired_def release_leases_of_def)
  let ?f = "quarantine_with QuarLeaseExpired"
  have "core_ok ((end_expired at e (snd acc))\<lparr>devices := sql_update (\<lambda>d. d_id d = l_device_id e) ?f
      (devices (end_expired at e (snd acc)))\<rparr>)"
    by (rule core_ok_devices [OF core2]) (auto simp: quarantine_with_def)
  moreover have "busy_leased {} ((end_expired at e (snd acc))\<lparr>devices :=
      sql_update (\<lambda>d. d_id d = l_device_id e) ?f (devices (end_expired at e (snd acc)))\<rparr>)"
    by (rule busy_leased_devices [OF busy2]) (auto simp: quarantine_with_def)
  ultimately show ?thesis
    by (simp add: expire_lease_state [OF s(1) e] db_ok_def dv)
qed

lemma expire_lease_leases:
  "leases (snd (expire_lease at e acc)) = sql_update (\<lambda>l. l_id l = l_id e \<and> live l)
     (\<lambda>l. l\<lparr>l_released_at := Some at\<rparr>) (leases (snd acc))"
  by (simp add: expire_lease_def Let_def)

text \<open>Expiry touches only the devices, jobs and leases it names.\<close>

lemma expire_lease_devices:
  "devices (snd (expire_lease at e acc)) =
     sql_update (\<lambda>d. d_id d = l_device_id e) (quarantine_with QuarLeaseExpired) (devices (snd acc))"
  by (simp add: expire_lease_def Let_def)

lemma expire_lease_live:
  "l \<in> set (leases (snd (expire_lease at e acc))) \<and> live l
     \<longleftrightarrow> l \<in> set (leases (snd acc)) \<and> live l \<and> l_id l \<noteq> l_id e"
  unfolding expire_lease_leases set_sql_update by (auto simp: image_iff live_def)

lemma fold_expire_lease:
  assumes "db_ok (snd acc)" and "distinct (map l_id es)"
    and "\<And>e. e \<in> set es \<Longrightarrow> e \<in> set (leases (snd acc)) \<and> live e"
  shows "db_ok (snd (fold (expire_lease at) es acc))"
    and "l \<in> set (leases (snd (fold (expire_lease at) es acc))) \<and> live l
     \<longleftrightarrow> l \<in> set (leases (snd acc)) \<and> live l \<and> l_id l \<notin> l_id ` set es"
proof -
  have "db_ok (snd (fold (expire_lease at) es acc)) \<and>
    (\<forall>l. l \<in> set (leases (snd (fold (expire_lease at) es acc))) \<and> live l
     \<longleftrightarrow> l \<in> set (leases (snd acc)) \<and> live l \<and> l_id l \<notin> l_id ` set es)"
    using assms
  proof (induction es arbitrary: acc)
    case (Cons e es)
    have "db_ok (snd (expire_lease at e acc))"
      using Cons.prems(1) Cons.prems(3) [of e] by (intro expire_lease_db_ok) auto
    moreover have "x \<in> set (leases (snd (expire_lease at e acc))) \<and> live x" if "x \<in> set es" for x
    proof -
      have "l_id x \<noteq> l_id e" using Cons.prems(2) that by auto (metis imageI)
      then show ?thesis using Cons.prems(3) [of x] that expire_lease_live [of x at e acc] by simp
    qed
    ultimately have "db_ok (snd (fold (expire_lease at) es (expire_lease at e acc))) \<and>
      (\<forall>l. l \<in> set (leases (snd (fold (expire_lease at) es (expire_lease at e acc)))) \<and> live l
       \<longleftrightarrow> l \<in> set (leases (snd (expire_lease at e acc))) \<and> live l \<and> l_id l \<notin> l_id ` set es)"
      using Cons.prems(2) by (intro Cons.IH) auto
    then show ?case using expire_lease_live [of _ at e acc] by auto
  qed simp
  then show "db_ok (snd (fold (expire_lease at) es acc))"
    and "l \<in> set (leases (snd (fold (expire_lease at) es acc))) \<and> live l
     \<longleftrightarrow> l \<in> set (leases (snd acc)) \<and> live l \<and> l_id l \<notin> l_id ` set es"
    by blast+
qed

lemma fold_expire_devices:
  assumes "d' \<in> set (devices (snd (fold (expire_lease at) es acc)))"
  shows "\<exists>d \<in> set (devices (snd acc)). d_id d' = d_id d \<and> d_detail d' = d_detail d
     \<and> (d' = d \<or> d_state d' = DeviceUnhealthy)
     \<and> (d_state d = DeviceUnhealthy \<longrightarrow> d' = d)"
  using assms
proof (induction es arbitrary: acc)
  case (Cons e es)
  from Cons.IH [of "expire_lease at e acc"] Cons.prems
  obtain d1 where d1: "d1 \<in> set (devices (snd (expire_lease at e acc)))"
    "d_id d' = d_id d1" "d_detail d' = d_detail d1"
    "d' = d1 \<or> d_state d' = DeviceUnhealthy" "d_state d1 = DeviceUnhealthy \<longrightarrow> d' = d1"
    by auto
  from d1(1) show ?case
    unfolding expire_lease_devices
  proof (cases rule: sql_updateE)
    case (hit d)
    with d1 show ?thesis by (intro bexI [of _ d]) (auto simp: quarantine_with_def)
  next
    case miss
    with d1 show ?thesis by (intro bexI [of _ d1]) auto
  qed
qed auto

text \<open>The phases of \<open>sweep\<close> by name.\<close>

definition sweep_pending :: "bool \<Rightarrow> duration \<Rightarrow> duration \<Rightarrow> time \<Rightarrow> db \<Rightarrow> (string \<times> device_state) list" where
  "sweep_pending judging grace u now s =
     List.map_filter (demotion judging now grace u) (reporting s)"

definition sweep_reap :: "bool \<Rightarrow> bool \<Rightarrow> duration \<Rightarrow> time \<Rightarrow> db \<Rightarrow> string list" where
  "sweep_reap judging retain u now s =
     (if retain then [] else map fst (filter (written_off judging now u) (reporting s)))"

definition swept_jobs :: "duration \<Rightarrow> duration \<Rightarrow> time \<Rightarrow> bool \<Rightarrow> time \<Rightarrow> db \<Rightarrow> string list \<times> db" where
  "swept_jobs grace u hold_off retain now s =
     fold (reap_device (unix now)) (sweep_reap (judges now hold_off) retain u now s)
       ([], fold demote (sweep_pending (judges now hold_off) grace u now s) s)"

lemma sweep_state:
  "snd (sweep grace u hold_off retain now s) =
     snd (fold (expire_lease (unix now))
       (stale_leases (judges now hold_off) retain now (snd (swept_jobs grace u hold_off retain now s)))
       ([], snd (swept_jobs grace u hold_off retain now s)))"
  by (simp add: sweep_def swept_jobs_def sweep_pending_def sweep_reap_def Let_def split_def)

lemma reporting_iff:
  "(dev, st, hb) \<in> set (reporting s) \<longleftrightarrow>
     (\<exists>d \<in> set (devices s). d_id d = dev \<and> d_state d = st \<and>
        (\<exists>w \<in> set (workers s). w_id w = d_worker_id d \<and> w_heartbeat w = hb))"
  by (auto simp: reporting_def)

lemma reporting_unique:
  assumes "core_ok s" and "(dev, st, hb) \<in> set (reporting s)" and "(dev, st', hb') \<in> set (reporting s)"
  shows "st = st' \<and> hb = hb'"
proof -
  obtain d w where d: "d \<in> set (devices s)" "d_id d = dev" "d_state d = st"
    "w \<in> set (workers s)" "w_id w = d_worker_id d" "w_heartbeat w = hb"
    using assms(2) by (auto simp: reporting_iff)
  obtain d' w' where d': "d' \<in> set (devices s)" "d_id d' = dev" "d_state d' = st'"
    "w' \<in> set (workers s)" "w_id w' = d_worker_id d'" "w_heartbeat w' = hb'"
    using assms(3) by (auto simp: reporting_iff)
  have "d = d'" using device_unique [OF assms(1)] d d' by simp
  moreover have "w = w'"
    using worker_table.key_inj [of s w w'] assms(1) d d' calculation
    by (simp add: core_ok_def schema_ok_def)
  ultimately show ?thesis using d d' by simp
qed

lemma sweep_pending_iff:
  "p \<in> set (sweep_pending judging grace u now s) \<longleftrightarrow>
     (\<exists>row \<in> set (reporting s). demotion judging now grace u row = Some p)"
  by (force simp: sweep_pending_def List.map_filter_def image_iff)

lemma demotion_SomeD:
  assumes "demotion judging now grace u row = Some p"
  shows "fst p = fst row"
    and "snd p = DeviceUnhealthy \<and> fst (snd row) \<noteq> DeviceUnhealthy
           \<and> written_off judging now u row
       \<or> snd p = DeviceUnknown \<and> (fst (snd row) = DeviceReady \<or> fst (snd row) = DeviceBusy)
           \<and> \<not> written_off judging now u row \<and> grace \<le> silence now (snd (snd row))"
  using assms by (auto simp: demotion_def written_off_def split: prod.splits if_splits)

text \<open>What the demotions leave of each device.\<close>

lemma demoted_devices:
  assumes core: "core_ok s"
    and d': "d' \<in> set (devices (fold demote (sweep_pending judging grace u now s) s))"
  obtains d where "d \<in> set (devices s)" "d_id d' = d_id d" "d_detail d' = d_detail d"
    "d' = d \<or> (d_state d' = DeviceUnhealthy \<and> d_quarantine d' = QuarWorkerLost \<and> judging
        \<or> d_state d' = DeviceUnknown) \<and> d_state d \<noteq> DeviceUnhealthy"
    "\<And>st hb. (d_id d, st, hb) \<in> set (reporting s) \<Longrightarrow> written_off judging now u (d_id d, st, hb)
       \<Longrightarrow> d_state d' = DeviceUnhealthy"
proof -
  let ?ps = "sweep_pending judging grace u now s"
  from devices_fold_demote [OF d'] obtain d where d: "d \<in> set (devices s)" "d_id d' = d_id d"
    "d_detail d' = d_detail d"
    and or: "d_id d \<notin> fst ` set ?ps \<and> d' = d \<or>
         (\<exists>p \<in> set ?ps. fst p = d_id d \<and> d_state d' = snd p
            \<and> d_quarantine d' = (if snd p = DeviceUnhealthy then QuarWorkerLost else QuarNone))"
    by blast
  have st: "st = d_state d" if "(d_id d, st, hb) \<in> set (reporting s)" for st hb
    using that device_unique [OF core _ d(1)] by (auto simp: reporting_iff)
  show thesis
  proof (cases "d_id d \<in> fst ` set ?ps")
    case False
    then have "d' = d" using or by force
    moreover have "d_state d = DeviceUnhealthy"
      if "(d_id d, st, hb) \<in> set (reporting s)" "written_off judging now u (d_id d, st, hb)" for st hb
    proof (rule ccontr)
      assume "d_state d \<noteq> DeviceUnhealthy"
      then have "demotion judging now grace u (d_id d, st, hb) = Some (d_id d, DeviceUnhealthy)"
        using that st [OF that(1)] by (simp add: demotion_def written_off_def)
      then have "(d_id d, DeviceUnhealthy) \<in> set ?ps" using that(1) by (auto simp: sweep_pending_iff)
      then show False using False by force
    qed
    ultimately show ?thesis using that d by blast
  next
    case True
    then obtain p where p: "p \<in> set ?ps" "fst p = d_id d" "d_state d' = snd p"
      "d_quarantine d' = (if snd p = DeviceUnhealthy then QuarWorkerLost else QuarNone)"
      using or by blast
    then obtain row where row: "row \<in> set (reporting s)" "demotion judging now grace u row = Some p"
      by (auto simp: sweep_pending_iff)
    obtain st hb where r: "row = (d_id d, st, hb)"
      using demotion_SomeD(1) [OF row(2)] p(2) by (cases row) auto
    have "st = d_state d" using st row(1) r by blast
    then have one: "(d_state d' = DeviceUnhealthy \<and> d_quarantine d' = QuarWorkerLost \<and> judging
        \<or> d_state d' = DeviceUnknown) \<and> d_state d \<noteq> DeviceUnhealthy"
      using demotion_SomeD(2) [OF row(2)] r p by (auto simp: written_off_def)
    have two: "d_state d' = DeviceUnhealthy"
      if "(d_id d, st', hb') \<in> set (reporting s)" "written_off judging now u (d_id d, st', hb')" for st' hb'
      using reporting_unique [OF core that(1)] row(1) demotion_SomeD(2) [OF row(2)] r p that(2) by auto
    show ?thesis using that [OF d] one two by blast
  qed
qed

lemma demoted_db_ok:
  assumes ok: "db_ok s"
  shows "db_ok (fold demote (sweep_pending judging grace u now s) s)"
proof (rule fold_demote_db_ok [OF ok])
  have core: "core_ok s" using ok by (simp add: db_ok_def)
  fix p assume "p \<in> set (sweep_pending judging grace u now s)"
  then obtain row where row: "row \<in> set (reporting s)" "demotion judging now grace u row = Some p"
    by (auto simp: sweep_pending_iff)
  show "snd p = DeviceUnhealthy \<or> snd p = DeviceUnknown" using demotion_SomeD(2) [OF row(2)] by blast
  fix d assume d: "snd p = DeviceUnknown" "d \<in> set (devices s)" "d_id d = fst p"
  obtain st hb where r: "row = (d_id d, st, hb)"
    using demotion_SomeD(1) [OF row(2)] d(3) by (cases row) auto
  then obtain e where "e \<in> set (devices s)" "d_id e = d_id d" "d_state e = st"
    using row(1) by (auto simp: reporting_iff)
  then have "fst (snd row) = d_state d" using device_unique [OF core, of e d] d(2) r by simp
  then have "d_state d \<noteq> DeviceUnhealthy" using demotion_SomeD(2) [OF row(2)] d(1) by auto
  then show "d_detail d = ''''" using core d(2) by (simp add: core_ok_def quarantine_ok_def)
qed

lemma reaped_not_busy:
  assumes core: "core_ok s"
    and d: "d' \<in> set (devices (fold demote (sweep_pending judging grace u now s) s))"
      "d_id d' \<in> set (sweep_reap judging retain u now s)"
  shows "d_state d' = DeviceUnhealthy"
proof -
  from d(2) obtain st hb where "(d_id d', st, hb) \<in> set (reporting s)"
    "written_off judging now u (d_id d', st, hb)"
    by (auto simp: sweep_reap_def split: if_splits)
  then show ?thesis using demoted_devices [OF core d(1)] by metis
qed

lemma swept_jobs:
  assumes ok: "db_ok s"
  shows "db_ok (snd (swept_jobs grace u hold_off retain now s))"
    and "devices (snd (swept_jobs grace u hold_off retain now s))
      = devices (fold demote (sweep_pending (judges now hold_off) grace u now s) s)"
    and "j \<in> set (jobs (snd (swept_jobs grace u hold_off retain now s))) \<and> in_flight (j_state j)
      \<longleftrightarrow> j \<in> set (jobs s) \<and> in_flight (j_state j)
          \<and> j_device_id j \<notin> set (sweep_reap (judges now hold_off) retain u now s)"
proof -
  let ?s1 = "fold demote (sweep_pending (judges now hold_off) grace u now s) s"
  have core: "core_ok s" using ok by (simp add: db_ok_def)
  have a: "db_ok (snd ([] :: string list, ?s1))"
    using demoted_db_ok [OF ok] by simp
  have b: "d_state d \<noteq> DeviceBusy"
    if "d \<in> set (devices (snd ([] :: string list, ?s1)))"
      "d_id d \<in> set (sweep_reap (judges now hold_off) retain u now s)" for d
    using reaped_not_busy [OF core] that by (metis device_state.distinct snd_conv)
  show "db_ok (snd (swept_jobs grace u hold_off retain now s))"
    unfolding swept_jobs_def by (rule fold_reap_device(1) [OF a b])
  show "devices (snd (swept_jobs grace u hold_off retain now s)) = devices ?s1"
    unfolding swept_jobs_def using fold_reap_device(2) [OF a b] by simp
  show "j \<in> set (jobs (snd (swept_jobs grace u hold_off retain now s))) \<and> in_flight (j_state j)
      \<longleftrightarrow> j \<in> set (jobs s) \<and> in_flight (j_state j)
          \<and> j_device_id j \<notin> set (sweep_reap (judges now hold_off) retain u now s)"
    unfolding swept_jobs_def using fold_reap_device(3) [OF a b] by simp
qed

lemma stale_leases_ok:
  assumes "core_ok s"
  shows "distinct (map l_id (stale_leases judging retain now s))"
    and "e \<in> set (stale_leases judging retain now s) \<Longrightarrow> e \<in> set (leases s) \<and> live e"
  using assms
  by (auto simp: stale_leases_def core_ok_def schema_ok_def intro: distinct_map_filter split: if_splits)

lemma sweep_expiry:
  fixes grace u hold_off retain now s
  assumes ok: "db_ok s"
  defines "s2 \<equiv> snd (swept_jobs grace u hold_off retain now s)"
  shows "db_ok (snd (sweep grace u hold_off retain now s))"
    and "l \<in> set (leases (snd (sweep grace u hold_off retain now s))) \<and> live l
      \<longleftrightarrow> l \<in> set (leases s2) \<and> live l
          \<and> l_id l \<notin> l_id ` set (stale_leases (judges now hold_off) retain now s2)"
proof -
  have ok2: "db_ok s2" unfolding s2_def by (rule swept_jobs(1) [OF ok])
  then have core2: "core_ok s2" by (simp add: db_ok_def)
  note f = fold_expire_lease [of "([], s2)", unfolded snd_conv,
      OF ok2 stale_leases_ok(1) [OF core2] stale_leases_ok(2) [OF core2]]
  show "db_ok (snd (sweep grace u hold_off retain now s))"
    unfolding sweep_state s2_def [symmetric] by (rule f(1))
  show "l \<in> set (leases (snd (sweep grace u hold_off retain now s))) \<and> live l
      \<longleftrightarrow> l \<in> set (leases s2) \<and> live l
          \<and> l_id l \<notin> l_id ` set (stale_leases (judges now hold_off) retain now s2)"
    unfolding sweep_state s2_def [symmetric] by (rule f(2))
qed

lemmas sweep_db_ok = sweep_expiry(1)

text \<open>Every device after a sweep, against the same device before it.\<close>

lemma sweep_devices:
  assumes ok: "db_ok s" and d': "d' \<in> set (devices (snd (sweep grace u hold_off retain now s)))"
  shows "\<exists>d \<in> set (devices s). d_id d' = d_id d \<and> d_detail d' = d_detail d
     \<and> (d' = d \<or> d_state d' = DeviceUnknown \<or> d_state d' = DeviceUnhealthy)
     \<and> (d_state d = DeviceUnhealthy \<longrightarrow> d' = d)"
proof -
  have core: "core_ok s" using ok by (simp add: db_ok_def)
  from fold_expire_devices [OF d' [unfolded sweep_state]] obtain e where
    "e \<in> set (devices (snd (swept_jobs grace u hold_off retain now s)))"
    and e: "d_id d' = d_id e" "d_detail d' = d_detail e" "d' = e \<or> d_state d' = DeviceUnhealthy"
      "d_state e = DeviceUnhealthy \<longrightarrow> d' = e"
    by auto
  then have "e \<in> set (devices (fold demote (sweep_pending (judges now hold_off) grace u now s) s))"
    by (simp add: swept_jobs(2) [OF ok])
  then show ?thesis
  proof (rule demoted_devices [OF core])
    fix d
    assume d: "d \<in> set (devices s)" "d_id e = d_id d" "d_detail e = d_detail d"
      and "e = d \<or> (d_state e = DeviceUnhealthy \<and> d_quarantine e = QuarWorkerLost \<and> judges now hold_off
        \<or> d_state e = DeviceUnknown) \<and> d_state d \<noteq> DeviceUnhealthy"
    with e have "d' = d \<or> d_state d' = DeviceUnknown \<or> d_state d' = DeviceUnhealthy"
      "d_state d = DeviceUnhealthy \<longrightarrow> d' = d" by auto
    with d e show ?thesis by (intro bexI [of _ d]) simp_all
  qed
qed

text \<open>Inside the hold-off nothing is judged.\<close>

lemma sweep_held_off:
  assumes "now < hold_off"
  shows "snd (sweep grace u hold_off retain now s) = fold demote (sweep_pending False grace u now s) s"
    and "jobs (snd (sweep grace u hold_off retain now s)) = jobs s"
    and "leases (snd (sweep grace u hold_off retain now s)) = leases s"
  using assms
  by (simp_all add: sweep_state stale_leases_def judges_def swept_jobs_def sweep_reap_def written_off_def)

text \<open>Outside it nothing overdue is left.\<close>

lemma sweep_judged_jobs:
  assumes ok: "db_ok s" and "\<not> now < hold_off"
    and j: "j \<in> set (jobs s)" "in_flight (j_state j)"
    and dev: "(j_device_id j, st, hb) \<in> set (reporting s)" "u \<le> silence now hb"
  shows "\<not> live_on (snd (sweep grace u hold_off False now s)) (j_device_id j)"
proof -
  let ?s2 = "snd (swept_jobs grace u hold_off False now s)"
  have "j_device_id j \<in> set (sweep_reap (judges now hold_off) False u now s)"
    using assms by (force simp: sweep_reap_def judges_def written_off_def)
  then have "j_device_id x \<noteq> j_device_id j" if "x \<in> set (jobs ?s2)" "in_flight (j_state x)" for x
    using that swept_jobs(3) [OF ok, of x grace u hold_off False now] by auto
  moreover have "core_ok ?s2" using swept_jobs(1) [OF ok] by (simp add: db_ok_def)
  ultimately have "\<not> live_on ?s2 (j_device_id j)" by (intro no_flight_not_live)
  then show ?thesis
    unfolding live_on_iff using sweep_expiry(2) [OF ok] by blast
qed

lemma sweep_judged_leases:
  assumes ok: "db_ok s" and "\<not> now < hold_off"
    and l: "l \<in> set (leases (snd (sweep grace u hold_off retain now s)))" "live l"
  shows "unix now < l_expires_at l \<or> retain \<and> l_kind l = LeaseKindJob"
proof -
  let ?s2 = "snd (swept_jobs grace u hold_off retain now s)"
  have "l \<in> set (leases ?s2) \<and> live l
      \<and> l_id l \<notin> l_id ` set (stale_leases (judges now hold_off) retain now ?s2)"
    using l sweep_expiry(2) [OF ok] by blast
  then have "l \<notin> set (stale_leases (judges now hold_off) retain now ?s2)" "l \<in> set (leases ?s2)" "live l"
    by auto
  then show ?thesis using assms(2) by (auto simp: stale_leases_def judges_def)
qed

section \<open>The invariant through a heartbeat\<close>

text \<open>A supervised job holds the lease of its device.\<close>

lemma supervised_live:
  assumes "core_ok s" and "sql_exists (\<lambda>j. supervised worker running j \<and> j_device_id j = dev) (jobs s)"
  shows "live_on s dev"
  using assms by (fastforce simp: sql_exists_iff supervised_def core_ok_def jobs_leased_def live_on_iff)

text \<open>An \<open>UPDATE devices\<close> that keeps identity and owner, moves a device only to ready
  when it is free, or to busy when it is leased, and then leaves no quarantine.\<close>

lemma db_ok_restate:
  assumes "db_ok s"
    and "\<And>d. d_id (f d) = d_id d" "\<And>d. d_worker_id (f d) = d_worker_id d"
    and "\<And>d. d \<in> set (devices s) \<Longrightarrow> P d \<Longrightarrow> d_state (f d) = DeviceReady \<Longrightarrow> \<not> live_on s (d_id d)"
    and "\<And>d. d \<in> set (devices s) \<Longrightarrow> P d \<Longrightarrow> d_state (f d) = DeviceBusy \<Longrightarrow> live_on s (d_id d)"
    and "\<And>d. d \<in> set (devices s) \<Longrightarrow> P d \<Longrightarrow> d_state (f d) \<noteq> DeviceUnhealthy
           \<Longrightarrow> d_quarantine (f d) = QuarNone \<and> d_detail (f d) = ''''"
  shows "db_ok (s\<lparr>devices := sql_update P f (devices s)\<rparr>)"
proof -
  have s: "core_ok s" "busy_leased {} s" using assms(1) by (auto simp: db_ok_def)
  have "core_ok (s\<lparr>devices := sql_update P f (devices s)\<rparr>)"
    by (rule core_ok_devices [OF s(1)]) (use assms in auto)
  moreover have "busy_leased {} (s\<lparr>devices := sql_update P f (devices s)\<rparr>)"
    by (rule busy_leased_devices [OF s(2)]) (use assms in auto)
  ultimately show ?thesis by (simp add: db_ok_def)
qed

lemma db_ok_quarantine:
  "db_ok s \<Longrightarrow> d \<in> set (devices s) \<Longrightarrow> d_state d \<noteq> DeviceUnhealthy
     \<Longrightarrow> d_quarantine d = QuarNone \<and> d_detail d = ''''"
  by (simp add: db_ok_def core_ok_def quarantine_ok_def)

lemma beat_worker_db_ok:
  assumes "db_ok s" shows "db_ok (beat_worker worker at s)"
proof -
  have "distinct (map w_id (workers (beat_worker worker at s)))"
    using assms by (simp add: beat_worker_def map_key_sql_update db_ok_def core_ok_def schema_ok_def)
  then show ?thesis
    using assms unfolding beat_worker_def db_ok_def by (simp add: core_ok_workers)
qed

lemma renew_leases_db_ok: "db_ok s \<Longrightarrow> db_ok (renew_leases worker at running s)"
  unfolding renew_leases_def db_ok_def by (auto intro!: core_ok_leases simp: busy_leased_leases)

lemma restore_lost_db_ok: "db_ok s \<Longrightarrow> db_ok (restore_lost worker at running s)"
  unfolding restore_lost_def
  by (rule db_ok_restate) (auto dest: supervised_live simp: db_ok_def)

lemma drop_kill_flags_db_ok: "db_ok s \<Longrightarrow> db_ok (drop_kill_flags worker running s)"
  unfolding drop_kill_flags_def db_ok_def by (auto intro!: core_ok_jobs)

lemma unknown_to_busy_db_ok:
  assumes ok: "db_ok s" shows "db_ok (unknown_to_busy worker at running retain s)"
proof -
  have core: "core_ok s" using ok by (simp add: db_ok_def)
  have held: "live_on s x"
    if "sql_exists (\<lambda>j. supervised worker running j \<and> j_device_id j = x \<and> Q j) (jobs s)" for x Q
    using that by (intro supervised_live [OF core]) (auto simp: sql_exists_iff)
  show ?thesis
    unfolding unknown_to_busy_def Let_def
    by (rule db_ok_restate [OF ok]; (use db_ok_quarantine [OF ok] held in \<open>auto split: if_splits\<close>)?)
qed

lemma unknown_to_ready_db_ok:
  assumes ok: "db_ok s" shows "db_ok (unknown_to_ready worker at s)"
  unfolding unknown_to_ready_def
  by (rule db_ok_restate [OF ok]) (use db_ok_quarantine [OF ok] in auto)

lemma beat_devices_db_ok:
  assumes ok: "db_ok s" shows "db_ok (beat_devices worker at s)"
  unfolding beat_devices_def
  by (rule db_ok_restate [OF ok])
     (use ok db_ok_quarantine [OF ok] in \<open>auto simp: db_ok_def core_ok_def ready_free_def busy_leased_def\<close>)

lemmas heartbeat_statements_db_ok =
  beat_worker_db_ok renew_leases_db_ok restore_lost_db_ok drop_kill_flags_db_ok
  unknown_to_busy_db_ok unknown_to_ready_db_ok beat_devices_db_ok

lemma record_heartbeat_db_ok: "db_ok s \<Longrightarrow> db_ok (record_heartbeat worker at running retain s)"
  by (simp add: record_heartbeat_def Let_def heartbeat_statements_db_ok)

lemma clear_device_db_ok: "db_ok s \<Longrightarrow> db_ok (snd (clear_device dev s))"
  unfolding clear_device_def Let_def snd_conv
  by (rule db_ok_restate) (auto simp: to_ready_def)

text \<open>What a heartbeat does to the leases: only the expiry of those it names moves.\<close>

lemma leases_record_heartbeat:
  "leases (record_heartbeat worker at running retain s) =
     sql_update (\<lambda>l. live l \<and> sql_exists (\<lambda>j. supervised worker running j \<and> j_id j = l_job_id l) (jobs s))
       (\<lambda>l. l\<lparr>l_expires_at := unix (at + lease_renew_window)\<rparr>) (leases s)"
proof (cases "running = []")
  case True
  have "\<not> sql_exists (\<lambda>j. supervised worker [] j \<and> j_id j = x) (jobs s)" for x
    by (simp add: sql_exists_iff supervised_def)
  with True show ?thesis
    by (simp add: record_heartbeat_def Let_def beat_devices_def unknown_to_ready_def
        drop_kill_flags_def beat_worker_def unknown_to_busy_def sql_update_def)
next
  case False
  then show ?thesis
    by (simp add: record_heartbeat_def Let_def beat_devices_def unknown_to_ready_def
        drop_kill_flags_def beat_worker_def unknown_to_busy_def restore_lost_def renew_leases_def)
qed

end
