(* ===== verification/Store_Recover.thy ===== *)
theory Store_Recover
  imports Store_Reaper
begin

text \<open>
  Automatic recovery (\<open>src/internal/store/recover.go\<close>): a proof that no process
  survived returns a worker's quarantined devices, at most three times an hour each.
\<close>

abbreviation auto_recovery_window :: duration where
  "auto_recovery_window \<equiv> 60 * 60 * go_second"

abbreviation auto_recovery_limit :: nat where
  "auto_recovery_limit \<equiv> 3"

definition recovery_cutoff :: "time \<Rightarrow> int" where
  "recovery_cutoff now = unix (now - auto_recovery_window)"

text \<open>The candidates: device and the reason it is cleared from, by device id.\<close>

definition recoverable :: "string \<Rightarrow> db \<Rightarrow> (string \<times> quarantine) list" where
  "recoverable worker s =
     map (\<lambda>d. (d_id d, d_quarantine d))
       (sort_key d_id
         (filter (\<lambda>d. d_worker_id d = worker \<and> d_state d = DeviceUnhealthy
                     \<and> reboot_clearable (d_quarantine d) \<and> \<not> live_on s (d_id d)) (devices s)))"

definition prune_recoveries :: "string \<Rightarrow> int \<Rightarrow> db \<Rightarrow> db" where
  "prune_recoveries dev cutoff s =
     s\<lparr>device_recoveries :=
         sql_delete (\<lambda>r. dr_device_id r = dev \<and> dr_at r < cutoff) (device_recoveries s)\<rparr>"

definition recover_one ::
  "time \<Rightarrow> string \<times> quarantine \<Rightarrow> (string \<times> quarantine) list \<times> db
     \<Rightarrow> (string \<times> quarantine) list \<times> db" where
  "recover_one now cand acc =
     (let s1 = prune_recoveries (fst cand) (recovery_cutoff now) (snd acc);
          hit = (\<lambda>d. d_id d = fst cand \<and> d_state d = DeviceUnhealthy)
      in if auto_recovery_limit \<le> sql_count (\<lambda>r. dr_device_id r = fst cand) (device_recoveries s1)
         then (fst acc, s1)
         else (let s2 = s1\<lparr>devices := sql_update hit to_ready (devices s1)\<rparr>
               in if sql_count hit (devices s1) = 0 then (fst acc, s2)
                  else (fst acc @ [cand],
                        s2\<lparr>device_recoveries := device_recoveries s2 @
                            [\<lparr>dr_device_id = fst cand, dr_at = unix now, dr_reason = snd cand\<rparr>]\<rparr>)))"

definition auto_recover ::
  "string \<Rightarrow> recovery_proof \<Rightarrow> time \<Rightarrow> db \<Rightarrow> (string \<times> quarantine) list \<times> db" where
  "auto_recover worker pf now s =
     (if \<not> proves pf then ([], s) else fold (recover_one now) (recoverable worker s) ([], s))"

text \<open>\<open>RecoveryHistoryFor\<close>: newest first, and how many returns are left.\<close>

record recovery_history =
  rh_recoveries :: "(time \<times> quarantine) list"
  rh_remaining :: int
  rh_limit :: nat
  rh_window :: duration

definition recovery_history_for :: "string \<Rightarrow> time \<Rightarrow> db \<Rightarrow> recovery_history" where
  "recovery_history_for dev now s =
     (let rs = map (\<lambda>r. (from_unix (dr_at r), dr_reason r))
                 (sort_key (\<lambda>r. - dr_at r)
                   (filter (\<lambda>r. dr_device_id r = dev \<and> recovery_cutoff now \<le> dr_at r)
                      (device_recoveries s)));
          left = int auto_recovery_limit - int (length rs)
      in \<lparr>rh_recoveries = rs, rh_remaining = (if left < 0 then 0 else left),
          rh_limit = auto_recovery_limit, rh_window = auto_recovery_window\<rparr>)"

section \<open>The invariant\<close>

lemma prune_recoveries_frame [simp]:
  "devices (prune_recoveries dev c s) = devices s" "leases (prune_recoveries dev c s) = leases s"
  "jobs (prune_recoveries dev c s) = jobs s" "live_on (prune_recoveries dev c s) x = live_on s x"
  by (simp_all add: prune_recoveries_def)

lemma prune_recoveries_db_ok [simp]: "db_ok (prune_recoveries dev c s) = db_ok s"
  by (simp add: prune_recoveries_def db_ok_def)

lemma recover_one_frame [simp]:
  "leases (snd (recover_one now c acc)) = leases (snd acc)"
  "jobs (snd (recover_one now c acc)) = jobs (snd acc)"
  "live_on (snd (recover_one now c acc)) x = live_on (snd acc) x"
  by (simp_all add: recover_one_def Let_def)

lemma recover_one_devices:
  "devices (snd (recover_one now c acc)) =
     (if auto_recovery_limit \<le> sql_count (\<lambda>r. dr_device_id r = fst c)
           (device_recoveries (prune_recoveries (fst c) (recovery_cutoff now) (snd acc)))
      then devices (snd acc)
      else sql_update (\<lambda>d. d_id d = fst c \<and> d_state d = DeviceUnhealthy) to_ready (devices (snd acc)))"
  by (simp add: recover_one_def Let_def)

lemma recover_one_db_ok:
  assumes "db_ok (snd acc)" and "\<not> live_on (snd acc) (fst c)"
  shows "db_ok (snd (recover_one now c acc))"
proof -
  let ?s = "prune_recoveries (fst c) (recovery_cutoff now) (snd acc)"
  have "db_ok (?s\<lparr>devices := sql_update (\<lambda>d. d_id d = fst c \<and> d_state d = DeviceUnhealthy)
      to_ready (devices ?s)\<rparr>)"
    by (rule db_ok_restate) (use assms in \<open>auto simp: to_ready_def\<close>)
  then show ?thesis using assms(1) by (simp add: recover_one_def Let_def)
qed

lemma fold_recover_one_db_ok:
  assumes "db_ok (snd acc)" and "\<And>c. c \<in> set cs \<Longrightarrow> \<not> live_on (snd acc) (fst c)"
  shows "db_ok (snd (fold (recover_one now) cs acc))"
  using assms
proof (induction cs arbitrary: acc)
  case (Cons c cs)
  have "db_ok (snd (recover_one now c acc))"
    by (rule recover_one_db_ok) (use Cons.prems in auto)
  then show ?case using Cons.IH [of "recover_one now c acc"] Cons.prems(2) by simp
qed simp

lemma recoverableD:
  "c \<in> set (recoverable worker s) \<Longrightarrow>
     (\<exists>d \<in> set (devices s). d_id d = fst c \<and> d_quarantine d = snd c \<and> d_worker_id d = worker
        \<and> d_state d = DeviceUnhealthy \<and> reboot_clearable (d_quarantine d)) \<and> \<not> live_on s (fst c)"
  by (auto simp: recoverable_def)

lemma auto_recover_db_ok: "db_ok s \<Longrightarrow> db_ok (snd (auto_recover worker pf now s))"
  by (auto simp: auto_recover_def dest: recoverableD intro!: fold_recover_one_db_ok)

section \<open>The flap guard\<close>

text \<open>The recoveries of a device inside the window that ends at \<open>now\<close>.\<close>

definition recent_recoveries :: "string \<Rightarrow> time \<Rightarrow> db \<Rightarrow> nat" where
  "recent_recoveries dev now s =
     sql_count (\<lambda>r. dr_device_id r = dev \<and> recovery_cutoff now \<le> dr_at r) (device_recoveries s)"

lemma pruned_count:
  "sql_count (\<lambda>r. dr_device_id r = dev)
     (device_recoveries (prune_recoveries dev (recovery_cutoff now) s)) = recent_recoveries dev now s"
  by (simp add: prune_recoveries_def recent_recoveries_def sql_count_def sql_delete_def)
     (rule arg_cong [where f = length], rule filter_cong, auto)

lemma recent_prune:
  "recent_recoveries x now (prune_recoveries dev (recovery_cutoff now) s) = recent_recoveries x now s"
  by (simp add: prune_recoveries_def recent_recoveries_def sql_count_def sql_delete_def)
     (rule arg_cong [where f = length], rule filter_cong, auto)

text \<open>One candidate: a return is counted, and refused when the window is full.\<close>

lemma recover_one_recent:
  "recent_recoveries x now (snd (recover_one now c acc)) =
     (if x = fst c \<and> recent_recoveries x now (snd acc) < auto_recovery_limit
         \<and> sql_exists (\<lambda>d. d_id d = x \<and> d_state d = DeviceUnhealthy) (devices (snd acc))
      then Suc (recent_recoveries x now (snd acc)) else recent_recoveries x now (snd acc))"
proof -
  have now: "recovery_cutoff now \<le> unix now" by (simp add: recovery_cutoff_def unix_mono)
  have add: "recent_recoveries x now (s\<lparr>devices := ds, device_recoveries := device_recoveries s @ [r]\<rparr>)
      = recent_recoveries x now s + (if dr_device_id r = x \<and> recovery_cutoff now \<le> dr_at r then 1 else 0)"
    for s r ds by (simp add: recent_recoveries_def sql_count_def)
  have dev: "recent_recoveries x now (s\<lparr>devices := ds\<rparr>) = recent_recoveries x now s" for s ds
    by (simp add: recent_recoveries_def)
  show ?thesis
    using now
    by (auto simp: recover_one_def Let_def pruned_count recent_prune add dev
        sql_count_0 sql_exists_iff)
qed

lemma recover_one_limit:
  "recent_recoveries x now (snd acc) \<le> auto_recovery_limit \<Longrightarrow>
     recent_recoveries x now (snd (recover_one now c acc)) \<le> auto_recovery_limit"
  by (auto simp: recover_one_recent)

end
