(* ===== verification/Store_Facts.thy ===== *)
theory Store_Facts
  imports Store_DB
begin

text \<open>
  What the store remembers about a device beside its lease: labels
  (\<open>src/internal/store/labels.go\<close>), usage sheets (\<open>docs.go\<close>) and the removal of a
  device (\<open>retire.go\<close>). A Go map that is iterated is the list of its entries.
\<close>

section \<open>Labels\<close>

record label =
  label_key :: string
  label_value :: string
  label_source :: string
  label_updated_at :: time

definition to_label :: "label_row \<Rightarrow> label" where
  "to_label r =
     \<lparr>label_key = lb_key r, label_value = lb_value r, label_source = lb_source r,
      label_updated_at = from_unix (lb_updated_at r)\<rparr>"

text \<open>The primary key of \<open>device_labels\<close>.\<close>

definition label_pk :: "label_row \<Rightarrow> string \<times> string \<times> string" where
  "label_pk r = (lb_device_id r, lb_key r, lb_source r)"

interpretation label_table: keyed_table device_labels "\<lambda>xs s. s\<lparr>device_labels := xs\<rparr>" label_pk
  by unfold_locales simp_all

definition new_label :: "string \<Rightarrow> string \<Rightarrow> int \<Rightarrow> string \<times> string \<Rightarrow> label_row" where
  "new_label dev source at kv =
     \<lparr>lb_device_id = dev, lb_key = fst kv, lb_value = snd kv, lb_source = source,
      lb_updated_at = at\<rparr>"

fun insert_labels ::
  "string \<Rightarrow> string \<Rightarrow> int \<Rightarrow> (string \<times> string) list \<Rightarrow> label_row list \<Rightarrow> label_row list result" where
  "insert_labels dev source at [] rows = Inr rows"
| "insert_labels dev source at ((k, v) # kvs) rows =
     (if sql_exists (\<lambda>r. label_pk r = (dev, k, source)) rows
      then Inl (ErrConstraint ''device_labels'')
      else insert_labels dev source at kvs
             (rows @ [new_label dev source at (k, v)]))"

definition replace_labels ::
  "string \<Rightarrow> string \<Rightarrow> (string \<times> string) list \<Rightarrow> time \<Rightarrow> db \<Rightarrow> db result" where
  "replace_labels dev source kvs at s =
     (if source \<noteq> SourceDetected \<and> source \<noteq> SourceDeclared
      then Inl (ErrText ''unknown label source'')
      else
        (case insert_labels dev source (unix at) kvs
                (sql_delete (\<lambda>r. lb_device_id r = dev \<and> lb_source r = source) (device_labels s)) of
           Inl e \<Rightarrow> Inl e
         | Inr rows \<Rightarrow> Inr (s\<lparr>device_labels := rows\<rparr>)))"

definition labels_for :: "string \<Rightarrow> db \<Rightarrow> label list" where
  "labels_for dev s =
     map to_label
       (sort_key (\<lambda>r. (lb_key r, lb_source r)) (filter (\<lambda>r. lb_device_id r = dev) (device_labels s)))"

text \<open>The loop of \<open>AllLabels\<close>: append each row to its device's list.\<close>

definition add_label :: "label_row \<Rightarrow> (string \<rightharpoonup> label list) \<Rightarrow> (string \<rightharpoonup> label list)" where
  "add_label r out =
     out(lb_device_id r \<mapsto>
           (case out (lb_device_id r) of None \<Rightarrow> [] | Some ls \<Rightarrow> ls) @ [to_label r])"

definition all_labels :: "db \<Rightarrow> string \<rightharpoonup> label list" where
  "all_labels s =
     fold add_label
       (sort_key (\<lambda>r. (lb_device_id r, lb_key r, lb_source r)) (device_labels s)) Map.empty"

text \<open>The loop of \<open>LabelSnapshot\<close>: declared rows first, so a detected one overwrites.\<close>

definition snap_label ::
  "label_row \<Rightarrow> (string \<rightharpoonup> (string \<rightharpoonup> string)) \<Rightarrow> (string \<rightharpoonup> (string \<rightharpoonup> string))" where
  "snap_label r out =
     out(lb_device_id r \<mapsto>
           (case out (lb_device_id r) of None \<Rightarrow> Map.empty | Some m \<Rightarrow> m)(lb_key r \<mapsto> lb_value r))"

definition snapshot_order :: "label_row \<Rightarrow> string \<times> string \<times> nat" where
  "snapshot_order r =
     (lb_device_id r, lb_key r, if lb_source r = SourceDeclared then 0 else 1)"

definition label_snapshot :: "db \<Rightarrow> string \<rightharpoonup> (string \<rightharpoonup> string)" where
  "label_snapshot s = fold snap_label (sort_key snapshot_order (device_labels s)) Map.empty"

text \<open>Reading \<open>snap[id]\<close>: a missing entry is a nil map, in which every key is absent.\<close>

definition labels_of :: "(string \<rightharpoonup> (string \<rightharpoonup> string)) \<Rightarrow> string \<Rightarrow> (string \<rightharpoonup> string)" where
  "labels_of snap dev = (case snap dev of None \<Rightarrow> Map.empty | Some m \<Rightarrow> m)"

subsection \<open>What the snapshot holds\<close>

text \<open>The stored value of a key under one source.\<close>

definition stored_label :: "db \<Rightarrow> string \<Rightarrow> string \<Rightarrow> string \<Rightarrow> string option" where
  "stored_label s dev source k =
     map_option lb_value (sql_row (\<lambda>r. label_pk r = (dev, k, source)) (device_labels s))"

definition labels_ok :: "db \<Rightarrow> bool" where
  "labels_ok s \<longleftrightarrow>
     distinct (map label_pk (device_labels s)) \<and>
     (\<forall>r \<in> set (device_labels s). lb_source r = SourceDetected \<or> lb_source r = SourceDeclared)"

fun last_value :: "string \<Rightarrow> string \<Rightarrow> label_row list \<Rightarrow> string option" where
  "last_value dev k [] = None"
| "last_value dev k (r # rs) =
     (case last_value dev k rs of
        Some v \<Rightarrow> Some v
      | None \<Rightarrow> if lb_device_id r = dev \<and> lb_key r = k then Some (lb_value r) else None)"

lemma fold_snap_label:
  "labels_of (fold snap_label rs out) dev k =
     (case last_value dev k rs of Some v \<Rightarrow> Some v | None \<Rightarrow> labels_of out dev k)"
  by (induction rs arbitrary: out)
     (auto simp: snap_label_def labels_of_def split: option.splits)

lemma last_value_filter:
  "last_value dev k rs = last_value dev k (filter (\<lambda>r. lb_device_id r = dev \<and> lb_key r = k) rs)"
  by (induction rs) (auto split: option.splits)

text \<open>Of the at most two rows of a key, the detected one comes last in the order.\<close>

lemma two_sources:
  assumes "distinct (map label_pk rs)"
    and "\<forall>r \<in> set rs. lb_device_id r = dev \<and> lb_key r = k
           \<and> (lb_source r = SourceDetected \<or> lb_source r = SourceDeclared)"
  shows "last_value dev k (sort_key snapshot_order rs) =
      (case sql_row (\<lambda>r. label_pk r = (dev, k, SourceDetected)) rs of
         Some r \<Rightarrow> Some (lb_value r)
       | None \<Rightarrow> map_option lb_value (sql_row (\<lambda>r. label_pk r = (dev, k, SourceDeclared)) rs))"
proof -
  have pk: "label_pk r = (dev, k, lb_source r)"
    and src: "lb_source r = SourceDetected \<or> lb_source r = SourceDeclared" if "r \<in> set rs" for r
    using assms(2) that by (auto simp: label_pk_def)
  have dist: "distinct (map lb_source rs)"
    using assms(1) pk by (auto simp: distinct_map inj_on_def)
  have "card (set (map lb_source rs)) \<le> card {SourceDetected, SourceDeclared}"
    using src by (intro card_mono) auto
  then have "length rs \<le> 2"
    using distinct_card [OF dist] by simp
  then consider "rs = []" | r where "rs = [r]" | r t where "rs = [r, t]"
    by (cases rs; cases "tl rs"; cases "tl (tl rs)") auto
  then show ?thesis
  proof cases
    case (3 r t)
    then have "lb_source r \<noteq> lb_source t" using dist by simp
    then consider "lb_source r = SourceDetected" "lb_source t = SourceDeclared"
      | "lb_source r = SourceDeclared" "lb_source t = SourceDetected"
      using 3 src [of r] src [of t] by auto
    then show ?thesis
      using 3 assms(2) by cases (simp_all add: snapshot_order_def label_pk_def)
  next
    case (2 r)
    then consider "lb_source r = SourceDetected" | "lb_source r = SourceDeclared"
      using src [of r] by auto
    then show ?thesis
      using 2 assms(2) by cases (simp_all add: label_pk_def)
  qed simp
qed

lemma label_snapshot_value:
  assumes "labels_ok s"
  shows "labels_of (label_snapshot s) dev k =
      (case stored_label s dev SourceDetected k of
         Some v \<Rightarrow> Some v | None \<Rightarrow> stored_label s dev SourceDeclared k)"
proof -
  let ?P = "\<lambda>r. lb_device_id r = dev \<and> lb_key r = k"
  let ?rs = "filter ?P (device_labels s)"
  have row: "sql_row (\<lambda>r. label_pk r = (dev, k, src)) (filter ?P rows)
      = sql_row (\<lambda>r. label_pk r = (dev, k, src)) rows" for src rows
    by (induction rows) (auto simp: label_pk_def)
  have "labels_of (label_snapshot s) dev k = last_value dev k (sort_key snapshot_order ?rs)"
    unfolding label_snapshot_def fold_snap_label
    by (subst last_value_filter) (simp add: filter_sort labels_of_def split: option.splits)
  also have "\<dots> = (case sql_row (\<lambda>r. label_pk r = (dev, k, SourceDetected)) ?rs of
         Some r \<Rightarrow> Some (lb_value r)
       | None \<Rightarrow> map_option lb_value (sql_row (\<lambda>r. label_pk r = (dev, k, SourceDeclared)) ?rs))"
    using assms by (intro two_sources) (auto simp: labels_ok_def distinct_map_filter)
  finally show ?thesis
    by (simp add: stored_label_def row split: option.splits)
qed

subsection \<open>What a replacement does\<close>

lemma new_label_simps [simp]:
  "label_pk (new_label dev source at kv) = (dev, fst kv, source)"
  "lb_value (new_label dev source at kv) = snd kv"
  "lb_device_id (new_label dev source at kv) = dev"
  "lb_key (new_label dev source at kv) = fst kv"
  "lb_source (new_label dev source at kv) = source"
  by (simp_all add: new_label_def label_pk_def)

lemma insert_labels_Inr:
  assumes "distinct (map fst kvs)"
    and "\<forall>r \<in> set rows. lb_device_id r = dev \<and> lb_source r = source \<longrightarrow> lb_key r \<notin> set (map fst kvs)"
  shows "insert_labels dev source at kvs rows = Inr (rows @ map (new_label dev source at) kvs)"
  using assms
proof (induction dev source at kvs rows rule: insert_labels.induct)
  case (2 dev source at k v kvs rows)
  have "\<not> sql_exists (\<lambda>r. label_pk r = (dev, k, source)) rows"
    using 2(3) by (auto simp: sql_exists_iff label_pk_def)
  with 2 show ?case by force
qed simp

lemma replace_labels_Inr:
  assumes "distinct (map fst kvs)" and "source = SourceDetected \<or> source = SourceDeclared"
  shows "replace_labels dev source kvs at s = Inr (s\<lparr>device_labels :=
    sql_delete (\<lambda>r. lb_device_id r = dev \<and> lb_source r = source) (device_labels s) @
    map (new_label dev source (unix at)) kvs\<rparr>)"
proof -
  have "insert_labels dev source (unix at) kvs
      (sql_delete (\<lambda>r. lb_device_id r = dev \<and> lb_source r = source) (device_labels s))
    = Inr (sql_delete (\<lambda>r. lb_device_id r = dev \<and> lb_source r = source) (device_labels s) @
        map (new_label dev source (unix at)) kvs)"
    using assms(1) by (rule insert_labels_Inr) (auto simp: set_sql_delete)
  with assms(2) show ?thesis unfolding replace_labels_def by auto
qed

lemma replace_labels_source:
  "replace_labels dev source kvs at s = Inr s' \<Longrightarrow> source = SourceDetected \<or> source = SourceDeclared"
  by (auto simp: replace_labels_def split: if_splits)

lemma sql_row_append:
  "sql_row P (xs @ ys) = (case sql_row P xs of Some r \<Rightarrow> Some r | None \<Rightarrow> sql_row P ys)"
  by (induction xs) auto

lemma replace_labels_stored:
  assumes "distinct (map fst kvs)" and "replace_labels dev source kvs at s = Inr s'"
  shows "stored_label s' dev' source' k =
    (if dev' = dev \<and> source' = source then map_of kvs k else stored_label s dev' source' k)"
proof -
  have new: "map_option lb_value (sql_row (\<lambda>r. label_pk r = (dev', k, source'))
      (map (new_label dev source (unix at)) kvs))
      = (if dev' = dev \<and> source' = source then map_of kvs k else None)"
    by (induction kvs) auto
  have old: "sql_row (\<lambda>r. label_pk r = (dev', k, source'))
      (sql_delete (\<lambda>r. lb_device_id r = dev \<and> lb_source r = source) rows)
      = (if dev' = dev \<and> source' = source then None
         else sql_row (\<lambda>r. label_pk r = (dev', k, source')) rows)" for rows
    by (induction rows) (auto simp: label_pk_def)
  have s': "device_labels s' =
      sql_delete (\<lambda>r. lb_device_id r = dev \<and> lb_source r = source) (device_labels s) @
      map (new_label dev source (unix at)) kvs"
    using assms(2) replace_labels_Inr [OF assms(1) replace_labels_source [OF assms(2)]] by auto
  show ?thesis
    unfolding stored_label_def s' sql_row_append old
    using new by (cases "dev' = dev \<and> source' = source") (auto split: option.splits)
qed

lemma replace_labels_ok:
  assumes "distinct (map fst kvs)" and "replace_labels dev source kvs at s = Inr s'" and "labels_ok s"
  shows "labels_ok s'"
proof -
  note src = replace_labels_source [OF assms(2)]
  let ?old = "sql_delete (\<lambda>r. lb_device_id r = dev \<and> lb_source r = source) (device_labels s)"
  have s': "device_labels s' = ?old @ map (new_label dev source (unix at)) kvs"
    using assms(2) replace_labels_Inr [OF assms(1) src] by auto
  have "distinct (map label_pk (map (new_label dev source (unix at)) kvs))"
    using assms(1) by (induction kvs) auto
  moreover have "distinct (map label_pk ?old)"
    using assms(3) by (simp add: labels_ok_def sql_delete_def distinct_map_filter)
  moreover have "label_pk r \<noteq> label_pk (new_label dev source (unix at) kv)" if "r \<in> set ?old" for r kv
    using that by (auto simp: set_sql_delete label_pk_def)
  ultimately have "distinct (map label_pk (device_labels s'))"
    unfolding s' map_append distinct_append set_map by blast
  then show ?thesis
    using assms(3) src by (auto simp: labels_ok_def s' set_sql_delete)
qed

section \<open>Usage sheets\<close>

definition upsert_host_doc :: "string \<Rightarrow> string \<Rightarrow> string \<Rightarrow> time \<Rightarrow> db \<Rightarrow> db" where
  "upsert_host_doc host dev body at s =
     s\<lparr>host_docs :=
         sql_upsert (\<lambda>r. hd_host r = host \<and> hd_device_id r = dev)
           (\<lambda>r. r\<lparr>hd_body := body, hd_updated_at := unix at\<rparr>)
           \<lparr>hd_host = host, hd_device_id = dev, hd_body = body, hd_updated_at = unix at\<rparr>
           (host_docs s)\<rparr>"

text \<open>No row is an empty body and the zero time, here \<open>None\<close>.\<close>

definition host_doc :: "string \<Rightarrow> string \<Rightarrow> db \<Rightarrow> string \<times> time option" where
  "host_doc host dev s =
     (case sql_row (\<lambda>r. hd_host r = host \<and> hd_device_id r = dev) (host_docs s) of
        None \<Rightarrow> ('''', None)
      | Some r \<Rightarrow> (hd_body r, Some (from_unix (hd_updated_at r))))"

lemma sql_row_update_hit:
  assumes "\<And>r. Q r \<Longrightarrow> P r" "\<And>r. P r \<Longrightarrow> Q r" "\<And>r. P r \<Longrightarrow> P (f r)"
  shows "sql_row Q (sql_update P f rows) = map_option f (sql_row P rows)"
  using assms by (induction rows) auto

lemma sql_row_update_miss:
  assumes "\<And>r. P r \<Longrightarrow> \<not> Q r" "\<And>r. P r \<Longrightarrow> \<not> Q (f r)"
  shows "sql_row Q (sql_update P f rows) = sql_row Q rows"
  using assms by (induction rows) auto

lemma host_doc_upsert:
  "host_doc host' dev' (upsert_host_doc host dev body at s) =
     (if host' = host \<and> dev' = dev then (body, Some (from_unix (unix at)))
      else host_doc host' dev' s)"
proof (cases "host' = host \<and> dev' = dev")
  case True
  let ?P = "\<lambda>r. hd_host r = host \<and> hd_device_id r = dev"
  have hit: "sql_row ?P (sql_update ?P (\<lambda>r. r\<lparr>hd_body := body, hd_updated_at := unix at\<rparr>) (host_docs s))
      = map_option (\<lambda>r. r\<lparr>hd_body := body, hd_updated_at := unix at\<rparr>) (sql_row ?P (host_docs s))"
    by (rule sql_row_update_hit) auto
  have "sql_exists ?P (host_docs s) \<longleftrightarrow> sql_row ?P (host_docs s) \<noteq> None"
    by (simp add: sql_exists_iff sql_row_None)
  with True hit show ?thesis
    by (auto simp: host_doc_def upsert_host_doc_def sql_upsert_def sql_row_append split: option.splits)
next
  case False
  have "sql_row (\<lambda>r. hd_host r = host' \<and> hd_device_id r = dev')
      (sql_update (\<lambda>r. hd_host r = host \<and> hd_device_id r = dev)
        (\<lambda>r. r\<lparr>hd_body := body, hd_updated_at := unix at\<rparr>) (host_docs s))
      = sql_row (\<lambda>r. hd_host r = host' \<and> hd_device_id r = dev') (host_docs s)"
    using False by (intro sql_row_update_miss) auto
  with False show ?thesis
    by (auto simp: host_doc_def upsert_host_doc_def sql_upsert_def sql_row_append split: option.splits)
qed

section \<open>Retiring a device\<close>

definition retire_device :: "string \<Rightarrow> db \<Rightarrow> db result" where
  "retire_device dev s =
     (case sql_row (\<lambda>d. d_id d = dev) (devices s) of
        None \<Rightarrow> Inl (ErrDeviceNotFound dev)
      | Some _ \<Rightarrow>
          (if 0 < sql_count (\<lambda>l. l_device_id l = dev \<and> live l) (leases s)
           then Inl (ErrDeviceBusy dev)
           else Inr (s\<lparr>device_labels := sql_delete (\<lambda>r. lb_device_id r = dev) (device_labels s),
                       host_docs := sql_delete (\<lambda>r. hd_device_id r = dev) (host_docs s),
                       reservations := sql_delete (\<lambda>r. rv_device_id r = dev) (reservations s),
                       leases := sql_delete (\<lambda>l. l_device_id l = dev) (leases s),
                       devices := sql_delete (\<lambda>d. d_id d = dev) (devices s)\<rparr>)))"

lemma retire_device_db_ok:
  assumes ok: "db_ok s" and ret: "retire_device dev s = Inr s'"
  shows "db_ok s'"
proof -
  have free: "\<not> live_on s dev"
    using ret by (auto simp: retire_device_def sql_count_pos live_on_iff split: option.splits if_splits)
  have ds: "set (devices s') = {d \<in> set (devices s). d_id d \<noteq> dev}"
    and ls: "set (leases s') = {l \<in> set (leases s). l_device_id l \<noteq> dev}"
    and js: "jobs s' = jobs s" and ws: "workers s' = workers s"
    using ret by (auto simp: retire_device_def sql_simps split: option.splits if_splits)
  have lon: "live_on s' x \<longleftrightarrow> live_on s x" for x
    using free by (auto simp: live_on_iff ls)
  have s': "devices s' = filter (\<lambda>d. d_id d \<noteq> dev) (devices s)"
      "leases s' = filter (\<lambda>l. l_device_id l \<noteq> dev) (leases s)"
    using ret by (auto simp: retire_device_def sql_delete_def split: option.splits if_splits)
  have "filter live (leases s') = filter (\<lambda>l. l_device_id l \<noteq> dev) (filter live (leases s))"
    by (simp add: s' conj_commute)
  then have "distinct (map l_device_id (filter live (leases s')))"
    using ok by (simp only: db_ok_def core_ok_def schema_ok_def distinct_map_filter)
  moreover have "distinct (map d_id (devices s'))" "distinct (map l_id (leases s'))"
    using ok by (simp_all add: s' db_ok_def core_ok_def schema_ok_def distinct_map_filter)
  moreover have "jobs_leased s'"
    using ok free by (fastforce simp: db_ok_def core_ok_def jobs_leased_def ls ds js live_on_iff)
  ultimately show ?thesis
    using ok by (auto simp: db_ok_def core_defs busy_leased_def lon ds ls js ws)
qed

end
