(* ===== verification/Go_Strings.thy ===== *)
theory Go_Strings
  imports RC_Prelude
begin

text \<open>
  The functions of Go's \<open>strings\<close> package the code uses, on byte strings: a
  \<open>string\<close> is the list of the bytes of a Go string, so a code point beyond ASCII
  is several characters. \<open>TrimSpace\<close> cuts Unicode white space, which is a finite
  list of UTF-8 encodings; because UTF-8 is self-synchronising, cutting encodings
  off the front and the back of the bytes is what decoding runes does.
\<close>

section \<open>Prefixes, Cut, Split, Join\<close>

fun has_prefix :: "string \<Rightarrow> string \<Rightarrow> bool" where
  "has_prefix [] s = True"
| "has_prefix (p # ps) [] = False"
| "has_prefix (p # ps) (c # cs) = (p = c \<and> has_prefix ps cs)"

lemma has_prefix_iff: "has_prefix p s \<longleftrightarrow> (\<exists>t. s = p @ t)"
  by (induction p s rule: has_prefix.induct) auto

fun cut_at :: "string \<Rightarrow> string \<Rightarrow> (string \<times> string) option" where
  "cut_at sep [] = (if sep = [] then Some ([], []) else None)"
| "cut_at sep (c # cs) =
     (if has_prefix sep (c # cs) then Some ([], drop (length sep) (c # cs))
      else map_option (\<lambda>(b, a). (c # b, a)) (cut_at sep cs))"

fun split_on :: "char \<Rightarrow> string \<Rightarrow> string list" where
  "split_on d [] = [[]]"
| "split_on d (c # cs) =
     (if c = d then [] # split_on d cs
      else (case split_on d cs of [] \<Rightarrow> [[c]] | w # ws \<Rightarrow> (c # w) # ws))"

fun join_with :: "char \<Rightarrow> string list \<Rightarrow> string" where
  "join_with d [] = []"
| "join_with d [w] = w"
| "join_with d (w # v # ws) = w @ [d] @ join_with d (v # ws)"

lemma split_on_not_Nil [simp]: "split_on d s \<noteq> []"
  by (induction s) (auto split: list.splits)

lemma split_on_no_sep: "d \<notin> set s \<Longrightarrow> split_on d s = [s]"
  by (induction s) auto

lemma split_on_append:
  "d \<notin> set w \<Longrightarrow> split_on d (w @ d # s) = w # split_on d s"
  by (induction w) auto

lemma split_on_join:
  assumes "ws \<noteq> []" and "\<forall>w \<in> set ws. d \<notin> set w"
  shows "split_on d (join_with d ws) = ws"
  using assms
  by (induction d ws rule: join_with.induct) (auto simp: split_on_no_sep split_on_append)

lemma split_on_parts: "w \<in> set (split_on d s) \<Longrightarrow> d \<notin> set w \<and> set w \<subseteq> set s"
proof (induction s arbitrary: w)
  case (Cons c s)
  show ?case
  proof (cases "c = d")
    case True
    with Cons show ?thesis by auto
  next
    case False
    obtain v vs where vs: "split_on d s = v # vs" by (cases "split_on d s") auto
    with Cons.IH have "d \<notin> set v \<and> set v \<subseteq> set s"
      "\<And>u. u \<in> set vs \<Longrightarrow> d \<notin> set u \<and> set u \<subseteq> set s" by auto
    with False vs Cons.prems show ?thesis by auto
  qed
qed simp

lemma cut_Some: "cut_at sep s = Some (b, a) \<Longrightarrow> s = b @ sep @ a"
proof (induction sep s arbitrary: b a rule: cut_at.induct)
  case (2 sep c cs)
  then show ?case
    by (auto split: if_splits simp: has_prefix_iff)
qed (auto split: if_splits)

lemma cut_None:
  assumes "c \<in> set sep" and "c \<notin> set s"
  shows "cut_at sep s = None"
  using assms
proof (induction sep s rule: cut_at.induct)
  case (2 sep d ds)
  have "\<not> has_prefix sep (d # ds)"
    using 2(2,3) unfolding has_prefix_iff by (metis Un_iff set_append)
  with 2 show ?case by auto
qed auto

lemma cut_first:
  assumes "c \<notin> set b"
  shows "cut_at (c # cs) (b @ (c # cs) @ a) = Some (b, a)"
  using assms by (induction b) (auto simp: has_prefix_iff)

section \<open>TrimSpace\<close>

definition space_encodings :: "string list" where
  "space_encodings =
     [[CHR 0x09], [CHR 0x0A], [CHR 0x0B], [CHR 0x0C], [CHR 0x0D], [CHR 0x20],
      [CHR 0xC2, CHR 0x85], [CHR 0xC2, CHR 0xA0],
      [CHR 0xE1, CHR 0x9A, CHR 0x80],
      [CHR 0xE2, CHR 0x80, CHR 0x80], [CHR 0xE2, CHR 0x80, CHR 0x81],
      [CHR 0xE2, CHR 0x80, CHR 0x82], [CHR 0xE2, CHR 0x80, CHR 0x83],
      [CHR 0xE2, CHR 0x80, CHR 0x84], [CHR 0xE2, CHR 0x80, CHR 0x85],
      [CHR 0xE2, CHR 0x80, CHR 0x86], [CHR 0xE2, CHR 0x80, CHR 0x87],
      [CHR 0xE2, CHR 0x80, CHR 0x88], [CHR 0xE2, CHR 0x80, CHR 0x89],
      [CHR 0xE2, CHR 0x80, CHR 0x8A],
      [CHR 0xE2, CHR 0x80, CHR 0xA8], [CHR 0xE2, CHR 0x80, CHR 0xA9],
      [CHR 0xE2, CHR 0x80, CHR 0xAF], [CHR 0xE2, CHR 0x81, CHR 0x9F],
      [CHR 0xE3, CHR 0x80, CHR 0x80]]"

text \<open>Cut encodings off the front while there is one; \<open>e\<close> is never empty.\<close>

function trim_front :: "string list \<Rightarrow> string \<Rightarrow> string" where
  "trim_front encs s =
     (case List.find (\<lambda>e. e \<noteq> [] \<and> has_prefix e s) encs of
        None \<Rightarrow> s
      | Some e \<Rightarrow> trim_front encs (drop (length e) s))"
  by pat_completeness auto
termination
proof (relation "measure (\<lambda>(encs, s). length s)", goal_cases)
  case (2 encs s e)
  then have "e \<noteq> []" "has_prefix e s" by (auto simp: find_Some_iff)
  then show ?case by (auto simp: has_prefix_iff)
qed auto

declare trim_front.simps [simp del]

definition trim_space :: "string \<Rightarrow> string" where
  "trim_space s =
     rev (trim_front (map rev space_encodings) (rev (trim_front space_encodings s)))"

definition starts_clean :: "string list \<Rightarrow> string \<Rightarrow> bool" where
  "starts_clean encs s \<longleftrightarrow> (\<forall>e \<in> set encs. e \<noteq> [] \<longrightarrow> \<not> has_prefix e s)"

definition trimmed :: "string \<Rightarrow> bool" where
  "trimmed s \<longleftrightarrow> starts_clean space_encodings s \<and> starts_clean (map rev space_encodings) (rev s)"

lemma trim_front_None:
  "List.find (\<lambda>e. e \<noteq> [] \<and> has_prefix e s) encs = None \<Longrightarrow> trim_front encs s = s"
  by (subst trim_front.simps) simp

lemma trim_front_clean: "starts_clean encs s \<Longrightarrow> trim_front encs s = s"
  by (rule trim_front_None) (auto simp: starts_clean_def find_None_iff)

lemma trim_front_suffix: "\<exists>p. s = p @ trim_front encs s"
proof (induction encs s rule: trim_front.induct)
  case (1 encs s)
  show ?case
  proof (cases "List.find (\<lambda>e. e \<noteq> [] \<and> has_prefix e s) encs")
    case None
    then show ?thesis by (simp add: trim_front_None)
  next
    case (Some e)
    then have "has_prefix e s" by (auto simp: find_Some_iff)
    then obtain t where t: "s = e @ t" by (auto simp: has_prefix_iff)
    from 1 [OF Some] t obtain p where "t = p @ trim_front encs t" by auto
    then show ?thesis
      using Some t by (subst trim_front.simps) (auto intro: exI [of _ "e @ p"])
  qed
qed

lemma trim_front_result_clean: "starts_clean encs (trim_front encs s)"
proof (induction encs s rule: trim_front.induct)
  case (1 encs s)
  show ?case
  proof (cases "List.find (\<lambda>e. e \<noteq> [] \<and> has_prefix e s) encs")
    case None
    then show ?thesis
      by (simp add: trim_front_None) (auto simp: starts_clean_def find_None_iff)
  next
    case (Some e)
    with 1 [OF Some] show ?thesis by (subst trim_front.simps) simp
  qed
qed

lemma starts_clean_append:
  "starts_clean encs (s @ t) \<Longrightarrow> starts_clean encs s"
  by (auto simp: starts_clean_def has_prefix_iff)

lemma trimmed_trim_space [simp]: "trimmed (trim_space s)"
proof -
  let ?l = "trim_front space_encodings s"
  let ?r = "trim_front (map rev space_encodings) (rev ?l)"
  obtain p where "rev ?l = p @ ?r" using trim_front_suffix by blast
  then have "?l = rev ?r @ rev p" by (metis rev_append rev_rev_ident)
  then have "starts_clean space_encodings (rev ?r)"
    using trim_front_result_clean starts_clean_append by metis
  then show ?thesis
    by (simp add: trimmed_def trim_space_def trim_front_result_clean)
qed

lemma trim_space_trimmed: "trimmed s \<Longrightarrow> trim_space s = s"
  by (simp add: trimmed_def trim_space_def trim_front_clean)

lemma trim_space_idem [simp]: "trim_space (trim_space s) = trim_space s"
  by (simp add: trim_space_trimmed)

lemma set_trim_space: "set (trim_space s) \<subseteq> set s"
proof -
  obtain p where p: "s = p @ trim_front space_encodings s"
    using trim_front_suffix by blast
  obtain q where q: "rev (trim_front space_encodings s) = q @ rev (trim_space s)"
    using trim_front_suffix by (metis rev_rev_ident trim_space_def)
  have "set (trim_front space_encodings s) \<subseteq> set s"
    by (subst (2) p) simp
  moreover have "set (trim_space s) \<subseteq> set (trim_front space_encodings s)"
    using arg_cong [OF q, of set] by auto
  ultimately show ?thesis by blast
qed

lemma trimmed_Nil [simp]: "trimmed []"
  by (simp add: trimmed_def starts_clean_def has_prefix_iff)

text \<open>
  A white-space encoding is one ASCII byte or consists of bytes beyond ASCII. An
  ASCII byte that is no space cannot be part of one, so two trimmed strings with
  such a byte between them are trimmed as a whole.
\<close>

lemma encoding_starts_clean_ascii:
  assumes "starts_clean encs k" and "c \<notin> \<Union> (set ` set encs)" and "k \<noteq> []"
  shows "starts_clean encs (k @ c # v)"
  unfolding starts_clean_def
proof (intro ballI impI notI)
  fix e assume e: "e \<in> set encs" "e \<noteq> []" "has_prefix e (k @ c # v)"
  then obtain t where t: "k @ c # v = e @ t" by (auto simp: has_prefix_iff)
  have "c \<notin> set e" using assms(2) e(1) by blast
  then have "length e \<le> length k"
    using t by (metis append_eq_append_conv_if in_set_conv_nth le_cases list.set_intros(1)
        not_less nth_append_length nth_take append_eq_conv_conj length_take min.absorb2 take_all)
  then have "e = take (length e) k"
    using t by (metis append_eq_conv_conj take_append take_eq_Nil diff_is_0_eq append_Nil2)
  then have "has_prefix e k" by (metis has_prefix_iff append_take_drop_id)
  with assms(1) e show False by (auto simp: starts_clean_def)
qed

lemma trimmed_glue1:
  assumes "trimmed k" and "trimmed v" and "k \<noteq> []" and "v \<noteq> []"
    and "c \<notin> \<Union> (set ` set space_encodings)"
  shows "trimmed (k @ c # v)"
proof -
  have "starts_clean space_encodings (k @ c # v)"
    using assms by (intro encoding_starts_clean_ascii) (auto simp: trimmed_def)
  moreover have "starts_clean (map rev space_encodings) (rev v @ c # rev k)"
    using assms by (intro encoding_starts_clean_ascii) (auto simp: trimmed_def)
  ultimately show ?thesis by (simp add: trimmed_def)
qed

text \<open>A character that is part of no encoding is never trimmed.\<close>

lemma trim_front_keeps:
  "c \<in> set s \<Longrightarrow> c \<notin> \<Union> (set ` set encs) \<Longrightarrow> c \<in> set (trim_front encs s)"
proof (induction encs s rule: trim_front.induct)
  case (1 encs s)
  show ?case
  proof (cases "List.find (\<lambda>e. e \<noteq> [] \<and> has_prefix e s) encs")
    case None
    with 1 show ?thesis by (simp add: trim_front_None)
  next
    case (Some e)
    then have "has_prefix e s" "e \<in> set encs" by (auto simp: find_Some_iff)
    then have "c \<in> set (drop (length e) s)"
      using 1(2,3) by (auto simp: has_prefix_iff)
    with 1 Some show ?thesis by (subst trim_front.simps) simp
  qed
qed

lemma trim_space_keeps:
  assumes "c \<in> set s" and "c \<notin> \<Union> (set ` set space_encodings)"
  shows "c \<in> set (trim_space s)"
  using assms by (auto simp: trim_space_def intro!: trim_front_keeps)

lemma trimmed_glue:
  assumes "trimmed k" and "trimmed v" and "k \<noteq> []" and "v \<noteq> []"
    and "c \<notin> \<Union> (set ` set space_encodings)" and "d \<notin> \<Union> (set ` set space_encodings)"
  shows "trimmed (k @ c # m @ [d] @ v)"
proof -
  have "starts_clean space_encodings (k @ c # (m @ [d] @ v))"
    using assms by (intro encoding_starts_clean_ascii) (auto simp: trimmed_def)
  moreover have "starts_clean (map rev space_encodings) (rev v @ d # (rev m @ [c] @ rev k))"
    using assms by (intro encoding_starts_clean_ascii) (auto simp: trimmed_def)
  ultimately show ?thesis by (simp add: trimmed_def)
qed

end
