(* ===== verification/Go_Float.thy ===== *)
theory Go_Float
  imports Complex_Main Go_Strings
begin

text \<open>
  \<open>strconv.ParseFloat(s, 64)\<close> and the \<open>float64\<close> operations the selector uses. A
  finite value is the rational it denotes (the two zeros compare equal and are one
  value here). The parser reads the whole string as Go's \<open>readFloat\<close> does (sign,
  decimal or hexadecimal mantissa, exponent, digit-separating underscores, inf and
  nan) and rounds the exact value to 53 bits, half to even, with denormals; a value
  beyond the range is the error \<open>ErrRange\<close>, which is \<open>None\<close> as every error is.
\<close>

datatype f64 = Fin rat | PosInf | NegInf | NaN

fun f64_eq :: "f64 \<Rightarrow> f64 \<Rightarrow> bool" where
  "f64_eq NaN _ = False"
| "f64_eq _ NaN = False"
| "f64_eq a b = (a = b)"

fun f64_le :: "f64 \<Rightarrow> f64 \<Rightarrow> bool" where
  "f64_le NaN _ = False"
| "f64_le _ NaN = False"
| "f64_le NegInf _ = True"
| "f64_le _ PosInf = True"
| "f64_le (Fin a) (Fin b) = (a \<le> b)"
| "f64_le _ _ = False"

text \<open>\<open>v * m\<close> for \<open>m\<close> a power of two at least 1: exact, or an infinity.\<close>

fun f64_scale :: "f64 \<Rightarrow> nat \<Rightarrow> f64" where
  "f64_scale (Fin v) k =
     (let w = v * 2 ^ k
      in if 2 ^ 1024 \<le> w then PosInf else if w \<le> - (2 ^ 1024) then NegInf else Fin w)"
| "f64_scale x k = x"

section \<open>Rounding to 53 bits\<close>

fun bit_len :: "nat \<Rightarrow> nat" where
  "bit_len n = (if n = 0 then 0 else Suc (bit_len (n div 2)))"

declare bit_len.simps [simp del]

definition round_half_even :: "nat \<Rightarrow> nat \<Rightarrow> nat" where
  "round_half_even n d =
     (let q = n div d; r = n mod d
      in if 2 * r < d \<or> (2 * r = d \<and> even q) then q else q + 1)"

definition scale_num :: "int \<Rightarrow> nat \<Rightarrow> nat" where
  "scale_num e n = (if e < 0 then n * 2 ^ nat (- e) else n)"

definition scale_den :: "int \<Rightarrow> nat \<Rightarrow> nat" where
  "scale_den e d = (if e < 0 then d else d * 2 ^ nat e)"

definition binary_exp :: "nat \<Rightarrow> nat \<Rightarrow> int" where
  "binary_exp n d =
     (let e = int (bit_len n) - int (bit_len d) - 53
      in max (- 1074)
           (if scale_num e n < 2 ^ 53 * scale_den e d then e else e + 1))"

definition round64 :: "nat \<Rightarrow> nat \<Rightarrow> rat option" where
  "round64 n d =
     (if n = 0 then Some 0
      else
        (let e = binary_exp n d;
             m = round_half_even (scale_num e n) (scale_den e d);
             v = (if e < 0 then of_nat m / 2 ^ nat (- e) else of_nat m * 2 ^ nat e)
         in if v < 2 ^ 1024 then Some v else None))"

text \<open>Whole numbers of at most 53 bits are represented exactly.\<close>

lemma bit_len_bounds: "0 < n \<Longrightarrow> 2 ^ (bit_len n - 1) \<le> n \<and> n < 2 ^ bit_len n"
proof (induction n rule: bit_len.induct)
  case (1 n)
  show ?case
  proof (cases "n = 1")
    case True
    then show ?thesis by (simp add: bit_len.simps)
  next
    case False
    with 1 have IH: "2 ^ (bit_len (n div 2) - 1) \<le> n div 2 \<and> n div 2 < 2 ^ bit_len (n div 2)"
      by auto
    have "0 < n div 2" using 1(2) False by auto
    then have pos: "0 < bit_len (n div 2)" by (subst bit_len.simps) auto
    have eq: "bit_len n = Suc (bit_len (n div 2))"
      using 1(2) by (subst bit_len.simps) simp
    define p :: nat where "p = 2 ^ (bit_len (n div 2) - 1)"
    have two_p: "2 ^ bit_len (n div 2) = 2 * p"
      using pos by (cases "bit_len (n div 2)") (auto simp: p_def)
    have "p \<le> n div 2" "n div 2 < 2 * p"
      using IH two_p by (simp_all add: p_def)
    then have "2 * p \<le> n" "n < 2 * (2 * p)" by arith+
    then show ?thesis by (simp add: eq two_p)
  qed
qed

lemma bit_len_one: "bit_len (Suc 0) = 1"
  by (simp add: bit_len.simps)

lemma round_half_even_exact: "0 < d \<Longrightarrow> d dvd n \<Longrightarrow> round_half_even n d = n div d"
  by (simp add: round_half_even_def Let_def)

lemma round64_whole:
  assumes "n < 2 ^ 53"
  shows "round64 n 1 = Some (of_nat n)"
proof (cases "n = 0")
  case True
  then show ?thesis by (simp add: round64_def)
next
  case False
  then have n: "0 < n" by simp
  then have pos: "0 < bit_len n" by (subst bit_len.simps) simp
  define e where "e = int (bit_len n) - int (bit_len 1) - 53"
  have b1: "bit_len (Suc 0) = 1" by (rule bit_len_one)
  have "bit_len n \<le> 53"
  proof (rule ccontr)
    assume "\<not> bit_len n \<le> 53"
    then have "53 \<le> bit_len n - 1" by simp
    then have "(2::nat) ^ 53 \<le> 2 ^ (bit_len n - 1)" by (rule power_increasing) simp
    also have "\<dots> \<le> n" using bit_len_bounds [OF n] by simp
    finally show False using assms by simp
  qed
  then have e: "e < 0" "- 53 \<le> e" "nat (- e) = 54 - bit_len n"
    using pos by (auto simp: e_def b1)
  have big: "\<not> scale_num e n < 2 ^ 53 * scale_den e 1"
  proof -
    have "53 = (bit_len n - 1) + (54 - bit_len n)"
      using \<open>bit_len n \<le> 53\<close> pos by linarith
    then have "(2::nat) ^ 53 = 2 ^ (bit_len n - 1) * 2 ^ (54 - bit_len n)"
      by (metis power_add)
    also have "\<dots> \<le> n * 2 ^ (54 - bit_len n)"
      using bit_len_bounds [OF n] by simp
    finally show ?thesis using e by (simp add: scale_num_def scale_den_def)
  qed
  have "binary_exp n 1 = e + 1"
    using big e by (simp add: binary_exp_def Let_def e_def)
  moreover have "e + 1 < 0 \<or> e + 1 = 0" using e by auto
  moreover have "(of_nat n :: rat) < 2 ^ 1024"
  proof -
    have "(of_nat n :: rat) < of_nat (2 ^ 53)" using assms by (simp only: of_nat_less_iff)
    also have "\<dots> \<le> 2 ^ 1024" by simp
    finally show ?thesis .
  qed
  ultimately show ?thesis
    using n by (auto simp: round64_def Let_def scale_num_def scale_den_def round_half_even_def)
qed

section \<open>Parsing\<close>

text \<open>\<open>lower(c) = c | 0x20\<close> and \<open>c &^ 0x20\<close>.\<close>

fun lower_byte :: "char \<Rightarrow> char" where
  "lower_byte (Char b0 b1 b2 b3 b4 b5 b6 b7) = Char b0 b1 b2 b3 b4 True b6 b7"

fun clear_0x20 :: "char \<Rightarrow> char" where
  "clear_0x20 (Char b0 b1 b2 b3 b4 b5 b6 b7) = Char b0 b1 b2 b3 b4 False b6 b7"

definition dec_digit :: "char \<Rightarrow> nat option" where
  "dec_digit c = (let n = of_char c :: nat in if 48 \<le> n \<and> n \<le> 57 then Some (n - 48) else None)"

definition hex_letter :: "char \<Rightarrow> nat option" where
  "hex_letter c =
     (let n = of_char (lower_byte c) :: nat in if 97 \<le> n \<and> n \<le> 102 then Some (n - 87) else None)"

definition mant_digit :: "bool \<Rightarrow> char \<Rightarrow> nat option" where
  "mant_digit hex c =
     (case dec_digit c of Some d \<Rightarrow> Some d | None \<Rightarrow> if hex then hex_letter c else None)"

record scan =
  sc_mant :: nat
  sc_frac :: nat
  sc_dot :: bool
  sc_digits :: bool
  sc_under :: bool

text \<open>The mantissa loop: the digits read so far, how many stand after the point.\<close>

fun scan_mantissa :: "bool \<Rightarrow> string \<Rightarrow> scan \<Rightarrow> scan \<times> string" where
  "scan_mantissa hex [] st = (st, [])"
| "scan_mantissa hex (c # cs) st =
     (if c = CHR ''_'' then scan_mantissa hex cs (st\<lparr>sc_under := True\<rparr>)
      else if c = CHR ''.'' then
        (if sc_dot st then (st, c # cs) else scan_mantissa hex cs (st\<lparr>sc_dot := True\<rparr>))
      else
        (case mant_digit hex c of
           Some d \<Rightarrow>
             scan_mantissa hex cs
               (st\<lparr>sc_mant := (if hex then 16 else 10) * sc_mant st + d,
                  sc_frac := (if sc_dot st then Suc (sc_frac st) else sc_frac st),
                  sc_digits := True\<rparr>)
         | None \<Rightarrow> (st, c # cs)))"

fun scan_exponent :: "string \<Rightarrow> nat \<Rightarrow> bool \<Rightarrow> nat \<times> bool \<times> string" where
  "scan_exponent [] e und = (e, und, [])"
| "scan_exponent (c # cs) e und =
     (if c = CHR ''_'' then scan_exponent cs e True
      else
        (case dec_digit c of
           Some d \<Rightarrow> scan_exponent cs (if e < 10000 then 10 * e + d else e) und
         | None \<Rightarrow> (e, und, c # cs)))"

fun cut_sign :: "string \<Rightarrow> bool \<times> string" where
  "cut_sign [] = (False, [])"
| "cut_sign (c # cs) =
     (if c = CHR ''+'' then (False, cs) else if c = CHR ''-'' then (True, cs) else (False, c # cs))"

text \<open>\<open>underscoreOK\<close>: every underscore stands between digits or after a base prefix.\<close>

datatype seen = SawStart | SawDigit | SawUnderscore | SawOther

fun underscores_between :: "bool \<Rightarrow> seen \<Rightarrow> string \<Rightarrow> bool" where
  "underscores_between hex saw [] = (saw \<noteq> SawUnderscore)"
| "underscores_between hex saw (c # cs) =
     (if mant_digit hex c \<noteq> None then underscores_between hex SawDigit cs
      else if c = CHR ''_'' then
        (if saw \<noteq> SawDigit then False else underscores_between hex SawUnderscore cs)
      else if saw = SawUnderscore then False
      else underscores_between hex SawOther cs)"

definition underscore_ok :: "string \<Rightarrow> bool" where
  "underscore_ok s =
     (case snd (cut_sign s) of
        z # x # cs \<Rightarrow>
          (if z = CHR ''0'' \<and> lower_byte x \<in> {CHR ''b'', CHR ''o'', CHR ''x''}
           then underscores_between (lower_byte x = CHR ''x'') SawDigit cs
           else underscores_between False SawStart (z # x # cs))
      | body \<Rightarrow> underscores_between False SawStart body)"

text \<open>The exponent part: \<open>None\<close> is a syntax error.\<close>

definition read_exponent :: "bool \<Rightarrow> string \<Rightarrow> (int \<times> bool \<times> string) option" where
  "read_exponent hex rest =
     (case rest of
        c # cs \<Rightarrow>
          (if lower_byte c = (if hex then CHR ''p'' else CHR ''e'') then
             (let (eneg, ds) = cut_sign cs
              in case ds of
                   [] \<Rightarrow> None
                 | d # _ \<Rightarrow>
                     (if dec_digit d = None then None
                      else (let (e, und, r) = scan_exponent ds 0 False
                            in Some (if eneg then - int e else int e, und, r))))
           else if hex then None else Some (0, False, rest))
      | [] \<Rightarrow> if hex then None else Some (0, False, rest))"

definition is_hex_literal :: "string \<Rightarrow> bool" where
  "is_hex_literal body =
     (case body of z # x # _ # _ \<Rightarrow> z = CHR ''0'' \<and> lower_byte x = CHR ''x'' | _ \<Rightarrow> False)"

text \<open>\<open>readFloat\<close> on the whole string: sign, hexadecimal or not, mantissa and exponent.\<close>

definition read_float :: "string \<Rightarrow> (bool \<times> bool \<times> nat \<times> int) option" where
  "read_float s =
     (let (neg, body) = cut_sign s;
          hex = is_hex_literal body;
          (st, rest) = scan_mantissa hex (if hex then drop 2 body else body)
                         \<lparr>sc_mant = 0, sc_frac = 0, sc_dot = False, sc_digits = False, sc_under = False\<rparr>
      in if \<not> sc_digits st then None
         else
           (case read_exponent hex rest of
              None \<Rightarrow> None
            | Some (e, und, r) \<Rightarrow>
                (if r \<noteq> [] \<or> ((sc_under st \<or> und) \<and> \<not> underscore_ok s) then None
                 else Some (neg, hex, sc_mant st,
                            e - int (if hex then 4 * sc_frac st else sc_frac st)))))"

definition special_float :: "string \<Rightarrow> f64 option" where
  "special_float s =
     (let (neg, body) = cut_sign s; w = map lower_byte body
      in if w = ''inf'' \<or> w = ''infinity'' then Some (if neg then NegInf else PosInf)
         else if body = s \<and> w = ''nan'' then Some NaN
         else None)"

definition parse_float :: "string \<Rightarrow> f64 option" where
  "parse_float s =
     (case special_float s of
        Some v \<Rightarrow> Some v
      | None \<Rightarrow>
          (case read_float s of
             None \<Rightarrow> None
           | Some (neg, hex, m, e) \<Rightarrow>
               (let b = (if hex then 2 else 10 :: nat)
                in map_option (\<lambda>v. Fin (if neg then - v else v))
                     (if e < 0 then round64 m (b ^ nat (- e)) else round64 (m * b ^ nat e) 1))))"

end
