(* ===== verification/Selector.thy ===== *)
theory Selector
  imports Go_Float
begin

text \<open>
  Device selectors (\<open>src/internal/selector/selector.go\<close>): \<open>Parse\<close>, \<open>String\<close> and
  \<open>Match\<close>. A selector is the list of its terms. The lemmas show that printing and
  parsing are inverse on parsed selectors (the store parses the printed form
  again), that a parsed term is well formed, and what a match means: every key is
  present and every comparison holds, a quantity is only ordered against a quantity.
\<close>

section \<open>Terms, operators, errors\<close>

datatype sel_op = OpEq | OpNe | OpGte | OpLte

fun op_text :: "sel_op \<Rightarrow> string" where
  "op_text OpEq = ''=''"
| "op_text OpNe = ''!=''"
| "op_text OpGte = ''>=''"
| "op_text OpLte = ''<=''"

record sel_term =
  t_key :: string
  t_op :: sel_op
  t_value :: string

type_synonym selector = "sel_term list"

datatype sel_error =
    ErrEmpty
  | ErrEmptyTerm string
  | ErrKeyAndValue string
  | ErrEmbeddedOperator string
  | ErrNoOperator string

type_synonym labels = "string \<rightharpoonup> string"

section \<open>Parse\<close>

text \<open>Longest operators first.\<close>

definition operators :: "sel_op list" where
  "operators = [OpNe, OpGte, OpLte, OpEq]"

definition operator_chars :: "char list" where
  "operator_chars = [CHR ''='', CHR ''!'', CHR ''<'', CHR ''>'']"

definition contains_operator_char :: "string \<Rightarrow> bool" where
  "contains_operator_char s = list_ex (\<lambda>c. List.member operator_chars c) s"

fun parse_term_with :: "sel_op list \<Rightarrow> string \<Rightarrow> sel_error + sel_term" where
  "parse_term_with [] part = Inl (ErrNoOperator part)"
| "parse_term_with (o1 # os) part =
     (case cut_at (op_text o1) part of
        None \<Rightarrow> parse_term_with os part
      | Some (k, v) \<Rightarrow>
          (let key = trim_space k; value = trim_space v
           in if key = [] \<or> value = [] then Inl (ErrKeyAndValue part)
              else if contains_operator_char key \<or> contains_operator_char value
              then Inl (ErrEmbeddedOperator part)
              else Inr \<lparr>t_key = key, t_op = o1, t_value = value\<rparr>))"

definition parse_term :: "string \<Rightarrow> sel_error + sel_term" where
  "parse_term part = parse_term_with operators part"

fun parse_parts :: "string \<Rightarrow> string list \<Rightarrow> sel_error + selector" where
  "parse_parts s [] = Inr []"
| "parse_parts s (raw # raws) =
     (let part = trim_space raw
      in if part = [] then Inl (ErrEmptyTerm s)
         else (case parse_term part of
                 Inl e \<Rightarrow> Inl e
               | Inr t \<Rightarrow>
                   (case parse_parts s raws of Inl e \<Rightarrow> Inl e | Inr ts \<Rightarrow> Inr (t # ts))))"

definition sel_parse :: "string \<Rightarrow> sel_error + selector" where
  "sel_parse s =
     (if trim_space s = [] then Inl ErrEmpty else parse_parts s (split_on (CHR '','') s))"

section \<open>String\<close>

definition term_text :: "sel_term \<Rightarrow> string" where
  "term_text t = t_key t @ op_text (t_op t) @ t_value t"

definition sel_string :: "selector \<Rightarrow> string" where
  "sel_string sel = join_with (CHR '','') (map term_text sel)"

section \<open>Match\<close>

text \<open>The binary suffixes: \<open>K\<close>, \<open>M\<close>, \<open>G\<close> and \<open>T\<close> in either case.\<close>

definition suffix_shift :: "char \<Rightarrow> nat option" where
  "suffix_shift c =
     (if c = CHR ''K'' then Some 10 else if c = CHR ''M'' then Some 20
      else if c = CHR ''G'' then Some 30 else if c = CHR ''T'' then Some 40 else None)"

definition parse_quantity :: "string \<Rightarrow> f64 option" where
  "parse_quantity s =
     (if s = [] then None
      else
        (case suffix_shift (clear_0x20 (last s)) of
           Some k \<Rightarrow> map_option (\<lambda>v. f64_scale v k) (parse_float (trim_space (butlast s)))
         | None \<Rightarrow> map_option (\<lambda>v. f64_scale v 0) (parse_float (trim_space s))))"

definition numeric :: "string \<Rightarrow> string \<Rightarrow> (f64 \<times> f64) option" where
  "numeric a b =
     (case (parse_quantity a, parse_quantity b) of (Some x, Some y) \<Rightarrow> Some (x, y) | _ \<Rightarrow> None)"

definition term_matches :: "sel_term \<Rightarrow> string \<Rightarrow> bool" where
  "term_matches t have_v =
     (case numeric have_v (t_value t) of
        Some (a, b) \<Rightarrow>
          (case t_op t of
             OpEq \<Rightarrow> f64_eq a b
           | OpNe \<Rightarrow> \<not> f64_eq a b
           | OpGte \<Rightarrow> f64_le b a
           | OpLte \<Rightarrow> f64_le a b)
      | None \<Rightarrow>
          (if (t_op t = OpGte \<or> t_op t = OpLte)
              \<and> (parse_quantity have_v = None) \<noteq> (parse_quantity (t_value t) = None)
           then False
           else (case t_op t of
                   OpEq \<Rightarrow> have_v = t_value t
                 | OpNe \<Rightarrow> have_v \<noteq> t_value t
                 | OpGte \<Rightarrow> t_value t \<le> have_v
                 | OpLte \<Rightarrow> have_v \<le> t_value t)))"

fun sel_match :: "selector \<Rightarrow> labels \<Rightarrow> bool" where
  "sel_match [] labels = True"
| "sel_match (t # ts) labels =
     (case labels (t_key t) of
        None \<Rightarrow> False
      | Some have_v \<Rightarrow> if term_matches t have_v then sel_match ts labels else False)"

section \<open>Well-formed terms\<close>

definition clean_word :: "string \<Rightarrow> bool" where
  "clean_word w \<longleftrightarrow>
     w \<noteq> [] \<and> trimmed w \<and> \<not> contains_operator_char w \<and> CHR '','' \<notin> set w"

definition wf_term :: "sel_term \<Rightarrow> bool" where
  "wf_term t \<longleftrightarrow> clean_word (t_key t) \<and> clean_word (t_value t)"

definition wf_selector :: "selector \<Rightarrow> bool" where
  "wf_selector sel \<longleftrightarrow> sel \<noteq> [] \<and> (\<forall>t \<in> set sel. wf_term t)"

lemma contains_operator_char_iff:
  "contains_operator_char s \<longleftrightarrow> (\<exists>c \<in> set s. c \<in> set operator_chars)"
  by (auto simp: contains_operator_char_def list_ex_iff)

lemma operators_not_space:
  "c \<in> set operator_chars \<Longrightarrow> c \<notin> \<Union> (set ` set space_encodings)"
  by (auto simp: operator_chars_def space_encodings_def)

lemma parse_term_with_wf:
  "parse_term_with os part = Inr t \<Longrightarrow> CHR '','' \<notin> set part \<Longrightarrow> wf_term t"
proof (induction os part rule: parse_term_with.induct)
  case (2 o1 os part)
  show ?case
  proof (cases "cut_at (op_text o1) part")
    case None
    with 2 show ?thesis by simp
  next
    case (Some kv)
    obtain k v where kv: "kv = (k, v)" by force
    then have "part = k @ op_text o1 @ v" using Some cut_Some by blast
    then have "CHR '','' \<notin> set (trim_space k)" "CHR '','' \<notin> set (trim_space v)"
      using 2(3) set_trim_space by fastforce+
    with Some kv 2(2) show ?thesis
      by (auto simp: Let_def wf_term_def clean_word_def split: if_splits)
  qed
qed simp

lemma parse_parts_wf:
  assumes "parse_parts s raws = Inr ts" and "\<forall>raw \<in> set raws. CHR '','' \<notin> set raw"
  shows "length ts = length raws \<and> (\<forall>t \<in> set ts. wf_term t)"
  using assms
proof (induction raws arbitrary: ts)
  case (Cons raw raws)
  then obtain t us where t: "parse_term (trim_space raw) = Inr t"
    and us: "parse_parts s raws = Inr us" "ts = t # us"
    by (auto simp: Let_def split: if_splits sum.splits)
  have "CHR '','' \<notin> set (trim_space raw)" using Cons.prems(2) set_trim_space by fastforce
  with t have "wf_term t" unfolding parse_term_def by (rule parse_term_with_wf)
  with Cons us show ?case by auto
qed simp

lemma sel_parse_wf: "sel_parse s = Inr sel \<Longrightarrow> wf_selector sel"
proof -
  assume a: "sel_parse s = Inr sel"
  then have p: "parse_parts s (split_on (CHR '','') s) = Inr sel"
    by (auto simp: sel_parse_def split: if_splits)
  have "\<forall>raw \<in> set (split_on (CHR '','') s). CHR '','' \<notin> set raw"
    using split_on_parts by blast
  from parse_parts_wf [OF p this] show ?thesis
    by (auto simp: wf_selector_def)
qed

section \<open>Printing and parsing\<close>

lemma cut_operator:
  assumes "clean_word k" and "clean_word v"
  shows "cut_at (op_text o1) (k @ op_text o1 @ v) = Some (k, v)"
proof -
  obtain c cs where c: "op_text o1 = c # cs" "c \<in> set operator_chars"
    by (cases o1) (auto simp: operator_chars_def)
  then have "c \<notin> set k" using assms(1) by (auto simp: clean_word_def contains_operator_char_iff)
  then show ?thesis using cut_first c by simp
qed

lemma cut_other_operator:
  assumes "clean_word k" and "clean_word v" and "c \<in> set (op_text o2)"
    and "c \<in> set operator_chars" and "c \<notin> set (op_text o1)"
  shows "cut_at (op_text o2) (k @ op_text o1 @ v) = None"
  using assms
  by (intro cut_None [of c]) (auto simp: clean_word_def contains_operator_char_iff)

text \<open>The operators tried before a term's own operator do not occur in its text.\<close>

lemma cut_earlier_operators:
  assumes "clean_word k" and "clean_word v"
  shows "o1 \<noteq> OpNe \<Longrightarrow> cut_at (op_text OpNe) (k @ op_text o1 @ v) = None"
    and "o1 \<in> {OpEq, OpLte} \<Longrightarrow> cut_at (op_text OpGte) (k @ op_text o1 @ v) = None"
    and "o1 = OpEq \<Longrightarrow> cut_at (op_text OpLte) (k @ op_text o1 @ v) = None"
proof -
  show "cut_at (op_text OpNe) (k @ op_text o1 @ v) = None" if "o1 \<noteq> OpNe"
    using that by (intro cut_other_operator [OF assms, of "CHR ''!''"])
      (cases o1; simp add: operator_chars_def)+
  show "cut_at (op_text OpGte) (k @ op_text o1 @ v) = None" if "o1 \<in> {OpEq, OpLte}"
    using that by (intro cut_other_operator [OF assms, of "CHR ''>''"])
      (cases o1; simp add: operator_chars_def)+
  show "cut_at (op_text OpLte) (k @ op_text o1 @ v) = None" if "o1 = OpEq"
    using that by (intro cut_other_operator [OF assms, of "CHR ''<''"])
      (cases o1; simp add: operator_chars_def)+
qed

lemma parse_term_text:
  assumes "wf_term t"
  shows "parse_term (term_text t) = Inr t"
proof -
  obtain k o1 v where t: "t = \<lparr>t_key = k, t_op = o1, t_value = v\<rparr>" by (cases t)
  have w: "clean_word k" "clean_word v" using assms t by (auto simp: wf_term_def)
  note hit = cut_operator [OF w] and miss = cut_earlier_operators [OF w]
  have clean: "trim_space k = k" "trim_space v = v" "k \<noteq> []" "v \<noteq> []"
    "\<not> contains_operator_char k" "\<not> contains_operator_char v"
    using w by (auto simp: clean_word_def trim_space_trimmed)
  have "parse_term_with operators (k @ op_text o1 @ v) = Inr t"
    using hit [of o1] miss [of o1] clean t
    by (cases o1) (simp_all add: operators_def Let_def del: op_text.simps)
  with t show ?thesis by (simp add: parse_term_def term_text_def)
qed

lemma term_text_trimmed:
  assumes "wf_term t"
  shows "trimmed (term_text t)"
proof -
  have k: "trimmed (t_key t)" "t_key t \<noteq> []" and v: "trimmed (t_value t)" "t_value t \<noteq> []"
    using assms by (auto simp: wf_term_def clean_word_def)
  have eq: "trimmed (t_key t @ CHR ''='' # t_value t)"
    by (rule trimmed_glue1) (use k v operators_not_space in \<open>auto simp: operator_chars_def\<close>)
  have two: "trimmed (t_key t @ c # [] @ [CHR ''=''] @ t_value t)" if "c \<in> set operator_chars" for c
    by (rule trimmed_glue) (use k v that operators_not_space in \<open>auto simp: operator_chars_def\<close>)
  show ?thesis
    using eq two [of "CHR ''!''"] two [of "CHR ''>''"] two [of "CHR ''<''"]
    by (cases "t_op t") (auto simp: term_text_def operator_chars_def)
qed

lemma term_text_plain:
  assumes "wf_term t"
  shows "term_text t \<noteq> []" and "CHR '','' \<notin> set (term_text t)"
  using assms by (cases "t_op t"; auto simp: term_text_def wf_term_def clean_word_def)+

lemma parse_parts_texts:
  "\<forall>t \<in> set sel. wf_term t \<Longrightarrow> parse_parts s (map term_text sel) = Inr sel"
  by (induction sel)
     (auto simp: Let_def trim_space_trimmed term_text_trimmed term_text_plain parse_term_text)

lemma sel_parse_string:
  assumes "wf_selector sel"
  shows "sel_parse (sel_string sel) = Inr sel"
proof -
  have parts: "split_on (CHR '','') (sel_string sel) = map term_text sel"
    unfolding sel_string_def
    using assms by (intro split_on_join) (auto simp: wf_selector_def term_text_plain)
  obtain t ts where sel: "sel = t # ts" using assms by (cases sel) (auto simp: wf_selector_def)
  have "CHR ''='' \<in> set (sel_string sel)"
    using sel by (cases ts; cases "t_op t") (auto simp: sel_string_def term_text_def)
  then have "CHR ''='' \<in> set (trim_space (sel_string sel))"
    by (rule trim_space_keeps) (rule operators_not_space, simp add: operator_chars_def)
  then have "trim_space (sel_string sel) \<noteq> []" by auto
  with parts show ?thesis
    using assms by (simp add: sel_parse_def parse_parts_texts wf_selector_def)
qed

section \<open>What a match means\<close>

lemma sel_match_iff:
  "sel_match sel labels
     \<longleftrightarrow> (\<forall>t \<in> set sel. \<exists>v. labels (t_key t) = Some v \<and> term_matches t v)"
  by (induction sel) (auto split: option.splits)

section \<open>Evaluation\<close>

text \<open>What the simplifier needs to run the parser and the comparison on literals.\<close>

lemmas float_eval =
  parse_float_def special_float_def read_float_def is_hex_literal_def mant_digit_def
  dec_digit_def hex_letter_def read_exponent_def round64_def binary_exp_def bit_len.simps
  scale_num_def scale_den_def round_half_even_def Let_def

lemmas selector_eval =
  trim_space_def space_encodings_def trim_front.simps parse_quantity_def suffix_shift_def
  numeric_def term_matches_def operators_def operator_chars_def contains_operator_char_def
  parse_term_def sel_parse_def term_text_def sel_string_def

end
