(* ===== verification/Store_Queue.thy ===== *)
theory Store_Queue
  imports Store_Recover Store_Facts Selector
begin

text \<open>
  The queue (\<open>src/internal/store/queue.go\<close>): submission, one scheduling pass, the
  position of a job in the queue, and the two ways to end a job from outside:
  \<open>CancelQueued\<close> and \<open>RequestKill\<close>.
\<close>

section \<open>Runtime ceilings and matching devices\<close>

definition set_device_max_runtime :: "string \<Rightarrow> duration \<Rightarrow> db \<Rightarrow> db result" where
  "set_device_max_runtime dev dur s =
     (if sql_count (\<lambda>d. d_id d = dev) (devices s) = 0 then Inl (ErrUnknownDevice dev)
      else Inr (s\<lparr>devices := sql_update (\<lambda>d. d_id d = dev)
                   (\<lambda>d. d\<lparr>d_max_runtime := whole_seconds dur\<rparr>) (devices s)\<rparr>))"

definition matching_devices :: "string \<Rightarrow> db \<Rightarrow> string list result" where
  "matching_devices sel s =
     (case sel_parse sel of
        Inl e \<Rightarrow> Inl (ErrSelector sel)
      | Inr parsed \<Rightarrow>
          Inr (sort (map d_id
            (filter (\<lambda>d. sel_match parsed (labels_of (label_snapshot s) (d_id d))) (all_devices s)))))"

definition device_ceilings :: "db \<Rightarrow> string \<rightharpoonup> duration" where
  "device_ceilings s =
     fold (\<lambda>d m. m(d_id d \<mapsto> seconds_dur (d_max_runtime d))) (devices s) Map.empty"

text \<open>Indexing a Go map: the zero duration for an absent key.\<close>

definition ceiling_at :: "(string \<rightharpoonup> duration) \<Rightarrow> string \<Rightarrow> duration" where
  "ceiling_at m dev = (case m dev of None \<Rightarrow> 0 | Some c \<Rightarrow> c)"

definition ceiling_filter :: "string list \<Rightarrow> duration \<Rightarrow> db \<Rightarrow> string list" where
  "ceiling_filter matches requested s =
     (if requested \<le> 0 \<or> matches = [] then matches
      else filter (\<lambda>dev. ceiling_at (device_ceilings s) dev = 0
                       \<or> requested \<le> ceiling_at (device_ceilings s) dev) matches)"

section \<open>Enqueue\<close>

record enqueue_request =
  eq_device_id :: string
  eq_selector :: string
  eq_command :: "string list"
  eq_cwd :: string
  eq_env :: "string \<rightharpoonup> string"
  eq_submitter :: string
  eq_idempotency_key :: string
  eq_priority :: int
  eq_max_runtime :: duration
  eq_idle_timeout :: duration
  eq_kind :: string
  eq_reason :: string
  eq_stdio :: string

definition check_request :: "enqueue_request \<Rightarrow> unit result" where
  "check_request req =
     (if eq_command req = [] then Inl (ErrText ''command required'')
      else if eq_submitter req = '''' then Inl (ErrText ''submitter required'')
      else if eq_device_id req \<noteq> '''' \<and> eq_selector req \<noteq> '''' then
        Inl (ErrText ''give either device_id or selector, not both'')
      else if eq_device_id req = '''' \<and> eq_selector req = '''' then
        Inl (ErrText ''device_id or selector required'')
      else Inr ())"

text \<open>The selector half: the normal form to store, after the match and ceiling checks.\<close>

definition resolve_selector :: "enqueue_request \<Rightarrow> db \<Rightarrow> string result" where
  "resolve_selector req s =
     (if eq_selector req = '''' then Inr ''''
      else
        (case sel_parse (eq_selector req) of
           Inl e \<Rightarrow> Inl (ErrSelector (eq_selector req))
         | Inr sel \<Rightarrow>
             (case matching_devices (sel_string sel) s of
                Inl e \<Rightarrow> Inl e
              | Inr matches \<Rightarrow>
                  if matches = [] then Inl (ErrNoMatchingDevice (sel_string sel))
                  else if 0 < eq_max_runtime req \<and> ceiling_filter matches (eq_max_runtime req) s = []
                  then Inl (ErrRuntimeAboveCeiling (sel_string sel))
                  else Inr (sel_string sel))))"

text \<open>The pinned half: the runtime to store, inherited from the ceiling when absent.\<close>

definition resolve_runtime :: "enqueue_request \<Rightarrow> db \<Rightarrow> duration result" where
  "resolve_runtime req s =
     (if eq_device_id req = '''' then Inr (eq_max_runtime req)
      else
        (case sql_row (\<lambda>d. d_id d = eq_device_id req) (devices s) of
           None \<Rightarrow> Inl (ErrUnknownDevice (eq_device_id req))
         | Some d \<Rightarrow>
             (if 0 < d_max_runtime d then
                (let limit = seconds_dur (d_max_runtime d)
                 in if eq_max_runtime req = 0 \<or> limit < eq_max_runtime req then
                      (if limit < eq_max_runtime req
                       then Inl (ErrRuntimeAboveCeiling (eq_device_id req)) else Inr limit)
                    else Inr (eq_max_runtime req))
              else Inr (eq_max_runtime req))))"

definition queued_row :: "string \<Rightarrow> enqueue_request \<Rightarrow> string \<Rightarrow> duration \<Rightarrow> time \<Rightarrow> job_row" where
  "queued_row job_id req sel runtime now =
     \<lparr>j_id = job_id, j_selector = sel, j_command = eq_command req, j_cwd = eq_cwd req,
      j_env = eq_env req, j_submitter = eq_submitter req,
      j_idempotency_key =
        (if eq_idempotency_key req \<noteq> '''' then Some (eq_idempotency_key req) else None),
      j_state = JobQueued, j_device_id = eq_device_id req, j_worker_id = '''',
      j_exit_code = None, j_kill_reason = '''', j_submitted_at = unix now,
      j_started_at = None, j_finished_at = None, j_priority = eq_priority req,
      j_max_runtime = whole_seconds runtime,
      j_idle_timeout = whole_seconds (eq_idle_timeout req), j_queued_at = unix now,
      j_kind = (if eq_kind req = '''' then LeaseKindJob else eq_kind req),
      j_reason = eq_reason req, j_stdio = eq_stdio req,
      j_kill_requested = False, j_kill_delivered_at = 0\<rparr>"

definition enqueue ::
  "string \<Rightarrow> enqueue_request \<Rightarrow> time \<Rightarrow> db \<Rightarrow> (db \<times> job_row) result" where
  "enqueue job_id req now s =
     (case check_request req of Inl e \<Rightarrow> Inl e | Inr _ \<Rightarrow>
      (case resolve_selector req s of Inl e \<Rightarrow> Inl e | Inr sel \<Rightarrow>
       (case (if eq_idempotency_key req = '''' then None
              else sql_row (\<lambda>j. j_idempotency_key j = Some (eq_idempotency_key req)) (jobs s)) of
          Some j \<Rightarrow> Inr (s, j)
        | None \<Rightarrow>
            (case resolve_runtime req s of Inl e \<Rightarrow> Inl e | Inr runtime \<Rightarrow>
             (case insert_job (queued_row job_id req sel runtime now) s of
                Inl e \<Rightarrow> Inl e
              | Inr s' \<Rightarrow> Inr (s', queued_row job_id req sel runtime now))))))"

section \<open>The queue\<close>

text \<open>\<open>ORDER BY priority DESC, queued_at, rowid\<close>: the stable order of the table.\<close>

definition queue_key :: "job_row \<Rightarrow> int \<times> int" where
  "queue_key j = (- j_priority j, j_queued_at j)"

definition queued_jobs :: "db \<Rightarrow> job_row list" where
  "queued_jobs s = sort_key queue_key (filter (\<lambda>j. j_state j = JobQueued) (jobs s))"

text \<open>The rowid of a job: its place in the table.\<close>

definition rowid :: "string \<Rightarrow> db \<Rightarrow> nat" where
  "rowid job s = length (takeWhile (\<lambda>j. j_id j \<noteq> job) (jobs s))"

definition queue_position :: "string \<Rightarrow> db \<Rightarrow> nat result" where
  "queue_position job s =
     (case get_job job s of
        Inl e \<Rightarrow> Inl e
      | Inr j \<Rightarrow>
          if j_state j \<noteq> JobQueued then Inr 0
          else
            (let queued_at = (case job_queued_at j of None \<Rightarrow> 0 | Some t \<Rightarrow> unix t);
                 ahead = filter (\<lambda>(i, q).
                    j_state q = JobQueued
                    \<and> (j_selector j = '''' \<longrightarrow> j_device_id q = j_device_id j)
                    \<and> (j_priority j < j_priority q
                       \<or> j_priority q = j_priority j
                         \<and> (j_queued_at q < queued_at
                            \<or> j_queued_at q = queued_at \<and> i < rowid job s)))
                  (enumerate 0 (jobs s))
             in Inr (length ahead + 1)))"

section \<open>A scheduling pass\<close>

definition clear_reservations :: "db \<Rightarrow> db" where
  "clear_reservations s = s\<lparr>reservations := []\<rparr>"

text \<open>\<open>INSERT OR REPLACE\<close>: a row in the way of either unique index goes first; the
  index on the device alone covers the primary key.\<close>

definition reserve :: "string \<Rightarrow> string \<Rightarrow> time \<Rightarrow> db \<Rightarrow> db" where
  "reserve job dev now s =
     s\<lparr>reservations := sql_delete (\<lambda>r. rv_device_id r = dev) (reservations s)
         @ [\<lparr>rv_job_id = job, rv_device_id = dev, rv_created_at = unix now\<rparr>]\<rparr>"

text \<open>
  What a pass draws from outside: the identifier and the instant of each attempt to
  assign a job to a device (a pass attempts each pair at most once), and the instant
  of each reservation.
\<close>

record pass_env =
  pe_uuid :: "string \<Rightarrow> string \<Rightarrow> string"
  pe_now :: "string \<Rightarrow> string \<Rightarrow> time"

text \<open>
  The state of the loop: the database, the jobs assigned and the devices held by a
  job ahead. A failing assignment ends the pass, but what it committed stays.
\<close>

record pass_state =
  ps_db :: db
  ps_assigned :: "job_row list"
  ps_reserved :: "string list"

type_synonym pass_result = "(store_error \<times> db) + pass_state"

fun try_assign :: "pass_env \<Rightarrow> string \<Rightarrow> string list \<Rightarrow> pass_state \<Rightarrow> (store_error \<times> db) + bool \<times> pass_state" where
  "try_assign env job [] p = Inr (False, p)"
| "try_assign env job (dev # devs) p =
     (case assign_queued (pe_uuid env job dev) job dev (pe_now env job dev) (ps_db p) of
        Inr (s', j) \<Rightarrow> Inr (True, p\<lparr>ps_db := s', ps_assigned := ps_assigned p @ [j]\<rparr>)
      | Inl ErrNoDevice \<Rightarrow> try_assign env job devs p
      | Inl ErrJobNoLongerQueued \<Rightarrow> Inr (True, p)
      | Inl e \<Rightarrow> Inl (e, ps_db p))"

definition hold_all :: "pass_env \<Rightarrow> string \<Rightarrow> string list \<Rightarrow> pass_state \<Rightarrow> pass_state" where
  "hold_all env job devs p =
     p\<lparr>ps_db := fold (\<lambda>dev. reserve job dev (pe_now env job dev)) devs (ps_db p),
       ps_reserved := ps_reserved p @ devs\<rparr>"

text \<open>The candidates of a queued job; \<open>None\<close> where the pass skips it.\<close>

definition candidates :: "job_row \<Rightarrow> db \<Rightarrow> string list option" where
  "candidates j s =
     (if j_selector j = '''' then Some [j_device_id j]
      else
        (case matching_devices (j_selector j) s of
           Inl e \<Rightarrow> None
         | Inr matches \<Rightarrow>
             (let fits = ceiling_filter matches (seconds_dur (j_max_runtime j)) s
              in if fits = [] then None else Some fits)))"

definition schedule_job :: "pass_env \<Rightarrow> job_row \<Rightarrow> pass_state \<Rightarrow> pass_result" where
  "schedule_job env j p =
     (case candidates j (ps_db p) of
        None \<Rightarrow> Inr p
      | Some cands \<Rightarrow>
          (let available = filter (\<lambda>dev. dev \<notin> set (ps_reserved p)) cands
           in if available = [] then Inr p
              else (case try_assign env (j_id j) available p of
                      Inl e \<Rightarrow> Inl e
                    | Inr (placed, p') \<Rightarrow>
                        Inr (if placed then p' else hold_all env (j_id j) available p'))))"

fun schedule_pass :: "pass_env \<Rightarrow> job_row list \<Rightarrow> pass_state \<Rightarrow> pass_result" where
  "schedule_pass env [] p = Inr p"
| "schedule_pass env (j # js) p =
     (case schedule_job env j p of Inl e \<Rightarrow> Inl e | Inr p' \<Rightarrow> schedule_pass env js p')"

definition schedule_once :: "pass_env \<Rightarrow> db \<Rightarrow> pass_result" where
  "schedule_once env s =
     schedule_pass env (queued_jobs s)
       \<lparr>ps_db = clear_reservations s, ps_assigned = [], ps_reserved = []\<rparr>"

section \<open>Ending a job from outside\<close>

definition cancel_queued :: "string \<Rightarrow> string \<Rightarrow> time \<Rightarrow> db \<Rightarrow> bool \<times> db" where
  "cancel_queued job reason now s =
     (let hit = (\<lambda>j. j_id j = job \<and> j_state j = JobQueued);
          s1 = s\<lparr>jobs := sql_update hit
                 (\<lambda>j. j\<lparr>j_state := JobKilled, j_kill_reason := reason, j_finished_at := Some (unix now)\<rparr>)
                 (jobs s)\<rparr>
      in if sql_count hit (jobs s) = 0 then (False, s1)
         else (True, s1\<lparr>reservations := sql_delete (\<lambda>r. rv_job_id r = job) (reservations s1)\<rparr>))"

datatype kill_outcome = KillNotCancellable | KillRequested | KillFinalized

definition disconnected :: "device_row option \<Rightarrow> bool" where
  "disconnected od =
     (case od of
        None \<Rightarrow> False
      | Some d \<Rightarrow> d_state d = DeviceUnknown
                  \<or> d_state d = DeviceUnhealthy \<and> d_quarantine d = QuarWorkerLost)"

definition request_kill ::
  "string \<Rightarrow> string \<Rightarrow> bool \<Rightarrow> time \<Rightarrow> db \<Rightarrow> (kill_outcome \<times> db) result" where
  "request_kill job reason finalize_disconnected now s =
     (case sql_row (\<lambda>j. j_id j = job) (jobs s) of
        None \<Rightarrow> Inl ErrNoRows
      | Some j \<Rightarrow>
          if \<not> in_flight (j_state j) then Inr (KillNotCancellable, s)
          else if finalize_disconnected
               \<and> disconnected (sql_row (\<lambda>d. d_id d = j_device_id j) (devices s)) then
            Inr (KillFinalized, release_leases_of job (unix now)
              (s\<lparr>jobs := sql_update (\<lambda>j. j_id j = job)
                 (\<lambda>j. j\<lparr>j_state := JobKilled, j_kill_requested := True, j_kill_delivered_at := 0,
                        j_kill_reason := reason, j_finished_at := Some (unix now)\<rparr>) (jobs s)\<rparr>))
          else
            (let hit = (\<lambda>j. j_id j = job \<and> in_flight (j_state j));
                 s1 = s\<lparr>jobs := sql_update hit
                    (\<lambda>j. j\<lparr>j_kill_requested := True, j_kill_delivered_at := 0\<rparr>) (jobs s)\<rparr>
             in Inr (if sql_count hit (jobs s) = 0 then KillNotCancellable else KillRequested, s1)))"

abbreviation kill_redeliver_interval :: duration where
  "kill_redeliver_interval \<equiv> 30 * go_second"

definition kill_due :: "string \<Rightarrow> time \<Rightarrow> job_row \<Rightarrow> bool" where
  "kill_due worker now j \<longleftrightarrow>
     j_worker_id j = worker \<and> j_kill_requested j
     \<and> (in_flight (j_state j) \<or> j_state j = JobKilled)
     \<and> j_kill_delivered_at j \<le> unix (now - kill_redeliver_interval)"

definition stamp_kill :: "time \<Rightarrow> string \<Rightarrow> db \<Rightarrow> db" where
  "stamp_kill now job s =
     s\<lparr>jobs := sql_update (\<lambda>j. j_id j = job) (\<lambda>j. j\<lparr>j_kill_delivered_at := unix now\<rparr>) (jobs s)\<rparr>"

definition take_kill_requests :: "string \<Rightarrow> time \<Rightarrow> db \<Rightarrow> string list \<times> db" where
  "take_kill_requests worker now s =
     (let ids = map j_id (filter (kill_due worker now) (jobs s))
      in (ids, fold (stamp_kill now) ids s))"

section \<open>The invariant\<close>

lemma set_device_max_runtime_db_ok:
  assumes ok: "db_ok s" and "set_device_max_runtime dev dur s = Inr s'"
  shows "db_ok s'"
proof -
  have s': "s' = s\<lparr>devices := sql_update (\<lambda>d. d_id d = dev)
      (\<lambda>d. d\<lparr>d_max_runtime := whole_seconds dur\<rparr>) (devices s)\<rparr>"
    using assms(2) by (auto simp: set_device_max_runtime_def split: if_splits)
  show ?thesis
    unfolding s'
    by (rule db_ok_restate [OF ok])
       (use ok db_ok_quarantine [OF ok] in \<open>auto simp: db_ok_def core_ok_def ready_free_def busy_leased_def\<close>)
qed

text \<open>A new job row stands on no device of its own yet.\<close>

lemma insert_queued_db_ok:
  assumes ok: "db_ok s" and j: "j_id j \<noteq> ''''" "j_state j = JobQueued" "j_worker_id j = ''''"
    and ins: "insert_job j s = Inr s'"
  shows "db_ok s'"
proof -
  have s': "s' = s\<lparr>jobs := jobs s @ [j]\<rparr>" and new: "j_id j \<notin> j_id ` set (jobs s)"
    using ins by (auto simp: insert_job_def sql_exists_iff split: if_splits)
  have "leases_agree s'" "jobs_leased s'"
    using ok j by (auto simp: s' db_ok_def core_ok_def leases_agree_def jobs_leased_def)
  moreover have "schema_ok s'" using ok new by (simp add: s' db_ok_def core_ok_def schema_ok_def)
  moreover have "jobs_known s'" using ok j by (simp add: s' db_ok_def core_ok_def jobs_known_def)
  moreover have "ready_free s'" "quarantine_ok s'" "busy_leased {} s'"
    using ok by (simp_all add: s' db_ok_def core_ok_def ready_free_def quarantine_ok_def)
  ultimately show ?thesis by (simp add: db_ok_def core_ok_def)
qed

lemma enqueue_Inr:
  assumes "enqueue job_id req now s = Inr (s', j)"
  obtains (replayed) "s' = s" "eq_idempotency_key req \<noteq> ''''"
      "sql_row (\<lambda>j. j_idempotency_key j = Some (eq_idempotency_key req)) (jobs s) = Some j"
      "check_request req = Inr ()"
  | (inserted) sel runtime where "check_request req = Inr ()" "resolve_selector req s = Inr sel"
      "resolve_runtime req s = Inr runtime"
      "j = queued_row job_id req sel runtime now" "insert_job j s = Inr s'"
  using assms by (auto simp: enqueue_def split: sum.splits option.splits if_splits)

lemma enqueue_db_ok:
  assumes "db_ok s" and "job_id \<noteq> ''''" and "enqueue job_id req now s = Inr (s', j)"
  shows "db_ok s'"
  using assms(3)
proof (cases rule: enqueue_Inr)
  case replayed
  with assms(1) show ?thesis by simp
next
  case (inserted sel runtime)
  show ?thesis
    by (rule insert_queued_db_ok [OF assms(1) _ _ _ inserted(5)])
       (use assms(2) in \<open>simp_all add: inserted(4) queued_row_def\<close>)
qed

lemma clear_reservations_db_ok [simp]: "db_ok (clear_reservations s) = db_ok s"
  by (simp add: clear_reservations_def)

lemma reserve_db_ok [simp]: "db_ok (reserve job dev now s) = db_ok s"
  by (simp add: reserve_def)

lemma cancel_queued_db_ok:
  assumes "db_ok s" shows "db_ok (snd (cancel_queued job reason now s))"
proof -
  have "db_ok (s\<lparr>jobs := sql_update (\<lambda>j. j_id j = job \<and> j_state j = JobQueued)
      (\<lambda>j. j\<lparr>j_state := JobKilled, j_kill_reason := reason, j_finished_at := Some (unix now)\<rparr>)
      (jobs s)\<rparr>)"
    using assms unfolding db_ok_def by (auto intro!: core_ok_jobs)
  then show ?thesis by (simp add: cancel_queued_def Let_def)
qed

lemma stamp_kill_db_ok: "db_ok s \<Longrightarrow> db_ok (stamp_kill now job s)"
  unfolding stamp_kill_def db_ok_def by (auto intro!: core_ok_jobs)

lemma take_kill_requests_db_ok: "db_ok s \<Longrightarrow> db_ok (snd (take_kill_requests worker now s))"
proof -
  assume "db_ok s"
  then have "db_ok (fold (stamp_kill now) ids s)" for ids
    by (induction ids arbitrary: s) (auto simp: stamp_kill_db_ok)
  then show ?thesis by (simp add: take_kill_requests_def Let_def)
qed

text \<open>A job finalized while its device is away leaves no busy device behind.\<close>

lemma request_kill_db_ok:
  assumes ok: "db_ok s" and r: "request_kill job reason fd now s = Inr (out, s')"
  shows "db_ok s'"
proof -
  have core: "core_ok s" and busy: "busy_leased {} s" using ok by (auto simp: db_ok_def)
  obtain j where row: "sql_row (\<lambda>j. j_id j = job) (jobs s) = Some j"
    using r by (auto simp: request_kill_def split: option.splits)
  then have j: "j \<in> set (jobs s)" "j_id j = job" by (auto dest: sql_row_Some)
  let ?gone = "disconnected (sql_row (\<lambda>d. d_id d = j_device_id j) (devices s))"
  consider "\<not> in_flight (j_state j)" | "in_flight (j_state j)" "fd" "?gone"
    | "in_flight (j_state j)" "\<not> (fd \<and> ?gone)" by blast
  then show ?thesis
  proof cases
    case 1
    with r row ok show ?thesis by (simp add: request_kill_def)
  next
    case 2
    let ?js = "sql_update (\<lambda>j. j_id j = job)
       (\<lambda>j. j\<lparr>j_state := JobKilled, j_kill_requested := True, j_kill_delivered_at := 0,
              j_kill_reason := reason, j_finished_at := Some (unix now)\<rparr>) (jobs s)"
    have s': "s' = release_leases_of job (unix now) (s\<lparr>jobs := ?js\<rparr>)"
      using r row 2 by (simp add: request_kill_def)
    have "core_ok s'" unfolding s' by (rule core_ok_end_job [OF core]) auto
    moreover have "busy_leased {j_device_id j} s'"
      unfolding s' by (rule busy_leased_end_job [OF core busy]) (use job_unique [OF core _ j(1)] j(2) in auto)
    moreover have "d_state d \<noteq> DeviceBusy" if "d \<in> set (devices s)" "d_id d = j_device_id j" for d
      using 2(3) device_table.find_unique [of s d] that core
      by (auto simp: disconnected_def core_ok_def schema_ok_def)
    ultimately show ?thesis
      by (auto simp: db_ok_def busy_leased_def s' release_leases_of_def)
  next
    case 3
    have "db_ok (s\<lparr>jobs := sql_update (\<lambda>j. j_id j = job \<and> in_flight (j_state j))
        (\<lambda>j. j\<lparr>j_kill_requested := True, j_kill_delivered_at := 0\<rparr>) (jobs s)\<rparr>)"
      using ok unfolding db_ok_def by (auto intro!: core_ok_jobs)
    with r row 3 show ?thesis by (auto simp: request_kill_def Let_def split: if_splits)
  qed
qed

end
