(* ===== verification/Store_Schedule.thy ===== *)
theory Store_Schedule
  imports Store_Queue
begin

text \<open>
  What a scheduling pass of \<open>src/internal/store/queue.go\<close> guarantees: it keeps the
  invariant, it does not fail, no job overtakes one ahead of it on a device that job
  could use, and no queued job is left beside a ready device it could use.
\<close>

section \<open>What a pass may change\<close>

definition not_ready :: "db \<Rightarrow> string \<Rightarrow> bool" where
  "not_ready s dev \<longleftrightarrow> (\<forall>d \<in> set (devices s). d_id d = dev \<longrightarrow> d_state d \<noteq> DeviceReady)"

definition not_queued :: "db \<Rightarrow> string \<Rightarrow> bool" where
  "not_queued s job \<longleftrightarrow> (\<forall>j \<in> set (jobs s). j_id j = job \<longrightarrow> j_state j \<noteq> JobQueued)"

definition facts :: "db \<Rightarrow> (string \<times> int) list \<times> label_row list" where
  "facts s = (map (\<lambda>d. (d_id d, d_max_runtime d)) (devices s), device_labels s)"

definition moved :: "db \<Rightarrow> db \<Rightarrow> bool" where
  "moved s t \<longleftrightarrow> facts t = facts s \<and> (\<forall>dev. not_ready s dev \<longrightarrow> not_ready t dev)
     \<and> (\<forall>job. not_queued s job \<longrightarrow> not_queued t job)"

lemma moved_refl [simp]: "moved s s"
  by (simp add: moved_def)

lemma moved_trans: "moved s t \<Longrightarrow> moved t u \<Longrightarrow> moved s u"
  by (simp add: moved_def)

lemma moved_same:
  "devices t = devices s \<Longrightarrow> jobs t = jobs s \<Longrightarrow> device_labels t = device_labels s \<Longrightarrow> moved s t"
  by (simp add: moved_def facts_def not_ready_def not_queued_def)

text \<open>The candidates of a job read only the facts.\<close>

lemma map_sort_key: "map k (sort_key k xs) = sort (map k xs)"
proof -
  have "map k (insort_key k x ys) = insort (k x) (map k ys)" for x ys
    by (induction ys) simp_all
  then show ?thesis by (induction xs) simp_all
qed

lemma matching_devices_facts:
  "matching_devices sel s = matching_devices sel s'" if "facts s = facts s'"
proof -
  have "map fst (fst (facts s)) = map fst (fst (facts s'))" using that by simp
  then have ids: "map d_id (devices s) = map d_id (devices s')" by (simp add: facts_def comp_def)
  have labels: "device_labels s = device_labels s'" using that by (simp add: facts_def)
  have "map d_id (filter (\<lambda>d. Q (d_id d)) (all_devices u)) = filter Q (sort (map d_id (devices u)))" for Q u
    by (simp add: all_devices_def flip: map_sort_key) (simp add: filter_map comp_def)
  then have "map d_id (filter (\<lambda>d. Q (d_id d)) (all_devices s))
      = map d_id (filter (\<lambda>d. Q (d_id d)) (all_devices s'))" for Q
    using ids by metis
  note eq = this [of "\<lambda>x. sel_match p (labels_of (label_snapshot s') x)" for p]
  have "label_snapshot s = label_snapshot s'" using labels by (simp add: label_snapshot_def)
  then show ?thesis
    unfolding matching_devices_def using eq by (auto split: sum.split)
qed

lemma device_ceilings_facts: "device_ceilings s = device_ceilings s'" if "facts s = facts s'"
proof -
  have "device_ceilings u = fold (\<lambda>p m. m(fst p \<mapsto> seconds_dur (snd p))) (fst (facts u)) Map.empty" for u
    by (simp add: device_ceilings_def facts_def fold_map comp_def)
  with that show ?thesis by simp
qed

lemma candidates_facts: "facts s = facts s' \<Longrightarrow> candidates j s = candidates j s'"
  using matching_devices_facts [of s s'] device_ceilings_facts [of s s']
  by (simp add: candidates_def ceiling_filter_def split: sum.split)

lemma candidates_moved: "moved s t \<Longrightarrow> candidates j t = candidates j s"
  by (rule candidates_facts) (simp add: moved_def)

section \<open>One assignment\<close>

lemma assign_queued_errors:
  "assign_queued lid job dev now s = Inl ErrNoDevice \<Longrightarrow> not_ready s dev"
  "assign_queued lid job dev now s = Inl ErrJobNoLongerQueued \<Longrightarrow> not_queued s job"
  by (auto simp: assign_queued_def Let_def insert_lease_def get_job_def not_ready_def not_queued_def
      sql_row_None split: option.splits sum.splits if_splits)

lemma assign_queued_effect:
  assumes "assign_queued lid job dev now s = Inr (s', j')"
  shows "moved s s'" and "not_queued s' job" and "\<not> not_ready s dev"
    and "j_id j' = job" "j_device_id j' = dev" "j_state j' = JobAssigned"
    and "l_id ` set (leases s') = insert lid (l_id ` set (leases s))"
    and "j' \<in> set (jobs s')"
proof -
  from assms obtain d j s3 where a:
    "d \<in> set (devices s)" "d_id d = dev" "d_state d = DeviceReady"
    "j \<in> set (jobs s)" "j_id j = job" "j_state j = JobQueued"
    "insert_lease (granted_lease lid d j now) ((mark_busy dev s)\<lparr>jobs :=
        sql_update (\<lambda>j. j_id j = job) (assign_row d (landing_runtime j d)) (jobs (mark_busy dev s))\<rparr>) = Inr s3"
    "s' = s3\<lparr>reservations := sql_delete (\<lambda>r. rv_device_id r = dev) (reservations s3)\<rparr>"
    "get_job job s' = Inr j'"
    by (rule assign_queued_Inr)
  let ?js = "sql_update (\<lambda>j. j_id j = job) (assign_row d (landing_runtime j d)) (jobs s)"
  have t: "jobs s' = ?js" "devices s' = devices (mark_busy dev s)" "device_labels s' = device_labels s"
    "leases s' = leases s @ [granted_lease lid d j now]"
    using a(7,8) by (auto simp: insert_lease_def mark_busy_def split: if_splits)
  show "\<not> not_ready s dev" using a(1-3) unfolding not_ready_def by blast
  show nq: "not_queued s' job"
    unfolding not_queued_def t ball_sql_update by (simp add: assign_row_def)
  have "not_queued s' x" if "not_queued s x" for x
    using that unfolding not_queued_def t ball_sql_update by (simp add: assign_row_def)
  moreover have "not_ready s' x" if "not_ready s x" for x
    using that unfolding not_ready_def t mark_busy_def by (simp add: ball_sql_update)
  moreover have "facts s' = facts s"
    by (simp add: facts_def t mark_busy_def map_key_sql_update)
  ultimately show "moved s s'" by (simp add: moved_def)
  show "l_id ` set (leases s') = insert lid (l_id ` set (leases s))"
    by (auto simp: t granted_lease_def)
  show mem: "j' \<in> set (jobs s')" and id: "j_id j' = job"
    using get_job_SomeD [OF a(9)] by auto
  have "\<forall>x \<in> set (jobs s'). j_id x = job \<longrightarrow> j_device_id x = dev \<and> j_state x = JobAssigned"
    unfolding t ball_sql_update using a(2) by (simp add: assign_row_def)
  with mem id show "j_device_id j' = dev" "j_state j' = JobAssigned" by auto
qed

lemma assign_queued_total:
  assumes core: "core_ok s" and fresh: "lid \<notin> l_id ` set (leases s)"
    and e: "assign_queued lid job dev now s = Inl e"
  shows "e = ErrNoDevice \<or> e = ErrJobNoLongerQueued"
proof (rule ccontr)
  assume other: "\<not> ?thesis"
  then obtain d where d: "sql_row (\<lambda>d. d_id d = dev \<and> d_state d = DeviceReady) (devices s) = Some d"
    using e by (auto simp: assign_queued_def split: option.splits)
  obtain j where j: "sql_row (\<lambda>j. j_id j = job \<and> j_state j = JobQueued) (jobs s) = Some j"
    using e d other by (auto simp: assign_queued_def split: option.splits)
  have dd: "d \<in> set (devices s)" "d_id d = dev" "d_state d = DeviceReady"
    using sql_row_Some [OF d] by auto
  have jj: "j \<in> set (jobs s)" "j_id j = job" using sql_row_Some [OF j] by auto
  have free: "\<not> live_on s dev" using core dd by (auto simp: core_ok_def ready_free_def)
  let ?f = "assign_row d (landing_runtime j d)"
  let ?js = "sql_update (\<lambda>j. j_id j = job) ?f (jobs s)"
  let ?s2 = "(mark_busy dev s)\<lparr>jobs := ?js\<rparr>"
  have ins: "insert_lease (granted_lease lid d j now) ?s2
      = Inr (?s2\<lparr>leases := leases s @ [granted_lease lid d j now]\<rparr>)"
    using fresh free dd by (auto simp: insert_lease_def granted_lease_def mark_busy_def sql_exists_iff)
  have "?f j \<in> set ?js"
    using sql_update_mem [OF jj(1), of "\<lambda>j. j_id j = job" ?f] jj(2) by simp
  then obtain r where "sql_row (\<lambda>j. j_id j = job) ?js = Some r"
    using sql_row_ex [of "?f j" ?js "\<lambda>j. j_id j = job"] jj(2) by (auto simp: assign_row_def)
  with e d j ins show False
    by (simp add: assign_queued_def Let_def get_job_def mark_busy_def)
qed

section \<open>One job of the pass\<close>

lemma try_assign_Inr:
  assumes "try_assign env job devs p = Inr (placed, p')"
  shows "placed = False \<and> p' = p \<and> (\<forall>dev \<in> set devs. not_ready (ps_db p) dev)
    \<or> placed = True \<and> p' = p \<and> not_queued (ps_db p) job
    \<or> placed = True \<and> (\<exists>dev \<in> set devs. \<exists>s' a.
         assign_queued (pe_uuid env job dev) job dev (pe_now env job dev) (ps_db p) = Inr (s', a)
         \<and> p' = p\<lparr>ps_db := s', ps_assigned := ps_assigned p @ [a]\<rparr>)"
  using assms
proof (induction devs)
  case (Cons dev devs)
  show ?case
  proof (cases "assign_queued (pe_uuid env job dev) job dev (pe_now env job dev) (ps_db p)")
    case (Inl e)
    with Cons.prems consider "e = ErrNoDevice" | "e = ErrJobNoLongerQueued"
      by (auto split: store_error.splits)
    then show ?thesis
    proof cases
      case 1
      with Inl Cons assign_queued_errors(1) [of _ job dev] show ?thesis by fastforce
    next
      case 2
      with Inl Cons.prems assign_queued_errors(2) [of _ job dev] show ?thesis by fastforce
    qed
  next
    case (Inr r)
    with Cons.prems show ?thesis by (cases r) auto
  qed
qed simp

lemma hold_all_frame [simp]:
  "ps_assigned (hold_all env job devs p) = ps_assigned p"
  "ps_reserved (hold_all env job devs p) = ps_reserved p @ devs"
  "leases (ps_db (hold_all env job devs p)) = leases (ps_db p)"
  "devices (ps_db (hold_all env job devs p)) = devices (ps_db p)"
  "jobs (ps_db (hold_all env job devs p)) = jobs (ps_db p)"
  "device_labels (ps_db (hold_all env job devs p)) = device_labels (ps_db p)"
proof -
  have "leases (fold (\<lambda>dev. reserve job dev (f dev)) devs s) = leases s
      \<and> devices (fold (\<lambda>dev. reserve job dev (f dev)) devs s) = devices s
      \<and> jobs (fold (\<lambda>dev. reserve job dev (f dev)) devs s) = jobs s
      \<and> device_labels (fold (\<lambda>dev. reserve job dev (f dev)) devs s) = device_labels s" for f s
    by (induction devs arbitrary: s) (simp_all add: reserve_def)
  then show
    "ps_assigned (hold_all env job devs p) = ps_assigned p"
    "ps_reserved (hold_all env job devs p) = ps_reserved p @ devs"
    "leases (ps_db (hold_all env job devs p)) = leases (ps_db p)"
    "devices (ps_db (hold_all env job devs p)) = devices (ps_db p)"
    "jobs (ps_db (hold_all env job devs p)) = jobs (ps_db p)"
    "device_labels (ps_db (hold_all env job devs p)) = device_labels (ps_db p)"
    by (simp_all add: hold_all_def)
qed

lemma hold_all_db_ok [simp]: "db_ok (ps_db (hold_all env job devs p)) = db_ok (ps_db p)"
proof -
  have "db_ok (fold (\<lambda>dev. reserve job dev (f dev)) devs s) = db_ok s" for f s
    by (induction devs arbitrary: s) simp_all
  then show ?thesis by (simp add: hold_all_def)
qed

text \<open>What one job of the pass leaves behind.\<close>

definition pass_step :: "job_row \<Rightarrow> pass_state \<Rightarrow> pass_state \<Rightarrow> bool" where
  "pass_step j p p' \<longleftrightarrow>
     moved (ps_db p) (ps_db p') \<and>
     (\<exists>new held. ps_assigned p' = ps_assigned p @ new \<and> ps_reserved p' = ps_reserved p @ held
        \<and> (\<forall>a \<in> set new. j_id a = j_id j \<and> j_state a = JobAssigned
              \<and> j_device_id a \<notin> set (ps_reserved p)
              \<and> (\<exists>cands. candidates j (ps_db p) = Some cands \<and> j_device_id a \<in> set cands))
        \<and> (\<forall>dev \<in> set held. not_ready (ps_db p') dev)) \<and>
     (not_queued (ps_db p') (j_id j) \<or>
      (\<forall>cands. candidates j (ps_db p) = Some cands \<longrightarrow> set cands \<subseteq> set (ps_reserved p')))"

lemma schedule_job_step:
  assumes "schedule_job env j p = Inr p'"
  shows "pass_step j p p'"
proof (cases "candidates j (ps_db p)")
  case None
  with assms show ?thesis by (simp add: schedule_job_def pass_step_def)
next
  case (Some cands)
  define av where "av = filter (\<lambda>dev. dev \<notin> set (ps_reserved p)) cands"
  have av: "set av = set cands - set (ps_reserved p)" by (auto simp: av_def)
  have run: "(if av = [] then Inr p
      else (case try_assign env (j_id j) av p of Inl e \<Rightarrow> Inl e
            | Inr (placed, q) \<Rightarrow> Inr (if placed then q else hold_all env (j_id j) av q))) = Inr p'"
    using assms Some unfolding av_def schedule_job_def Let_def
    by (simp only: option.case)
  show ?thesis
  proof (cases "av = []")
    case True
    then have "p' = p" using run by simp
    with True av Some show ?thesis by (auto simp: pass_step_def)
  next
    case False
    obtain placed q where q: "try_assign env (j_id j) av p = Inr (placed, q)"
      "p' = (if placed then q else hold_all env (j_id j) av q)"
      using run False by (auto split: sum.splits)
    from try_assign_Inr [OF q(1)] consider
      (none) "\<not> placed" "q = p" "\<forall>dev \<in> set av. not_ready (ps_db p) dev"
    | (vanished) "placed" "q = p" "not_queued (ps_db p) (j_id j)"
    | (got) dev s' a where "placed" "dev \<in> set av"
        "assign_queued (pe_uuid env (j_id j) dev) (j_id j) dev (pe_now env (j_id j) dev) (ps_db p) = Inr (s', a)"
        "q = p\<lparr>ps_db := s', ps_assigned := ps_assigned p @ [a]\<rparr>"
      by auto
    then show ?thesis
    proof cases
      case none
      then have p': "p' = hold_all env (j_id j) av p" using q by simp
      have "moved (ps_db p) (ps_db p')" by (rule moved_same) (simp_all add: p')
      moreover have "not_ready (ps_db p') dev" if "dev \<in> set av" for dev
        using none(3) that by (simp add: not_ready_def p')
      ultimately show ?thesis
        unfolding pass_step_def using av Some
        by (intro conjI exI [of _ "[]"] exI [of _ av] disjI2) (auto simp: p')
    next
      case vanished
      then show ?thesis using q by (auto simp: pass_step_def)
    next
      case got
      note e = assign_queued_effect [OF got(3)]
      have p': "p' = p\<lparr>ps_db := s', ps_assigned := ps_assigned p @ [a]\<rparr>" using q got by simp
      show ?thesis
        unfolding pass_step_def
        by (intro conjI exI [of _ "[a]"] exI [of _ "[]"] disjI1)
           (use e got(2) av Some in \<open>auto simp: p'\<close>)
    qed
  qed
qed

text \<open>The whole pass, composed.\<close>

definition pass_steps :: "job_row list \<Rightarrow> pass_state \<Rightarrow> pass_state \<Rightarrow> bool" where
  "pass_steps js p p' \<longleftrightarrow>
     moved (ps_db p) (ps_db p') \<and>
     (\<exists>new held. ps_assigned p' = ps_assigned p @ new \<and> ps_reserved p' = ps_reserved p @ held
        \<and> (\<forall>a \<in> set new. \<exists>j \<in> set js. j_id a = j_id j \<and> j_state a = JobAssigned
              \<and> j_device_id a \<notin> set (ps_reserved p)
              \<and> (\<exists>cands. candidates j (ps_db p) = Some cands \<and> j_device_id a \<in> set cands))
        \<and> (\<forall>dev \<in> set held. not_ready (ps_db p') dev)) \<and>
     (\<forall>j \<in> set js. not_queued (ps_db p') (j_id j) \<or>
      (\<forall>cands. candidates j (ps_db p) = Some cands \<longrightarrow> set cands \<subseteq> set (ps_reserved p')))"

lemma pass_steps_Cons:
  assumes one: "pass_step j p q" and rest: "pass_steps js q r"
  shows "pass_steps (j # js) p r"
proof -
  from one obtain n1 h1 where a: "moved (ps_db p) (ps_db q)"
    "ps_assigned q = ps_assigned p @ n1" "ps_reserved q = ps_reserved p @ h1"
    "\<forall>a \<in> set n1. j_id a = j_id j \<and> j_state a = JobAssigned
              \<and> j_device_id a \<notin> set (ps_reserved p)
              \<and> (\<exists>cands. candidates j (ps_db p) = Some cands \<and> j_device_id a \<in> set cands)"
    "\<forall>dev \<in> set h1. not_ready (ps_db q) dev"
    and aq: "not_queued (ps_db q) (j_id j) \<or>
      (\<forall>cands. candidates j (ps_db p) = Some cands \<longrightarrow> set cands \<subseteq> set (ps_reserved q))"
    unfolding pass_step_def by blast
  from rest obtain n2 h2 where b: "moved (ps_db q) (ps_db r)"
    "ps_assigned r = ps_assigned q @ n2" "ps_reserved r = ps_reserved q @ h2"
    "\<forall>a \<in> set n2. \<exists>j \<in> set js. j_id a = j_id j \<and> j_state a = JobAssigned
              \<and> j_device_id a \<notin> set (ps_reserved q)
              \<and> (\<exists>cands. candidates j (ps_db q) = Some cands \<and> j_device_id a \<in> set cands)"
    "\<forall>dev \<in> set h2. not_ready (ps_db r) dev"
    and bq: "\<forall>j \<in> set js. not_queued (ps_db r) (j_id j) \<or>
      (\<forall>cands. candidates j (ps_db q) = Some cands \<longrightarrow> set cands \<subseteq> set (ps_reserved r))"
    unfolding pass_steps_def by blast
  note same = candidates_moved [OF a(1)]
  have "\<forall>dev \<in> set (h1 @ h2). not_ready (ps_db r) dev"
    using a(5) b(1,5) by (auto simp: moved_def)
  moreover have "\<forall>a \<in> set (n1 @ n2). \<exists>j \<in> set (j # js). j_id a = j_id j \<and> j_state a = JobAssigned
      \<and> j_device_id a \<notin> set (ps_reserved p)
      \<and> (\<exists>cands. candidates j (ps_db p) = Some cands \<and> j_device_id a \<in> set cands)"
    using a(3,4) b(4) same by fastforce
  moreover have "\<forall>x \<in> set (j # js). not_queued (ps_db r) (j_id x) \<or>
      (\<forall>cands. candidates x (ps_db p) = Some cands \<longrightarrow> set cands \<subseteq> set (ps_reserved r))"
    using aq bq b(1,3) same by (auto simp: moved_def)
  ultimately show ?thesis
    unfolding pass_steps_def using a(2,3) b(2,3) moved_trans [OF a(1) b(1)]
    by (intro conjI exI [of _ "n1 @ n2"] exI [of _ "h1 @ h2"]) simp_all
qed

lemma schedule_pass_steps: "schedule_pass env js p = Inr p' \<Longrightarrow> pass_steps js p p'"
proof (induction js arbitrary: p)
  case Nil
  then show ?case by (auto simp: pass_steps_def)
next
  case (Cons j js)
  then obtain q where "schedule_job env j p = Inr q" "schedule_pass env js q = Inr p'"
    by (auto split: sum.splits)
  with Cons.IH show ?case by (blast intro: pass_steps_Cons schedule_job_step)
qed

lemma schedule_pass_append:
  "schedule_pass env (xs @ ys) p =
     (case schedule_pass env xs p of Inl e \<Rightarrow> Inl e | Inr q \<Rightarrow> schedule_pass env ys q)"
  by (induction xs arbitrary: p) (auto split: sum.splits)

section \<open>Invariant and freedom from errors\<close>

text \<open>The identifiers a pass may draw: new ones, and none shared between two jobs.\<close>

definition fresh_for :: "pass_env \<Rightarrow> job_row list \<Rightarrow> db \<Rightarrow> bool" where
  "fresh_for env js s \<longleftrightarrow>
     (\<forall>j \<in> set js. \<forall>dev. pe_uuid env (j_id j) dev \<notin> l_id ` set (leases s)) \<and>
     (\<forall>j \<in> set js. \<forall>j' \<in> set js. \<forall>dev dev'.
        pe_uuid env (j_id j) dev = pe_uuid env (j_id j') dev' \<longrightarrow> j_id j = j_id j')"

lemma try_assign_db_ok:
  assumes "db_ok (ps_db p)"
  shows "try_assign env job devs p = Inr (placed, p') \<Longrightarrow> db_ok (ps_db p')"
    and "try_assign env job devs p = Inl (e, s') \<Longrightarrow> db_ok s'"
proof -
  show "try_assign env job devs p = Inr (placed, p') \<Longrightarrow> db_ok (ps_db p')"
    using try_assign_Inr [of env job devs p placed p'] assms assign_queued_db_ok by fastforce
  show "try_assign env job devs p = Inl (e, s') \<Longrightarrow> db_ok s'"
    using assms by (induction devs) (auto split: sum.splits store_error.splits)
qed

lemma schedule_job_db_ok:
  assumes "db_ok (ps_db p)"
  shows "schedule_job env j p = Inr p' \<Longrightarrow> db_ok (ps_db p')"
    and "schedule_job env j p = Inl (e, s') \<Longrightarrow> db_ok s'"
  using assms try_assign_db_ok [OF assms]
  by (auto simp: schedule_job_def Let_def split: option.splits sum.splits if_splits)

lemma schedule_pass_db_ok:
  assumes "db_ok (ps_db p)"
  shows "schedule_pass env js p = Inr p' \<Longrightarrow> db_ok (ps_db p')"
    and "schedule_pass env js p = Inl (e, s') \<Longrightarrow> db_ok s'"
  using assms
proof (induction js arbitrary: p)
  case (Cons j js)
  { case 1
    then obtain q where "schedule_job env j p = Inr q" "schedule_pass env js q = Inr p'"
      by (auto split: sum.splits)
    then show ?case using Cons.IH(1) [of q] schedule_job_db_ok(1) 1(2) by blast
  next
    case 2
    show ?case
    proof (cases "schedule_job env j p")
      case (Inl e')
      with 2 show ?thesis using schedule_job_db_ok(2) [of p env j e s'] by auto
    next
      case (Inr q)
      with 2 show ?thesis using Cons.IH(2) [of q] schedule_job_db_ok(1) by auto
    qed }
qed auto

lemma try_assign_leases:
  assumes "try_assign env job devs p = Inr (placed, p')"
  shows "l_id ` set (leases (ps_db p')) \<subseteq> l_id ` set (leases (ps_db p)) \<union> range (pe_uuid env job)"
proof -
  have "l_id ` set (leases s') \<subseteq> l_id ` set (leases (ps_db p)) \<union> range (pe_uuid env job)"
    if "assign_queued (pe_uuid env job dev) job dev (pe_now env job dev) (ps_db p) = Inr (s', a)" for dev s' a
    using assign_queued_effect(7) [OF that] by auto
  note got = this
  from try_assign_Inr [OF assms] show ?thesis
  proof (elim disjE conjE bexE exE)
    fix dev s' a
    assume "assign_queued (pe_uuid env job dev) job dev (pe_now env job dev) (ps_db p) = Inr (s', a)"
      "p' = p\<lparr>ps_db := s', ps_assigned := ps_assigned p @ [a]\<rparr>"
    then show ?thesis using got [of dev s' a] by simp
  qed auto
qed

lemma try_assign_total:
  assumes "core_ok (ps_db p)" and "\<And>dev. pe_uuid env job dev \<notin> l_id ` set (leases (ps_db p))"
  shows "\<exists>r. try_assign env job devs p = Inr r"
proof (induction devs)
  case (Cons dev devs)
  show ?case
  proof (cases "assign_queued (pe_uuid env job dev) job dev (pe_now env job dev) (ps_db p)")
    case (Inl e)
    with assign_queued_total [OF assms] Cons show ?thesis by fastforce
  next
    case (Inr r)
    then show ?thesis by (cases r) auto
  qed
qed auto

lemma schedule_job_fresh:
  assumes core: "core_ok (ps_db p)"
    and new: "\<And>dev. pe_uuid env (j_id j) dev \<notin> l_id ` set (leases (ps_db p))"
  shows "\<exists>p'. schedule_job env j p = Inr p' \<and>
    l_id ` set (leases (ps_db p')) \<subseteq> l_id ` set (leases (ps_db p)) \<union> range (pe_uuid env (j_id j))"
proof (cases "candidates j (ps_db p)")
  case None
  then show ?thesis by (auto simp: schedule_job_def)
next
  case (Some cands)
  let ?av = "filter (\<lambda>dev. dev \<notin> set (ps_reserved p)) cands"
  obtain placed q where q: "try_assign env (j_id j) ?av p = Inr (placed, q)"
    using try_assign_total [OF core new, of ?av] by (metis surj_pair)
  show ?thesis
  proof (cases "?av = []")
    case True
    then have "schedule_job env j p = Inr p" using Some by (simp add: schedule_job_def)
    then show ?thesis by auto
  next
    case False
    then have "schedule_job env j p = Inr (if placed then q else hold_all env (j_id j) ?av q)"
      using Some q by (simp add: schedule_job_def)
    then show ?thesis using try_assign_leases [OF q] by (cases placed) simp_all
  qed
qed

lemma schedule_pass_fresh:
  assumes "db_ok (ps_db p)" and "distinct (map j_id js)" and "fresh_for env js (ps_db p)"
  shows "\<exists>p'. schedule_pass env js p = Inr p'"
  using assms
proof (induction js arbitrary: p)
  case (Cons j js)
  have core: "core_ok (ps_db p)" using Cons.prems(1) by (simp add: db_ok_def)
  have "pe_uuid env (j_id j) dev \<notin> l_id ` set (leases (ps_db p))" for dev
    using Cons.prems(3) by (simp add: fresh_for_def)
  from schedule_job_fresh [OF core this] obtain q where q: "schedule_job env j p = Inr q"
    and ids: "l_id ` set (leases (ps_db q)) \<subseteq> l_id ` set (leases (ps_db p)) \<union> range (pe_uuid env (j_id j))"
    by blast
  have "pe_uuid env (j_id x) dev \<notin> l_id ` set (leases (ps_db q))" if x: "x \<in> set js" for x dev
  proof
    assume "pe_uuid env (j_id x) dev \<in> l_id ` set (leases (ps_db q))"
    moreover have "pe_uuid env (j_id x) dev \<notin> l_id ` set (leases (ps_db p))"
      using Cons.prems(3) x unfolding fresh_for_def by simp
    ultimately obtain dev' where "pe_uuid env (j_id x) dev = pe_uuid env (j_id j) dev'" using ids by auto
    then have "j_id x = j_id j" using Cons.prems(3) x unfolding fresh_for_def by (meson list.set_intros)
    then have "j_id j \<in> j_id ` set js" using x by (metis imageI)
    then show False using Cons.prems(2) by simp
  qed
  then have "fresh_for env js (ps_db q)"
    using Cons.prems(3) unfolding fresh_for_def by (meson list.set_intros(2))
  moreover have "db_ok (ps_db q)" by (rule schedule_job_db_ok(1) [OF Cons.prems(1) q])
  ultimately show ?case using Cons.IH [of q] Cons.prems(2) q by simp
qed simp

section \<open>The whole pass\<close>

lemma queued_jobs_iff: "j \<in> set (queued_jobs s) \<longleftrightarrow> j \<in> set (jobs s) \<and> j_state j = JobQueued"
  by (simp add: queued_jobs_def)

lemma queued_jobs_distinct:
  assumes "core_ok s" shows "distinct (map j_id (queued_jobs s))"
proof -
  have "inj_on j_id (set (jobs s))" "distinct (jobs s)"
    using assms by (auto simp: core_ok_def schema_ok_def distinct_map)
  then show ?thesis by (auto simp: queued_jobs_def distinct_map intro: inj_on_subset)
qed

lemma moved_clear_reservations [simp]: "moved s (clear_reservations s)"
  by (rule moved_same) (simp_all add: clear_reservations_def)

lemma schedule_once_db_ok:
  assumes "db_ok s"
  shows "schedule_once env s = Inr p \<Longrightarrow> db_ok (ps_db p)"
    and "schedule_once env s = Inl (e, s') \<Longrightarrow> db_ok s'"
  using assms schedule_pass_db_ok [of "\<lparr>ps_db = clear_reservations s, ps_assigned = [], ps_reserved = []\<rparr>"]
  by (auto simp: schedule_once_def)

lemma schedule_once_total:
  assumes "db_ok s" and "fresh_for env (queued_jobs s) s"
  shows "\<exists>p. schedule_once env s = Inr p"
  unfolding schedule_once_def
  by (rule schedule_pass_fresh)
     (use assms queued_jobs_distinct in \<open>auto simp: fresh_for_def clear_reservations_def db_ok_def\<close>)

lemma schedule_once_steps:
  assumes "schedule_once env s = Inr p"
  shows "pass_steps (queued_jobs s)
    \<lparr>ps_db = clear_reservations s, ps_assigned = [], ps_reserved = []\<rparr> p"
  using assms unfolding schedule_once_def by (rule schedule_pass_steps)

lemma candidates_clear [simp]: "candidates j (clear_reservations s) = candidates j s"
  by (rule candidates_moved) simp

text \<open>Work conservation.\<close>

lemma pass_work_conserving:
  assumes "schedule_once env s = Inr p" and "j \<in> set (queued_jobs s)"
    and "\<not> not_queued (ps_db p) (j_id j)"
    and "candidates j s = Some cands" and "dev \<in> set cands"
  shows "not_ready (ps_db p) dev"
proof -
  have "\<forall>dev \<in> set (ps_reserved p). not_ready (ps_db p) dev"
    using schedule_once_steps [OF assms(1)] by (auto simp: pass_steps_def)
  moreover have "\<forall>j \<in> set (queued_jobs s). not_queued (ps_db p) (j_id j) \<or>
      (\<forall>cands. candidates j s = Some cands \<longrightarrow> set cands \<subseteq> set (ps_reserved p))"
    using schedule_once_steps [OF assms(1)] by (simp add: pass_steps_def)
  then have "set cands \<subseteq> set (ps_reserved p)" using assms(2-4) by blast
  ultimately show ?thesis using assms(5) by blast
qed

text \<open>No overtaking.\<close>

lemma pass_no_overtake:
  assumes core: "core_ok s" and run: "schedule_once env s = Inr p"
    and q: "queued_jobs s = xs @ j # ys"
    and left: "\<not> not_queued (ps_db p) (j_id j)"
    and c: "candidates j s = Some cands"
    and a: "a \<in> set (ps_assigned p)" "j_id a \<in> j_id ` set ys"
  shows "j_device_id a \<notin> set cands"
proof -
  let ?p0 = "\<lparr>ps_db = clear_reservations s, ps_assigned = [], ps_reserved = []\<rparr>"
  obtain p1 where p1: "schedule_pass env (xs @ [j]) ?p0 = Inr p1" "schedule_pass env ys p1 = Inr p"
    using run schedule_pass_append [of env "xs @ [j]" ys ?p0]
    by (auto simp: schedule_once_def q split: sum.splits)
  note s1 = schedule_pass_steps [OF p1(1)] and s2 = schedule_pass_steps [OF p1(2)]
  have "\<not> not_queued (ps_db p1) (j_id j)"
    using left s2 by (auto simp: pass_steps_def moved_def)
  then have held: "set cands \<subseteq> set (ps_reserved p1)"
    using s1 c by (auto simp: pass_steps_def)
  obtain new where new: "ps_assigned p = ps_assigned p1 @ new"
    "\<forall>a \<in> set new. j_device_id a \<notin> set (ps_reserved p1)"
    using s2 unfolding pass_steps_def by blast
  have "\<forall>a \<in> set (ps_assigned p1). \<exists>x \<in> set (xs @ [j]). j_id a = j_id x"
    using s1 unfolding pass_steps_def by auto
  moreover have "j_id ` set (xs @ [j]) \<inter> j_id ` set ys = {}"
    using queued_jobs_distinct [OF core] by (auto simp: q)
  ultimately have "a \<notin> set (ps_assigned p1)" using a(2) by (metis disjoint_iff imageI)
  then show ?thesis using a(1) new held by auto
qed

text \<open>Every assignment is to a candidate of the job.\<close>

lemma pass_assigned:
  assumes "schedule_once env s = Inr p" and "a \<in> set (ps_assigned p)"
  shows "\<exists>j \<in> set (queued_jobs s). \<exists>cands. j_id a = j_id j \<and> j_state a = JobAssigned
     \<and> candidates j s = Some cands \<and> j_device_id a \<in> set cands"
  using schedule_once_steps [OF assms(1)] assms(2) by (fastforce simp: pass_steps_def)

end
