(* ===== verification/Store_Machine.thy ===== *)
theory Store_Machine
  imports Store_Schedule
begin

text \<open>
  The store as a state machine. A step is one committed transaction, whichever client
  ran it: the pool holds one connection, so transactions are totally ordered, and a
  run of steps is one order in which the requests of many clients, the scheduler and
  the sweep may reach the database. A failing operation commits nothing and is no step.
  The guards are what the callers ensure: identifiers are not empty, a registration
  declares its devices as \<open>handleRegister\<close> does, and a status report comes from the
  worker that owns the job (\<open>handleJobStatus\<close>).
\<close>

datatype store_op =
    OpRegister worker_info "device_info list"
  | OpFault string time string
  | OpHeartbeat string time "string list" bool
  | OpSweep duration duration time bool time
  | OpClear string
  | OpRecover string recovery_proof time
  | OpRetire string
  | OpCeiling string duration
  | OpLabels string string "(string \<times> string) list" time
  | OpDoc string string string time
  | OpEnqueue string enqueue_request time
  | OpAllocate string string allocate_request time
  | OpAssign string string string time
  | OpReserve string string time
  | OpUnreserve
  | OpRunning string time
  | OpFinish string string job_state "int option" string time
  | OpCancel string string time
  | OpKill string string bool time
  | OpTakeKills string time

inductive store_step :: "db \<Rightarrow> store_op \<Rightarrow> db \<Rightarrow> bool" where
  st_register: "orderly w dis s \<Longrightarrow> store_step s (OpRegister w dis) (upsert_worker w dis s)"
| st_fault: "set_device_state dev DeviceUnhealthy t detail s = Inr s'
    \<Longrightarrow> store_step s (OpFault dev t detail) s'"
| st_heartbeat: "store_step s (OpHeartbeat worker t running retain)
    (record_heartbeat worker t running retain s)"
| st_sweep: "sweep grace u hold_off retain now s = (res, s')
    \<Longrightarrow> store_step s (OpSweep grace u hold_off retain now) s'"
| st_clear: "clear_device dev s = (done, s') \<Longrightarrow> store_step s (OpClear dev) s'"
| st_recover: "auto_recover worker pf now s = (rs, s') \<Longrightarrow> store_step s (OpRecover worker pf now) s'"
| st_retire: "retire_device dev s = Inr s' \<Longrightarrow> store_step s (OpRetire dev) s'"
| st_ceiling: "set_device_max_runtime dev dur s = Inr s' \<Longrightarrow> store_step s (OpCeiling dev dur) s'"
| st_labels: "replace_labels dev source kvs t s = Inr s'
    \<Longrightarrow> store_step s (OpLabels dev source kvs t) s'"
| st_doc: "store_step s (OpDoc host dev body t) (upsert_host_doc host dev body t s)"
| st_enqueue: "job_id \<noteq> '''' \<Longrightarrow> enqueue job_id req now s = Inr (s', j)
    \<Longrightarrow> store_step s (OpEnqueue job_id req now) s'"
| st_allocate: "job_id \<noteq> '''' \<Longrightarrow> allocate job_id lease_id req now s = Inr (s', j)
    \<Longrightarrow> store_step s (OpAllocate job_id lease_id req now) s'"
| st_assign: "assign_queued lease_id job dev now s = Inr (s', j)
    \<Longrightarrow> store_step s (OpAssign lease_id job dev now) s'"
| st_reserve: "store_step s (OpReserve job dev now) (reserve job dev now s)"
| st_unreserve: "store_step s OpUnreserve (clear_reservations s)"
| st_running: "store_step s (OpRunning job t) (mark_running job t s)"
| st_finish: "get_job job s = Inr j \<Longrightarrow> worker \<noteq> '''' \<Longrightarrow> j_worker_id j = worker
    \<Longrightarrow> release job st code reason now s = Inr s'
    \<Longrightarrow> store_step s (OpFinish worker job st code reason now) s'"
| st_cancel: "cancel_queued job reason now s = (done, s') \<Longrightarrow> store_step s (OpCancel job reason now) s'"
| st_kill: "request_kill job reason fd now s = Inr (out, s')
    \<Longrightarrow> store_step s (OpKill job reason fd now) s'"
| st_take_kills: "take_kill_requests worker now s = (ids, s')
    \<Longrightarrow> store_step s (OpTakeKills worker now) s'"

inductive_cases store_stepE: "store_step s op s'"
inductive_simps store_step_assign: "store_step s (OpAssign lease_id job dev now) s'"
inductive_simps store_step_reserve: "store_step s (OpReserve job dev now) s'"
inductive_simps store_step_unreserve: "store_step s OpUnreserve s'"

section \<open>The invariant of the machine\<close>

lemma retire_db_ok: "db_ok s \<Longrightarrow> retire_device dev s = Inr s' \<Longrightarrow> db_ok s'"
  by (rule retire_device_db_ok)

text \<open>\<open>Allocate\<close> is an insertion of the job followed by the hand-over.\<close>

lemma allocate_Inr:
  assumes "allocate job_id lease_id req now s = Inr (s', j)"
  obtains (replayed) "s' = s"
  | (allocated) d ttl s2 where "d \<in> set (devices s)" "d_id d = ar_device_id req" "d_state d = DeviceReady"
      "insert_job (allocated_job job_id d req now) (mark_busy (d_id d) s) = Inr s2"
      "insert_lease (allocated_lease lease_id (d_id d) (ar_submitter req) job_id now ttl) s2 = Inr s'"
  using assms
  by (auto simp: allocate_def Let_def dest!: sql_row_Some split: option.splits sum.splits if_splits)

lemma allocate_db_ok:
  assumes ok: "db_ok s" and "job_id \<noteq> ''''" and a: "allocate job_id lease_id req now s = Inr (s', j)"
  shows "db_ok s'"
  using a
proof (cases rule: allocate_Inr)
  case replayed
  with ok show ?thesis by simp
next
  case (allocated d ttl s2)
  let ?j = "allocated_job job_id d req now"
  let ?q = "?j\<lparr>j_state := JobQueued, j_worker_id := ''''\<rparr>"
  have new: "\<not> sql_exists (\<lambda>j'. j_id j' = j_id ?j) (jobs s)"
    and s2: "s2 = (mark_busy (d_id d) s)\<lparr>jobs := jobs s @ [?j]\<rparr>"
    using allocated(4) by (auto simp: insert_job_def mark_busy_def split: if_splits)
  have "insert_job ?q s = Inr (s\<lparr>jobs := jobs s @ [?q]\<rparr>)"
    using allocated(4) by (auto simp: insert_job_def mark_busy_def split: if_splits)
  then have q: "db_ok (s\<lparr>jobs := jobs s @ [?q]\<rparr>)"
    by (rule insert_queued_db_ok [OF ok, rotated 3]) (simp_all add: allocated_job_def assms(2))
  have upd: "sql_update (\<lambda>j. j_id j = job_id) (assign_row d 0) (jobs s @ [?q]) = jobs s @ [?j]"
  proof -
    have "sql_update (\<lambda>j. j_id j = job_id) (assign_row d 0) (jobs s) = jobs s"
      using new by (intro sql_update_id) (auto simp: sql_exists_iff allocated_job_def)
    then show ?thesis by (simp add: sql_update_def assign_row_def allocated_job_def)
  qed
  have "insert_lease (allocated_lease lease_id (d_id d) (ar_submitter req) job_id now ttl)
     ((mark_busy (d_id d) (s\<lparr>jobs := jobs s @ [?q]\<rparr>))\<lparr>jobs :=
        sql_update (\<lambda>j. j_id j = job_id) (assign_row d 0)
          (jobs (mark_busy (d_id d) (s\<lparr>jobs := jobs s @ [?q]\<rparr>)))\<rparr>) = Inr s'"
    using allocated(5) by (simp add: s2 mark_busy_def upd)
  note lease = this
  show ?thesis
    by (rule hand_out_db_ok [where j = ?q and d = d, OF q _ _ _ _ _ _ _ _ _ lease])
       (use allocated(1-3) in \<open>simp_all add: allocated_job_def allocated_lease_def live_def\<close>)
qed

lemma store_step_db_ok: "store_step s op s' \<Longrightarrow> db_ok s \<Longrightarrow> db_ok s'"
proof (induction rule: store_step.induct)
  case (st_finish job s j worker st code reason now s')
  have "j_worker_id x \<noteq> ''''" if "x \<in> set (jobs s)" "j_id x = job" for x
    using that st_finish job_unique [of s x j] get_job_SomeD [OF st_finish(1)]
    by (auto simp: db_ok_def)
  with st_finish show ?case by (blast intro: release_db_ok)
next
  case (st_sweep grace u hold_off retain now s res s')
  then show ?case using sweep_db_ok [of s grace u hold_off retain now] by simp
next
  case (st_clear dev s b s')
  then show ?case using clear_device_db_ok [of s dev] by simp
next
  case (st_recover worker pf now s rs s')
  then show ?case using auto_recover_db_ok [of s worker pf now] by simp
next
  case (st_cancel job reason now s b s')
  then show ?case using cancel_queued_db_ok [of s job reason now] by simp
next
  case (st_take_kills worker now s ids s')
  then show ?case using take_kill_requests_db_ok [of s worker now] by simp
next
  case (st_labels dev source kvs t s s')
  then show ?case by (auto simp: replace_labels_def split: if_splits sum.splits)
next
  case (st_doc s host dev body t)
  then show ?case by (simp add: upsert_host_doc_def)
qed ((simp only: reserve_db_ok clear_reservations_db_ok; fail) |
  (blast intro: upsert_worker_db_ok set_device_state_db_ok record_heartbeat_db_ok retire_db_ok
      set_device_max_runtime_db_ok enqueue_db_ok allocate_db_ok assign_queued_db_ok
      mark_running_db_ok request_kill_db_ok))+

interpretation store_system: invariant_system store_step db_ok
  by unfold_locales (rule store_step_db_ok)

text \<open>A database the controller can reach from a fresh one.\<close>

definition reachable :: "db \<Rightarrow> bool" where
  "reachable s \<longleftrightarrow> (\<exists>ops. run store_step empty_db ops s)"

lemma reachable_db_ok: "reachable s \<Longrightarrow> db_ok s"
  unfolding reachable_def using store_system.run_inv db_ok_empty by blast

lemma reachable_step: "reachable s \<Longrightarrow> store_step s op s' \<Longrightarrow> reachable s'"
  unfolding reachable_def by (metis run_append run_cons run_nil)

section \<open>A scheduling pass is a run of transactions\<close>

definition pass_op :: "store_op \<Rightarrow> bool" where
  "pass_op op \<longleftrightarrow> (case op of OpAssign _ _ _ _ \<Rightarrow> True | OpReserve _ _ _ \<Rightarrow> True | OpUnreserve \<Rightarrow> True | _ \<Rightarrow> False)"

definition pass_run :: "db \<Rightarrow> db \<Rightarrow> bool" where
  "pass_run s t \<longleftrightarrow> (\<exists>ops. run store_step s ops t \<and> list_all pass_op ops)"

lemma pass_run_refl: "pass_run s s"
  unfolding pass_run_def by (intro exI [of _ "[]"]) (simp add: run_nil)

lemma pass_run_trans: "pass_run s t \<Longrightarrow> pass_run t u \<Longrightarrow> pass_run s u"
  unfolding pass_run_def by (metis list_all_append run_append)

lemma pass_run_step: "store_step s op t \<Longrightarrow> pass_op op \<Longrightarrow> pass_run s t"
  unfolding pass_run_def by (intro exI [of _ "[op]"]) (auto intro: run.intros)

lemma pass_run_hold: "pass_run (ps_db p) (ps_db (hold_all env job devs p))"
proof -
  have "pass_run s (fold (\<lambda>dev. reserve job dev (f dev)) devs s)" for f s
  proof (induction devs arbitrary: s)
    case (Cons dev devs)
    have "pass_run s (reserve job dev (f dev) s)"
      by (rule pass_run_step [OF st_reserve]) (simp add: pass_op_def)
    with Cons.IH show ?case by (simp add: pass_run_trans)
  qed (simp add: pass_run_refl)
  then show ?thesis by (simp add: hold_all_def)
qed

lemma schedule_job_run:
  assumes "schedule_job env j p = Inr p'" shows "pass_run (ps_db p) (ps_db p')"
proof (cases "candidates j (ps_db p)")
  case None
  with assms show ?thesis by (simp add: schedule_job_def pass_run_refl)
next
  case (Some cands)
  let ?av = "filter (\<lambda>dev. dev \<notin> set (ps_reserved p)) cands"
  show ?thesis
  proof (cases "?av = []")
    case True
    then have "p' = p" using assms Some unfolding schedule_job_def Let_def by simp
    then show ?thesis by (simp add: pass_run_refl)
  next
    case False
    then obtain placed q where q: "try_assign env (j_id j) ?av p = Inr (placed, q)"
      "p' = (if placed then q else hold_all env (j_id j) ?av q)"
      using assms Some unfolding schedule_job_def Let_def by (auto split: sum.splits if_splits)
    have "pass_run (ps_db p) (ps_db q)"
      using try_assign_Inr [OF q(1)]
      by (auto intro: pass_run_refl pass_run_step [OF st_assign] simp: pass_op_def)
    with q(2) pass_run_hold pass_run_trans show ?thesis by auto
  qed
qed

lemma schedule_once_run:
  assumes "schedule_once env s = Inr p" shows "pass_run s (ps_db p)"
proof -
  have "pass_run (ps_db p0) (ps_db p)" if "schedule_pass env js p0 = Inr p" for js p0
    using that
  proof (induction js arbitrary: p0)
    case (Cons j js)
    then obtain q where "schedule_job env j p0 = Inr q" "schedule_pass env js q = Inr p"
      by (auto split: sum.splits)
    with Cons.IH schedule_job_run pass_run_trans show ?case by blast
  qed (simp add: pass_run_refl)
  from this [of "queued_jobs s"] have "pass_run (clear_reservations s) (ps_db p)"
    using assms by (fastforce simp: schedule_once_def)
  moreover have "pass_run s (clear_reservations s)"
    by (rule pass_run_step [OF st_unreserve]) (simp add: pass_op_def)
  ultimately show ?thesis using pass_run_trans by blast
qed

lemma schedule_once_reachable:
  "reachable s \<Longrightarrow> schedule_once env s = Inr p \<Longrightarrow> reachable (ps_db p)"
  using schedule_once_run unfolding reachable_def pass_run_def by (metis run_append)

end
