(* ===== verification/Store_Stability.thy ===== *)
theory Store_Stability
  imports Store_Machine
begin

text \<open>
  What no transaction undoes: the outcome of a job that has ended, and a quarantine for
  a reported fault. Each is proved operation by operation and lifted to runs.
\<close>

section \<open>The outcome of a job is final\<close>

definition outcome :: "job_row \<Rightarrow> string \<times> job_state \<times> int option \<times> string \<times> int option \<times> string \<times> string" where
  "outcome j = (j_id j, j_state j, j_exit_code j, j_kill_reason j, j_finished_at j, j_device_id j, j_worker_id j)"

definition kept :: "db \<Rightarrow> db \<Rightarrow> bool" where
  "kept s t \<longleftrightarrow>
     (\<forall>j \<in> set (jobs s). terminal (j_state j) \<longrightarrow> (\<exists>j' \<in> set (jobs t). outcome j' = outcome j))"

lemma kept_refl: "kept s s"
  by (auto simp: kept_def)

lemma outcome_state: "outcome j' = outcome j \<Longrightarrow> j_state j' = j_state j \<and> j_id j' = j_id j"
  by (simp add: outcome_def)

lemma kept_trans: "kept s t \<Longrightarrow> kept t u \<Longrightarrow> kept s u"
  unfolding kept_def by (metis outcome_state)

lemma kept_jobs: "jobs t = jobs s \<Longrightarrow> kept s t"
  by (auto simp: kept_def)

lemma kept_append: "jobs t = jobs s @ js \<Longrightarrow> kept s t"
  by (auto simp: kept_def)

lemma kept_update:
  assumes "jobs t = sql_update P f (jobs s)"
    and "\<And>j. j \<in> set (jobs s) \<Longrightarrow> P j \<Longrightarrow> terminal (j_state j) \<Longrightarrow> outcome (f j) = outcome j"
  shows "kept s t"
  unfolding kept_def assms(1) bex_sql_update
proof (intro ballI impI)
  fix j assume "j \<in> set (jobs s)" "terminal (j_state j)"
  with assms(2) show "\<exists>r \<in> set (jobs s). if P r then outcome (f r) = outcome j else outcome r = outcome j"
    by (intro bexI [of _ j]) auto
qed

lemma kept_lose_job:
  "(\<And>j. j \<in> set (jobs s) \<Longrightarrow> j_id j = job \<Longrightarrow> \<not> terminal (j_state j)) \<Longrightarrow> kept s (lose_job reason t job s)"
  by (rule kept_update [OF jobs_lose_job]) auto

lemma kept_fold_lose_job:
  assumes "distinct xs" and "\<And>j. j \<in> set (jobs s) \<Longrightarrow> j_id j \<in> set xs \<Longrightarrow> \<not> terminal (j_state j)"
  shows "kept s (fold (lose_job reason t) xs s)"
  using assms
proof (induction xs arbitrary: s)
  case (Cons x xs)
  have "kept s (lose_job reason t x s)" by (rule kept_lose_job) (use Cons.prems in auto)
  moreover have "\<not> terminal (j_state j)" if "j \<in> set (jobs (lose_job reason t x s))" "j_id j \<in> set xs" for j
    using that(1) unfolding jobs_lose_job
  proof (cases rule: sql_updateE)
    case (hit r)
    with that(2) Cons.prems(1) show ?thesis by simp
  next
    case miss
    with that(2) Cons.prems(2) show ?thesis by simp
  qed
  then have "kept (lose_job reason t x s) (fold (lose_job reason t) xs (lose_job reason t x s))"
    using Cons.prems(1) by (intro Cons.IH) auto
  ultimately show ?case using kept_trans by simp
qed (simp add: kept_refl)

lemma in_flight_not_terminal: "in_flight st \<Longrightarrow> \<not> terminal st"
  using terminal_not_in_flight by blast

lemma same_id_not_terminal:
  "core_ok s \<Longrightarrow> j \<in> set (jobs s) \<Longrightarrow> \<not> terminal (j_state j) \<Longrightarrow> x \<in> set (jobs s) \<Longrightarrow> j_id x = j_id j
     \<Longrightarrow> \<not> terminal (j_state x)"
  using job_unique by metis

lemma kept_reap_device:
  assumes core: "core_ok (snd acc)" shows "kept (snd acc) (snd (reap_device t dev acc))"
proof -
  have "distinct (lost_on dev (snd acc))"
    using core by (simp add: lost_on_def core_ok_def schema_ok_def distinct_map_filter)
  moreover have "\<not> terminal (j_state j)"
    if "j \<in> set (jobs (snd acc))" "j_id j \<in> set (lost_on dev (snd acc))" for j
    using that same_id_not_terminal [OF core] in_flight_not_terminal
    unfolding lost_on_def set_map set_filter by (metis (no_types, lifting) imageE mem_Collect_eq)
  ultimately show ?thesis
    unfolding reap_device_def Let_def snd_conv by (rule kept_fold_lose_job)
qed

lemma kept_fold_reap_device:
  assumes "db_ok (snd acc)"
    and "\<And>d. d \<in> set (devices (snd acc)) \<Longrightarrow> d_id d \<in> set devs \<Longrightarrow> d_state d \<noteq> DeviceBusy"
  shows "kept (snd acc) (snd (fold (reap_device t) devs acc))"
  using assms
proof (induction devs arbitrary: acc)
  case (Cons dev devs)
  have "db_ok (snd (reap_device t dev acc))" by (rule reap_device_db_ok) (use Cons.prems in auto)
  then have "kept (snd (reap_device t dev acc)) (snd (fold (reap_device t) devs (reap_device t dev acc)))"
    using Cons.prems(2) by (intro Cons.IH) auto
  moreover have "kept (snd acc) (snd (reap_device t dev acc))"
    using Cons.prems(1) by (intro kept_reap_device) (simp add: db_ok_def)
  ultimately show ?case using kept_trans by simp
qed (simp add: kept_refl)

lemma kept_expire_lease: "kept (snd acc) (snd (expire_lease t e acc))"
proof (cases "l_job_id e = ''''")
  case True
  then show ?thesis by (intro kept_jobs) (simp add: expire_lease_def Let_def)
next
  case False
  then have "jobs (snd (expire_lease t e acc)) =
     sql_update (\<lambda>j. j_id j = l_job_id e \<and> in_flight (j_state j))
       (\<lambda>j. j\<lparr>j_state := JobLost, j_kill_reason := ''lease expired'', j_finished_at := Some t\<rparr>) (jobs (snd acc))"
    by (simp add: expire_lease_def Let_def)
  then show ?thesis by (rule kept_update) (simp add: in_flight_not_terminal)
qed

lemma kept_fold_expire_lease: "kept (snd acc) (snd (fold (expire_lease t) es acc))"
proof (induction es arbitrary: acc)
  case (Cons e es)
  show ?case using kept_trans [OF kept_expire_lease Cons.IH] by simp
qed (simp add: kept_refl)

lemma kept_sweep:
  assumes ok: "db_ok s" shows "kept s (snd (sweep grace u hold_off retain now s))"
proof -
  let ?s1 = "fold demote (sweep_pending (judges now hold_off) grace u now s) s"
  have core: "core_ok s" using ok by (simp add: db_ok_def)
  have "kept s ?s1" by (rule kept_jobs) simp
  moreover have "kept ?s1 (snd (swept_jobs grace u hold_off retain now s))"
  proof -
    have "db_ok (snd ([] :: string list, ?s1))" using demoted_db_ok [OF ok] by simp
    moreover have "d_state d \<noteq> DeviceBusy"
      if "d \<in> set (devices (snd ([] :: string list, ?s1)))"
        "d_id d \<in> set (sweep_reap (judges now hold_off) retain u now s)" for d
      using reaped_not_busy [OF core] that by (metis device_state.distinct snd_conv)
    ultimately have "kept (snd ([] :: string list, ?s1)) (snd (swept_jobs grace u hold_off retain now s))"
      unfolding swept_jobs_def by (rule kept_fold_reap_device)
    then show ?thesis by simp
  qed
  moreover have "kept (snd (swept_jobs grace u hold_off retain now s)) (snd (sweep grace u hold_off retain now s))"
    unfolding sweep_state
    using kept_fold_expire_lease [of "([], snd (swept_jobs grace u hold_off retain now s))"] by simp
  ultimately show ?thesis using kept_trans by blast
qed

text \<open>Registration ends only jobs in flight.\<close>

lemma kept_reap_job:
  "(\<And>j. j \<in> set (jobs s) \<Longrightarrow> j_id j = fst jd \<Longrightarrow> \<not> terminal (j_state j)) \<Longrightarrow> kept s (reap_job reason t reb jd s)"
  using kept_lose_job [of s "fst jd" reason t] by (simp add: kept_def)

lemma kept_fold_reap_job:
  assumes "distinct (map fst jds)"
    and "\<And>j. j \<in> set (jobs s) \<Longrightarrow> j_id j \<in> fst ` set jds \<Longrightarrow> \<not> terminal (j_state j)"
  shows "kept s (fold (reap_job reason t reb) jds s)"
proof -
  have "jobs (fold (reap_job reason t reb) jds s) = jobs (fold (lose_job reason t) (map fst jds) s)"
  proof (induction jds rule: rev_induct)
    case (snoc jd jds)
    then show ?case by (simp add: jobs_lose_job)
  qed simp
  then show ?thesis
    using kept_fold_lose_job [of "map fst jds" s reason t] assms by (simp add: kept_def)
qed

lemma jobs_fold_upsert_device [simp]: "jobs (fold (upsert_device w) dis s) = jobs s"
  by (induction dis arbitrary: s) (simp_all add: upsert_device_frame)

lemma kept_upsert_worker:
  assumes "core_ok s" shows "kept s (upsert_worker w dis s)"
proof -
  define reb where "reb = is_reboot w s"
  define reason where "reason = (if reb then ''host rebooted'' else ''worker re-registered'')"
  let ?s0 = "upsert_worker_row w s"
  have j0: "jobs ?s0 = jobs s" by (simp add: upsert_worker_row_def)
  have "map fst (in_flight_of (wi_id w) ?s0)
      = map j_id (filter (\<lambda>j. j_worker_id j = wi_id w \<and> in_flight (j_state j)) (jobs s))"
    by (simp add: in_flight_of_def j0 comp_def)
  then have d: "distinct (map fst (in_flight_of (wi_id w) ?s0))"
    using assms by (simp add: core_ok_def schema_ok_def distinct_map_filter)
  have nt: "\<not> terminal (j_state j)"
    if "j \<in> set (jobs ?s0)" "j_id j \<in> fst ` set (in_flight_of (wi_id w) ?s0)" for j
  proof -
    have js: "j \<in> set (jobs s)" using that(1) j0 by simp
    from that(2) obtain x where "x \<in> set (jobs s)" "in_flight (j_state x)" "j_id j = j_id x"
      by (auto simp: in_flight_of_def j0)
    then show ?thesis
      using same_id_not_terminal [OF assms, of x j] in_flight_not_terminal js by simp
  qed
  have "kept ?s0 (reap_in_flight (wi_id w) (unix (wi_last_heartbeat w)) reason reb ?s0)"
    unfolding reap_in_flight_def by (rule kept_fold_reap_job [OF d nt])
  moreover have "jobs (upsert_worker w dis s)
      = jobs (reap_in_flight (wi_id w) (unix (wi_last_heartbeat w)) reason reb ?s0)"
    by (simp add: upsert_worker_def Let_def restore_rebooted_def reason_def reb_def)
  ultimately show ?thesis by (simp add: kept_def j0)
qed

lemma jobs_record_heartbeat:
  "jobs (record_heartbeat worker t running retain s) = jobs (drop_kill_flags worker running s)"
  by (simp add: record_heartbeat_def Let_def beat_devices_def unknown_to_ready_def unknown_to_busy_def
      drop_kill_flags_def restore_lost_def renew_leases_def beat_worker_def)

lemma jobs_fold_stamp_kill:
  "kept s (fold (stamp_kill now) ids s)"
proof (induction ids arbitrary: s)
  case (Cons x xs)
  have "jobs (stamp_kill now x s)
      = sql_update (\<lambda>j. j_id j = x) (\<lambda>j. j\<lparr>j_kill_delivered_at := unix now\<rparr>) (jobs s)"
    by (simp add: stamp_kill_def)
  then have "kept s (stamp_kill now x s)" by (rule kept_update) (simp add: outcome_def)
  with Cons.IH kept_trans show ?case by (metis fold_simps(2))
qed (simp add: kept_refl)

lemma jobs_auto_recover: "jobs (snd (auto_recover worker pf now s)) = jobs s"
proof -
  have "jobs (snd (fold (recover_one now) cs acc)) = jobs (snd acc)" for cs acc
    by (induction cs arbitrary: acc) simp_all
  then show ?thesis by (simp add: auto_recover_def)
qed

text \<open>One job ends, or moves on, only from a state that is not terminal.\<close>

lemma kept_one:
  assumes core: "core_ok s" and "jobs t = sql_update (\<lambda>j. j_id j = job) f (jobs s)"
    and j: "j \<in> set (jobs s)" "j_id j = job" "\<not> terminal (j_state j)"
  shows "kept s t"
proof (rule kept_update [OF assms(2)])
  fix x assume "x \<in> set (jobs s)" "j_id x = job" "terminal (j_state x)"
  with same_id_not_terminal [OF core j(1,3), of x] j(2) show "outcome (f x) = outcome x" by simp
qed

lemma kept_release:
  assumes core: "core_ok s" and r: "release job st code reason now s = Inr s'"
  shows "kept s s'"
proof -
  obtain j where row: "sql_row (\<lambda>j. j_id j = job) (jobs s) = Some j"
    using r by (auto simp: release_def split: if_splits option.splits)
  show ?thesis
  proof (cases "terminal (j_state j)")
    case True
    with r row show ?thesis by (simp add: release_def kept_refl split: if_splits)
  next
    case False
    with r row have "jobs s' = sql_update (\<lambda>j. j_id j = job) (finish_job st code reason (unix now)) (jobs s)"
      by (auto simp: release_def Let_def free_device_def release_leases_of_def split: if_splits)
    then show ?thesis by (rule kept_one [OF core]) (use sql_row_Some [OF row] False in auto)
  qed
qed

lemma kept_assign:
  assumes core: "core_ok s" and r: "assign_queued lid job dev now s = Inr (s', a)"
  shows "kept s s'"
  using r
proof (rule assign_queued_Inr)
  fix d j s3
  assume j: "j \<in> set (jobs s)" "j_id j = job" "j_state j = JobQueued"
    and ins: "insert_lease (granted_lease lid d j now) ((mark_busy dev s)\<lparr>jobs :=
        sql_update (\<lambda>j. j_id j = job) (assign_row d (landing_runtime j d)) (jobs (mark_busy dev s))\<rparr>) = Inr s3"
    and s': "s' = s3\<lparr>reservations := sql_delete (\<lambda>r. rv_device_id r = dev) (reservations s3)\<rparr>"
  have "jobs s' = sql_update (\<lambda>j. j_id j = job) (assign_row d (landing_runtime j d)) (jobs s)"
    using ins s' by (auto simp: insert_lease_def mark_busy_def split: if_splits)
  then show ?thesis by (rule kept_one [OF core _ j(1,2)]) (simp add: j(3))
qed

lemma kept_request_kill:
  assumes core: "core_ok s" and r: "request_kill job reason fd now s = Inr (out, s')"
  shows "kept s s'"
proof -
  obtain j where row: "sql_row (\<lambda>j. j_id j = job) (jobs s) = Some j"
    using r by (auto simp: request_kill_def split: option.splits)
  then have j: "j \<in> set (jobs s)" "j_id j = job" by (auto dest: sql_row_Some)
  show ?thesis
  proof (cases "in_flight (j_state j)")
    case False
    with r row show ?thesis by (simp add: request_kill_def kept_refl)
  next
    case True
    let ?g = "\<lambda>j. j\<lparr>j_state := JobKilled, j_kill_requested := True, j_kill_delivered_at := 0,
              j_kill_reason := reason, j_finished_at := Some (unix now)\<rparr>"
    let ?h = "\<lambda>j. j\<lparr>j_kill_requested := True, j_kill_delivered_at := 0\<rparr>"
    from r row True consider
      "jobs s' = sql_update (\<lambda>j. j_id j = job) ?g (jobs s)"
      | "jobs s' = sql_update (\<lambda>j. j_id j = job \<and> in_flight (j_state j)) ?h (jobs s)"
      by (auto simp: request_kill_def Let_def release_leases_of_def split: if_splits)
    then show ?thesis
    proof cases
      case 1
      then show ?thesis by (rule kept_one [OF core _ j]) (simp add: in_flight_not_terminal True)
    next
      case 2
      then show ?thesis by (rule kept_update) (simp add: outcome_def)
    qed
  qed
qed

lemma jobs_allocate:
  assumes "allocate job_id lease_id req now s = Inr (s', j)" shows "\<exists>js. jobs s' = jobs s @ js"
  using assms
  by (cases rule: allocate_Inr)
     (auto simp: insert_job_def insert_lease_def mark_busy_def split: if_splits)

lemma jobs_enqueue:
  assumes "enqueue job_id req now s = Inr (s', j)" shows "\<exists>js. jobs s' = jobs s @ js"
  using assms by (cases rule: enqueue_Inr) (auto simp: insert_job_def split: if_splits)

lemma store_step_kept:
  assumes "store_step s op s'" and ok: "db_ok s" shows "kept s s'"
proof -
  have core: "core_ok s" using ok by (simp add: db_ok_def)
  from assms(1) show ?thesis
  proof (cases rule: store_step.cases)
    case (st_register w dis)
    with core show ?thesis by (simp add: kept_upsert_worker)
  next
    case (st_heartbeat worker t running retain)
    then have "jobs s' = sql_update
         (\<lambda>j. j_worker_id j = worker \<and> j_state j = JobKilled \<and> j_kill_requested j
              \<and> \<not> List.member running (j_id j))
         (\<lambda>j. j\<lparr>j_kill_requested := False\<rparr>) (jobs s)"
      by (simp add: jobs_record_heartbeat drop_kill_flags_def)
    then show ?thesis by (rule kept_update) (simp add: outcome_def)
  next
    case (st_sweep grace u hold_off retain now res)
    with kept_sweep [OF ok, of grace u hold_off retain now] show ?thesis by simp
  next
    case (st_recover worker pf now rs)
    with jobs_auto_recover [of worker pf now s] show ?thesis by (simp add: kept_jobs)
  next
    case (st_enqueue job_id req now j)
    with jobs_enqueue kept_append show ?thesis by blast
  next
    case (st_allocate job_id lease_id req now j)
    with jobs_allocate kept_append show ?thesis by blast
  next
    case (st_assign lid job dev now a)
    with kept_assign [OF core] show ?thesis by blast
  next
    case (st_finish job j worker st code reason now)
    with kept_release [OF core] show ?thesis by blast
  next
    case (st_kill job reason fd now out)
    with kept_request_kill [OF core] show ?thesis by blast
  next
    case (st_take_kills worker now ids)
    with jobs_fold_stamp_kill [of s now] show ?thesis
      by (metis (no_types, lifting) snd_conv take_kill_requests_def)
  next
    case (st_running job t)
    then have "jobs s' = sql_update (\<lambda>j. j_id j = job \<and> j_state j = JobAssigned)
        (\<lambda>j. j\<lparr>j_state := JobRunning, j_started_at := Some (unix t)\<rparr>) (jobs s)"
      by (simp add: mark_running_def)
    then show ?thesis by (rule kept_update) auto
  next
    case (st_cancel job reason now b)
    then have "s' = snd (cancel_queued job reason now s)" by simp
    then have "jobs s' = sql_update (\<lambda>j. j_id j = job \<and> j_state j = JobQueued)
        (\<lambda>j. j\<lparr>j_state := JobKilled, j_kill_reason := reason, j_finished_at := Some (unix now)\<rparr>) (jobs s)"
      by (simp add: cancel_queued_def Let_def)
    then show ?thesis by (rule kept_update) auto
  qed (auto intro!: kept_jobs simp: set_device_state_def Let_def clear_device_def retire_device_def
      set_device_max_runtime_def replace_labels_def upsert_host_doc_def reserve_def
      clear_reservations_def split: if_splits option.splits sum.splits)
qed

lemma run_kept:
  assumes "run store_step s ops s'" and "db_ok s" shows "kept s s'"
  using store_system.run_stable [OF assms, where Q = "kept s"] kept_refl kept_trans store_step_kept by blast

section \<open>A reported fault stays until an operator acts\<close>

definition faulted :: "string \<Rightarrow> db \<Rightarrow> bool" where
  "faulted dev s \<longleftrightarrow>
     (\<exists>d \<in> set (devices s). d_id d = dev \<and> d_state d = DeviceUnhealthy \<and> d_quarantine d = QuarFault)"

lemma faulted_devices: "devices t = devices s \<Longrightarrow> faulted dev t = faulted dev s"
  by (simp add: faulted_def)

lemma faulted_update:
  assumes "faulted dev s" and "devices t = sql_update P f (devices s)"
    and "\<And>d. d_id d = dev \<Longrightarrow> d_state d = DeviceUnhealthy \<Longrightarrow> d_quarantine d = QuarFault \<Longrightarrow> P d
       \<Longrightarrow> d_id (f d) = dev \<and> d_state (f d) = DeviceUnhealthy \<and> d_quarantine (f d) = QuarFault"
  shows "faulted dev t"
  using assms unfolding faulted_def assms(2) bex_sql_update by auto

lemma faulted_put:
  assumes "faulted dev s"
    and "\<And>d. d_id d = dev \<Longrightarrow> d_state d = DeviceUnhealthy \<Longrightarrow> d_quarantine d = QuarFault \<Longrightarrow> P d
       \<Longrightarrow> d_id (f d) = dev \<and> d_state (f d) = DeviceUnhealthy \<and> d_quarantine (f d) = QuarFault"
  shows "faulted dev (s\<lparr>devices := sql_update P f (devices s)\<rparr>)"
  by (rule faulted_update [OF assms(1), where P = P and f = f]) (use assms(2) in simp_all)

lemma faulted_append: "faulted dev s \<Longrightarrow> devices t = devices s @ ds \<Longrightarrow> faulted dev t"
  by (auto simp: faulted_def)

lemma fault_not_clearable [simp]: "\<not> reboot_clearable QuarFault"
  by (simp add: reboot_clearable_def)

lemma faulted_reap_job: "faulted dev s \<Longrightarrow> faulted dev (reap_job reason t reb jd s)"
proof (cases reb)
  case True
  assume "faulted dev s"
  then show ?thesis
    by (rule faulted_update [where P = "\<lambda>d. d_id d = snd jd \<and> (d_state d = DeviceBusy \<or> d_state d = DeviceUnknown)"
          and f = to_ready]) (simp_all add: reap_job_def Let_def True)
next
  case False
  assume "faulted dev s"
  then show ?thesis
    by (rule faulted_update [where P = "\<lambda>d. d_id d = snd jd" and f = "quarantine_with QuarRegistration"])
       (simp_all add: reap_job_def Let_def False quarantine_with_def)
qed

lemma faulted_upsert_device:
  assumes "faulted dev s" shows "faulted dev (upsert_device w di s)"
proof (cases "sql_exists (\<lambda>d. d_id d = di_id di) (devices s)")
  case True
  show ?thesis
    by (rule faulted_update [OF assms, where P = "\<lambda>d. d_id d = di_id di" and f = "redeclare w di"])
       (simp_all add: upsert_device_def sql_upsert_def True redeclare_def)
next
  case False
  show ?thesis
    by (rule faulted_append [OF assms, where ds = "[declared_row w di]"])
       (simp add: upsert_device_def sql_upsert_def False)
qed

lemma faulted_upsert_worker:
  assumes "faulted dev s" shows "faulted dev (upsert_worker w dis s)"
proof -
  have "faulted dev (fold (reap_job reason t reb) jds u)" if "faulted dev u" for reason t reb jds u
    using that by (induction jds arbitrary: u) (simp_all add: faulted_reap_job)
  then have reap: "faulted dev (reap_in_flight x t reason reb u)" if "faulted dev u" for x t reason reb u
    using that by (simp add: reap_in_flight_def)
  have restore: "faulted dev (restore_rebooted x u)" if "faulted dev u" for x u
    unfolding restore_rebooted_def by (rule faulted_put [OF that]) (auto simp: reboot_clearable_def)
  have fold: "faulted dev (fold (upsert_device w) dis u)" if "faulted dev u" for u
    using that by (induction dis arbitrary: u) (simp_all add: faulted_upsert_device)
  have "faulted dev (upsert_worker_row w s)"
    using assms by (simp add: upsert_worker_row_def faulted_def)
  then show ?thesis unfolding upsert_worker_def Let_def by (auto intro!: fold restore reap)
qed

lemma sweep_ids: "d_id ` set (devices (snd (sweep grace u hold_off retain now s))) = d_id ` set (devices s)"
proof -
  have "map d_id (devices (fold demote ps v)) = map d_id (devices v)" for ps v
    by (induction ps arbitrary: v) (simp_all add: devices_demote map_key_sql_update)
  moreover have "map d_id (devices (snd (fold (reap_device t) devs acc))) = map d_id (devices (snd acc))" for t devs acc
    by (induction devs arbitrary: acc) simp_all
  moreover have "map d_id (devices (snd (fold (expire_lease t) es acc))) = map d_id (devices (snd acc))" for t es acc
    by (induction es arbitrary: acc) (simp_all add: expire_lease_devices quarantine_with_def map_key_sql_update)
  ultimately have "map d_id (devices (snd (sweep grace u hold_off retain now s))) = map d_id (devices s)"
    unfolding sweep_state swept_jobs_def by simp
  from arg_cong [OF this, of set] show ?thesis by simp
qed

lemma faulted_sweep:
  assumes ok: "db_ok s" and f: "faulted dev s"
  shows "faulted dev (snd (sweep grace u hold_off retain now s))"
proof -
  have core: "core_ok s" using ok by (simp add: db_ok_def)
  obtain d where d: "d \<in> set (devices s)" "d_id d = dev" "d_state d = DeviceUnhealthy" "d_quarantine d = QuarFault"
    using f by (auto simp: faulted_def)
  then have "dev \<in> d_id ` set (devices (snd (sweep grace u hold_off retain now s)))"
    unfolding sweep_ids by blast
  then obtain d' where d': "d' \<in> set (devices (snd (sweep grace u hold_off retain now s)))" "d_id d' = dev" by blast
  obtain e where e: "e \<in> set (devices s)" "d_id d' = d_id e" "d_state e = DeviceUnhealthy \<longrightarrow> d' = e"
    using sweep_devices [OF ok d'(1)] by blast
  have "e = d" using device_unique [OF core e(1) d(1)] e(2) d'(2) d(2) by simp
  with e d d' show ?thesis by (auto simp: faulted_def)
qed

lemma faulted_recover:
  assumes ok: "db_ok s" and f: "faulted dev s"
  shows "faulted dev (snd (auto_recover worker pf now s))"
proof -
  have core: "core_ok s" using ok by (simp add: db_ok_def)
  have no: "fst c \<noteq> dev" if "c \<in> set (recoverable worker s)" for c
  proof
    assume "fst c = dev"
    with recoverableD [OF that] obtain e where e: "e \<in> set (devices s)" "d_id e = dev"
      "reboot_clearable (d_quarantine e)" by auto
    obtain d where d: "d \<in> set (devices s)" "d_id d = dev" "d_quarantine d = QuarFault"
      using f by (auto simp: faulted_def)
    have "e = d" using device_unique [OF core e(1) d(1)] e(2) d(2) by simp
    with e d show False by simp
  qed
  have "faulted dev (snd (fold (recover_one now) cs acc))"
    if "faulted dev (snd acc)" "\<And>c. c \<in> set cs \<Longrightarrow> fst c \<noteq> dev" for cs acc
    using that
  proof (induction cs arbitrary: acc)
    case (Cons c cs)
    have "faulted dev (snd (recover_one now c acc))"
    proof (cases "auto_recovery_limit \<le> sql_count (\<lambda>r. dr_device_id r = fst c)
           (device_recoveries (prune_recoveries (fst c) (recovery_cutoff now) (snd acc)))")
      case True
      with Cons.prems(1) show ?thesis by (simp add: faulted_def recover_one_devices)
    next
      case False
      show ?thesis
        by (rule faulted_update [OF Cons.prems(1),
              where P = "\<lambda>d. d_id d = fst c \<and> d_state d = DeviceUnhealthy" and f = to_ready])
           (use False Cons.prems(2) in \<open>auto simp: recover_one_devices\<close>)
    qed
    with Cons show ?case by simp
  qed simp
  with f no show ?thesis by (simp add: auto_recover_def)
qed

lemma faulted_heartbeat:
  assumes "faulted dev s" shows "faulted dev (record_heartbeat worker t running retain s)"
proof -
  have a: "faulted dev (beat_worker x t u)" "faulted dev (renew_leases x t rs u)"
    "faulted dev (drop_kill_flags x rs u)" if "faulted dev u" for x rs u
    using that by (simp_all add: faulted_def beat_worker_def renew_leases_def drop_kill_flags_def)
  have b: "faulted dev (restore_lost x t rs u)" if "faulted dev u" for x rs u
    unfolding restore_lost_def by (rule faulted_put [OF that]) auto
  have c: "faulted dev (unknown_to_busy x t rs r u)" if "faulted dev u" for x rs r u
    unfolding unknown_to_busy_def Let_def by (rule faulted_put [OF that]) auto
  have d: "faulted dev (unknown_to_ready x t u)" if "faulted dev u" for x u
    unfolding unknown_to_ready_def by (rule faulted_put [OF that]) auto
  have e: "faulted dev (beat_devices x t u)" if "faulted dev u" for x u
    unfolding beat_devices_def by (rule faulted_put [OF that]) auto
  show ?thesis using assms unfolding record_heartbeat_def Let_def by (auto intro!: a b c d e)
qed

lemma store_step_faulted:
  assumes "store_step s op s'" and ok: "db_ok s" and f: "faulted dev s"
    and keep: "op \<noteq> OpClear dev" "op \<noteq> OpRetire dev"
  shows "faulted dev s'"
  using assms(1)
proof (cases rule: store_step.cases)
  case (st_register w dis)
  with f show ?thesis by (simp add: faulted_upsert_worker)
next
  case (st_fault x t detail)
  then have "s' = s\<lparr>devices := sql_update (\<lambda>d. d_id d = x)
      (\<lambda>d. d\<lparr>d_state := DeviceUnhealthy, d_quarantine := QuarFault, d_detail := detail,
             d_heartbeat := unix t\<rparr>) (devices s)\<rparr>"
    by (auto simp: set_device_state_def Let_def split: if_splits)
  then show ?thesis by (simp add: faulted_put [OF f])
next
  case (st_heartbeat worker t running retain)
  with f show ?thesis by (simp add: faulted_heartbeat)
next
  case (st_sweep grace u hold_off retain now res)
  with faulted_sweep [OF ok f, of grace u hold_off retain now] show ?thesis by simp
next
  case (st_clear x b)
  then have "x \<noteq> dev" using keep(1) by simp
  moreover have "s' = snd (clear_device x s)" using st_clear by simp
  ultimately show ?thesis
    unfolding clear_device_def Let_def by (auto intro!: faulted_put [OF f])
next
  case (st_recover worker pf now rs)
  with faulted_recover [OF ok f, of worker pf now] show ?thesis by simp
next
  case (st_retire x)
  with keep(2) f show ?thesis
    by (auto simp: retire_device_def faulted_def sql_simps split: option.splits if_splits)
next
  case (st_ceiling x dur)
  then have "s' = s\<lparr>devices := sql_update (\<lambda>d. d_id d = x)
      (\<lambda>d. d\<lparr>d_max_runtime := whole_seconds dur\<rparr>) (devices s)\<rparr>"
    by (auto simp: set_device_max_runtime_def split: if_splits)
  then show ?thesis by (simp add: faulted_put [OF f])
next
  case (st_enqueue job_id req now j)
  from st_enqueue(3) have "devices s' = devices s"
    by (cases rule: enqueue_Inr) (auto simp: insert_job_def split: if_splits)
  with f show ?thesis by (simp add: faulted_def)
next
  case (st_allocate job_id lease_id req now j)
  from st_allocate(3) show ?thesis
  proof (cases rule: allocate_Inr)
    case replayed
    with f show ?thesis by simp
  next
    case (allocated d ttl s2)
    then have "devices s' = sql_update (\<lambda>x. d_id x = d_id d \<and> d_state x = DeviceReady)
        (\<lambda>x. x\<lparr>d_state := DeviceBusy\<rparr>) (devices s)"
      by (auto simp: insert_job_def insert_lease_def mark_busy_def split: if_splits)
    then show ?thesis by (rule faulted_update [OF f]) auto
  qed
next
  case (st_assign lid job x now a)
  from st_assign(2) obtain d j s3 where
    "insert_lease (granted_lease lid d j now) ((mark_busy x s)\<lparr>jobs :=
        sql_update (\<lambda>j. j_id j = job) (assign_row d (landing_runtime j d)) (jobs (mark_busy x s))\<rparr>) = Inr s3"
    "s' = s3\<lparr>reservations := sql_delete (\<lambda>r. rv_device_id r = x) (reservations s3)\<rparr>"
    by (rule assign_queued_Inr)
  then have "devices s' = sql_update (\<lambda>d. d_id d = x \<and> d_state d = DeviceReady)
      (\<lambda>d. d\<lparr>d_state := DeviceBusy\<rparr>) (devices s)"
    by (auto simp: insert_lease_def mark_busy_def split: if_splits)
  then show ?thesis by (rule faulted_update [OF f]) auto
next
  case (st_finish job j worker st code reason now)
  have "faulted dev (free_device x (release_leases_of y t (s\<lparr>jobs := js\<rparr>)))" for x y t js
  proof -
    have "devices (free_device x (release_leases_of y t (s\<lparr>jobs := js\<rparr>)))
      = sql_update (\<lambda>d. d_id d = x \<and> d_state d = DeviceBusy) (\<lambda>d. d\<lparr>d_state := DeviceReady\<rparr>) (devices s)"
      by (simp add: free_device_def release_leases_of_def)
    then show ?thesis by (rule faulted_update [OF f]) auto
  qed
  with st_finish f show ?thesis by (auto simp: release_def Let_def split: if_splits option.splits)
next
  case (st_kill job reason fd now out)
  then have "devices s' = devices s"
    by (auto simp: request_kill_def Let_def release_leases_of_def split: option.splits if_splits)
  with f show ?thesis by (simp add: faulted_def)
next
  case (st_take_kills worker now ids)
  have "devices (fold (stamp_kill now) xs u) = devices u" for xs u
    by (induction xs arbitrary: u) (simp_all add: stamp_kill_def)
  with st_take_kills f show ?thesis by (auto simp: take_kill_requests_def Let_def faulted_def)
next
  case (st_cancel job reason now b)
  then have "devices s' = devices s" by (auto simp: cancel_queued_def Let_def split: if_splits)
  with f show ?thesis by (simp add: faulted_def)
qed (use f in \<open>auto simp: faulted_def replace_labels_def upsert_host_doc_def reserve_def
      clear_reservations_def mark_running_def split: if_splits sum.splits\<close>)

lemma run_faulted:
  assumes "run store_step s ops s'" and "db_ok s" and "faulted dev s"
    and "OpClear dev \<notin> set ops" and "OpRetire dev \<notin> set ops"
  shows "faulted dev s'"
  by (rule store_system.run_stable [where Q = "faulted dev", OF assms(1-3)])
     (use store_step_faulted assms(4,5) in metis)

end
