(* ===== verification/Store_Submission.thy ===== *)
theory Store_Submission
  imports Store_Schedule
begin

text \<open>
  What a submitter may rely on (\<open>src/internal/store/queue.go\<close>): a repeated key returns
  the first job, the stored runtime stays within the declared ceiling, the reported
  position is the rank in scheduling order, and a kill is re-offered at a bounded rate.
\<close>

section \<open>Position in the queue\<close>

lemma takeWhile_split:
  assumes "x \<in> set xs"
  obtains ys where "xs = takeWhile (\<lambda>y. y \<noteq> x) xs @ x # ys"
proof -
  from split_list_first [OF assms] obtain as bs where "xs = as @ x # bs" "x \<notin> set as" by blast
  moreover then have "takeWhile (\<lambda>y. y \<noteq> x) xs = as" by (simp add: takeWhile_tail takeWhile_append)
  ultimately show thesis using that by metis
qed

text \<open>What stands before an element of a stably sorted list.\<close>

lemma before_in_sort:
  fixes k :: "'a \<Rightarrow> 'b::linorder"
  assumes dist: "distinct xs" and x: "x \<in> set xs"
  shows "set (takeWhile (\<lambda>y. y \<noteq> x) (sort_key k xs)) =
    {y \<in> set xs. k y < k x \<or> k y = k x \<and> y \<in> set (takeWhile (\<lambda>y. y \<noteq> x) xs)}"
proof -
  let ?A = "takeWhile (\<lambda>y. y \<noteq> x) (sort_key k xs)" and ?C = "takeWhile (\<lambda>y. y \<noteq> x) xs"
  obtain B where AB: "sort_key k xs = ?A @ x # B" using takeWhile_split [of x "sort_key k xs"] x by auto
  obtain D where CD: "xs = ?C @ x # D" using takeWhile_split [OF x] by auto
  have "sorted (map k (?A @ x # B))" unfolding AB [symmetric] by simp
  then have le: "\<forall>y \<in> set ?A. k y \<le> k x" and ge: "\<forall>y \<in> set B. k x \<le> k y"
    by (auto simp: sorted_append)
  have all: "set xs = set ?A \<union> {x} \<union> set B" using arg_cong [OF AB, of set] by auto
  have "distinct (?A @ x # B)" unfolding AB [symmetric] using dist by simp
  then have xA: "x \<notin> set ?A" "x \<notin> set B" "set ?A \<inter> set B = {}" by auto
  have "distinct (?C @ x # D)" unfolding CD [symmetric] by (rule dist)
  then have xC: "x \<notin> set ?C" "x \<notin> set D" by auto
  let ?F = "filter (\<lambda>y. k y = k x)"
  have "?F (?A @ x # B) = ?F (?C @ x # D)"
    unfolding AB [symmetric] CD [symmetric] by (rule sort_key_stable)
  then have "?F ?A @ x # ?F B = ?F ?C @ x # ?F D" by simp
  moreover have "x \<notin> set (?F ?A)" "x \<notin> set (?F B)" using xA by auto
  moreover have "x \<notin> set (?F ?C)" "x \<notin> set (?F D)" using xC by auto
  ultimately have "?F ?A = ?F ?C" by (metis append_Cons_eq_iff)
  then have same: "set (?F ?A) = set (?F ?C)" by simp
  have sub: "set ?C \<subseteq> set xs" by (auto dest: set_takeWhileD)
  show ?thesis
  proof (intro equalityI subsetI)
    fix y assume y: "y \<in> set ?A"
    then have "k y < k x \<or> k y = k x" using le by force
    then show "y \<in> {y \<in> set xs. k y < k x \<or> k y = k x \<and> y \<in> set ?C}"
      using y all same by auto
  next
    fix y assume "y \<in> {y \<in> set xs. k y < k x \<or> k y = k x \<and> y \<in> set ?C}"
    then have y: "y \<in> set xs" "k y < k x \<or> k y = k x \<and> y \<in> set ?C" by auto
    from y(2) show "y \<in> set ?A"
    proof
      assume "k y < k x"
      then show ?thesis using y(1) all ge by force
    next
      assume "k y = k x \<and> y \<in> set ?C"
      then show ?thesis using same by auto
    qed
  qed
qed

text \<open>The filter over the numbered table counts the same rows.\<close>

lemma count_ahead:
  assumes dist: "distinct (C @ x # D)" and irr: "\<not> R x"
  shows "length (filter (\<lambda>(i, q). P q \<and> (R q \<or> E q \<and> i < length C)) (enumerate 0 (C @ x # D)))
     = card {q \<in> set (C @ x # D). P q \<and> (R q \<or> E q \<and> q \<in> set C)}"
proof -
  have low: "length (filter (\<lambda>(i, q). P q \<and> (R q \<or> E q \<and> i < length C)) (enumerate n ys))
      = length (filter (\<lambda>q. P q \<and> (R q \<or> E q)) ys)" if "n + length ys \<le> length C" for n ys
    using that by (induction ys arbitrary: n) auto
  have high: "length (filter (\<lambda>(i, q). P q \<and> (R q \<or> E q \<and> i < length C)) (enumerate n ys))
      = length (filter (\<lambda>q. P q \<and> R q) ys)" if "length C \<le> n" for n ys
    using that by (induction ys arbitrary: n) auto
  have "length (filter (\<lambda>(i, q). P q \<and> (R q \<or> E q \<and> i < length C)) (enumerate 0 (C @ x # D)))
      = length (filter (\<lambda>q. P q \<and> (R q \<or> E q)) C) + length (filter (\<lambda>q. P q \<and> R q) D)"
    using irr by (simp add: enumerate_append_eq low high)
  also have "\<dots> = card (set (filter (\<lambda>q. P q \<and> (R q \<or> E q)) C @ filter (\<lambda>q. P q \<and> R q) D))"
    using dist by (subst distinct_card) auto
  also have "set (filter (\<lambda>q. P q \<and> (R q \<or> E q)) C @ filter (\<lambda>q. P q \<and> R q) D)
      = {q \<in> set (C @ x # D). P q \<and> (R q \<or> E q \<and> q \<in> set C)}"
    using dist irr by auto
  finally show ?thesis .
qed

text \<open>The jobs ahead of \<open>j\<close> in the order in which a pass visits the queue.\<close>

definition jobs_ahead :: "job_row \<Rightarrow> db \<Rightarrow> job_row list" where
  "jobs_ahead j s =
     filter (\<lambda>q. j_selector j = '''' \<longrightarrow> j_device_id q = j_device_id j)
       (takeWhile (\<lambda>q. q \<noteq> j) (queued_jobs s))"

lemma queue_position_ahead:
  assumes core: "core_ok s" and j: "j \<in> set (jobs s)" "j_state j = JobQueued" "0 \<le> j_queued_at j"
  shows "queue_position (j_id j) s = Inr (length (jobs_ahead j s) + 1)"
proof -
  let ?C = "takeWhile (\<lambda>q. q \<noteq> j) (jobs s)"
  obtain D where CD: "jobs s = ?C @ j # D" using takeWhile_split [OF j(1)] by auto
  have dist: "distinct (jobs s)" using core by (auto simp: core_ok_def schema_ok_def distinct_map)
  have "takeWhile (\<lambda>q. j_id q \<noteq> j_id j) (jobs s) = ?C"
    by (rule takeWhile_cong) (use job_unique [OF core _ j(1)] in auto)
  then have rid: "rowid (j_id j) s = length ?C" by (simp add: rowid_def)
  have qa: "(case job_queued_at j of None \<Rightarrow> 0 | Some t \<Rightarrow> unix t) = j_queued_at j"
    using j(3) by (simp add: job_queued_at_def)
  let ?P = "\<lambda>q. j_state q = JobQueued \<and> (j_selector j = '''' \<longrightarrow> j_device_id q = j_device_id j)"
  let ?R = "\<lambda>q. queue_key q < queue_key j" and ?E = "\<lambda>q. queue_key q = queue_key j"
  have key: "(j_priority j < j_priority q \<or> j_priority q = j_priority j
        \<and> (j_queued_at q < j_queued_at j \<or> j_queued_at q = j_queued_at j \<and> i < n))
      \<longleftrightarrow> ?R q \<or> ?E q \<and> i < n" for q and i n :: nat
    by (auto simp: queue_key_def less_prod_def)
  have ex: "queue_position (j_id j) s = Inr (length (filter (\<lambda>(i, q). ?P q \<and> (?R q \<or> ?E q \<and> i < length ?C))
      (enumerate 0 (jobs s))) + 1)"
    using j(2) get_job_Inr [OF core j(1)]
    by (simp add: queue_position_def Let_def qa rid key conj_assoc)
  have cnt: "length (filter (\<lambda>(i, q). ?P q \<and> (?R q \<or> ?E q \<and> i < length ?C)) (enumerate 0 (jobs s)))
      = card {q \<in> set (jobs s). ?P q \<and> (?R q \<or> ?E q \<and> q \<in> set ?C)}"
    using count_ahead [of ?C j D ?R ?P ?E] dist CD by simp
  let ?q = "filter (\<lambda>j. j_state j = JobQueued) (jobs s)"
  have tw: "set (takeWhile (\<lambda>q. q \<noteq> j) ?q) = {q \<in> set ?C. j_state q = JobQueued}"
  proof -
    have "takeWhile (\<lambda>q. q \<noteq> j) (filter (\<lambda>j. j_state j = JobQueued) (xs @ j # ys))
        = filter (\<lambda>j. j_state j = JobQueued) xs" if "j \<notin> set xs" for xs ys
      using that j(2) by (induction xs) auto
    moreover have "j \<notin> set ?C" by (auto dest: set_takeWhileD)
    ultimately show ?thesis using CD by (metis set_filter)
  qed
  have "set (jobs_ahead j s) = {q \<in> set (jobs s). ?P q \<and> (?R q \<or> ?E q \<and> q \<in> set ?C)}"
    using before_in_sort [of ?q j queue_key] dist j tw
    by (auto simp: jobs_ahead_def queued_jobs_def)
  moreover have "distinct (jobs_ahead j s)"
    using dist by (auto simp: jobs_ahead_def queued_jobs_def intro: distinct_filter distinct_takeWhile)
  ultimately show ?thesis using ex cnt distinct_card by metis
qed

section \<open>Submitting twice\<close>

lemma insert_job_Inr: "insert_job j s = Inr s' \<Longrightarrow> s' = s\<lparr>jobs := jobs s @ [j]\<rparr>"
  by (auto simp: insert_job_def split: if_splits)

lemma resolve_selector_facts: "facts s = facts s' \<Longrightarrow> resolve_selector req s = resolve_selector req s'"
  using matching_devices_facts [of s s'] device_ceilings_facts [of s s']
  by (simp add: resolve_selector_def ceiling_filter_def split: sum.split)

text \<open>The retry of a submission that succeeded, whichever identifier the retry would have
  drawn, answers with the first job and writes nothing.\<close>

lemma enqueue_retry:
  assumes e: "enqueue job_id req now s = Inr (s1, j)" and key: "eq_idempotency_key req \<noteq> ''''"
  shows "enqueue job_id' req now' s1 = Inr (s1, j)"
proof -
  let ?key = "\<lambda>x. j_idempotency_key x = Some (eq_idempotency_key req)"
  from e obtain sel where sel: "resolve_selector req s = Inr sel"
    by (auto simp: enqueue_def split: sum.splits)
  from e show ?thesis
  proof (cases rule: enqueue_Inr)
    case replayed
    with sel show ?thesis by (simp add: enqueue_def)
  next
    case (inserted sel' runtime)
    then have s1: "s1 = s\<lparr>jobs := jobs s @ [j]\<rparr>" using insert_job_Inr by simp
    have k: "?key j" using key by (simp add: inserted(4) queued_row_def)
    have "\<not> sql_exists (\<lambda>x. j_idempotency_key x = j_idempotency_key j) (jobs s)"
      using inserted(5) k by (auto simp: insert_job_def split: if_splits)
    then have none: "sql_row ?key (jobs s) = None" using k by (auto simp: sql_row_None sql_exists_iff)
    have "sql_row ?key (jobs s1) = Some j" using none k by (simp add: s1 sql_row_append)
    moreover have "resolve_selector req s1 = Inr sel"
      using sel resolve_selector_facts [of s1 s req] by (simp add: s1 facts_def)
    ultimately show ?thesis using inserted(1) key by (simp add: enqueue_def)
  qed
qed

section \<open>The runtime ceiling\<close>

text \<open>Seconds that a \<open>time.Duration\<close> can hold.\<close>

abbreviation max_seconds :: int where
  "max_seconds \<equiv> 9223372036"

lemma whole_seconds_le: "0 \<le> d \<Longrightarrow> d \<le> c * go_second \<Longrightarrow> 0 \<le> whole_seconds d \<and> whole_seconds d \<le> c"
proof -
  assume d: "0 \<le> d" "d \<le> c * go_second"
  from d(2) have "d div go_second \<le> c * go_second div go_second" by (rule zdiv_mono1) simp
  with d(1) show ?thesis by (simp add: whole_seconds_def pos_imp_zdiv_nonneg_iff)
qed

lemma resolve_runtime_within:
  assumes "resolve_runtime req s = Inr r" and "eq_device_id req = d_id d" "d_id d \<noteq> ''''"
    and "d \<in> set (devices s)" and core: "core_ok s"
    and c: "0 < d_max_runtime d" "d_max_runtime d \<le> max_seconds" and "0 \<le> eq_max_runtime req"
  shows "0 \<le> r \<and> r \<le> d_max_runtime d * go_second"
proof -
  have "sql_row (\<lambda>d'. d_id d' = d_id d) (devices s) = Some d"
    using device_table.find_unique [of s d] assms(4) core by (simp add: core_ok_def schema_ok_def)
  moreover have "seconds_dur (d_max_runtime d) = d_max_runtime d * go_second"
    using c by (intro seconds_dur_small) simp
  ultimately show ?thesis
    using assms(1-3,8) c by (auto simp: resolve_runtime_def Let_def split: if_splits)
qed

text \<open>What a pinned job gets on its device lies within the ceiling, inherited when the
  request names none.\<close>

lemma pinned_runtime_bounded:
  assumes e: "enqueue job_id req now s = Inr (s', j)" and core: "core_ok s"
    and new: "eq_idempotency_key req = ''''"
    and d: "d \<in> set (devices s)" "eq_device_id req = d_id d" "d_id d \<noteq> ''''"
    and c: "0 < d_max_runtime d" "d_max_runtime d \<le> max_seconds" and n: "0 \<le> eq_max_runtime req"
  shows "0 < landing_runtime j d \<and> landing_runtime j d \<le> d_max_runtime d"
  using e
proof (cases rule: enqueue_Inr)
  case replayed
  with new show ?thesis by simp
next
  case (inserted sel r)
  have "0 \<le> r \<and> r \<le> d_max_runtime d * go_second"
    by (rule resolve_runtime_within [OF inserted(3) d(2,3,1) core c n])
  then have "0 \<le> j_max_runtime j \<and> j_max_runtime j \<le> d_max_runtime d"
    using whole_seconds_le [of r "d_max_runtime d"] by (simp add: inserted(4) queued_row_def)
  with c show ?thesis by (simp add: landing_runtime_def)
qed

text \<open>A negative request passes both checks and is kept: the ceiling does not bind it.\<close>

lemma negative_runtime_kept:
  assumes e: "enqueue job_id req now s = Inr (s', j)" and new: "eq_idempotency_key req = ''''"
    and d: "d \<in> set (devices s)" "eq_device_id req = d_id d" "d_id d \<noteq> ''''" "core_ok s"
    and c: "0 < d_max_runtime d" "d_max_runtime d \<le> max_seconds" and n: "eq_max_runtime req \<le> - go_second"
  shows "landing_runtime j d < 0"
  using e
proof (cases rule: enqueue_Inr)
  case replayed
  with new show ?thesis by simp
next
  case (inserted sel r)
  have "sql_row (\<lambda>d'. d_id d' = d_id d) (devices s) = Some d"
    using device_table.find_unique [of s d] d(1,4) by (simp add: core_ok_def schema_ok_def)
  moreover have "seconds_dur (d_max_runtime d) = d_max_runtime d * go_second"
    using c by (intro seconds_dur_small) simp
  ultimately have "r = eq_max_runtime req"
    using inserted(3) d(2,3) c n by (auto simp: resolve_runtime_def Let_def split: if_splits)
  then have "j_max_runtime j < 0" using n by (simp add: inserted(4) queued_row_def whole_seconds_def)
  then show ?thesis by (simp add: landing_runtime_def)
qed

text \<open>The candidates of a selector job match it and tolerate its runtime.\<close>

lemma fold_map_upd:
  assumes "distinct (map k rs)" and "r \<in> set rs"
  shows "fold (\<lambda>r m. m(k r \<mapsto> v r)) rs m (k r) = Some (v r)"
  using assms
proof (induction rs arbitrary: m)
  case (Cons x xs)
  have keep: "fold (\<lambda>r m. m(k r \<mapsto> v r)) ys m a = m a" if "a \<notin> k ` set ys" for ys m a
    using that by (induction ys arbitrary: m) auto
  show ?case
  proof (cases "r = x")
    case True
    have "fold (\<lambda>r m. m(k r \<mapsto> v r)) xs (m(k x \<mapsto> v x)) (k x) = (m(k x \<mapsto> v x)) (k x)"
      by (rule keep) (use Cons.prems in simp)
    with True show ?thesis by (simp del: fun_upd_apply) simp
  next
    case False
    with Cons show ?thesis by simp
  qed
qed simp

lemma ceiling_at_device:
  assumes "core_ok s" and "d \<in> set (devices s)"
  shows "ceiling_at (device_ceilings s) (d_id d) = seconds_dur (d_max_runtime d)"
proof -
  have "device_ceilings s (d_id d) = Some (seconds_dur (d_max_runtime d))"
    unfolding device_ceilings_def using assms
    by (intro fold_map_upd [of d_id "devices s" d "\<lambda>d. seconds_dur (d_max_runtime d)" Map.empty])
       (simp_all add: core_ok_def schema_ok_def)
  then show ?thesis by (simp add: ceiling_at_def)
qed

lemma candidates_sound:
  assumes core: "core_ok s" and c: "candidates j s = Some cands" and dev: "dev \<in> set cands"
    and sel: "j_selector j \<noteq> ''''"
  obtains p d where "sel_parse (j_selector j) = Inr p" "d \<in> set (devices s)" "d_id d = dev"
    "sel_match p (labels_of (label_snapshot s) dev)"
    "seconds_dur (j_max_runtime j) \<le> 0 \<or> seconds_dur (d_max_runtime d) = 0
       \<or> seconds_dur (j_max_runtime j) \<le> seconds_dur (d_max_runtime d)"
proof -
  obtain p where p: "sel_parse (j_selector j) = Inr p"
    using c sel by (auto simp: candidates_def matching_devices_def split: sum.splits)
  let ?m = "sort (map d_id (filter (\<lambda>d. sel_match p (labels_of (label_snapshot s) (d_id d))) (all_devices s)))"
  have "cands = ceiling_filter ?m (seconds_dur (j_max_runtime j)) s"
    using c sel p by (simp add: candidates_def matching_devices_def Let_def split: if_splits)
  with dev have a: "dev \<in> set ?m"
    and b: "seconds_dur (j_max_runtime j) \<le> 0 \<or> ceiling_at (device_ceilings s) dev = 0
       \<or> seconds_dur (j_max_runtime j) \<le> ceiling_at (device_ceilings s) dev"
    by (auto simp: ceiling_filter_def simp del: set_sort split: if_splits)
  from a obtain d where d: "d \<in> set (devices s)" "d_id d = dev"
    "sel_match p (labels_of (label_snapshot s) dev)"
    by (auto simp: all_devices_def)
  with p b ceiling_at_device [OF core d(1)] show thesis by (intro that [of p d]) auto
qed

section \<open>Re-offering a kill\<close>

lemma jobs_take_kills:
  "jobs (snd (take_kill_requests worker now s)) =
     sql_update (\<lambda>j. j_id j \<in> j_id ` set (filter (kill_due worker now) (jobs s)))
       (\<lambda>j. j\<lparr>j_kill_delivered_at := unix now\<rparr>) (jobs s)"
proof -
  have "jobs (fold (stamp_kill now) ids s)
      = sql_update (\<lambda>j. j_id j \<in> set ids) (\<lambda>j. j\<lparr>j_kill_delivered_at := unix now\<rparr>) (jobs s)" for ids s
    by (induction ids arbitrary: s) (auto simp: stamp_kill_def sql_update_def)
  then show ?thesis by (simp add: take_kill_requests_def Let_def)
qed

lemma take_kills_iff:
  assumes core: "core_ok s" and j: "j \<in> set (jobs s)"
  shows "j_id j \<in> set (fst (take_kill_requests worker now s)) \<longleftrightarrow> kill_due worker now j"
  using job_unique [OF core _ j] j by (auto simp: take_kill_requests_def Let_def)

text \<open>A flag handed out at \<open>now\<close> is offered again exactly when the interval has passed.\<close>

lemma kill_reoffered:
  assumes ok: "db_ok s" and take: "take_kill_requests worker now s = (ids, s1)" and x: "x \<in> set ids"
  shows "x \<in> set (fst (take_kill_requests worker now' s1)) \<longleftrightarrow> unix now \<le> unix (now' - kill_redeliver_interval)"
proof -
  have core: "core_ok s" using ok by (simp add: db_ok_def)
  have s1: "s1 = snd (take_kill_requests worker now s)" and ids: "ids = fst (take_kill_requests worker now s)"
    using take by simp_all
  have core1: "core_ok s1"
    using take_kill_requests_db_ok [OF ok, of worker now] by (simp add: s1 db_ok_def)
  from x ids obtain j where j: "j \<in> set (jobs s)" "j_id j = x" "kill_due worker now j"
    by (auto simp: take_kill_requests_def Let_def)
  let ?j = "j\<lparr>j_kill_delivered_at := unix now\<rparr>"
  have "j_id j \<in> j_id ` set (filter (kill_due worker now) (jobs s))" using j by auto
  then have mem: "?j \<in> set (jobs s1)"
    using sql_update_mem [OF j(1), of "\<lambda>j. j_id j \<in> j_id ` set (filter (kill_due worker now) (jobs s))"
        "\<lambda>j. j\<lparr>j_kill_delivered_at := unix now\<rparr>"]
    unfolding s1 jobs_take_kills by simp
  have "x \<in> set (fst (take_kill_requests worker now' s1)) \<longleftrightarrow> kill_due worker now' ?j"
    using take_kills_iff [OF core1 mem] j(2) by simp
  also have "\<dots> \<longleftrightarrow> unix now \<le> unix (now' - kill_redeliver_interval)"
    using j(3) by (simp add: kill_due_def)
  finally show ?thesis .
qed

text \<open>The selector is resolved before the idempotency key is looked up: a retry of an accepted
  submission is refused once no device matches any more.\<close>

lemma enqueue_resolves_first:
  assumes "check_request req = Inr u" and "resolve_selector req s = Inl e"
  shows "enqueue job_id req now s = Inl e"
  using assms by (simp add: enqueue_def)

end
