(* ===== verification/Store_Examples.thy ===== *)
theory Store_Examples
  imports Store_Stability Store_Submission
begin

text \<open>
  A small fleet, built by transactions of the store: two devices of one worker, one
  of them with a ceiling and a label, a job running on the first and two jobs queued.
  The properties of the store are applied to it.
\<close>

definition ex_worker :: worker_info where
  "ex_worker = \<lparr>wi_id = ''w'', wi_host = ''h'', wi_boot_id = ''b'', wi_last_heartbeat = 1000 * go_second\<rparr>"

definition ex_devices :: "device_info list" where
  "ex_devices =
     [\<lparr>di_id = ''h:0'', di_host = ''h'', di_name = ''0'', di_state = DeviceReady\<rparr>,
      \<lparr>di_id = ''h:1'', di_host = ''h'', di_name = ''1'', di_state = DeviceReady\<rparr>]"

definition ex_dev :: "string \<Rightarrow> string \<Rightarrow> device_state \<Rightarrow> int \<Rightarrow> quarantine \<Rightarrow> device_row" where
  "ex_dev dev name st c q =
     \<lparr>d_id = dev, d_host = ''h'', d_name = name, d_worker_id = ''w'', d_state = st,
      d_heartbeat = 1000, d_max_runtime = c, d_quarantine = q, d_detail = ''''\<rparr>"

definition ex_fleet :: db where
  "ex_fleet =
     \<lparr>workers = [\<lparr>w_id = ''w'', w_host = ''h'', w_boot_id = ''b'', w_heartbeat = 1000\<rparr>],
      devices = [ex_dev ''h:0'' ''0'' DeviceReady 0 QuarNone, ex_dev ''h:1'' ''1'' DeviceReady 3600 QuarNone],
      jobs = [], leases = [], reservations = [],
      device_labels = [\<lparr>lb_device_id = ''h:1'', lb_key = ''gpu'', lb_value = ''a100'',
                        lb_source = SourceDetected, lb_updated_at = 1000\<rparr>],
      host_docs = [], device_recoveries = []\<rparr>"

definition ex_request :: "string \<Rightarrow> string \<Rightarrow> string \<Rightarrow> duration \<Rightarrow> enqueue_request" where
  "ex_request dev sel key runtime =
     \<lparr>eq_device_id = dev, eq_selector = sel, eq_command = [''train''], eq_cwd = '''',
      eq_env = Map.empty, eq_submitter = ''ann'', eq_idempotency_key = key, eq_priority = 0,
      eq_max_runtime = runtime, eq_idle_timeout = 0, eq_kind = '''', eq_reason = '''', eq_stdio = ''''\<rparr>"

definition ex_job :: "string \<Rightarrow> string \<Rightarrow> string \<Rightarrow> job_state \<Rightarrow> string \<Rightarrow> int \<Rightarrow> job_row" where
  "ex_job job dev sel st worker runtime =
     \<lparr>j_id = job, j_selector = sel, j_command = [''train''], j_cwd = '''', j_env = Map.empty,
      j_submitter = ''ann'', j_idempotency_key = None, j_state = st, j_device_id = dev,
      j_worker_id = worker, j_exit_code = None, j_kill_reason = '''', j_submitted_at = 1001,
      j_started_at = None, j_finished_at = None, j_priority = 0, j_max_runtime = runtime,
      j_idle_timeout = 0, j_queued_at = 1001, j_kind = LeaseKindJob, j_reason = '''',
      j_stdio = '''', j_kill_requested = False, j_kill_delivered_at = 0\<rparr>"

definition ex_lease :: "string \<Rightarrow> string \<Rightarrow> string \<Rightarrow> lease_row" where
  "ex_lease lid dev job =
     \<lparr>l_id = lid, l_device_id = dev, l_holder = ''ann'', l_job_id = job, l_acquired_at = 1002,
      l_expires_at = 1302, l_released_at = None, l_kind = LeaseKindJob, l_reason = ''''\<rparr>"

text \<open>\<open>j1\<close> holds \<open>h:0\<close>; \<open>j2\<close> waits for it and \<open>j3\<close> for a device with the label.\<close>

definition ex_db :: db where
  "ex_db = ex_fleet
     \<lparr>devices := [ex_dev ''h:0'' ''0'' DeviceBusy 0 QuarNone, ex_dev ''h:1'' ''1'' DeviceReady 3600 QuarNone],
      jobs := [ex_job ''j1'' ''h:0'' '''' JobAssigned ''w'' 0, ex_job ''j2'' ''h:0'' '''' JobQueued '''' 0,
               ex_job ''j3'' '''' ''gpu=a100'' JobQueued '''' 60],
      leases := [ex_lease ''l1'' ''h:0'' ''j1'']\<rparr>"

lemmas ex_defs =
  ex_worker_def ex_devices_def ex_dev_def ex_fleet_def ex_request_def ex_job_def ex_lease_def ex_db_def

lemma ex_fleet_run:
  "run store_step empty_db
     [OpRegister ex_worker ex_devices, OpCeiling ''h:1'' (3600 * go_second),
      OpLabels ''h:1'' SourceDetected [(''gpu'', ''a100'')] (1000 * go_second)] ex_fleet"
proof -
  let ?s1 = "ex_fleet\<lparr>devices := [ex_dev ''h:0'' ''0'' DeviceReady 0 QuarNone, ex_dev ''h:1'' ''1'' DeviceReady 0 QuarNone],
     device_labels := []\<rparr>"
  let ?s2 = "ex_fleet\<lparr>device_labels := []\<rparr>"
  have "orderly ex_worker ex_devices empty_db"
    by (simp add: orderly_def ex_defs declared_state_def empty_db_def)
  moreover have "upsert_worker ex_worker ex_devices empty_db = ?s1"
    by (simp add: upsert_worker_def Let_def is_reboot_def reap_in_flight_def in_flight_of_def
        upsert_worker_row_def upsert_device_def sql_upsert_def sql_exists_def empty_db_def ex_defs
        declared_row_def declared_state_def unix_def)
  ultimately have 1: "store_step empty_db (OpRegister ex_worker ex_devices) ?s1"
    using st_register by metis
  have 2: "store_step ?s1 (OpCeiling ''h:1'' (3600 * go_second)) ?s2"
    by (rule st_ceiling) (simp add: set_device_max_runtime_def sql_count_def ex_defs whole_seconds_def)
  have 3: "store_step ?s2 (OpLabels ''h:1'' SourceDetected [(''gpu'', ''a100'')] (1000 * go_second)) ex_fleet"
    by (rule st_labels) (simp add: replace_labels_def new_label_def sql_exists_def ex_defs unix_def)
  show ?thesis by (intro run_cons [where stp = store_step, OF 1] run_cons [where stp = store_step, OF 2] run_cons [where stp = store_step, OF 3] run_nil)
qed

lemma ex_fleet_db_ok: "db_ok ex_fleet"
  by (rule store_system.run_inv [OF ex_fleet_run db_ok_empty])

lemma ex_selector:
  "sel_parse ''gpu=a100'' = Inr [\<lparr>t_key = ''gpu'', t_op = OpEq, t_value = ''a100''\<rparr>]"
  by (simp add: selector_eval float_eval)

lemma ex_term_matches: "term_matches \<lparr>t_key = ''gpu'', t_op = OpEq, t_value = ''a100''\<rparr> ''a100''"
  by (simp add: selector_eval float_eval)

text \<open>The devices of the fleet with the label are \<open>h:1\<close> alone, whatever their state.\<close>

lemma ex_matching:
  assumes "facts s = facts ex_fleet" shows "matching_devices ''gpu=a100'' s = Inr [''h:1'']"
proof -
  have "label_snapshot ex_fleet = [''h:1'' \<mapsto> [''gpu'' \<mapsto> ''a100'']]"
    by (simp add: label_snapshot_def ex_defs snap_label_def)
  then have "matching_devices ''gpu=a100'' ex_fleet = Inr [''h:1'']"
    by (simp add: matching_devices_def ex_selector all_devices_def labels_of_def ex_term_matches)
       (simp add: ex_defs less_list_code)
  with matching_devices_facts [OF assms] show ?thesis by simp
qed

lemma ex_run:
  "run store_step ex_fleet
     [OpEnqueue ''j1'' (ex_request ''h:0'' '''' '''' 0) (1001 * go_second),
      OpAssign ''l1'' ''j1'' ''h:0'' (1002 * go_second),
      OpEnqueue ''j2'' (ex_request ''h:0'' '''' '''' 0) (1001 * go_second),
      OpEnqueue ''j3'' (ex_request '''' ''gpu=a100'' '''' (60 * go_second)) (1001 * go_second)] ex_db"
proof -
  let ?q = "\<lambda>job dev sel r. ex_job job dev sel JobQueued '''' r"
  let ?s1 = "ex_fleet\<lparr>jobs := [?q ''j1'' ''h:0'' '''' 0]\<rparr>"
  let ?s2 = "ex_db\<lparr>jobs := [ex_job ''j1'' ''h:0'' '''' JobAssigned ''w'' 0]\<rparr>"
  let ?s3 = "ex_db\<lparr>jobs := [ex_job ''j1'' ''h:0'' '''' JobAssigned ''w'' 0, ?q ''j2'' ''h:0'' '''' 0]\<rparr>"
  have "enqueue ''j1'' (ex_request ''h:0'' '''' '''' 0) (1001 * go_second) ex_fleet = Inr (?s1, ?q ''j1'' ''h:0'' '''' 0)"
    by (simp add: enqueue_def check_request_def resolve_selector_def resolve_runtime_def insert_job_def
        sql_exists_def queued_row_def ex_defs unix_def whole_seconds_def)
  then have 1: "store_step ex_fleet (OpEnqueue ''j1'' (ex_request ''h:0'' '''' '''' 0) (1001 * go_second)) ?s1"
    by (intro st_enqueue) simp_all
  have "assign_queued ''l1'' ''j1'' ''h:0'' (1002 * go_second) ?s1
      = Inr (?s2, ex_job ''j1'' ''h:0'' '''' JobAssigned ''w'' 0)"
    by (simp add: assign_queued_def Let_def ex_defs mark_busy_def assign_row_def landing_runtime_def
        insert_lease_def sql_exists_def granted_lease_def lease_expiry_def get_job_def unix_def live_def live_on_def)
  then have 2: "store_step ?s1 (OpAssign ''l1'' ''j1'' ''h:0'' (1002 * go_second)) ?s2"
    by (rule st_assign)
  have "enqueue ''j2'' (ex_request ''h:0'' '''' '''' 0) (1001 * go_second) ?s2 = Inr (?s3, ?q ''j2'' ''h:0'' '''' 0)"
    by (simp add: enqueue_def check_request_def resolve_selector_def resolve_runtime_def insert_job_def
        sql_exists_def queued_row_def ex_defs unix_def whole_seconds_def)
  then have 3: "store_step ?s2 (OpEnqueue ''j2'' (ex_request ''h:0'' '''' '''' 0) (1001 * go_second)) ?s3"
    by (intro st_enqueue) simp_all
  have f: "facts ?s3 = facts ex_fleet" by (simp add: facts_def ex_defs)
  have "ceiling_filter [''h:1''] (60 * go_second) ?s3 = [''h:1'']"
    by (simp add: ceiling_filter_def device_ceilings_def ceiling_at_def ex_defs seconds_dur_def wrap64_def)
  then have "resolve_selector (ex_request '''' ''gpu=a100'' '''' (60 * go_second)) ?s3 = Inr ''gpu=a100''"
    using ex_matching [OF f]
    by (simp add: resolve_selector_def ex_request_def ex_selector sel_string_def term_text_def)
  then have "enqueue ''j3'' (ex_request '''' ''gpu=a100'' '''' (60 * go_second)) (1001 * go_second) ?s3
      = Inr (ex_db, ?q ''j3'' '''' ''gpu=a100'' 60)"
    by (simp add: enqueue_def check_request_def resolve_runtime_def insert_job_def
        sql_exists_def queued_row_def ex_defs unix_def whole_seconds_def)
  then have 4: "store_step ?s3 (OpEnqueue ''j3'' (ex_request '''' ''gpu=a100'' '''' (60 * go_second)) (1001 * go_second)) ex_db"
    by (intro st_enqueue) simp_all
  show ?thesis by (intro run_cons [where stp = store_step, OF 1] run_cons [where stp = store_step, OF 2] run_cons [where stp = store_step, OF 3] run_cons [where stp = store_step, OF 4] run_nil)
qed

lemma ex_reachable: "reachable ex_fleet" "reachable ex_db"
  unfolding reachable_def using ex_fleet_run run_append [OF ex_fleet_run ex_run] by blast+

lemma ex_db_ok: "db_ok ex_db"
  by (rule reachable_db_ok) (rule ex_reachable)

end
