(* ===== verification/Store_Claims.thy ===== *)
theory Store_Claims
  imports Store_Examples
begin

text \<open>
  The properties of the store, over the databases the controller can reach from a fresh
  one or over any database that has the invariant, each with a witness on the example
  fleet.
\<close>

section \<open>Exclusivity\<close>

text \<open>
  C1. In every database the controller can reach, however the requests of clients and
  workers, the scheduler and the sweep interleave, no device carries two live leases and
  no two jobs in flight stand on one device.
\<close>
theorem device_exclusive:
  assumes "reachable s"
  shows "distinct (map l_device_id (filter live (leases s)))
    \<and> distinct (map j_device_id (filter (\<lambda>j. in_flight (j_state j)) (jobs s)))"
proof -
  have core: "core_ok s" using reachable_db_ok [OF assms] by (simp add: db_ok_def)
  have "j = j'" if j: "j \<in> set (jobs s)" "in_flight (j_state j)"
    and j': "j' \<in> set (jobs s)" "in_flight (j_state j')" and dev: "j_device_id j = j_device_id j'" for j j'
  proof -
    obtain l where l: "l \<in> set (leases s)" "live l" "l_job_id l = j_id j" "l_device_id l = j_device_id j"
      using core j by (auto simp: core_ok_def jobs_leased_def)
    obtain l' where l': "l' \<in> set (leases s)" "live l'" "l_job_id l' = j_id j'" "l_device_id l' = j_device_id j'"
      using core j' by (auto simp: core_ok_def jobs_leased_def)
    have "l = l'" using live_device_inj [OF core l(1,2) l'(1,2)] l(4) l'(4) dev by simp
    then show ?thesis using job_unique [OF core j(1) j'(1)] l(3) l'(3) by simp
  qed
  moreover have "distinct (jobs s)" using core by (auto simp: core_ok_def schema_ok_def distinct_map)
  ultimately have "distinct (map j_device_id (filter (\<lambda>j. in_flight (j_state j)) (jobs s)))"
    by (auto simp: distinct_map intro!: inj_onI)
  with core show ?thesis by (simp add: core_ok_def schema_ok_def)
qed

theorem device_exclusive_witness:
  "distinct (map l_device_id (filter live (leases ex_db)))
    \<and> distinct (map j_device_id (filter (\<lambda>j. in_flight (j_state j)) (jobs ex_db)))"
  by (rule device_exclusive) (rule ex_reachable)

text \<open>
  C2. In every reachable database the device table and the lease table tell the same
  story: a ready device has no live lease and no job in flight, and a busy one has a live
  lease whose job is in flight on it, owned by the worker of the device.
\<close>
theorem device_state_truthful:
  assumes "reachable s" and "d \<in> set (devices s)"
  shows "(d_state d = DeviceReady \<longrightarrow> \<not> live_on s (d_id d)
            \<and> (\<forall>j \<in> set (jobs s). in_flight (j_state j) \<longrightarrow> j_device_id j \<noteq> d_id d))
    \<and> (d_state d = DeviceBusy \<longrightarrow>
         (\<exists>l \<in> set (leases s). \<exists>j \<in> set (jobs s). live l \<and> l_device_id l = d_id d \<and> j_id j = l_job_id l
            \<and> in_flight (j_state j) \<and> j_device_id j = d_id d \<and> j_worker_id j = d_worker_id d))"
proof -
  have ok: "db_ok s" by (rule reachable_db_ok [OF assms(1)])
  have core: "core_ok s" and busy: "busy_leased {} s" using ok by (auto simp: db_ok_def)
  have "\<not> live_on s (d_id d)" if "d_state d = DeviceReady"
    using core assms(2) that by (auto simp: core_ok_def ready_free_def)
  moreover have "live_on s (j_device_id j)" if "j \<in> set (jobs s)" "in_flight (j_state j)" for j
    using core that by (fastforce simp: core_ok_def jobs_leased_def live_on_iff)
  moreover have "\<exists>l \<in> set (leases s). \<exists>j \<in> set (jobs s). live l \<and> l_device_id l = d_id d \<and> j_id j = l_job_id l
      \<and> in_flight (j_state j) \<and> j_device_id j = d_id d \<and> j_worker_id j = d_worker_id d"
    if "d_state d = DeviceBusy"
  proof -
    have "live_on s (d_id d)" using busy assms(2) that by (simp add: busy_leased_def)
    then obtain l where l: "l \<in> set (leases s)" "live l" "l_device_id l = d_id d"
      by (auto simp: live_on_iff)
    obtain j where j: "j \<in> set (jobs s)" "j_id j = l_job_id l" "in_flight (j_state j)" "j_device_id j = d_id d"
      using core l by (auto simp: core_ok_def leases_agree_def)
    obtain e where "e \<in> set (devices s)" "d_id e = j_device_id j" "d_worker_id e = j_worker_id j"
      using core j by (auto simp: core_ok_def jobs_leased_def)
    then have "j_worker_id j = d_worker_id d" using device_unique [OF core _ assms(2), of e] j(4) by simp
    with l j show ?thesis by blast
  qed
  ultimately show ?thesis by (intro conjI impI ballI notI) metis+
qed

theorem device_state_truthful_witness:
  "\<exists>l \<in> set (leases ex_db). \<exists>j \<in> set (jobs ex_db). live l \<and> l_device_id l = ''h:0'' \<and> j_id j = l_job_id l
     \<and> in_flight (j_state j) \<and> j_device_id j = ''h:0'' \<and> j_worker_id j = ''w''"
  using device_state_truthful [OF ex_reachable(2), of "ex_dev ''h:0'' ''0'' DeviceBusy 0 QuarNone"]
  by (simp add: ex_defs)

section \<open>The scheduling pass\<close>

text \<open>
  C6. A scheduling pass on a reachable database never fails, provided the identifiers it
  draws for new leases are new: no unique index is ever in its way, so the state of the
  fleet cannot wedge the queue. The database it leaves is reachable.
\<close>
theorem schedule_once_succeeds:
  assumes "reachable s" and "fresh_for env (queued_jobs s) s"
  shows "\<exists>p. schedule_once env s = Inr p \<and> reachable (ps_db p)"
  using schedule_once_total [OF reachable_db_ok [OF assms(1)] assms(2)]
    schedule_once_reachable [OF assms(1)] by blast

definition ex_env :: pass_env where
  "ex_env = \<lparr>pe_uuid = (\<lambda>job dev. job), pe_now = (\<lambda>job dev. 1003 * go_second)\<rparr>"

lemma ex_queue:
  "queued_jobs ex_db = [ex_job ''j2'' ''h:0'' '''' JobQueued '''' 0, ex_job ''j3'' '''' ''gpu=a100'' JobQueued '''' 60]"
  by (simp add: queued_jobs_def ex_defs queue_key_def)

lemma ex_fresh: "fresh_for ex_env (queued_jobs ex_db) ex_db"
  by (simp add: fresh_for_def ex_env_def ex_queue) (simp add: ex_defs)

theorem schedule_once_succeeds_witness: "\<exists>p. schedule_once ex_env ex_db = Inr p \<and> reachable (ps_db p)"
  by (rule schedule_once_succeeds [OF ex_reachable(2) ex_fresh])

lemma ex_pass: obtains p where "schedule_once ex_env ex_db = Inr p"
    "ps_assigned p = [ex_job ''j3'' ''h:1'' ''gpu=a100'' JobAssigned ''w'' 60]"
    "\<not> not_queued (ps_db p) ''j2''" "\<not> not_ready ex_db ''h:1''"
proof -
  let ?s = "clear_reservations ex_db"
  let ?j2 = "ex_job ''j2'' ''h:0'' '''' JobQueued '''' 0" and ?j3 = "ex_job ''j3'' '''' ''gpu=a100'' JobQueued '''' 60"
  let ?p1 = "\<lparr>ps_db = reserve ''j2'' ''h:0'' (1003 * go_second) ?s, ps_assigned = [], ps_reserved = [''h:0'']\<rparr>"
  have 1: "schedule_job ex_env ?j2 \<lparr>ps_db = ?s, ps_assigned = [], ps_reserved = []\<rparr> = Inr ?p1"
    by (simp add: schedule_job_def candidates_def ex_defs assign_queued_def hold_all_def ex_env_def
        clear_reservations_def)
  let ?t = "ps_db ?p1"
  have f: "facts ?t = facts ex_fleet" by (simp add: reserve_def clear_reservations_def facts_def ex_defs)
  have "ceiling_filter [''h:1''] (60 * go_second) ?t = [''h:1'']"
    by (simp add: ceiling_filter_def device_ceilings_def ceiling_at_def reserve_def clear_reservations_def
        ex_defs seconds_dur_def wrap64_def)
  then have c: "candidates ?j3 ?t = Some [''h:1'']"
    using ex_matching [OF f] by (simp add: candidates_def ex_job_def seconds_dur_def wrap64_def)
  obtain t where a: "assign_queued ''j3'' ''j3'' ''h:1'' (1003 * go_second) ?t
      = Inr (t, ex_job ''j3'' ''h:1'' ''gpu=a100'' JobAssigned ''w'' 60)" "jobs t = (jobs ex_db)[2 := ex_job ''j3'' ''h:1'' ''gpu=a100'' JobAssigned ''w'' 60]"
    by (simp add: assign_queued_def Let_def ex_defs mark_busy_def assign_row_def landing_runtime_def reserve_def
        clear_reservations_def insert_lease_def sql_exists_def granted_lease_def get_job_def live_def live_on_def)
  let ?p2 = "?p1\<lparr>ps_db := t, ps_assigned := [ex_job ''j3'' ''h:1'' ''gpu=a100'' JobAssigned ''w'' 60]\<rparr>"
  have "schedule_job ex_env ?j3 ?p1 = Inr ?p2"
    using c a(1) by (simp add: schedule_job_def ex_env_def) (simp add: ex_job_def)
  with 1 have "schedule_once ex_env ex_db = Inr ?p2" by (simp add: schedule_once_def ex_queue)
  moreover have "\<not> not_queued t ''j2''" by (simp add: not_queued_def a(2)) (simp add: ex_defs)
  moreover have "\<not> not_ready ex_db ''h:1''" by (simp add: not_ready_def ex_defs)
  ultimately show thesis using that by simp
qed

text \<open>
  C5. No overtaking: when a pass leaves a queued job behind, no job that stands behind it
  in the queue was given a device that job could have used.
\<close>
theorem no_overtaking:
  assumes "db_ok s" and "schedule_once env s = Inr p" and "queued_jobs s = xs @ j # ys"
    and "\<not> not_queued (ps_db p) (j_id j)" and "candidates j s = Some cands"
    and "a \<in> set (ps_assigned p)" and "j_id a \<in> j_id ` set ys"
  shows "j_device_id a \<notin> set cands"
  using pass_no_overtake [of s env p xs j ys cands a] assms by (simp add: db_ok_def)

theorem no_overtaking_witness:
  "\<exists>p. schedule_once ex_env ex_db = Inr p \<and> (\<exists>a \<in> set (ps_assigned p). j_device_id a \<notin> set [''h:0''])"
proof (rule ex_pass)
  fix p
  let ?a = "ex_job ''j3'' ''h:1'' ''gpu=a100'' JobAssigned ''w'' 60"
  assume p: "schedule_once ex_env ex_db = Inr p" "ps_assigned p = [?a]" "\<not> not_queued (ps_db p) ''j2''"
  have "j_device_id ?a \<notin> set [''h:0'']"
    by (rule no_overtaking [OF ex_db_ok p(1), of "[]" "ex_job ''j2'' ''h:0'' '''' JobQueued '''' 0"
          "[ex_job ''j3'' '''' ''gpu=a100'' JobQueued '''' 60]"])
       (use p in \<open>simp_all add: ex_queue candidates_def ex_job_def\<close>)
  with p show ?thesis by auto
qed

text \<open>
  C7. Work conservation: when a pass leaves a queued job behind, none of the devices that
  job could use is ready.
\<close>
theorem pass_leaves_no_idle_device:
  assumes "schedule_once env s = Inr p" and "j \<in> set (queued_jobs s)"
    and "\<not> not_queued (ps_db p) (j_id j)"
    and "candidates j s = Some cands" and "dev \<in> set cands"
  shows "not_ready (ps_db p) dev"
  by (rule pass_work_conserving [OF assms])

theorem pass_leaves_no_idle_device_witness:
  "\<exists>p. schedule_once ex_env ex_db = Inr p \<and> not_ready (ps_db p) ''h:0''"
proof (rule ex_pass)
  fix p
  assume p: "schedule_once ex_env ex_db = Inr p" "\<not> not_queued (ps_db p) ''j2''"
  have "not_ready (ps_db p) ''h:0''"
    by (rule pass_leaves_no_idle_device [OF p(1), of "ex_job ''j2'' ''h:0'' '''' JobQueued '''' 0" "[''h:0'']"])
       (use p in \<open>simp_all add: ex_queue candidates_def ex_job_def\<close>)
  with p show ?thesis by auto
qed

text \<open>
  C8. What a pass hands out fits: a pinned job gets its own device; a selector job gets a
  device of the fleet whose labels carry every key of the selector with a value the term
  accepts, and whose declared ceiling is at least the runtime the job asks for.
\<close>
theorem assignments_fit:
  assumes "db_ok s" and "schedule_once env s = Inr p" and "a \<in> set (ps_assigned p)"
  shows "\<exists>j \<in> set (queued_jobs s). j_id a = j_id j \<and> j_state a = JobAssigned \<and>
    (if j_selector j = '''' then j_device_id a = j_device_id j
     else \<exists>sel. sel_parse (j_selector j) = Inr sel \<and>
       (\<forall>t \<in> set sel. \<exists>v. labels_of (label_snapshot s) (j_device_id a) (t_key t) = Some v \<and> term_matches t v) \<and>
       (\<exists>d \<in> set (devices s). d_id d = j_device_id a \<and>
          (0 < j_max_runtime j \<and> j_max_runtime j \<le> max_seconds
             \<and> 0 < d_max_runtime d \<and> d_max_runtime d \<le> max_seconds
             \<longrightarrow> j_max_runtime j \<le> d_max_runtime d)))"
proof -
  have core: "core_ok s" using assms(1) by (simp add: db_ok_def)
  obtain j cands where j: "j \<in> set (queued_jobs s)" "j_id a = j_id j" "j_state a = JobAssigned"
    "candidates j s = Some cands" "j_device_id a \<in> set cands"
    using pass_assigned [OF assms(2,3)] by blast
  show ?thesis
  proof (cases "j_selector j = ''''")
    case True
    with j have "j_device_id a = j_device_id j" by (auto simp: candidates_def)
    with True j show ?thesis by (intro bexI [of _ j]) simp_all
  next
    case False
    show ?thesis
    proof (rule candidates_sound [OF core j(4,5) False])
      fix sel d
      assume sel: "sel_parse (j_selector j) = Inr sel" "d \<in> set (devices s)" "d_id d = j_device_id a"
        "sel_match sel (labels_of (label_snapshot s) (j_device_id a))"
        and b: "seconds_dur (j_max_runtime j) \<le> 0 \<or> seconds_dur (d_max_runtime d) = 0
           \<or> seconds_dur (j_max_runtime j) \<le> seconds_dur (d_max_runtime d)"
      have "j_max_runtime j \<le> d_max_runtime d"
        if "0 < j_max_runtime j" "j_max_runtime j \<le> max_seconds" "0 < d_max_runtime d" "d_max_runtime d \<le> max_seconds"
        using b that seconds_dur_small [of "j_max_runtime j"] seconds_dur_small [of "d_max_runtime d"] by simp
      then have fits: "\<exists>d \<in> set (devices s). d_id d = j_device_id a \<and>
          (0 < j_max_runtime j \<and> j_max_runtime j \<le> max_seconds
             \<and> 0 < d_max_runtime d \<and> d_max_runtime d \<le> max_seconds
             \<longrightarrow> j_max_runtime j \<le> d_max_runtime d)"
        using sel(2,3) by blast
      show ?thesis
        using j(1-3) False sel(1) sel(4) [unfolded sel_match_iff] fits by (intro bexI [of _ j]) auto
    qed
  qed
qed

theorem assignments_fit_witness:
  "\<exists>j \<in> set (queued_jobs ex_db). ''j3'' = j_id j"
proof (rule ex_pass)
  fix p
  let ?a = "ex_job ''j3'' ''h:1'' ''gpu=a100'' JobAssigned ''w'' 60"
  assume p: "schedule_once ex_env ex_db = Inr p" "ps_assigned p = [?a]"
  have "?a \<in> set (ps_assigned p)" by (simp add: p)
  from assignments_fit [OF ex_db_ok p(1) this] show ?thesis by (auto simp: ex_job_def)
qed

section \<open>What no transaction undoes\<close>

text \<open>
  C9. The outcome of a job is final: once it has succeeded, failed, been killed or lost,
  no later sequence of requests, sweeps and registrations changes its state, exit code,
  kill reason, finishing time, device or worker.
\<close>
theorem outcome_final:
  assumes "db_ok s" and "run store_step s ops s'" and "j \<in> set (jobs s)" and "terminal (j_state j)"
  shows "\<exists>j'. get_job (j_id j) s' = Inr j' \<and> outcome j' = outcome j"
proof -
  obtain j' where j': "j' \<in> set (jobs s')" "outcome j' = outcome j"
    using run_kept [OF assms(2,1)] assms(3,4) by (auto simp: kept_def)
  have "core_ok s'" using store_system.run_inv [OF assms(2,1)] by (simp add: db_ok_def)
  from get_job_Inr [OF this j'(1)] j'(2) outcome_state [OF j'(2)] show ?thesis by auto
qed

definition ex_ended :: db where
  "ex_ended = ex_fleet\<lparr>jobs := [ex_job ''j0'' ''h:0'' '''' JobSucceeded ''w'' 0]\<rparr>"

lemma ex_ended_ok: "db_ok ex_ended"
  by (simp add: ex_ended_def db_ok_def core_defs busy_leased_def live_on_def sql_exists_def ex_defs)

theorem outcome_final_witness:
  "\<exists>j'. get_job ''j0'' (upsert_worker ex_worker ex_devices ex_ended) = Inr j' \<and> j_state j' = JobSucceeded"
proof -
  have "orderly ex_worker ex_devices ex_ended"
    by (simp add: orderly_def ex_ended_def ex_defs declared_state_def)
  then have "run store_step ex_ended [OpRegister ex_worker ex_devices] (upsert_worker ex_worker ex_devices ex_ended)"
    by (intro run_single st_register)
  from outcome_final [OF ex_ended_ok this, of "ex_job ''j0'' ''h:0'' '''' JobSucceeded ''w'' 0"]
  show ?thesis by (auto simp: ex_ended_def ex_job_def outcome_def)
qed

text \<open>
  C10. A fault a host reported about its own device keeps the device out of the pool through
  every registration, proven reboot, recovery, heartbeat and sweep: only an operator who
  clears or retires that device ends it.
\<close>
theorem fault_sticky:
  assumes "db_ok s" and "run store_step s ops s'" and "faulted dev s"
    and "OpClear dev \<notin> set ops" and "OpRetire dev \<notin> set ops"
  shows "faulted dev s' \<and> not_ready s' dev"
proof -
  have f: "faulted dev s'" by (rule run_faulted [OF assms(2,1,3,4,5)])
  have "core_ok s'" using store_system.run_inv [OF assms(2,1)] by (simp add: db_ok_def)
  then have "not_ready s' dev"
    using f device_unique [of s'] by (fastforce simp: faulted_def not_ready_def)
  with f show ?thesis by simp
qed

definition ex_faulty :: db where
  "ex_faulty = ex_fleet\<lparr>devices := [ex_dev ''h:0'' ''0'' DeviceUnhealthy 0 QuarFault,
     ex_dev ''h:1'' ''1'' DeviceReady 3600 QuarNone]\<rparr>"

lemma ex_faulty_ok: "db_ok ex_faulty"
  by (simp add: ex_faulty_def db_ok_def core_defs busy_leased_def live_on_def sql_exists_def ex_defs)

theorem fault_sticky_witness:
  "faulted ''h:0'' (upsert_worker (ex_worker\<lparr>wi_boot_id := ''c''\<rparr>) ex_devices ex_faulty)
   \<and> not_ready (upsert_worker (ex_worker\<lparr>wi_boot_id := ''c''\<rparr>) ex_devices ex_faulty) ''h:0''"
proof -
  let ?w = "ex_worker\<lparr>wi_boot_id := ''c''\<rparr>"
  have "orderly ?w ex_devices ex_faulty"
    by (simp add: orderly_def ex_faulty_def ex_defs declared_state_def)
  then have r: "run store_step ex_faulty [OpRegister ?w ex_devices] (upsert_worker ?w ex_devices ex_faulty)"
    by (intro run_single st_register)
  show ?thesis
    by (rule fault_sticky [OF ex_faulty_ok r]) (simp_all add: faulted_def ex_faulty_def ex_defs)
qed

end
