(* ===== verification/Upkeep_Claims.thy ===== *)
theory Upkeep_Claims
  imports Store_Examples
begin

text \<open>
  The properties of the reaper, of recovery, of registration and of the operator's
  actions on a device, each with a witness.
\<close>

section \<open>The sweep\<close>

text \<open>
  A sweep never puts a device into service and never relabels a quarantine: every
  device after it is as it was, or demoted to unknown or unhealthy, and an unhealthy one
  keeps its reason, its detail and its state.
\<close>
theorem sweep_only_demotes:
  assumes "db_ok s" and "d' \<in> set (devices (snd (sweep grace u hold_off retain now s)))"
  shows "\<exists>d \<in> set (devices s). d_id d' = d_id d \<and> d_detail d' = d_detail d
     \<and> (d' = d \<or> d_state d' = DeviceUnknown \<or> d_state d' = DeviceUnhealthy)
     \<and> (d_state d = DeviceUnhealthy \<longrightarrow> d' = d)"
  by (rule sweep_devices [OF assms])

theorem sweep_only_demotes_witness:
  "\<exists>d \<in> set (devices ex_db). d_id d = ''h:0''"
proof -
  have "''h:0'' \<in> d_id ` set (devices (snd (sweep 30 60 0 False (2000 * go_second) ex_db)))"
    unfolding sweep_ids by (simp add: ex_defs)
  then obtain d' where d': "d' \<in> set (devices (snd (sweep 30 60 0 False (2000 * go_second) ex_db)))"
    "d_id d' = ''h:0''" unfolding image_iff by metis
  from sweep_only_demotes [OF ex_db_ok d'(1)] d'(2) show ?thesis by metis
qed

text \<open>
  Inside the startup hold-off a sweep writes off nothing: it releases no lease, ends
  no job and quarantines no device; at most it marks silent ready and busy devices unknown.
\<close>
theorem hold_off_not_destructive:
  assumes "db_ok s" and "now < hold_off" and "sweep grace u hold_off retain now s = (res, s')"
  shows "jobs s' = jobs s \<and> leases s' = leases s
    \<and> sr_unhealthy res = [] \<and> sr_lost res = [] \<and> sr_expired res = []
    \<and> (\<forall>d' \<in> set (devices s'). \<exists>d \<in> set (devices s). d_id d' = d_id d
         \<and> (d' = d \<or> d_state d' = DeviceUnknown \<and> d_state d \<noteq> DeviceUnhealthy))"
proof -
  have core: "core_ok s" using assms(1) by (simp add: db_ok_def)
  have s': "s' = snd (sweep grace u hold_off retain now s)" and res: "res = fst (sweep grace u hold_off retain now s)"
    using assms(3) by simp_all
  have j: "\<not> judges now hold_off" using assms(2) by (simp add: judges_def)
  have pend: "\<forall>p \<in> set (List.map_filter (demotion False now grace u) (reporting s)). snd p = DeviceUnknown"
    using sweep_pending_iff [of _ False grace u now s] demotion_SomeD(2) [of False now grace u]
    by (fastforce simp: sweep_pending_def written_off_def)
  have "sr_unhealthy res = []" "sr_lost res = []" "sr_expired res = []"
    using j pend by (auto simp: res sweep_def Let_def stale_leases_def written_off_def filter_empty_conv)
  moreover have "\<exists>d \<in> set (devices s). d_id d' = d_id d
      \<and> (d' = d \<or> d_state d' = DeviceUnknown \<and> d_state d \<noteq> DeviceUnhealthy)"
    if "d' \<in> set (devices s')" for d'
    using demoted_devices [OF core that [unfolded s' sweep_held_off(1) [OF assms(2)]]] by metis
  ultimately show ?thesis using sweep_held_off(2,3) [OF assms(2)] s' by simp
qed

theorem hold_off_not_destructive_witness:
  "jobs (snd (sweep 30 60 (9000 * go_second) False (8000 * go_second) ex_db)) = jobs ex_db"
  by (rule conjunct1 [OF hold_off_not_destructive [OF ex_db_ok _ surjective_pairing]]) simp

text \<open>
  Past the hold-off a sweep leaves nothing overdue: every live lease it leaves has not
  expired, and every job it leaves in flight stands on a device whose worker was heard from
  within the write-off interval.
\<close>
theorem sweep_judges_everything:
  assumes "db_ok s" and "\<not> now < hold_off" and "s' = snd (sweep grace u hold_off False now s)"
  shows "(\<forall>l \<in> set (leases s'). live l \<longrightarrow> unix now < l_expires_at l) \<and>
    (\<forall>j \<in> set (jobs s'). in_flight (j_state j) \<longrightarrow>
       (\<forall>(dev, st, hb) \<in> set (reporting s). dev = j_device_id j \<longrightarrow> silence now hb < u))"
proof -
  let ?s2 = "snd (swept_jobs grace u hold_off False now s)"
  have core': "core_ok s'" and core2: "core_ok ?s2"
    using sweep_db_ok [OF assms(1)] swept_jobs(1) [OF assms(1)] by (auto simp: assms(3) db_ok_def)
  have "silence now hb < u"
    if j: "j \<in> set (jobs s')" "in_flight (j_state j)" and r: "(j_device_id j, st, hb) \<in> set (reporting s)" for j st hb
  proof (rule ccontr)
    assume "\<not> silence now hb < u"
    then have reap: "j_device_id j \<in> set (sweep_reap (judges now hold_off) False u now s)"
      using r assms(2) by (force simp: sweep_reap_def judges_def written_off_def)
    obtain l where l: "l \<in> set (leases s')" "live l" "l_device_id l = j_device_id j"
      using core' j by (auto simp: core_ok_def jobs_leased_def)
    then have "l \<in> set (leases ?s2)" using sweep_expiry(2) [OF assms(1)] assms(3) by blast
    then obtain x where x: "x \<in> set (jobs ?s2)" "in_flight (j_state x)" "j_device_id x = j_device_id j"
      using core2 l by (auto simp: core_ok_def leases_agree_def)
    have "x \<in> set (jobs ?s2) \<and> in_flight (j_state x)" using x by simp
    then have "j_device_id x \<notin> set (sweep_reap (judges now hold_off) False u now s)"
      unfolding swept_jobs(3) [OF assms(1)] by simp
    with reap x(3) show False by simp
  qed
  moreover have "unix now < l_expires_at l" if "l \<in> set (leases s')" "live l" for l
    using sweep_judged_leases [OF assms(1,2)] that assms(3) by blast
  ultimately show ?thesis by blast
qed

theorem sweep_judges_everything_witness:
  "filter (\<lambda>l. live l \<and> l_expires_at l \<le> 2000) (leases (snd (sweep 30 60 0 False (2000 * go_second) ex_db))) = []"
  using sweep_judges_everything [OF ex_db_ok _ refl, of "2000 * go_second" 0 30 60]
  by (auto simp: unix_def filter_empty_conv)

text \<open>
  With retention of disconnected jobs on, no sweep ends a job: a live lease of the kind
  \<open>job\<close> stays live and its job stays in flight, however long the worker is silent and the
  lease overdue.
\<close>
theorem retention_keeps_jobs:
  assumes "db_ok s" and "l \<in> set (leases s)" "live l" "l_kind l = LeaseKindJob"
    and "s' = snd (sweep grace u hold_off True now s)"
  shows "l \<in> set (leases s') \<and> (\<exists>j \<in> set (jobs s'). j_id j = l_job_id l \<and> in_flight (j_state j))"
proof -
  let ?s2 = "snd (swept_jobs grace u hold_off True now s)"
  have s2: "?s2 = fold demote (sweep_pending (judges now hold_off) grace u now s) s"
    by (simp add: swept_jobs_def sweep_reap_def)
  have ls: "leases ?s2 = leases s" by (simp add: s2)
  have "l_id l \<notin> l_id ` set (stale_leases (judges now hold_off) True now ?s2)"
  proof
    assume "l_id l \<in> l_id ` set (stale_leases (judges now hold_off) True now ?s2)"
    then obtain e where e: "e \<in> set (leases s)" "l_id e = l_id l" "l_kind e \<noteq> LeaseKindJob"
      using ls by (auto simp: stale_leases_def split: if_splits)
    have "e = l"
      using lease_table.key_inj [of s e l] e(1,2) assms(1,2) by (simp add: db_ok_def core_ok_def schema_ok_def)
    with e(3) assms(4) show False by simp
  qed
  then have mem: "l \<in> set (leases s')"
    using sweep_expiry(2) [OF assms(1), of l grace u hold_off True now] assms(2,3,5) ls by simp
  have "core_ok s'" using sweep_db_ok [OF assms(1)] by (simp add: assms(5) db_ok_def)
  then show ?thesis using mem assms(3) by (auto simp: core_ok_def leases_agree_def)
qed

theorem retention_keeps_jobs_witness:
  "ex_lease ''l1'' ''h:0'' ''j1'' \<in> set (leases (snd (sweep 30 60 0 True (99999 * go_second) ex_db)))"
  by (rule conjunct1 [OF retention_keeps_jobs [OF ex_db_ok _ _ _ refl]]) (simp_all add: ex_defs live_def)

section \<open>Heartbeats\<close>

text \<open>
  A heartbeat renews exactly the live leases of the jobs the worker names that are
  recorded as its own and in flight, to fifteen minutes past the heartbeat, and touches no
  other lease.
\<close>
theorem heartbeat_renews_named_jobs:
  "leases (record_heartbeat worker t running retain s) =
     map (\<lambda>l. if live l \<and> (\<exists>j \<in> set (jobs s). j_id j = l_job_id l \<and> j_worker_id j = worker
                  \<and> in_flight (j_state j) \<and> j_id j \<in> set running)
          then l\<lparr>l_expires_at := unix (t + 15 * 60 * go_second)\<rparr> else l) (leases s)"
  unfolding leases_record_heartbeat sql_update_def sql_exists_iff supervised_def
  by (intro map_cong refl if_cong) auto

section \<open>Coming back into service\<close>

text \<open>
  An operator's clear returns a device exactly when it is unhealthy and no live lease
  stands on it; otherwise it reports a refusal and changes nothing.
\<close>
theorem clear_respects_leases:
  assumes "clear_device dev s = (cleared, s')"
  shows "(cleared \<longleftrightarrow> (\<exists>d \<in> set (devices s). d_id d = dev \<and> d_state d = DeviceUnhealthy) \<and> \<not> live_on s dev)
    \<and> (\<not> cleared \<longrightarrow> s' = s)
    \<and> (\<forall>d \<in> set (devices s'). cleared \<longrightarrow> d_id d = dev \<longrightarrow> d_state d \<noteq> DeviceUnhealthy)"
proof -
  let ?hit = "\<lambda>d. d_id d = dev \<and> d_state d = DeviceUnhealthy \<and> \<not> live_on s (d_id d)"
  have c: "cleared \<longleftrightarrow> 0 < sql_count ?hit (devices s)"
    and s': "s' = s\<lparr>devices := sql_update ?hit to_ready (devices s)\<rparr>"
    using assms by (auto simp: clear_device_def Let_def)
  have one: "cleared \<longleftrightarrow> (\<exists>d \<in> set (devices s). d_id d = dev \<and> d_state d = DeviceUnhealthy) \<and> \<not> live_on s dev"
    unfolding c sql_count_pos by auto
  have "s' = s" if "\<not> cleared"
  proof -
    have "sql_update ?hit to_ready (devices s) = devices s"
      using that unfolding c sql_count_pos by (intro sql_update_id) blast
    then show ?thesis by (simp add: s')
  qed
  moreover have "\<forall>d \<in> set (devices s'). cleared \<longrightarrow> d_id d = dev \<longrightarrow> d_state d \<noteq> DeviceUnhealthy"
    using one by (auto simp: s' ball_sql_update to_ready_def)
  ultimately show ?thesis using one by blast
qed

theorem clear_respects_leases_witness: "\<not> fst (clear_device ''h:0'' ex_db)"
proof -
  have "live_on ex_db ''h:0''" by (simp add: live_on_iff ex_defs live_def)
  with clear_respects_leases [OF surjective_pairing, of "''h:0''" ex_db] show ?thesis by simp
qed

text \<open>
  Automatic recovery returns a device only on a proof that no process survived, only
  from a quarantine such a proof answers (never a fault), never against a live lease, and
  only when fewer than three returns of that device lie inside the window.
\<close>
theorem recovery_guarded:
  assumes "db_ok s" and "auto_recover worker pf now s = (rs, s')" and "c \<in> set rs"
  shows "proves pf \<and> recent_recoveries (fst c) now s < 3 \<and> \<not> live_on s (fst c) \<and>
    (\<exists>d \<in> set (devices s). d_id d = fst c \<and> d_worker_id d = worker \<and> d_state d = DeviceUnhealthy
       \<and> d_quarantine d = snd c \<and> snd c \<in> {QuarWorkerLost, QuarLeaseExpired, QuarRegistration})"
proof -
  have core: "core_ok s" using assms(1) by (simp add: db_ok_def)
  have dist: "distinct (map fst (recoverable worker s))"
  proof -
    have "distinct (map d_id (filter P (devices s)))" for P
      using core by (simp add: core_ok_def schema_ok_def distinct_map_filter)
    then show ?thesis by (simp add: recoverable_def comp_def map_sort_key)
  qed
  have new: "c \<in> set (fst acc) \<or> c \<in> set cs \<and> recent_recoveries (fst c) now (snd acc) < 3"
    if "c \<in> set (fst (fold (recover_one now) cs acc))" "distinct (map fst cs)" for cs acc
    using that
  proof (induction cs arbitrary: acc)
    case (Cons x xs)
    from Cons.prems have "c \<in> set (fst (recover_one now x acc))
        \<or> c \<in> set xs \<and> recent_recoveries (fst c) now (snd (recover_one now x acc)) < 3"
      using Cons.IH [of "recover_one now x acc"] by simp
    then show ?case
    proof
      assume "c \<in> set (fst (recover_one now x acc))"
      then show ?thesis
        by (auto simp: recover_one_def Let_def pruned_count split: if_splits)
    next
      assume c: "c \<in> set xs \<and> recent_recoveries (fst c) now (snd (recover_one now x acc)) < 3"
      have "fst c \<in> set (map fst xs)" using c by (metis image_eqI set_map)
      then have "fst c \<noteq> fst x" using Cons.prems(2) by (metis distinct.simps(2) list.simps(9))
      with c show ?thesis by (simp add: recover_one_recent)
    qed
  qed simp
  have p: "proves pf" using assms(2,3) by (auto simp: auto_recover_def split: if_splits)
  then have "rs = fst (fold (recover_one now) (recoverable worker s) ([], s))"
    using assms(2) by (simp add: auto_recover_def prod_eq_iff)
  with new [of "recoverable worker s" "([], s)"] dist assms(3)
  have "c \<in> set (recoverable worker s)" "recent_recoveries (fst c) now s < 3" by simp_all
  with p recoverableD [of c worker s] show ?thesis by (auto simp: reboot_clearable_def)
qed

definition ex_lost :: db where
  "ex_lost = ex_fleet\<lparr>devices := [ex_dev ''h:0'' ''0'' DeviceUnhealthy 0 QuarWorkerLost]\<rparr>"

lemma ex_lost_ok: "db_ok ex_lost"
  by (simp add: ex_lost_def db_ok_def core_defs busy_leased_def live_on_def sql_exists_def ex_defs)

theorem recovery_guarded_witness:
  "(''h:0'', QuarWorkerLost) \<in> set (fst (auto_recover ''w'' (zero_proof\<lparr>rp_isolated := True\<rparr>) (3000 * go_second) ex_lost))
   \<and> recent_recoveries ''h:0'' (3000 * go_second) ex_lost < 3"
proof -
  let ?r = "auto_recover ''w'' (zero_proof\<lparr>rp_isolated := True\<rparr>) (3000 * go_second) ex_lost"
  have m: "(''h:0'', QuarWorkerLost) \<in> set (fst ?r)"
    by (simp add: auto_recover_def proves_def zero_proof_def recoverable_def ex_lost_def ex_defs live_on_def
        sql_exists_def reboot_clearable_def recover_one_def prune_recoveries_def sql_count_def)
  from recovery_guarded [OF ex_lost_ok surjective_pairing m] m show ?thesis by simp
qed

section \<open>Registration\<close>

text \<open>
  A registration leaves the worker with no job in flight: everything it had in flight
  is lost and its leases are released, while the jobs in flight of every other worker stand
  as they were.
\<close>
theorem registration_reconciles:
  assumes "db_ok s" and "orderly w dis s"
  shows "{j \<in> set (jobs (upsert_worker w dis s)). in_flight (j_state j)}
      = {j \<in> set (jobs s). in_flight (j_state j) \<and> j_worker_id j \<noteq> wi_id w}
    \<and> db_ok (upsert_worker w dis s)"
proof -
  define reb where "reb = is_reboot w s"
  define reason where "reason = (if reb then ''host rebooted'' else ''worker re-registered'')"
  let ?s0 = "upsert_worker_row w s"
  have "jobs (upsert_worker w dis s)
      = jobs (reap_in_flight (wi_id w) (unix (wi_last_heartbeat w)) reason reb ?s0)"
    by (simp add: upsert_worker_def Let_def restore_rebooted_def reason_def reb_def)
  moreover have "jobs ?s0 = jobs s" by (simp add: upsert_worker_row_def)
  ultimately have "{j \<in> set (jobs (upsert_worker w dis s)). in_flight (j_state j)}
      = {j \<in> set (jobs s). in_flight (j_state j) \<and> j_worker_id j \<noteq> wi_id w}"
    using reap_in_flight_ok(2) [OF upsert_worker_row_db_ok [OF assms(1)], of "wi_id w" "unix (wi_last_heartbeat w)" reason reb]
    by simp
  with upsert_worker_db_ok [OF assms] show ?thesis by simp
qed

theorem registration_reconciles_witness:
  "{j \<in> set (jobs (upsert_worker ex_worker ex_devices ex_db)). in_flight (j_state j)} = {}"
proof -
  have o: "orderly ex_worker ex_devices ex_db" by (simp add: orderly_def ex_defs declared_state_def)
  have "{j \<in> set (jobs ex_db). in_flight (j_state j) \<and> j_worker_id j \<noteq> wi_id ex_worker} = {}"
    by (auto simp: ex_defs)
  with registration_reconciles [OF ex_db_ok o] show ?thesis by simp
qed

section \<open>Ending a job\<close>

text \<open>
  When its worker reports a job in flight as ended, the job takes the reported state,
  exit code and reason, its lease is released, and its device goes back to ready only if it
  was busy: a quarantine or a lost device is not lifted by the report.
\<close>
theorem release_frees_only_busy:
  assumes ok: "db_ok s" and j: "j \<in> set (jobs s)" "in_flight (j_state j)" "j_worker_id j \<noteq> ''''"
    and r: "release (j_id j) st code reason now s = Inr s'"
  shows "(\<exists>j'. get_job (j_id j) s' = Inr j' \<and> j_state j' = st \<and> terminal st \<and> j_exit_code j' = code
           \<and> j_kill_reason j' = reason \<and> j_finished_at j' = Some (unix now))
    \<and> \<not> live_on s' (j_device_id j)
    \<and> devices s' = map (\<lambda>d. if d_id d = j_device_id j \<and> d_state d = DeviceBusy
                            then d\<lparr>d_state := DeviceReady\<rparr> else d) (devices s)"
proof -
  have core: "core_ok s" using ok by (simp add: db_ok_def)
  have nt: "\<not> terminal (j_state j)" using in_flight_not_terminal j(2) by simp
  have row: "sql_row (\<lambda>x. j_id x = j_id j) (jobs s) = Some j"
    using job_table.find_unique [of s j] core j(1) by (simp add: core_ok_def schema_ok_def)
  have st: "terminal st" using r by (auto simp: release_def split: if_splits)
  let ?f = "finish_job st code reason (unix now)"
  let ?js = "sql_update (\<lambda>x. j_id x = j_id j) ?f (jobs s)"
  have s': "s' = free_device (j_device_id j) (release_leases_of (j_id j) (unix now) (s\<lparr>jobs := ?js\<rparr>))"
    using r row nt st by (simp add: release_def Let_def)
  have owned: "j_worker_id x \<noteq> ''''" if "x \<in> set (jobs s)" "j_id x = j_id j" for x
    using job_unique [OF core that(1) j(1) that(2)] j(3) by simp
  have core': "core_ok s'" using release_db_ok [OF ok r owned] by (simp add: db_ok_def)
  have "?f j \<in> set (jobs s')"
    using sql_update_mem [OF j(1), of "\<lambda>x. j_id x = j_id j" ?f]
    by (simp add: s' free_device_def release_leases_of_def)
  from get_job_Inr [OF core' this] have "get_job (j_id j) s' = Inr (?f j)" by (simp add: finish_job_def)
  moreover have "\<not> live_on s' (j_device_id j)"
    using released_device_free [OF core j(1,2)] by (simp add: s' free_device_def)
  moreover have "devices s' = map (\<lambda>d. if d_id d = j_device_id j \<and> d_state d = DeviceBusy
                            then d\<lparr>d_state := DeviceReady\<rparr> else d) (devices s)"
    by (simp add: s' free_device_def release_leases_of_def sql_update_def)
  ultimately show ?thesis using st by (simp add: finish_job_def)
qed

theorem release_frees_only_busy_witness:
  "\<exists>s'. release ''j1'' JobSucceeded (Some 0) '''' (1100 * go_second) ex_db = Inr s' \<and> \<not> live_on s' ''h:0''"
proof -
  let ?j = "ex_job ''j1'' ''h:0'' '''' JobAssigned ''w'' 0"
  obtain s' where r: "release (j_id ?j) JobSucceeded (Some 0) '''' (1100 * go_second) ex_db = Inr s'"
    by (simp add: release_def ex_defs)
  have "\<not> live_on s' (j_device_id ?j)"
    using release_frees_only_busy [OF ex_db_ok _ _ _ r] by (simp add: ex_defs)
  with r show ?thesis by (simp add: ex_job_def)
qed

section \<open>Retiring a device\<close>

text \<open>
  A device is retired exactly when it is on record and nothing holds it. It then leaves
  no row in the tables of devices, labels, sheets, reservations and leases, and the history
  of jobs is untouched; its recovery records stay, so a device registered again under the
  same name starts with the returns of the retired one counted.
\<close>
theorem retire_effect:
  "(\<exists>s'. retire_device dev s = Inr s') = (dev \<in> d_id ` set (devices s) \<and> \<not> live_on s dev)
   \<and> (\<forall>s'. retire_device dev s \<noteq> Inr s'
        \<or> dev \<notin> d_id ` set (devices s') \<and> dev \<notin> l_device_id ` set (leases s')
          \<and> dev \<notin> lb_device_id ` set (device_labels s') \<and> dev \<notin> hd_device_id ` set (host_docs s')
          \<and> dev \<notin> rv_device_id ` set (reservations s')
          \<and> jobs s' = jobs s \<and> device_recoveries s' = device_recoveries s)"
proof -
  have "(sql_row (\<lambda>d. d_id d = dev) (devices s) = None) = (dev \<notin> d_id ` set (devices s))"
    by (auto simp: sql_row_None)
  moreover have "0 < sql_count (\<lambda>l. l_device_id l = dev \<and> live l) (leases s) \<longleftrightarrow> live_on s dev"
    by (auto simp: sql_count_pos live_on_iff)
  ultimately show ?thesis
    by (auto simp: retire_device_def set_sql_delete split: option.splits if_splits)
qed

theorem retire_effect_witness:
  "\<exists>s'. retire_device ''h:1'' ex_db = Inr s' \<and> jobs s' = jobs ex_db"
proof -
  have "\<not> live_on ex_db ''h:1''" by (simp add: live_on_iff ex_defs)
  then show ?thesis using retire_effect [of "''h:1''" ex_db] by (auto simp: ex_defs)
qed

section \<open>Labels\<close>

text \<open>
  Replacing the labels of one source of a device replaces exactly those, and the
  snapshot the scheduler matches against shows for every device and key the detected value,
  or else the declared one.
\<close>
theorem labels_replaced:
  assumes "labels_ok s" and "distinct (map fst kvs)" and "replace_labels dev source kvs t s = Inr s'"
  shows "labels_ok s' \<and>
    labels_of (label_snapshot s') dev' k =
      (case (if dev' = dev \<and> source = SourceDetected then map_of kvs k else stored_label s dev' SourceDetected k) of
         Some v \<Rightarrow> Some v
       | None \<Rightarrow> if dev' = dev \<and> source = SourceDeclared then map_of kvs k else stored_label s dev' SourceDeclared k)"
proof -
  have "labels_ok s'" by (rule replace_labels_ok [OF assms(2,3,1)])
  then show ?thesis
    using label_snapshot_value [of s' dev' k] replace_labels_stored [OF assms(2,3)]
    by (auto split: option.splits)
qed

theorem labels_replaced_witness:
  "\<exists>s'. replace_labels ''h:1'' SourceDeclared [(''gpu'', ''v100''), (''rack'', ''r1'')] (2000 * go_second) ex_db = Inr s'
     \<and> labels_of (label_snapshot s') ''h:1'' ''gpu'' = Some ''a100''
     \<and> labels_of (label_snapshot s') ''h:1'' ''rack'' = Some ''r1''"
proof -
  let ?kvs = "[(''gpu'', ''v100''), (''rack'', ''r1'')]"
  have ok: "labels_ok ex_db" by (simp add: labels_ok_def ex_defs)
  have d: "distinct (map fst ?kvs)" by simp
  obtain s' where r: "replace_labels ''h:1'' SourceDeclared ?kvs (2000 * go_second) ex_db = Inr s'"
    using replace_labels_Inr [OF d] by blast
  from labels_replaced [OF ok d r] r show ?thesis
    by (auto simp: stored_label_def ex_defs label_pk_def)
qed

end
