(* ===== verification/Submission_Claims.thy ===== *)
theory Submission_Claims
  imports Store_Claims
begin

text \<open>The properties a submitter relies on, each with a witness.\<close>

text \<open>
  A retried submission is safe: the same request with an idempotency key, sent again
  after it succeeded, answers with the first job and leaves the database as it is, whatever
  identifier and instant the retry would have used.
\<close>
theorem submission_retry_safe:
  assumes "enqueue job_id req now s = Inr (s1, j)" and "eq_idempotency_key req \<noteq> ''''"
  shows "enqueue job_id' req now' s1 = Inr (s1, j)"
  by (rule enqueue_retry [OF assms])

lemma ex_enqueue:
  "\<exists>s1. enqueue ''j4'' (ex_request ''h:1'' '''' key runtime) (1005 * go_second) ex_db
      = Inr (s1, queued_row ''j4'' (ex_request ''h:1'' '''' key runtime) ''''
                   (if runtime = 0 then 3600 * go_second else runtime) (1005 * go_second))"
  if "runtime \<le> 3600 * go_second"
  using that
  by (simp add: enqueue_def check_request_def resolve_selector_def resolve_runtime_def insert_job_def
      sql_exists_def queued_row_def ex_defs seconds_dur_def wrap64_def)

theorem submission_retry_safe_witness:
  "\<exists>s1 j. enqueue ''j4'' (ex_request ''h:1'' '''' ''k'' 0) (1005 * go_second) ex_db = Inr (s1, j)
     \<and> enqueue ''j5'' (ex_request ''h:1'' '''' ''k'' 0) (1009 * go_second) s1 = Inr (s1, j)"
proof -
  obtain s1 j where e: "enqueue ''j4'' (ex_request ''h:1'' '''' ''k'' 0) (1005 * go_second) ex_db = Inr (s1, j)"
    using ex_enqueue [of 0 "''k''"] by auto
  from submission_retry_safe [OF e] e show ?thesis by (auto simp: ex_request_def)
qed

text \<open>
  The position the queue reports is the rank in scheduling order: one more than the
  number of queued jobs the scheduler visits before this one that wait for the same device,
  or, for a selector job, than the number of all queued jobs it visits before it.
\<close>
theorem queue_position_is_rank:
  assumes "db_ok s" and "j \<in> set (queued_jobs s)" and "0 \<le> j_queued_at j"
  shows "queue_position (j_id j) s = Inr (length (jobs_ahead j s) + 1)"
  using queue_position_ahead [of s j] assms by (simp add: db_ok_def queued_jobs_iff)

theorem queue_position_is_rank_witness: "queue_position ''j3'' ex_db = Inr 2"
proof -
  let ?j3 = "ex_job ''j3'' '''' ''gpu=a100'' JobQueued '''' 60"
  have "length (jobs_ahead ?j3 ex_db) = 1" by (simp add: jobs_ahead_def ex_queue) (simp add: ex_defs)
  with queue_position_is_rank [OF ex_db_ok, of ?j3] show ?thesis by (simp add: ex_queue) (simp add: ex_defs)
qed

text \<open>
  A pinned job whose request is not negative runs within the ceiling its device
  declares: the runtime it is assigned is positive and at most the ceiling, inherited when
  the request names none.
\<close>
theorem pinned_runtime_within_ceiling:
  assumes "db_ok s" and "enqueue job_id req now s = Inr (s', j)" and "eq_idempotency_key req = ''''"
    and "d \<in> set (devices s)" "eq_device_id req = d_id d" "d_id d \<noteq> ''''"
    and "0 < d_max_runtime d" "d_max_runtime d \<le> max_seconds" and "0 \<le> eq_max_runtime req"
  shows "0 < landing_runtime j d \<and> landing_runtime j d \<le> d_max_runtime d"
  by (rule pinned_runtime_bounded [OF assms(2) _ assms(3-9)]) (use assms(1) in \<open>simp add: db_ok_def\<close>)

theorem pinned_runtime_within_ceiling_witness:
  "\<exists>s' j. enqueue ''j4'' (ex_request ''h:1'' '''' '''' 0) (1005 * go_second) ex_db = Inr (s', j)
     \<and> landing_runtime j (ex_dev ''h:1'' ''1'' DeviceReady 3600 QuarNone) \<le> 3600"
proof -
  obtain s1 j where e: "enqueue ''j4'' (ex_request ''h:1'' '''' '''' 0) (1005 * go_second) ex_db = Inr (s1, j)"
    using ex_enqueue [of 0 "''''"] by auto
  from pinned_runtime_within_ceiling [OF ex_db_ok e, of "ex_dev ''h:1'' ''1'' DeviceReady 3600 QuarNone"] e
  show ?thesis by (auto simp: ex_request_def ex_db_def ex_dev_def)
qed



text \<open>
  A kill that was handed to a worker is handed out again exactly when thirty seconds
  have passed: not before, so an unactionable flag cannot spin the poll, and then as long as
  the flag stands, so a lost response does not lose the kill.
\<close>
theorem kill_redelivery:
  assumes "db_ok s" and "take_kill_requests worker now s = (ids, s1)" and "x \<in> set ids"
  shows "x \<in> set (fst (take_kill_requests worker now' s1)) \<longleftrightarrow> unix now \<le> unix (now' - 30 * go_second)"
  by (rule kill_reoffered [OF assms])

definition ex_killing :: db where
  "ex_killing = ex_db\<lparr>jobs := [(ex_job ''j1'' ''h:0'' '''' JobAssigned ''w'' 0)\<lparr>j_kill_requested := True\<rparr>]\<rparr>"

lemma ex_killing_ok: "db_ok ex_killing"
  by (simp add: ex_killing_def db_ok_def core_defs busy_leased_def live_on_def live_def sql_exists_def ex_defs)

theorem kill_redelivery_witness:
  "''j1'' \<notin> set (fst (take_kill_requests ''w'' (2010 * go_second)
      (snd (take_kill_requests ''w'' (2000 * go_second) ex_killing))))"
proof -
  have "''j1'' \<in> set (fst (take_kill_requests ''w'' (2000 * go_second) ex_killing))"
    by (simp add: take_kill_requests_def kill_due_def ex_killing_def ex_defs unix_def)
  from kill_redelivery [OF ex_killing_ok surjective_pairing this, of "2010 * go_second"]
  show ?thesis by (simp add: unix_def)
qed

text \<open>
  A kill is finalized at once only while the job's device is out of reach; the job is
  then killed and its lease gone, but the device is not handed on: no device becomes ready,
  and the flag stands for the worker that may still run the process.
\<close>
theorem kill_finalized_only_disconnected:
  assumes "db_ok s" and "request_kill job reason fd now s = Inr (KillFinalized, s')"
  shows "fd \<and> devices s' = devices s
    \<and> (\<exists>j \<in> set (jobs s). j_id j = job \<and> in_flight (j_state j)
         \<and> (\<forall>d \<in> set (devices s). d_id d = j_device_id j \<longrightarrow> d_state d = DeviceUnknown \<or> d_state d = DeviceUnhealthy)
         \<and> \<not> live_on s' (j_device_id j))
    \<and> (\<exists>j'. get_job job s' = Inr j' \<and> j_state j' = JobKilled \<and> j_kill_requested j')"
proof -
  have core: "core_ok s" using assms(1) by (simp add: db_ok_def)
  obtain j where row: "sql_row (\<lambda>j. j_id j = job) (jobs s) = Some j"
    using assms(2) by (auto simp: request_kill_def split: option.splits)
  then have j: "j \<in> set (jobs s)" "j_id j = job" by (auto dest: sql_row_Some)
  let ?f = "\<lambda>j. j\<lparr>j_state := JobKilled, j_kill_requested := True, j_kill_delivered_at := 0,
                   j_kill_reason := reason, j_finished_at := Some (unix now)\<rparr>"
  let ?js = "sql_update (\<lambda>j. j_id j = job) ?f (jobs s)"
  have fl: "in_flight (j_state j)" "fd" "disconnected (sql_row (\<lambda>d. d_id d = j_device_id j) (devices s))"
    and s': "s' = release_leases_of job (unix now) (s\<lparr>jobs := ?js\<rparr>)"
    using assms(2) row by (auto simp: request_kill_def Let_def split: if_splits)
  have "d_state d = DeviceUnknown \<or> d_state d = DeviceUnhealthy"
    if "d \<in> set (devices s)" "d_id d = j_device_id j" for d
    using fl(3) device_table.find_unique [of s d] that core
    by (auto simp: disconnected_def core_ok_def schema_ok_def)
  moreover have "\<not> live_on s' (j_device_id j)"
    using released_device_free [OF core j(1) fl(1)] j(2) by (simp add: s')
  moreover have "core_ok s'" using request_kill_db_ok [OF assms] by (simp add: db_ok_def)
  moreover have "?f j \<in> set (jobs s')"
    using sql_update_mem [OF j(1), of "\<lambda>j. j_id j = job" ?f] j(2) by (simp add: s' release_leases_of_def)
  ultimately show ?thesis
    using j fl get_job_Inr [of s' "?f j"] by (auto simp: s' release_leases_of_def)
qed

definition ex_away :: db where
  "ex_away = ex_db\<lparr>devices := [ex_dev ''h:0'' ''0'' DeviceUnknown 0 QuarNone]\<rparr>"

lemma ex_away_ok: "db_ok ex_away"
  by (simp add: ex_away_def db_ok_def core_defs busy_leased_def live_on_def live_def sql_exists_def ex_defs)

theorem kill_finalized_only_disconnected_witness:
  "\<exists>s'. request_kill ''j1'' ''gone'' True (1500 * go_second) ex_away = Inr (KillFinalized, s')
     \<and> devices s' = devices ex_away"
proof -
  obtain s' where r: "request_kill ''j1'' ''gone'' True (1500 * go_second) ex_away = Inr (KillFinalized, s')"
    by (simp add: request_kill_def ex_away_def ex_defs disconnected_def)
  from kill_finalized_only_disconnected [OF ex_away_ok r] r show ?thesis by blast
qed

section \<open>Selectors\<close>

text \<open>
  C18. A selector that parses is stored in its canonical form, and that form parses back to the
  same selector: printing it again changes nothing, and the scheduler, which parses the stored
  form, matches the same devices as the submission did.
\<close>
theorem selector_round_trip:
  assumes "sel_parse text = Inr sel"
  shows "sel_parse (sel_string sel) = Inr sel
    \<and> matching_devices (sel_string sel) s = matching_devices text s"
  using sel_parse_string [OF sel_parse_wf [OF assms]] assms by (simp add: matching_devices_def)

theorem selector_round_trip_witness:
  "sel_parse (sel_string [\<lparr>t_key = ''gpu'', t_op = OpEq, t_value = ''a100''\<rparr>])
     = Inr [\<lparr>t_key = ''gpu'', t_op = OpEq, t_value = ''a100''\<rparr>]"
  by (rule conjunct1 [OF selector_round_trip [OF ex_selector]])

end
