(* ===== verification/Store_Migrate.thy ===== *)
theory Store_Migrate
  imports Main
begin

text \<open>
  Opening the database: the schema of \<open>src/internal/store/schema.sql\<close> and the
  migrations of \<open>src/internal/store/migrate.go\<close>. A statement acts on the catalog (the
  tables with their columns, the indexes, and \<open>PRAGMA user_version\<close>); types and
  defaults of columns are not part of the catalog. A migration is one transaction: a
  failing statement leaves the catalog of the last migration that applied in full.
\<close>

section \<open>Statements\<close>

datatype ddl =
    AddColumn string string
  | CreateTable string "string list"
  | CreateIndex string string "string list"

record catalog =
  ct_tables :: "string \<rightharpoonup> string list"
  ct_indexes :: "string list"
  ct_version :: int

datatype ddl_error = NoSuchTable string | DuplicateColumn string string | NoSuchColumn string

text \<open>\<open>CREATE .. IF NOT EXISTS\<close> leaves what exists alone; \<open>ALTER TABLE ADD COLUMN\<close>
  fails on a column that exists.\<close>

fun exec_ddl :: "ddl \<Rightarrow> catalog \<Rightarrow> ddl_error + catalog" where
  "exec_ddl (AddColumn t c) cat =
     (case ct_tables cat t of
        None \<Rightarrow> Inl (NoSuchTable t)
      | Some cs \<Rightarrow>
          if List.member cs c then Inl (DuplicateColumn t c)
          else Inr (cat\<lparr>ct_tables := (ct_tables cat)(t \<mapsto> cs @ [c])\<rparr>))"
| "exec_ddl (CreateTable t cs) cat =
     (case ct_tables cat t of
        None \<Rightarrow> Inr (cat\<lparr>ct_tables := (ct_tables cat)(t \<mapsto> cs)\<rparr>)
      | Some _ \<Rightarrow> Inr cat)"
| "exec_ddl (CreateIndex i t cs) cat =
     (if List.member (ct_indexes cat) i then Inr cat
      else
        (case ct_tables cat t of
           None \<Rightarrow> Inl (NoSuchTable t)
         | Some have_cs \<Rightarrow>
             if list_all (List.member have_cs) cs then Inr (cat\<lparr>ct_indexes := ct_indexes cat @ [i]\<rparr>)
             else Inl (NoSuchColumn i)))"

fun exec_all :: "ddl list \<Rightarrow> catalog \<Rightarrow> ddl_error + catalog" where
  "exec_all [] cat = Inr cat"
| "exec_all (d # ds) cat = (case exec_ddl d cat of Inl e \<Rightarrow> Inl e | Inr cat' \<Rightarrow> exec_all ds cat')"

section \<open>The schema and the migrations\<close>

definition base_schema :: "ddl list" where
  "base_schema =
     [CreateTable ''workers'' [''id'', ''host'', ''last_heartbeat_at''],
      CreateTable ''devices'' [''id'', ''host'', ''name'', ''worker_id'', ''state'', ''last_heartbeat_at''],
      CreateTable ''jobs''
        [''id'', ''selector'', ''command'', ''cwd'', ''env'', ''submitter'', ''idempotency_key'', ''state'',
         ''device_id'', ''worker_id'', ''exit_code'', ''kill_reason'', ''submitted_at'', ''started_at'',
         ''finished_at''],
      CreateIndex ''jobs_idempotency'' ''jobs'' [''idempotency_key''],
      CreateTable ''leases''
        [''id'', ''device_id'', ''holder'', ''job_id'', ''acquired_at'', ''expires_at'', ''released_at''],
      CreateIndex ''leases_one_live_per_device'' ''leases'' [''device_id'']]"

definition migrations :: "ddl list list" where
  "migrations =
     [[AddColumn ''jobs'' ''priority'',
       AddColumn ''jobs'' ''max_runtime'',
       AddColumn ''jobs'' ''idle_timeout'',
       AddColumn ''jobs'' ''queued_at'',
       AddColumn ''devices'' ''max_runtime'',
       AddColumn ''workers'' ''boot_id'',
       CreateTable ''reservations'' [''job_id'', ''device_id'', ''created_at''],
       CreateIndex ''reservations_one_per_device'' ''reservations'' [''device_id''],
       CreateIndex ''jobs_queue'' ''jobs'' [''state'', ''priority'', ''queued_at'']],
      [AddColumn ''jobs'' ''kill_requested''],
      [AddColumn ''jobs'' ''kill_delivered_at''],
      [AddColumn ''devices'' ''quarantine_reason''],
      [CreateTable ''device_labels'' [''device_id'', ''key'', ''value'', ''source'', ''updated_at''],
       CreateIndex ''device_labels_by_device'' ''device_labels'' [''device_id''],
       CreateTable ''host_docs'' [''host'', ''device_id'', ''body'', ''updated_at'']],
      [AddColumn ''leases'' ''kind'',
       AddColumn ''leases'' ''reason''],
      [AddColumn ''jobs'' ''kind'',
       AddColumn ''jobs'' ''reason''],
      [AddColumn ''devices'' ''quarantine_detail''],
      [AddColumn ''jobs'' ''stdio''],
      [CreateTable ''device_recoveries'' [''device_id'', ''at'', ''reason''],
       CreateIndex ''device_recoveries_by_device'' ''device_recoveries'' [''device_id'', ''at'']]]"

section \<open>migrate\<close>

text \<open>
  How \<open>migrate\<close> ends: \<open>Migrated\<close>, the refusal of a newer database, or the failure of a
  numbered migration. A negative \<open>user_version\<close> indexes the migrations out of range,
  which panics.
\<close>

datatype migrate_outcome = Migrated | NewerDatabase int | MigrationFailed int ddl_error | IndexPanic

fun run_migrations :: "ddl list list \<Rightarrow> int \<Rightarrow> catalog \<Rightarrow> migrate_outcome \<times> catalog" where
  "run_migrations [] i cat = (Migrated, cat)"
| "run_migrations (m # ms) i cat =
     (case exec_all m cat of
        Inl e \<Rightarrow> (MigrationFailed (i + 1) e, cat)
      | Inr cat' \<Rightarrow> run_migrations ms (i + 1) (cat'\<lparr>ct_version := i + 1\<rparr>))"

definition migrate :: "catalog \<Rightarrow> migrate_outcome \<times> catalog" where
  "migrate cat =
     (let version = ct_version cat
      in if int (length migrations) < version then (NewerDatabase version, cat)
         else if version < 0 then (IndexPanic, cat)
         else run_migrations (drop (nat version) migrations) version cat)"

text \<open>\<open>Open\<close>: the schema, then the migrations.\<close>

datatype open_outcome = Opened catalog | SchemaFailed ddl_error | MigrateFailed migrate_outcome catalog

definition open_db :: "catalog \<Rightarrow> open_outcome" where
  "open_db cat =
     (case exec_all base_schema cat of
        Inl e \<Rightarrow> SchemaFailed e
      | Inr cat1 \<Rightarrow>
          (case migrate cat1 of (Migrated, cat2) \<Rightarrow> Opened cat2 | (out, cat2) \<Rightarrow> MigrateFailed out cat2))"

definition blank :: catalog where
  "blank = \<lparr>ct_tables = Map.empty, ct_indexes = [], ct_version = 0\<rparr>"

section \<open>Statements never undo one another\<close>

text \<open>What a catalog has, a later one keeps: tables with their columns, and indexes.\<close>

definition extends :: "catalog \<Rightarrow> catalog \<Rightarrow> bool" where
  "extends cat cat' \<longleftrightarrow>
     (\<forall>t cs. ct_tables cat t = Some cs \<longrightarrow> (\<exists>more. ct_tables cat' t = Some (cs @ more)))
     \<and> set (ct_indexes cat) \<subseteq> set (ct_indexes cat')"

lemma extends_refl: "extends cat cat"
  by (simp add: extends_def)

lemma extends_trans: "extends a b \<Longrightarrow> extends b c \<Longrightarrow> extends a c"
  unfolding extends_def by (metis append.assoc subset_trans)

lemma extends_version [simp]: "extends a (b\<lparr>ct_version := v\<rparr>) = extends a b"
  by (simp add: extends_def)

lemma exec_ddl_extends: "exec_ddl d cat = Inr cat' \<Longrightarrow> extends cat cat'"
  by (cases d) (auto simp: extends_def split: option.splits if_splits)

lemma exec_all_extends: "exec_all ds cat = Inr cat' \<Longrightarrow> extends cat cat'"
proof (induction ds arbitrary: cat)
  case Nil
  then show ?case by (simp add: extends_refl)
next
  case (Cons d ds)
  then obtain cat1 where "exec_ddl d cat = Inr cat1" "exec_all ds cat1 = Inr cat'"
    by (cases "exec_ddl d cat") simp_all
  with Cons.IH show ?case by (metis exec_ddl_extends extends_trans)
qed

lemma run_migrations_extends: "extends cat (snd (run_migrations ms i cat))"
proof (induction ms arbitrary: i cat)
  case Nil
  then show ?case by (simp add: extends_refl)
next
  case (Cons m ms)
  show ?case
  proof (cases "exec_all m cat")
    case (Inl e)
    then show ?thesis by (simp add: extends_refl)
  next
    case (Inr cat')
    then have "extends cat (cat'\<lparr>ct_version := i + 1\<rparr>)" using exec_all_extends by simp
    from extends_trans [OF this Cons.IH] Inr show ?thesis by simp
  qed
qed

section \<open>Running the schema again\<close>

text \<open>A catalog that has what the \<open>CREATE\<close> statements create is left as it is by them.\<close>

fun creates :: "ddl \<Rightarrow> bool" where
  "creates (AddColumn t c) = False"
| "creates (CreateTable t cs) = True"
| "creates (CreateIndex i t cs) = True"

fun present :: "ddl \<Rightarrow> catalog \<Rightarrow> bool" where
  "present (AddColumn t c) cat = False"
| "present (CreateTable t cs) cat = (ct_tables cat t \<noteq> None)"
| "present (CreateIndex i t cs) cat = List.member (ct_indexes cat) i"

lemma present_extends: "present d cat \<Longrightarrow> extends cat cat' \<Longrightarrow> present d cat'"
  by (cases d) (fastforce simp: extends_def)+

lemma exec_create_present: "creates d \<Longrightarrow> exec_ddl d cat = Inr cat' \<Longrightarrow> present d cat'"
  by (cases d) (auto split: option.splits if_splits)

lemma exec_all_present:
  "list_all creates ds \<Longrightarrow> exec_all ds cat = Inr cat' \<Longrightarrow> list_all (\<lambda>d. present d cat') ds"
proof (induction ds arbitrary: cat)
  case (Cons d ds)
  then obtain cat1 where 1: "exec_ddl d cat = Inr cat1" "exec_all ds cat1 = Inr cat'"
    by (cases "exec_ddl d cat") simp_all
  have "present d cat'"
    using exec_create_present [OF _ 1(1)] exec_all_extends [OF 1(2)] Cons.prems(1) present_extends by auto
  with Cons 1 show ?case by auto
qed simp

lemma exec_present: "present d cat \<Longrightarrow> exec_ddl d cat = Inr cat"
  by (cases d) auto

lemma exec_all_again: "list_all (\<lambda>d. present d cat) ds \<Longrightarrow> exec_all ds cat = Inr cat"
  by (induction ds) (simp_all add: exec_present)

lemma base_creates: "list_all creates base_schema"
  by (simp add: base_schema_def)

section \<open>Where the migrations end\<close>

lemma run_migrations_version:
  "ct_version cat = i \<Longrightarrow> run_migrations ms i cat = (out, cat') \<Longrightarrow>
     i \<le> ct_version cat' \<and> ct_version cat' \<le> i + int (length ms)
     \<and> (out = Migrated \<longrightarrow> ct_version cat' = i + int (length ms))
     \<and> run_migrations (drop (nat (ct_version cat' - i)) ms) (ct_version cat') cat' = (out, cat')"
proof (induction ms arbitrary: i cat)
  case (Cons m ms)
  show ?case
  proof (cases "exec_all m cat")
    case (Inl e)
    with Cons.prems show ?thesis by auto
  next
    case (Inr cat1)
    let ?c = "cat1\<lparr>ct_version := i + 1\<rparr>"
    have r: "run_migrations ms (i + 1) ?c = (out, cat')" using Cons.prems Inr by simp
    from Cons.IH [OF _ r] have ih: "i + 1 \<le> ct_version cat'"
      "ct_version cat' \<le> i + 1 + int (length ms)"
      "out = Migrated \<longrightarrow> ct_version cat' = i + 1 + int (length ms)"
      "run_migrations (drop (nat (ct_version cat' - (i + 1))) ms) (ct_version cat') cat' = (out, cat')"
      by auto
    have "nat (ct_version cat' - i) = Suc (nat (ct_version cat' - (i + 1)))" using ih(1) by simp
    with ih show ?thesis by auto
  qed
qed simp

lemma run_migrations_append:
  "run_migrations ms i cat = (Migrated, cat') \<Longrightarrow>
     run_migrations (ms @ ns) i cat = run_migrations ns (i + int (length ms)) cat'"
  by (induction ms arbitrary: i cat) (auto split: sum.splits simp: algebra_simps)

end
