(* ===== verification/Migrate_Claims.thy ===== *)
theory Migrate_Claims
  imports Store_Migrate
begin

text \<open>What opening a database guarantees, whatever version of the program wrote it.\<close>

text \<open>The catalog of a new database before its first migration, and after all of them.\<close>

definition base_catalog :: catalog where
  "base_catalog = (case exec_all base_schema blank of Inr cat \<Rightarrow> cat | Inl e \<Rightarrow> blank)"

definition full_tables :: "(string \<times> string list) list" where
  "full_tables =
     [(''workers'', [''id'', ''host'', ''last_heartbeat_at'', ''boot_id'']),
      (''devices'',
        [''id'', ''host'', ''name'', ''worker_id'', ''state'', ''last_heartbeat_at'', ''max_runtime'',
         ''quarantine_reason'', ''quarantine_detail'']),
      (''jobs'',
        [''id'', ''selector'', ''command'', ''cwd'', ''env'', ''submitter'', ''idempotency_key'', ''state'',
         ''device_id'', ''worker_id'', ''exit_code'', ''kill_reason'', ''submitted_at'', ''started_at'',
         ''finished_at'', ''priority'', ''max_runtime'', ''idle_timeout'', ''queued_at'',
         ''kill_requested'', ''kill_delivered_at'', ''kind'', ''reason'', ''stdio'']),
      (''leases'',
        [''id'', ''device_id'', ''holder'', ''job_id'', ''acquired_at'', ''expires_at'', ''released_at'',
         ''kind'', ''reason'']),
      (''reservations'', [''job_id'', ''device_id'', ''created_at'']),
      (''device_labels'', [''device_id'', ''key'', ''value'', ''source'', ''updated_at'']),
      (''host_docs'', [''host'', ''device_id'', ''body'', ''updated_at'']),
      (''device_recoveries'', [''device_id'', ''at'', ''reason''])]"

lemma base_catalog_run: "exec_all base_schema blank = Inr base_catalog"
  by (simp add: base_catalog_def base_schema_def blank_def)

lemma migrations_run:
  obtains cat where "run_migrations migrations 0 base_catalog = (Migrated, cat)"
    "ct_version cat = 10" "map (\<lambda>(t, _). (t, ct_tables cat t)) full_tables = map (\<lambda>(t, cs). (t, Some cs)) full_tables"
    "set (ct_indexes cat) = {''jobs_idempotency'', ''leases_one_live_per_device'', ''reservations_one_per_device'',
        ''jobs_queue'', ''device_labels_by_device'', ''device_recoveries_by_device''}"
proof -
  let ?r = "run_migrations migrations 0 base_catalog"
  have 1: "fst ?r = Migrated" by code_simp
  have 2: "ct_version (snd ?r) = 10" by code_simp
  have 3: "map (\<lambda>(t, _). (t, ct_tables (snd ?r) t)) full_tables = map (\<lambda>(t, cs). (t, Some cs)) full_tables"
    by code_simp
  have 4: "ct_indexes (snd ?r) = [''jobs_idempotency'', ''leases_one_live_per_device'', ''reservations_one_per_device'',
        ''jobs_queue'', ''device_labels_by_device'', ''device_recoveries_by_device'']"
    by code_simp
  show thesis by (rule that [of "snd ?r"]) (simp_all add: 2 3 4 prod_eq_iff 1)
qed

lemma run_migrations_take:
  assumes "run_migrations ms i cat = (Migrated, cat')"
  shows "\<exists>c. run_migrations (take k ms) i cat = (Migrated, c)
    \<and> run_migrations (drop k ms) (i + int (length (take k ms))) c = (Migrated, cat')"
  using assms
proof (induction ms arbitrary: i cat k)
  case (Cons m ms)
  then obtain c1 where c1: "exec_all m cat = Inr c1" by (cases "exec_all m cat") auto
  show ?case
  proof (cases k)
    case (Suc k')
    have "run_migrations ms (i + 1) (c1\<lparr>ct_version := i + 1\<rparr>) = (Migrated, cat')"
      using Cons.prems c1 by simp
    from Cons.IH [OF this, of k'] c1 Suc show ?thesis by (auto simp: algebra_simps)
  qed (use Cons.prems in simp)
qed simp

lemma open_extending:
  assumes "extends base_catalog cat" shows "exec_all base_schema cat = Inr cat"
proof -
  have "list_all (\<lambda>d. present d base_catalog) base_schema"
    by (rule exec_all_present [OF base_creates base_catalog_run])
  then have "list_all (\<lambda>d. present d cat) base_schema"
    using present_extends [OF _ assms] by (auto simp: list_all_iff)
  then show ?thesis by (rule exec_all_again)
qed

text \<open>
  C19. A database that any earlier version of the program wrote, one that has run the first
  \<open>k\<close> migrations, opens to the same catalog as a new one: version ten, every table with
  exactly the columns the store's statements use, and the unique indexes in place.
\<close>
theorem open_brings_forward:
  "\<exists>cat. open_db blank = Opened cat
     \<and> open_db (snd (run_migrations (take k migrations) 0 base_catalog)) = Opened cat
     \<and> ct_version cat = 10
     \<and> map (\<lambda>(t, _). (t, ct_tables cat t)) full_tables = map (\<lambda>(t, cs). (t, Some cs)) full_tables
     \<and> {''jobs_idempotency'', ''leases_one_live_per_device''} \<subseteq> set (ct_indexes cat)"
proof (rule migrations_run)
  fix cat
  assume run: "run_migrations migrations 0 base_catalog = (Migrated, cat)"
    and v: "ct_version cat = 10"
    and t: "map (\<lambda>(t, _). (t, ct_tables cat t)) full_tables = map (\<lambda>(t, cs). (t, Some cs)) full_tables"
    and x: "set (ct_indexes cat) = {''jobs_idempotency'', ''leases_one_live_per_device'', ''reservations_one_per_device'',
        ''jobs_queue'', ''device_labels_by_device'', ''device_recoveries_by_device''}"
  have n: "length migrations = 10" by (simp add: migrations_def)
  have v0: "ct_version base_catalog = 0" by (simp add: base_catalog_def base_schema_def blank_def)
  have new: "open_db blank = Opened cat"
    using run by (simp add: open_db_def base_catalog_run migrate_def v0)
  obtain c where c: "run_migrations (take k migrations) 0 base_catalog = (Migrated, c)"
    "run_migrations (drop k migrations) (int (length (take k migrations))) c = (Migrated, cat)"
    using run_migrations_take [OF run, of k] by auto
  have vc: "ct_version c = int (length (take k migrations))"
    using run_migrations_version [OF v0 c(1)] by auto
  have "extends base_catalog c" using run_migrations_extends [of base_catalog "take k migrations" 0] c(1) by simp
  then have "exec_all base_schema c = Inr c" by (rule open_extending)
  moreover have "migrate c = (Migrated, cat)"
  proof (cases "k \<le> length migrations")
    case True
    then show ?thesis using c(2) vc by (simp add: migrate_def)
  next
    case False
    then show ?thesis using c(2) vc by (simp add: migrate_def)
  qed
  ultimately have "open_db c = Opened cat" by (simp add: open_db_def)
  with new c(1) v t x show ?thesis by auto
qed

text \<open>
  A migration that fails leaves the database at the last one that applied in full, and
  so opening it again does exactly the same: it neither repeats an applied migration nor
  meets a half-applied one. A database of a newer program is refused and left as it is.
\<close>
theorem migrate_resumes:
  "migrate (snd (migrate cat)) = migrate cat
   \<and> (ct_version cat \<le> 10 \<or> migrate cat = (NewerDatabase (ct_version cat), cat))"
proof (cases "0 \<le> ct_version cat \<and> ct_version cat \<le> int (length migrations)")
  case True
  obtain out cat' where m: "run_migrations (drop (nat (ct_version cat)) migrations) (ct_version cat) cat = (out, cat')"
    by fastforce
  from run_migrations_version [OF refl m] True
  have r: "ct_version cat \<le> ct_version cat'" "ct_version cat' \<le> int (length migrations)"
    "run_migrations (drop (nat (ct_version cat')) migrations) (ct_version cat') cat' = (out, cat')"
    by (auto simp: nat_diff_distrib)
  with True m show ?thesis by (simp add: migrate_def migrations_def)
next
  case False
  then show ?thesis by (auto simp: migrate_def migrations_def)
qed

end
