(* ===== verification/Wakeups.thy ===== *)
theory Wakeups
  imports RC_Prelude
begin

text \<open>
  Wake-up channels. A waiter registers a channel of capacity one under a key, a poke
  leaves a token in every channel of the key that has none, and the waiter takes the
  token or cancels. The assignment long-poll (\<open>src/internal/server/notify.go\<close>) and the
  log follower (\<open>src/internal/logstore/logstore.go\<close>) each have this mechanism; the locale
  holds the laws and the lemma both rely on, that no wake-up is lost.
\<close>

datatype wake_op = WListen string nat | WIgnore string nat | WPoke string | WTake string nat

locale wakeups =
  fixes listen :: "string \<Rightarrow> nat \<Rightarrow> 'r \<Rightarrow> 'r"
    and ignore :: "string \<Rightarrow> nat \<Rightarrow> 'r \<Rightarrow> 'r"
    and wake :: "string \<Rightarrow> 'r \<Rightarrow> 'r"
    and consume :: "string \<Rightarrow> nat \<Rightarrow> 'r \<Rightarrow> 'r"
    and token :: "'r \<Rightarrow> string \<Rightarrow> nat \<Rightarrow> bool option"
  assumes listen_self: "token r w c = None \<Longrightarrow> token (listen w c r) w c = Some False"
    and listen_other: "(w', c') \<noteq> (w, c) \<Longrightarrow> token (listen w c r) w' c' = token r w' c'"
    and ignore_self: "token (ignore w c r) w c = None"
    and ignore_other: "(w', c') \<noteq> (w, c) \<Longrightarrow> token (ignore w c r) w' c' = token r w' c'"
    and wake_key: "token (wake w r) w c = map_option (\<lambda>_. True) (token r w c)"
    and wake_other: "w' \<noteq> w \<Longrightarrow> token (wake w r) w' c = token r w' c"
    and consume_self: "token (consume w c r) w c = map_option (\<lambda>_. False) (token r w c)"
    and consume_other: "(w', c') \<noteq> (w, c) \<Longrightarrow> token (consume w c r) w' c' = token r w' c'"
begin

fun apply_op :: "wake_op \<Rightarrow> 'r \<Rightarrow> 'r" where
  "apply_op (WListen w c) r = listen w c r"
| "apply_op (WIgnore w c) r = ignore w c r"
| "apply_op (WPoke w) r = wake w r"
| "apply_op (WTake w c) r = consume w c r"

text \<open>What others do to a registered channel: at most leave a token in it.\<close>

lemma apply_op_others:
  assumes "op \<notin> {WListen w c, WIgnore w c, WTake w c}"
  shows "token (apply_op op r) w c
    = (if op = WPoke w then map_option (\<lambda>_. True) (token r w c) else token r w c)"
  using assms
  by (cases op) (auto simp: listen_other ignore_other wake_key wake_other consume_other)

lemma others_keep_token:
  assumes "\<forall>op \<in> set ops. op \<notin> {WListen w c, WIgnore w c, WTake w c}"
  shows "token r w c = Some True \<Longrightarrow> token (fold apply_op ops r) w c = Some True"
  using assms
proof (induction ops arbitrary: r)
  case (Cons op ops)
  then have "token (apply_op op r) w c = Some True" by (simp add: apply_op_others)
  with Cons show ?case by simp
qed simp

lemma no_lost_wakeup:
  assumes "\<forall>op \<in> set ops. op \<notin> {WListen w c, WIgnore w c, WTake w c}" and "WPoke w \<in> set ops"
  shows "token r w c = Some b \<Longrightarrow> token (fold apply_op ops r) w c = Some True"
  using assms
proof (induction ops arbitrary: r b)
  case (Cons op ops)
  have tok: "token (apply_op op r) w c = (if op = WPoke w then Some True else Some b)"
    using Cons.prems(1,2) by (simp add: apply_op_others)
  show ?case
  proof (cases "op = WPoke w")
    case True
    with tok Cons.prems others_keep_token [of ops w c "apply_op op r"] show ?thesis by simp
  next
    case False
    with tok Cons.prems Cons.IH [of "apply_op op r" b] show ?thesis by simp
  qed
qed simp

lemma no_spurious_wakeup:
  assumes "\<forall>op \<in> set ops. op \<notin> {WListen w c, WIgnore w c, WTake w c, WPoke w}"
  shows "token (fold apply_op ops r) w c = token r w c"
  using assms
proof (induction ops arbitrary: r)
  case (Cons op ops)
  then have "token (apply_op op r) w c = token r w c" by (simp add: apply_op_others)
  with Cons show ?case by simp
qed simp

end

section \<open>Channel lists per key\<close>

text \<open>
  The registry as both files write it: a map from keys to lists of channels, with the key
  removed when its list is empty. A channel is its number and whether it holds a token.
\<close>

type_synonym registry = "string \<rightharpoonup> (nat \<times> bool) list"

definition reg_token :: "registry \<Rightarrow> string \<Rightarrow> nat \<Rightarrow> bool option" where
  "reg_token r w c = (case r w of None \<Rightarrow> None | Some cs \<Rightarrow> map_of cs c)"

lemma map_of_append_other: "c' \<noteq> c \<Longrightarrow> map_of (xs @ [(c, b)]) c' = map_of xs c'"
  by (induction xs) auto

lemma map_of_append_new: "map_of xs c = None \<Longrightarrow> map_of (xs @ [(c, b)]) c = Some b"
  by (induction xs) (auto split: if_splits)

lemma map_of_drop: "map_of (filter (\<lambda>x. fst x \<noteq> c) xs) c' = (if c' = c then None else map_of xs c')"
  by (induction xs) auto

lemma map_of_tokens: "map_of (map (\<lambda>(c, b). (c, f c b)) xs) c' = map_option (f c') (map_of xs c')"
  by (induction xs) auto

section \<open>The long-poll waker\<close>

definition n_wait :: "string \<Rightarrow> nat \<Rightarrow> registry \<Rightarrow> registry" where
  "n_wait w c r = r(w \<mapsto> (case r w of None \<Rightarrow> [] | Some cs \<Rightarrow> cs) @ [(c, False)])"

definition n_cancel :: "string \<Rightarrow> nat \<Rightarrow> registry \<Rightarrow> registry" where
  "n_cancel w c r =
     (let out = filter (\<lambda>x. fst x \<noteq> c) (case r w of None \<Rightarrow> [] | Some cs \<Rightarrow> cs)
      in if out = [] then r(w := None) else r(w \<mapsto> out))"

definition n_poke :: "string \<Rightarrow> registry \<Rightarrow> registry" where
  "n_poke w r = (case r w of None \<Rightarrow> r | Some cs \<Rightarrow> r(w \<mapsto> map (\<lambda>(c, _). (c, True)) cs))"

text \<open>The receive on the channel in the handler's \<open>select\<close>.\<close>

definition n_consume :: "string \<Rightarrow> nat \<Rightarrow> registry \<Rightarrow> registry" where
  "n_consume w c r =
     (case r w of None \<Rightarrow> r | Some cs \<Rightarrow> r(w \<mapsto> map (\<lambda>(c', b). (c', if c' = c then False else b)) cs))"

lemma map_of_all_true: "map_of (map (\<lambda>(c, _). (c, True)) xs) c' = map_option (\<lambda>_. True) (map_of xs c')"
  by (induction xs) auto

lemmas reg_simps = reg_token_def map_of_append_other map_of_append_new map_of_drop map_of_tokens map_of_all_true

lemma cancel_token:
  "reg_token (n_cancel w c r) w' c' = (if w' = w \<and> c' = c then None else reg_token r w' c')"
proof (cases "filter (\<lambda>x. fst x \<noteq> c) (case r w of None \<Rightarrow> [] | Some cs \<Rightarrow> cs) = []")
  case True
  then have "map_of (filter (\<lambda>x. fst x \<noteq> c) (case r w of None \<Rightarrow> [] | Some cs \<Rightarrow> cs)) c' = None" by simp
  then have "c' = c \<or> map_of (case r w of None \<Rightarrow> [] | Some cs \<Rightarrow> cs) c' = None"
    by (simp add: map_of_drop split: if_splits)
  with True show ?thesis by (auto simp: n_cancel_def reg_token_def split: option.splits)
next
  case False
  then show ?thesis by (auto simp: n_cancel_def reg_token_def map_of_drop split: option.splits)
qed

lemma poke_token:
  "reg_token (n_poke w r) w' c = (if w' = w then map_option (\<lambda>_. True) (reg_token r w c) else reg_token r w' c)"
  by (simp add: n_poke_def reg_token_def map_of_all_true split: option.split)

lemma consume_token:
  "reg_token (n_consume w c r) w' c'
    = (if w' = w \<and> c' = c then map_option (\<lambda>_. False) (reg_token r w c) else reg_token r w' c')"
  by (simp add: n_consume_def reg_token_def map_of_tokens option.map_ident split: option.split)

lemma wait_token:
  "(w', c') \<noteq> (w, c) \<Longrightarrow> reg_token (n_wait w c r) w' c' = reg_token r w' c'"
  "reg_token r w c = None \<Longrightarrow> reg_token (n_wait w c r) w c = Some False"
  by (auto simp: n_wait_def reg_token_def map_of_append_other map_of_append_new
      simp del: map_of_append split: option.splits)

interpretation waker: wakeups n_wait n_cancel n_poke n_consume reg_token
  by unfold_locales (auto simp: cancel_token poke_token consume_token wait_token)

end
