(* ===== verification/Logstore.thy ===== *)
theory Logstore
  imports Wakeups
begin

text \<open>
  Job logs (\<open>src/internal/logstore/logstore.go\<close>): one append-only file per job, readers
  that follow it, and the listeners that an append wakes. A file is the list of its bytes.
  Failures of the file system are not modelled. The follower is a state machine that runs
  between the appends of others; what it has sent is always the part of the file it has
  read, and when it ends because the job ended it has sent the whole file.
\<close>

section \<open>Files\<close>

record logstore =
  ls_files :: "string \<rightharpoonup> string"
  ls_listeners :: registry

definition safe_char :: "char \<Rightarrow> bool" where
  "safe_char c \<longleftrightarrow>
     (CHR ''A'' \<le> c \<and> c \<le> CHR ''Z'') \<or> (CHR ''a'' \<le> c \<and> c \<le> CHR ''z'')
     \<or> (CHR ''0'' \<le> c \<and> c \<le> CHR ''9'') \<or> List.member [CHR ''.'', CHR ''_'', CHR ''-''] c"

definition safe_id :: "string \<Rightarrow> bool" where
  "safe_id job \<longleftrightarrow> job \<noteq> [] \<and> list_all safe_char job"

text \<open>The path of a job's log, relative to the directory.\<close>

definition log_path :: "string \<Rightarrow> string option" where
  "log_path job = (if safe_id job then Some (job @ ''.log'') else None)"

definition log_content :: "string \<Rightarrow> logstore \<Rightarrow> string" where
  "log_content p ls = (case ls_files ls p of None \<Rightarrow> [] | Some bytes \<Rightarrow> bytes)"

definition ls_subscribe :: "string \<Rightarrow> nat \<Rightarrow> registry \<Rightarrow> registry" where
  "ls_subscribe job c r = r(job \<mapsto> (case r job of None \<Rightarrow> [] | Some cs \<Rightarrow> cs) @ [(c, False)])"

definition ls_unsubscribe :: "string \<Rightarrow> nat \<Rightarrow> registry \<Rightarrow> registry" where
  "ls_unsubscribe job c r =
     (let out = filter (\<lambda>x. fst x \<noteq> c) (case r job of None \<Rightarrow> [] | Some cs \<Rightarrow> cs)
      in if out = [] then r(job := None) else r(job \<mapsto> out))"

definition ls_wake :: "string \<Rightarrow> registry \<Rightarrow> registry" where
  "ls_wake job r = (case r job of None \<Rightarrow> r | Some cs \<Rightarrow> r(job \<mapsto> map (\<lambda>(c, _). (c, True)) cs))"

definition log_append :: "string \<Rightarrow> string \<Rightarrow> logstore \<Rightarrow> logstore option" where
  "log_append job chunk ls =
     (case log_path job of
        None \<Rightarrow> None
      | Some p \<Rightarrow>
          Some (ls\<lparr>ls_files := (ls_files ls)(p \<mapsto> log_content p ls @ chunk),
                   ls_listeners := ls_wake job (ls_listeners ls)\<rparr>))"

text \<open>A job without a file has an empty log.\<close>

definition log_read :: "string \<Rightarrow> logstore \<Rightarrow> string option" where
  "log_read job ls =
     (case log_path job of
        None \<Rightarrow> None
      | Some p \<Rightarrow> (case ls_files ls p of None \<Rightarrow> Some [] | Some bytes \<Rightarrow> Some bytes))"

interpretation log_waker: wakeups ls_subscribe ls_unsubscribe ls_wake n_consume reg_token
proof -
  have "ls_subscribe = n_wait" "ls_unsubscribe = n_cancel" "ls_wake = n_poke"
    by (simp_all add: fun_eq_iff ls_subscribe_def n_wait_def ls_unsubscribe_def n_cancel_def
        ls_wake_def n_poke_def)
  then show "wakeups ls_subscribe ls_unsubscribe ls_wake n_consume reg_token"
    using waker.wakeups_axioms by simp
qed

lemma log_path_inj: "log_path a = Some p \<Longrightarrow> log_path b = Some p \<Longrightarrow> a = b"
  by (auto simp: log_path_def split: if_splits)

lemma safe_id_no_slash: "safe_id job \<Longrightarrow> CHR ''/'' \<notin> set job"
  by (auto simp: safe_id_def list_all_iff safe_char_def less_eq_char_def)

section \<open>Follow\<close>

text \<open>\<open>drain\<close>: read up to 32 KiB at a time until the end of the file.\<close>

abbreviation read_buffer :: nat where
  "read_buffer \<equiv> 32768"

function drain_chunks :: "string \<Rightarrow> string list" where
  "drain_chunks bytes =
     (if bytes = [] then []
      else take read_buffer bytes # drain_chunks (drop read_buffer bytes))"
  by auto
termination by (relation "measure length") auto

declare drain_chunks.simps [simp del]

lemma drain_chunks_concat: "concat (drain_chunks bytes) = bytes"
  by (induction bytes rule: drain_chunks.induct) (subst drain_chunks.simps, simp)

lemma drain_chunks_sizes: "\<forall>c \<in> set (drain_chunks bytes). c \<noteq> [] \<and> length c \<le> read_buffer"
  by (induction bytes rule: drain_chunks.induct) (subst drain_chunks.simps, auto)

text \<open>
  The goroutine's position: draining, waiting in the \<open>select\<close>, draining for the last time
  after \<open>done\<close>, or returned; \<open>Stopped True\<close> is a return after \<open>done\<close>, \<open>Stopped False\<close> one
  because the context ended.
\<close>

datatype follow_phase = Reading | Waiting | Flushing | Stopped bool

record follower =
  fo_file :: string
  fo_offset :: nat
  fo_sent :: "string list"
  fo_phase :: follow_phase

datatype follow_event = FeAppend string | FeChunk | FeEof | FeWake | FeDone | FeCancel

definition fo_rest :: "follower \<Rightarrow> string" where
  "fo_rest f = drop (fo_offset f) (fo_file f)"

text \<open>One read and the send of its chunk.\<close>

definition send_chunk :: "follower \<Rightarrow> follower" where
  "send_chunk f =
     (let chunk = take read_buffer (fo_rest f)
      in f\<lparr>fo_offset := fo_offset f + length chunk, fo_sent := fo_sent f @ [chunk]\<rparr>)"

inductive follow_step :: "follower \<Rightarrow> follow_event \<Rightarrow> follower \<Rightarrow> bool" where
  fo_append: "follow_step f (FeAppend chunk) (f\<lparr>fo_file := fo_file f @ chunk\<rparr>)"
| fo_chunk: "fo_phase f = Reading \<or> fo_phase f = Flushing \<Longrightarrow> fo_rest f \<noteq> [] \<Longrightarrow>
    follow_step f FeChunk (send_chunk f)"
| fo_eof: "fo_phase f = Reading \<Longrightarrow> fo_rest f = [] \<Longrightarrow> follow_step f FeEof (f\<lparr>fo_phase := Waiting\<rparr>)"
| fo_flushed: "fo_phase f = Flushing \<Longrightarrow> fo_rest f = [] \<Longrightarrow>
    follow_step f FeEof (f\<lparr>fo_phase := Stopped True\<rparr>)"
| fo_wake: "fo_phase f = Waiting \<Longrightarrow> follow_step f FeWake (f\<lparr>fo_phase := Reading\<rparr>)"
| fo_done: "fo_phase f = Waiting \<Longrightarrow> follow_step f FeDone (f\<lparr>fo_phase := Flushing\<rparr>)"
| fo_cancel: "(\<forall>b. fo_phase f \<noteq> Stopped b) \<Longrightarrow> follow_step f FeCancel (f\<lparr>fo_phase := Stopped False\<rparr>)"

definition follow_start :: "string \<Rightarrow> follower" where
  "follow_start file = \<lparr>fo_file = file, fo_offset = 0, fo_sent = [], fo_phase = Reading\<rparr>"

definition follow_ok :: "follower \<Rightarrow> bool" where
  "follow_ok f \<longleftrightarrow> fo_offset f \<le> length (fo_file f) \<and> concat (fo_sent f) = take (fo_offset f) (fo_file f)"

lemma follow_step_ok:
  assumes "follow_step f e f'" and "follow_ok f" shows "follow_ok f'"
  using assms
proof (induction rule: follow_step.induct)
  case (fo_chunk f)
  have "take (fo_offset f + length (take read_buffer (fo_rest f))) (fo_file f)
      = take (fo_offset f) (fo_file f) @ take read_buffer (fo_rest f)"
    using fo_chunk by (simp add: take_add fo_rest_def min_def)
  with fo_chunk show ?case by (auto simp: follow_ok_def send_chunk_def Let_def fo_rest_def)
qed (auto simp: follow_ok_def)

interpretation follow_system: invariant_system follow_step follow_ok
  by unfold_locales (rule follow_step_ok)

text \<open>A stopped follower has sent what it had read when it stopped; its file may still grow.\<close>

lemma follow_stopped_step:
  assumes "follow_step f e f'" and "fo_phase f = Stopped b"
  shows "fo_phase f' = Stopped b \<and> fo_sent f' = fo_sent f \<and> (\<exists>more. fo_file f' = fo_file f @ more)"
  using assms by (cases rule: follow_step.cases) auto

definition flushed :: "follower \<Rightarrow> string \<Rightarrow> bool" where
  "flushed f file \<longleftrightarrow> fo_phase f = Stopped True \<and> concat (fo_sent f) = file"

lemma follow_flush:
  assumes "follow_step f e f'" and "follow_ok f" and "fo_phase f' = Stopped True"
    and "fo_phase f \<noteq> Stopped True"
  shows "e = FeEof \<and> concat (fo_sent f') = fo_file f \<and> fo_phase f = Flushing"
  using assms by (cases rule: follow_step.cases) (auto simp: follow_ok_def fo_rest_def send_chunk_def Let_def)

text \<open>
  A run that starts at the beginning of the file and ends by \<open>done\<close> has sent the file as it
  was at the last read; the rest of the file arrived after that.
\<close>

lemma follow_complete:
  assumes "run follow_step f es f'" and "follow_ok f" and "fo_phase f \<noteq> Stopped True"
    and "fo_phase f' = Stopped True"
  shows "\<exists>es1 es2 f1. es = es1 @ FeEof # es2 \<and> run follow_step f es1 f1 \<and> fo_phase f1 = Flushing
    \<and> concat (fo_sent f') = fo_file f1 \<and> (\<exists>more. fo_file f' = fo_file f1 @ more)"
  using assms
proof (induction rule: run.induct)
  case (run_cons f e f1 es f')
  have ok1: "follow_ok f1" using follow_step_ok run_cons.hyps(1) run_cons.prems(1) by blast
  show ?case
  proof (cases "fo_phase f1 = Stopped True")
    case True
    note end1 = follow_flush [OF run_cons.hyps(1) run_cons.prems(1) True run_cons.prems(2)]
    have "run follow_step f1 es f' \<Longrightarrow> fo_phase f1 = Stopped True \<Longrightarrow>
        fo_sent f' = fo_sent f1 \<and> (\<exists>more. fo_file f' = fo_file f1 @ more)"
    proof (induction rule: run.induct)
      case (run_cons a e b es c)
      from follow_stopped_step [OF this(1,4)] this(3) show ?case by fastforce
    qed simp
    with True run_cons.hyps(2) have "fo_sent f' = fo_sent f1" "\<exists>more. fo_file f' = fo_file f1 @ more" by auto
    moreover have "fo_file f1 = fo_file f"
      using run_cons.hyps(1) end1 by (auto elim: follow_step.cases)
    ultimately show ?thesis
      using end1 run_nil [of follow_step f] by (intro exI [of _ "[]"] exI [of _ es] exI [of _ f]) auto
  next
    case False
    from run_cons.IH [OF ok1 False run_cons.prems(3)] obtain es1 es2 g where
      "es = es1 @ FeEof # es2" "run follow_step f1 es1 g" "fo_phase g = Flushing" "concat (fo_sent f') = fo_file g"
      "\<exists>more. fo_file f' = fo_file g @ more" by blast
    with run_cons.hyps(1) show ?thesis
      by (intro exI [of _ "e # es1"] exI [of _ es2] exI [of _ g]) (auto intro: run.run_cons)
  qed
qed simp

text \<open>The last read of a follower that flushes comes after \<open>done\<close>.\<close>

lemma flushing_after_done:
  assumes "run follow_step f es f'" and "fo_phase f' = Flushing" and "fo_phase f \<noteq> Flushing"
  shows "FeDone \<in> set es"
  using assms
proof (induction rule: run.induct)
  case (run_cons f e f1 es f')
  then show ?case
    by (cases "fo_phase f1 = Flushing") (auto elim: follow_step.cases simp: send_chunk_def Let_def)
qed simp

end
