(* ===== verification/Notify.thy ===== *)
theory Notify
  imports RC_Prelude
begin

text \<open>
  The notifier (\<open>src/internal/notify/notify.go\<close>, \<open>webhook.go\<close>): a bounded queue of
  events served by one goroutine. \<open>notify_event\<close> is a call of \<open>Notify\<close> that no other
  call interleaves with, \<open>deliver\<close> the attempts for one event. The step relation has
  the calls split at the point where the code lets them interleave (the check for
  \<open>Close\<close>, then the send), the goroutine's two \<open>select\<close>s, and the shutdown.
\<close>

section \<open>Events and options\<close>

datatype notify_kind =
    KindWatchdogTrip | KindDeviceUnhealthy | KindWorkerLost | KindJobLost | KindVerifyFailed
  | KindLeaseExpired | KindDeviceRecovered

text \<open>An event's instant; \<open>None\<close> is the zero time, which \<open>Notify\<close> fills in.\<close>

record notify_event =
  ne_kind :: notify_kind
  ne_device :: string
  ne_job :: string
  ne_reason :: string
  ne_at :: "time option"

record notify_options =
  no_queue_size :: int
  no_attempts :: int
  no_backoff :: duration

record notifier =
  nf_opts :: notify_options
  nf_queue :: "notify_event list"
  nf_close_requested :: bool
  nf_done :: bool
  nf_dropped :: nat

text \<open>\<open>New\<close>; without a sink the notifier is nil.\<close>

definition new_notifier :: "bool \<Rightarrow> notify_options \<Rightarrow> notifier option" where
  "new_notifier has_sink opts =
     (if \<not> has_sink then None
      else
        (let o1 = (if no_attempts opts < 1 then opts\<lparr>no_attempts := 1\<rparr> else opts);
             o2 = (if no_queue_size o1 < 1 then o1\<lparr>no_queue_size := 1\<rparr> else o1)
         in Some \<lparr>nf_opts = o2, nf_queue = [], nf_close_requested = False, nf_done = False,
                  nf_dropped = 0\<rparr>))"

section \<open>Notify\<close>

definition drop_event :: "notifier \<Rightarrow> notifier" where
  "drop_event n = n\<lparr>nf_dropped := nf_dropped n + 1\<rparr>"

text \<open>The send: into the queue while it has room.\<close>

definition try_enqueue :: "notify_event \<Rightarrow> notifier \<Rightarrow> notifier" where
  "try_enqueue e n =
     (if int (length (nf_queue n)) < no_queue_size (nf_opts n)
      then n\<lparr>nf_queue := nf_queue n @ [e]\<rparr> else drop_event n)"

definition stamp_event :: "time \<Rightarrow> notify_event \<Rightarrow> notify_event" where
  "stamp_event now e = (if ne_at e = None then e\<lparr>ne_at := Some now\<rparr> else e)"

definition notify :: "time \<Rightarrow> notify_event \<Rightarrow> notifier option \<Rightarrow> notifier option" where
  "notify now e on =
     (case on of
        None \<Rightarrow> None
      | Some n \<Rightarrow>
          Some (if nf_close_requested n then drop_event n else try_enqueue (stamp_event now e) n))"

definition dropped :: "notifier option \<Rightarrow> nat" where
  "dropped on = (case on of None \<Rightarrow> 0 | Some n \<Rightarrow> nf_dropped n)"

section \<open>Delivery of one event\<close>

text \<open>
  The sink and the delivery context are arguments: whether the context is done before an
  attempt, whether an attempt succeeds, and whether the context is done during the backoff
  after an attempt. The result counts the calls of the sink, says whether one succeeded and
  lists the backoffs that were begun.
\<close>

record delivery_env =
  de_ctx_done :: "nat \<Rightarrow> bool"
  de_sink_ok :: "nat \<Rightarrow> bool"
  de_cut_short :: "nat \<Rightarrow> bool"

record delivery =
  dl_made :: nat
  dl_ok :: bool
  dl_waits :: "duration list"

fun deliver_loop :: "delivery_env \<Rightarrow> nat \<Rightarrow> nat \<Rightarrow> duration \<Rightarrow> delivery \<Rightarrow> delivery" where
  "deliver_loop env 0 attempt backoff d = d"
| "deliver_loop env (Suc left) attempt backoff d =
     (if de_ctx_done env attempt then d
      else
        (let d1 = d\<lparr>dl_made := dl_made d + 1\<rparr>
         in if de_sink_ok env attempt then d1\<lparr>dl_ok := True\<rparr>
            else if 0 < left \<and> 0 < backoff then
              (let d2 = d1\<lparr>dl_waits := dl_waits d1 @ [backoff]\<rparr>
               in if de_cut_short env attempt then d2
                  else deliver_loop env left (attempt + 1) (wrap64 (backoff * 2)) d2)
            else deliver_loop env left (attempt + 1) backoff d1))"

definition deliver :: "delivery_env \<Rightarrow> notify_options \<Rightarrow> delivery" where
  "deliver env opts =
     deliver_loop env (nat (no_attempts opts)) 1 (no_backoff opts)
       \<lparr>dl_made = 0, dl_ok = False, dl_waits = []\<rparr>"

text \<open>The webhook sink's verdict on the status code of a response.\<close>

definition webhook_ok :: "int \<Rightarrow> bool" where
  "webhook_ok status \<longleftrightarrow> \<not> (status < 200 \<or> 300 \<le> status)"

lemma deliver_loop_bounds:
  "dl_made (deliver_loop env left attempt backoff d) \<le> dl_made d + left
   \<and> length (dl_waits (deliver_loop env left attempt backoff d)) \<le> length (dl_waits d) + (left - 1)"
proof (induction env left attempt backoff d rule: deliver_loop.induct)
  case (2 env left attempt backoff d)
  then show ?case by (auto simp: Let_def)
qed simp

text \<open>While no context ends, the sink is called until the first success or the last attempt.\<close>

lemma deliver_loop_calls:
  assumes "\<And>i. \<not> de_ctx_done env i" and "\<And>i. \<not> de_cut_short env i"
  shows "dl_ok d = False \<Longrightarrow>
    dl_ok (deliver_loop env left attempt backoff d) = (\<exists>i < left. de_sink_ok env (attempt + i))
    \<and> dl_made (deliver_loop env left attempt backoff d)
        = dl_made d + (if \<exists>i < left. de_sink_ok env (attempt + i)
                       then Suc (LEAST i. de_sink_ok env (attempt + i)) else left)"
proof (induction left arbitrary: attempt backoff d)
  case (Suc left)
  show ?case
  proof (cases "de_sink_ok env attempt")
    case True
    then have "(LEAST i. de_sink_ok env (attempt + i)) = 0" by (intro Least_equality) auto
    with True show ?thesis by (auto simp: Let_def assms intro!: exI [of _ 0])
  next
    case False
    have shift: "(\<exists>i < Suc left. de_sink_ok env (attempt + i)) = (\<exists>i < left. de_sink_ok env (attempt + 1 + i))"
    proof
      assume "\<exists>i < Suc left. de_sink_ok env (attempt + i)"
      then obtain i where i: "i < Suc left" "de_sink_ok env (attempt + i)" by blast
      then obtain k where "i = Suc k" using False by (cases i) auto
      with i show "\<exists>i < left. de_sink_ok env (attempt + 1 + i)" by auto
    next
      assume "\<exists>i < left. de_sink_ok env (attempt + 1 + i)"
      then obtain i where "i < left" "de_sink_ok env (attempt + 1 + i)" by blast
      then show "\<exists>i < Suc left. de_sink_ok env (attempt + i)" by (intro exI [of _ "Suc i"]) simp
    qed
    have least: "(LEAST i. de_sink_ok env (attempt + i)) = Suc (LEAST i. de_sink_ok env (attempt + 1 + i))"
      if "\<exists>i < left. de_sink_ok env (attempt + 1 + i)"
    proof -
      from that obtain i where "de_sink_ok env (attempt + Suc i)" by auto
      then have "(LEAST i. de_sink_ok env (attempt + i)) = Suc (LEAST i. de_sink_ok env (attempt + Suc i))"
        by (rule Least_Suc) (use False in simp)
      then show ?thesis by simp
    qed
    show ?thesis
      using Suc.IH [of "d\<lparr>dl_made := dl_made d + 1\<rparr>" "attempt + 1" backoff]
        Suc.IH [of "d\<lparr>dl_made := dl_made d + 1, dl_waits := dl_waits d @ [backoff]\<rparr>" "attempt + 1" "wrap64 (backoff * 2)"]
        Suc.prems False shift least
      by (auto simp: Let_def assms)
  qed
qed simp

section \<open>Concurrent callers and shutdown\<close>

text \<open>
  Where the goroutine stands: before its first \<open>select\<close> (the probe for \<open>Close\<close>), in the
  second (an event or \<open>Close\<close>), or in \<open>drainRemaining\<close>; when it has returned, \<open>nf_done\<close>
  holds. \<open>ns_passed\<close> are the calls of \<open>Notify\<close> between the check and the send. The last
  three fields are for the statements only: the events taken off the queue and handed to
  \<open>deliver\<close>, those put into it, and the number of calls.
\<close>

datatype runner_phase = Probing | Selecting | Draining

record notify_state =
  ns_notifier :: notifier
  ns_phase :: runner_phase
  ns_passed :: "notify_event list"
  ns_handled :: "notify_event list"
  ns_accepted :: "notify_event list"
  ns_calls :: nat

datatype notify_label = CallCheck notify_event | CallSend nat time | RunProbe | RunTake | RunStop | CallClose

definition nf_cap :: "notify_state \<Rightarrow> int" where
  "nf_cap s = no_queue_size (nf_opts (ns_notifier s))"

text \<open>One event off the queue, to \<open>deliver\<close>.\<close>

definition take_event :: "notify_state \<Rightarrow> notify_state" where
  "take_event s =
     s\<lparr>ns_notifier := (ns_notifier s)\<lparr>nf_queue := tl (nf_queue (ns_notifier s))\<rparr>,
       ns_handled := ns_handled s @ [hd (nf_queue (ns_notifier s))]\<rparr>"

inductive notify_step :: "notify_state \<Rightarrow> notify_label \<Rightarrow> notify_state \<Rightarrow> bool" where
  ns_check_closed: "nf_close_requested (ns_notifier s) \<Longrightarrow>
    notify_step s (CallCheck e) (s\<lparr>ns_notifier := drop_event (ns_notifier s), ns_calls := ns_calls s + 1\<rparr>)"
| ns_check_open: "\<not> nf_close_requested (ns_notifier s) \<Longrightarrow>
    notify_step s (CallCheck e) (s\<lparr>ns_passed := ns_passed s @ [e], ns_calls := ns_calls s + 1\<rparr>)"
| ns_send: "i < length (ns_passed s) \<Longrightarrow> e = stamp_event now (ns_passed s ! i) \<Longrightarrow>
    n = try_enqueue e (ns_notifier s) \<Longrightarrow>
    notify_step s (CallSend i now)
      (s\<lparr>ns_notifier := n, ns_passed := take i (ns_passed s) @ drop (Suc i) (ns_passed s),
         ns_accepted := (if nf_queue n = nf_queue (ns_notifier s) then ns_accepted s
                         else ns_accepted s @ [e])\<rparr>)"
| ns_probe: "\<not> nf_done (ns_notifier s) \<Longrightarrow> ns_phase s = Probing \<Longrightarrow>
    notify_step s RunProbe
      (s\<lparr>ns_phase := (if nf_close_requested (ns_notifier s) then Draining else Selecting)\<rparr>)"
| ns_select_event: "\<not> nf_done (ns_notifier s) \<Longrightarrow> ns_phase s = Selecting \<Longrightarrow>
    nf_queue (ns_notifier s) \<noteq> [] \<Longrightarrow> notify_step s RunTake ((take_event s)\<lparr>ns_phase := Probing\<rparr>)"
| ns_select_close: "\<not> nf_done (ns_notifier s) \<Longrightarrow> ns_phase s = Selecting \<Longrightarrow>
    nf_close_requested (ns_notifier s) \<Longrightarrow> notify_step s RunProbe (s\<lparr>ns_phase := Draining\<rparr>)"
| ns_drain: "\<not> nf_done (ns_notifier s) \<Longrightarrow> ns_phase s = Draining \<Longrightarrow>
    nf_queue (ns_notifier s) \<noteq> [] \<Longrightarrow> notify_step s RunTake (take_event s)"
| ns_drained: "\<not> nf_done (ns_notifier s) \<Longrightarrow> ns_phase s = Draining \<Longrightarrow>
    nf_queue (ns_notifier s) = [] \<Longrightarrow>
    notify_step s RunStop (s\<lparr>ns_notifier := (ns_notifier s)\<lparr>nf_done := True\<rparr>\<rparr>)"
| ns_close: "notify_step s CallClose (s\<lparr>ns_notifier := (ns_notifier s)\<lparr>nf_close_requested := True\<rparr>\<rparr>)"

inductive_cases notify_stepE: "notify_step s l s'"

definition notify_start :: "notifier \<Rightarrow> notify_state" where
  "notify_start n =
     \<lparr>ns_notifier = n, ns_phase = Probing, ns_passed = [], ns_handled = [], ns_accepted = [],
      ns_calls = 0\<rparr>"

text \<open>
  The invariant: the events handed on and those waiting are the accepted ones in their
  order, the queue is within its bound, and every call is accounted for.
\<close>

definition notify_ok :: "notify_state \<Rightarrow> bool" where
  "notify_ok s \<longleftrightarrow>
     ns_accepted s = ns_handled s @ nf_queue (ns_notifier s)
     \<and> int (length (nf_queue (ns_notifier s))) \<le> nf_cap s
     \<and> ns_calls s = nf_dropped (ns_notifier s) + length (ns_passed s) + length (ns_accepted s)
     \<and> (nf_done (ns_notifier s) \<longrightarrow> nf_close_requested (ns_notifier s))
     \<and> (ns_phase s = Draining \<longrightarrow> nf_close_requested (ns_notifier s))"

lemma new_notifier_ok:
  "new_notifier b opts = Some n \<Longrightarrow> notify_ok (notify_start n) \<and> 1 \<le> no_queue_size (nf_opts n)
     \<and> 1 \<le> no_attempts (nf_opts n)"
  by (auto simp: new_notifier_def notify_ok_def notify_start_def nf_cap_def Let_def split: if_splits)

lemma notify_step_ok:
  assumes "notify_step s l s'" and "notify_ok s" shows "notify_ok s'"
  using assms
proof (induction rule: notify_step.induct)
  case (ns_send i s e now n)
  have "length (take i (ns_passed s) @ drop (Suc i) (ns_passed s)) + 1 = length (ns_passed s)"
    using ns_send(1) by simp
  with ns_send show ?case
    by (auto simp: notify_ok_def nf_cap_def try_enqueue_def drop_event_def)
qed (auto simp: notify_ok_def nf_cap_def take_event_def drop_event_def neq_Nil_conv split: if_splits)

interpretation notify_system: invariant_system notify_step notify_ok
  by unfold_locales (rule notify_step_ok)

text \<open>The goroutine's own steps, and how many are left once \<open>Close\<close> was called.\<close>

definition runner_label :: "notify_label \<Rightarrow> bool" where
  "runner_label l \<longleftrightarrow> l = RunProbe \<or> l = RunTake \<or> l = RunStop"

definition runner_budget :: "notify_state \<Rightarrow> nat" where
  "runner_budget s =
     (if nf_done (ns_notifier s) then 0
      else 3 * length (nf_queue (ns_notifier s))
           + (case ns_phase s of Probing \<Rightarrow> 3 | Selecting \<Rightarrow> 2 | Draining \<Rightarrow> 1))"

lemma runner_step_budget:
  assumes "notify_step s l s'" and "runner_label l" and "nf_close_requested (ns_notifier s)"
  shows "runner_budget s' < runner_budget s \<and> nf_close_requested (ns_notifier s')
    \<and> ns_accepted s' = ns_accepted s"
  using assms
  by (cases rule: notify_step.cases)
     (auto simp: runner_label_def runner_budget_def take_event_def neq_Nil_conv)

lemma runner_progress:
  assumes "nf_close_requested (ns_notifier s)" and "\<not> nf_done (ns_notifier s)"
  shows "\<exists>l s'. runner_label l \<and> notify_step s l s'"
proof (cases "ns_phase s")
  case Probing
  from ns_probe [OF assms(2) Probing] show ?thesis by (auto simp: runner_label_def)
next
  case Selecting
  from ns_select_close [OF assms(2) Selecting assms(1)] show ?thesis by (auto simp: runner_label_def)
next
  case Draining
  from ns_drain [OF assms(2) Draining] ns_drained [OF assms(2) Draining]
  show ?thesis by (auto simp: runner_label_def)
qed

lemma runner_run_budget:
  "run notify_step s ls s' \<Longrightarrow> list_all runner_label ls \<Longrightarrow> nf_close_requested (ns_notifier s) \<Longrightarrow>
     length ls + runner_budget s' \<le> runner_budget s \<and> nf_close_requested (ns_notifier s')
     \<and> ns_accepted s' = ns_accepted s"
  by (induction rule: run.induct) (use runner_step_budget in \<open>fastforce+\<close>)

text \<open>Every way of letting the goroutine run to its end has delivered what was accepted.\<close>

lemma runner_stops:
  assumes "nf_close_requested (ns_notifier s)"
  shows "\<exists>ls s'. list_all runner_label ls \<and> run notify_step s ls s' \<and> nf_done (ns_notifier s')"
  using assms
proof (induction "runner_budget s" arbitrary: s rule: less_induct)
  case less
  show ?case
  proof (cases "nf_done (ns_notifier s)")
    case True
    then show ?thesis by (intro exI [of _ "[]"]) (auto intro: run_nil)
  next
    case False
    obtain l s1 where l: "runner_label l" "notify_step s l s1" using runner_progress [OF less.prems False] by blast
    note b = runner_step_budget [OF l(2,1) less.prems]
    obtain ls s' where "list_all runner_label ls" "run notify_step s1 ls s'" "nf_done (ns_notifier s')"
      using less.hyps [of s1] b by blast
    with l show ?thesis by (intro exI [of _ "l # ls"]) (auto intro: run_cons)
  qed
qed

lemma stopped_queue:
  assumes "run notify_step s ls s'" and "nf_done (ns_notifier s')" and "\<not> nf_done (ns_notifier s)"
    and "list_all runner_label ls"
  shows "nf_queue (ns_notifier s') = []"
  using assms
proof (induction rule: run.induct)
  case (run_cons s l s1 ls s')
  show ?case
  proof (cases "nf_done (ns_notifier s1)")
    case True
    then have "ls = []" using run_cons by (cases ls) (auto simp: run_Cons_iff runner_label_def elim!: notify_stepE)
    with run_cons True show ?thesis
      by (auto simp: run_Nil_iff take_event_def runner_label_def elim!: notify_stepE split: if_splits)
  next
    case False
    with run_cons show ?thesis by simp
  qed
qed simp

end
