(* ===== verification/Server_Channels.thy ===== *)
theory Server_Channels
  imports RC_Prelude "HOL-Library.Sublist"
begin

text \<open>
  The two in-memory mechanisms the handlers talk to other requests with: the event
  broadcaster (\<open>src/internal/server/events.go\<close>) and the long-poll waker
  (\<open>src/internal/server/notify.go\<close>). A channel is identified by a number. Each operation
  holds the mutex of its structure, so it is one step; the channels' receive sides are
  the remaining steps. The locale \<open>wakeups\<close> is what a waiter relies on; the log store
  has the same mechanism and gives the second interpretation.
\<close>

section \<open>The broadcaster\<close>

record 'e broadcaster =
  bc_next :: nat
  bc_subs :: "(nat \<times> 'e list) list"

definition new_broadcaster :: "'e broadcaster" where
  "new_broadcaster = \<lparr>bc_next = 0, bc_subs = []\<rparr>"

abbreviation subscriber_buffer :: nat where
  "subscriber_buffer \<equiv> 32"

definition bc_subscribe :: "'e broadcaster \<Rightarrow> nat \<times> 'e broadcaster" where
  "bc_subscribe b =
     (bc_next b, \<lparr>bc_next = bc_next b + 1, bc_subs = bc_subs b @ [(bc_next b, [])]\<rparr>)"

definition bc_unsubscribe :: "nat \<Rightarrow> 'e broadcaster \<Rightarrow> 'e broadcaster" where
  "bc_unsubscribe c b = b\<lparr>bc_subs := filter (\<lambda>s. fst s \<noteq> c) (bc_subs b)\<rparr>"

text \<open>The send to one subscriber: dropped when its buffer is full.\<close>

definition offer :: "'e \<Rightarrow> 'e list \<Rightarrow> 'e list" where
  "offer e buf = (if length buf < subscriber_buffer then buf @ [e] else buf)"

definition publish :: "'e \<Rightarrow> 'e broadcaster \<Rightarrow> 'e broadcaster" where
  "publish e b = b\<lparr>bc_subs := map (\<lambda>(c, buf). (c, offer e buf)) (bc_subs b)\<rparr>"

definition has_subscribers :: "'e broadcaster \<Rightarrow> bool" where
  "has_subscribers b \<longleftrightarrow> 0 < length (bc_subs b)"

text \<open>A handler takes the next event of its channel; with none it stays blocked.\<close>

definition bc_receive :: "nat \<Rightarrow> 'e broadcaster \<Rightarrow> ('e \<times> 'e broadcaster) option" where
  "bc_receive c b =
     (case map_of (bc_subs b) c of
        Some (e # rest) \<Rightarrow>
          Some (e, b\<lparr>bc_subs := map (\<lambda>(c', buf). (c', if c' = c then rest else buf)) (bc_subs b)\<rparr>)
      | _ \<Rightarrow> None)"

section \<open>What a subscriber sees\<close>

text \<open>
  A run of the broadcaster seen by the channel \<open>c\<close>: the events published since it was
  opened and the events it received.
\<close>

datatype 'e bc_op = BcPublish 'e | BcReceive nat | BcSubscribe | BcUnsubscribe nat

record 'e bc_state =
  bs_bc :: "'e broadcaster"
  bs_published :: "'e list"
  bs_received :: "'e list"

inductive bc_step :: "nat \<Rightarrow> 'e bc_state \<Rightarrow> 'e bc_op \<Rightarrow> 'e bc_state \<Rightarrow> bool" for c :: nat where
  bc_publish: "bc_step c s (BcPublish e) (s\<lparr>bs_bc := publish e (bs_bc s), bs_published := bs_published s @ [e]\<rparr>)"
| bc_receive: "bc_receive c' (bs_bc s) = Some (e, b) \<Longrightarrow>
    bc_step c s (BcReceive c')
      (s\<lparr>bs_bc := b, bs_received := (if c' = c then bs_received s @ [e] else bs_received s)\<rparr>)"
| bc_subscribe: "bc_step c s BcSubscribe (s\<lparr>bs_bc := snd (bc_subscribe (bs_bc s))\<rparr>)"
| bc_unsubscribe: "c' \<noteq> c \<Longrightarrow> bc_step c s (BcUnsubscribe c') (s\<lparr>bs_bc := bc_unsubscribe c' (bs_bc s)\<rparr>)"

text \<open>
  The registry is well formed: every channel is registered once, under a number already
  drawn. The invariant of an open channel \<open>c\<close>: its buffer is bounded, and what it
  received followed by what waits for it is a subsequence of what was published.
\<close>

definition bc_wf :: "'e broadcaster \<Rightarrow> bool" where
  "bc_wf b \<longleftrightarrow> distinct (map fst (bc_subs b)) \<and> (\<forall>i \<in> set (map fst (bc_subs b)). i < bc_next b)"

definition bc_ok :: "nat \<Rightarrow> 'e bc_state \<Rightarrow> bool" where
  "bc_ok c s \<longleftrightarrow>
     bc_wf (bs_bc s)
     \<and> (\<exists>buf. map_of (bc_subs (bs_bc s)) c = Some buf \<and> length buf \<le> subscriber_buffer
          \<and> subseq (bs_received s @ buf) (bs_published s))"

text \<open>While no more than a buffer of events has been published, none was dropped.\<close>

definition bc_lossless :: "nat \<Rightarrow> 'e bc_state \<Rightarrow> bool" where
  "bc_lossless c s \<longleftrightarrow>
     length (bs_published s) \<le> subscriber_buffer \<longrightarrow>
     (\<exists>buf. map_of (bc_subs (bs_bc s)) c = Some buf \<and> bs_published s = bs_received s @ buf)"

lemma map_of_map_snd: "map_of (map (\<lambda>(k, v). (k, f k v)) xs) c = map_option (f c) (map_of xs c)"
  by (induction xs) auto

lemma fst_map_snd [simp]: "fst \<circ> (\<lambda>(k, v). (k, f k v)) = fst"
  by auto

lemma map_of_filter_key: "c \<noteq> c' \<Longrightarrow> map_of (filter (\<lambda>s. fst s \<noteq> c') xs) c = map_of xs c"
  by (induction xs) auto

lemma offer_subseq:
  assumes "subseq (r @ buf) p" shows "subseq (r @ offer e buf) (p @ [e])"
proof (cases "length buf < subscriber_buffer")
  case True
  have "subseq ((r @ buf) @ [e]) (p @ [e])" by (rule list_emb_append_mono [OF assms]) simp
  with True show ?thesis by (simp add: offer_def)
next
  case False
  with assms show ?thesis by (simp add: offer_def subseq_rev_drop_many)
qed

lemma map_of_last: "c \<notin> fst ` set xs \<Longrightarrow> map_of (xs @ [(c, b)]) c = Some b"
  by (induction xs) auto

lemma map_of_other: "c \<noteq> c' \<Longrightarrow> map_of (xs @ [(c', b)]) c = map_of xs c"
  by (induction xs) auto

lemma bc_receive_Some:
  assumes "bc_receive c' b = Some (e, b')"
  obtains rest where "map_of (bc_subs b) c' = Some (e # rest)"
    "bc_subs b' = map (\<lambda>(k, buf). (k, if k = c' then rest else buf)) (bc_subs b)" "bc_next b' = bc_next b"
  using assms by (auto simp: bc_receive_def split: option.splits list.splits)

lemma bc_wf_new: "bc_wf new_broadcaster"
  by (simp add: bc_wf_def new_broadcaster_def)

lemma bc_wf_publish [simp]: "bc_wf (publish e b) = bc_wf b"
  by (simp add: bc_wf_def publish_def del: set_map)

lemma bc_wf_receive: "bc_receive c b = Some (e, b') \<Longrightarrow> bc_wf b' = bc_wf b"
  by (erule bc_receive_Some) (simp add: bc_wf_def del: set_map)

lemma bc_wf_subscribe: "bc_wf b \<Longrightarrow> bc_wf (snd (bc_subscribe b))"
  by (auto simp: bc_wf_def bc_subscribe_def less_Suc_eq)

lemma bc_wf_unsubscribe: "bc_wf b \<Longrightarrow> bc_wf (bc_unsubscribe c b)"
  by (auto simp: bc_wf_def bc_unsubscribe_def distinct_map_filter)

lemma bc_wf_fresh: "bc_wf b \<Longrightarrow> map_of (bc_subs b) c = Some buf \<Longrightarrow> c \<noteq> bc_next b"
  by (force simp: bc_wf_def dest: map_of_SomeD)

lemma bc_step_ok:
  assumes "bc_step c s op s'" and "bc_ok c s"
  shows "bc_ok c s'"
  using assms
proof (induction rule: bc_step.induct)
  case (bc_publish s e)
  then obtain buf where b: "map_of (bc_subs (bs_bc s)) c = Some buf" "length buf \<le> subscriber_buffer"
    "subseq (bs_received s @ buf) (bs_published s)" "bc_wf (bs_bc s)"
    by (auto simp: bc_ok_def)
  then have "map_of (bc_subs (publish e (bs_bc s))) c = Some (offer e buf)"
    "length (offer e buf) \<le> subscriber_buffer"
    by (simp_all add: publish_def map_of_map_snd offer_def)
  with b(4) offer_subseq [OF b(3), of e] show ?case by (simp add: bc_ok_def)
next
  case (bc_receive c' s e b)
  from bc_receive(2) obtain buf where old: "bc_wf (bs_bc s)"
    "map_of (bc_subs (bs_bc s)) c = Some buf" "length buf \<le> subscriber_buffer"
    "subseq (bs_received s @ buf) (bs_published s)"
    by (auto simp: bc_ok_def)
  from bc_receive(1) obtain rest where r: "map_of (bc_subs (bs_bc s)) c' = Some (e # rest)"
    "bc_subs b = map (\<lambda>(k, buf). (k, if k = c' then rest else buf)) (bc_subs (bs_bc s))"
    by (rule bc_receive_Some)
  have "map_of (bc_subs b) c = Some (if c = c' then rest else buf)"
    using old(2) by (simp add: r(2) map_of_map_snd)
  moreover have "bc_wf b" using bc_wf_receive [OF bc_receive(1)] old(1) by simp
  ultimately show ?case
    using old r(1) by (cases "c' = c") (simp_all add: bc_ok_def)
next
  case (bc_subscribe s)
  then obtain buf where b: "map_of (bc_subs (bs_bc s)) c = Some buf" "length buf \<le> subscriber_buffer"
    "subseq (bs_received s @ buf) (bs_published s)" "bc_wf (bs_bc s)"
    by (auto simp: bc_ok_def)
  have "map_of (bc_subs (snd (bc_subscribe (bs_bc s)))) c = Some buf"
    using bc_wf_fresh [OF b(4,1)] b(1) by (simp add: bc_subscribe_def map_of_other del: map_of_append)
  with b bc_wf_subscribe show ?case by (simp add: bc_ok_def)
next
  case (bc_unsubscribe c' s)
  then show ?case
    using bc_wf_unsubscribe by (auto simp: bc_ok_def) (auto simp: bc_unsubscribe_def map_of_filter_key)
qed

interpretation bc_system: invariant_system "bc_step c" "bc_ok c" for c
  by unfold_locales (rule bc_step_ok)

lemma bc_step_lossless:
  assumes "bc_step c s op s'" and "bc_lossless c s" and "bc_ok c s"
  shows "bc_lossless c s'"
  using assms
proof (induction rule: bc_step.induct)
  case (bc_publish s e)
  let ?s' = "s\<lparr>bs_bc := publish e (bs_bc s), bs_published := bs_published s @ [e]\<rparr>"
  show ?case unfolding bc_lossless_def
  proof
    assume "length (bs_published ?s') \<le> subscriber_buffer"
    then have len: "length (bs_published s) < subscriber_buffer" by simp
    then obtain buf where b: "map_of (bc_subs (bs_bc s)) c = Some buf" "bs_published s = bs_received s @ buf"
      using bc_publish(1) by (auto simp: bc_lossless_def)
    then have "offer e buf = buf @ [e]" using len by (simp add: offer_def)
    with b show "\<exists>buf. map_of (bc_subs (bs_bc ?s')) c = Some buf \<and> bs_published ?s' = bs_received ?s' @ buf"
      by (simp add: publish_def map_of_map_snd)
  qed
next
  case (bc_receive c' s e b)
  from bc_receive(1) obtain rest where r: "map_of (bc_subs (bs_bc s)) c' = Some (e # rest)"
    "bc_subs b = map (\<lambda>(k, buf). (k, if k = c' then rest else buf)) (bc_subs (bs_bc s))"
    by (rule bc_receive_Some)
  with bc_receive(2) show ?case
    by (cases "c' = c") (auto simp: bc_lossless_def map_of_map_snd)
next
  case (bc_subscribe s)
  from bc_subscribe(2) obtain b where "map_of (bc_subs (bs_bc s)) c = Some b" "bc_wf (bs_bc s)"
    by (auto simp: bc_ok_def)
  then have "c \<noteq> bc_next (bs_bc s)" using bc_wf_fresh by blast
  with bc_subscribe(1) show ?case
    by (simp add: bc_lossless_def bc_subscribe_def map_of_other del: map_of_append)
next
  case (bc_unsubscribe c' s)
  then show ?case by (simp add: bc_lossless_def bc_unsubscribe_def map_of_filter_key)
qed

text \<open>A freshly opened channel.\<close>

definition bc_opened :: "'e broadcaster \<Rightarrow> 'e bc_state" where
  "bc_opened b = \<lparr>bs_bc = snd (bc_subscribe b), bs_published = [], bs_received = []\<rparr>"

lemma bc_opened_ok:
  assumes "bc_wf b" shows "bc_ok (bc_next b) (bc_opened b)" "bc_lossless (bc_next b) (bc_opened b)"
proof -
  have "bc_next b \<notin> fst ` set (bc_subs b)" using assms by (auto simp: bc_wf_def)
  then have "map_of (bc_subs (bs_bc (bc_opened b))) (bc_next b) = Some []"
    by (simp add: bc_opened_def bc_subscribe_def map_of_last del: map_of_append)
  with bc_wf_subscribe [OF assms]
  show "bc_ok (bc_next b) (bc_opened b)" "bc_lossless (bc_next b) (bc_opened b)"
    by (simp_all add: bc_ok_def bc_lossless_def bc_opened_def)
qed

end
