(* ===== verification/Server_State.thy ===== *)
theory Server_State
  imports Store_Machine Logstore Notify Server_Channels Go_Strings
begin

text \<open>
  What the HTTP handlers share (\<open>src/internal/server/server.go\<close>, \<open>events.go\<close> and the
  views of \<open>client_api.go\<close>): the configuration, the state a request finds, replies, the
  authorization of a request, and the events a handler publishes. A handler is a function
  from the decoded request, the readings of the clock and the state to the new state and
  the reply; a request that does not decode is \<open>None\<close>. The texts of error messages are
  left out, the status and the error code stay.
\<close>

section \<open>Configuration and state\<close>

record config =
  cf_tokens :: "string \<rightharpoonup> string"
  cf_retain :: bool

record device_view =
  dv_device :: device_row
  dv_labels :: "label list"
  dv_holder :: string
  dv_job :: string
  dv_kind :: string
  dv_reason :: string
  dv_command :: "string list"
  dv_elapsed :: int
  dv_heartbeat_age :: int
  dv_oldest_label_age :: "int option"
  dv_quarantine_reason :: string

text \<open>A bare nudge (\<open>Publish(kind, nil)\<close>) has no payload.\<close>

datatype payload = JobPayload string job_state | DevicesPayload "device_view list" | NoPayload

record event =
  ev_kind :: string
  ev_at :: time
  ev_payload :: payload

record server =
  sv_db :: db
  sv_logs :: logstore
  sv_notifier :: "notifier option"
  sv_events :: "event broadcaster"
  sv_waiters :: registry

text \<open>The readings of the clock in the order a handler takes them.\<close>

type_synonym clock = "nat \<Rightarrow> time"

datatype 'a reply = ReplyErr nat string | Reply nat 'a

fun status :: "'a reply \<Rightarrow> nat" where
  "status (ReplyErr code e) = code"
| "status (Reply code b) = code"

section \<open>Authorization\<close>

definition allows :: "string \<Rightarrow> string \<Rightarrow> bool" where
  "allows have_role want \<longleftrightarrow> have_role = ''admin'' \<or> have_role = want"

definition bearer :: "string \<Rightarrow> string \<times> bool" where
  "bearer auth = (if has_prefix ''Bearer '' auth then (drop 7 auth, True) else (auth, False))"

text \<open>\<open>require\<close>: the role the request runs with, or the rejection.\<close>

definition require :: "config \<Rightarrow> string \<Rightarrow> string \<Rightarrow> string \<Rightarrow> string \<Rightarrow> string reply" where
  "require cfg role auth path query_token =
     (let (t0, h0) = bearer auth;
          (token, has_scheme) =
            (if t0 = '''' \<and> path = ''/v1/events'' then (query_token, query_token \<noteq> '''') else (t0, h0))
      in case cf_tokens cfg token of
           None \<Rightarrow> ReplyErr 401 ''unauthorized''
         | Some got \<Rightarrow>
             if \<not> has_scheme \<or> token = '''' then ReplyErr 401 ''unauthorized''
             else if \<not> allows got role then ReplyErr 403 ''forbidden''
             else Reply 200 got)"

definition is_admin :: "string \<Rightarrow> bool" where
  "is_admin role \<longleftrightarrow> role = ''admin''"

text \<open>The routes and the role each requires.\<close>

definition routes :: "(string \<times> string) list" where
  "routes =
     [(''POST /v1/workers/register'', ''worker''),
      (''POST /v1/workers/{id}/labels'', ''worker''),
      (''GET /v1/workers/{id}/assignments'', ''worker''),
      (''POST /v1/workers/{id}/heartbeat'', ''worker''),
      (''POST /v1/jobs/{id}/logs'', ''worker''),
      (''POST /v1/jobs/{id}/status'', ''worker''),
      (''POST /v1/devices/{id}/fault'', ''worker''),
      (''POST /v1/jobs/{id}/tty/out'', ''worker''),
      (''GET /v1/jobs/{id}/tty/in'', ''worker''),
      (''POST /v1/jobs'', ''client''),
      (''GET /v1/jobs'', ''client''),
      (''GET /v1/jobs/{id}'', ''client''),
      (''POST /v1/jobs/{id}/kill'', ''client''),
      (''GET /v1/jobs/{id}/logs'', ''client''),
      (''GET /v1/jobs/{id}/tty/out'', ''client''),
      (''POST /v1/jobs/{id}/tty/in'', ''client''),
      (''GET /v1/devices'', ''client''),
      (''GET /v1/devices/{id}/describe'', ''client''),
      (''GET /v1/explain'', ''client''),
      (''GET /v1/state'', ''client''),
      (''GET /v1/events'', ''client''),
      (''GET /v1/whoami'', ''client''),
      (''POST /v1/devices/{id}/clear'', ''admin''),
      (''DELETE /v1/devices/{id}'', ''admin'')]"

section \<open>Views of the fleet\<close>

text \<open>\<open>int(now.Sub(t).Seconds())\<close>.\<close>

definition age :: "time \<Rightarrow> time \<Rightarrow> int" where
  "age now t = whole_seconds (time_sub now t)"

definition oldest_label_age :: "label list \<Rightarrow> time \<Rightarrow> int option" where
  "oldest_label_age ls now =
     (case ls of
        [] \<Rightarrow> None
      | l # rest \<Rightarrow>
          Some (age now (fold (\<lambda>x oldest. if label_updated_at x < oldest then label_updated_at x else oldest)
                   rest (label_updated_at l))))"

definition lease_by_device :: "db \<Rightarrow> string \<rightharpoonup> lease_row" where
  "lease_by_device s = fold (\<lambda>l m. m(l_device_id l \<mapsto> l)) (live_leases s) Map.empty"

definition default_empty :: "string option \<Rightarrow> string" where
  "default_empty x = (case x of None \<Rightarrow> '''' | Some v \<Rightarrow> v)"

definition device_view_of :: "time \<Rightarrow> db \<Rightarrow> device_row \<Rightarrow> device_view" where
  "device_view_of now s d =
     (let labels = (case all_labels s (d_id d) of None \<Rightarrow> [] | Some ls \<Rightarrow> ls);
          v = \<lparr>dv_device = d, dv_labels = labels, dv_holder = '''', dv_job = '''', dv_kind = '''',
               dv_reason = '''', dv_command = [], dv_elapsed = 0,
               dv_heartbeat_age = age now (from_unix (d_heartbeat d)),
               dv_oldest_label_age = oldest_label_age labels now, dv_quarantine_reason = ''''\<rparr>
      in case lease_by_device s (d_id d) of
           None \<Rightarrow> v
         | Some l \<Rightarrow>
             v\<lparr>dv_holder := l_holder l, dv_job := l_job_id l, dv_kind := l_kind l, dv_reason := l_reason l,
               dv_elapsed := age now (from_unix (l_acquired_at l)),
               dv_command := (case get_job (l_job_id l) s of Inl e \<Rightarrow> [] | Inr j \<Rightarrow> j_command j)\<rparr>)"

text \<open>The quarantine reason of a view: the detail on record, or else the category.\<close>

definition with_quarantine :: "(string \<rightharpoonup> quarantine) \<Rightarrow> (string \<rightharpoonup> string) \<Rightarrow> device_view \<Rightarrow> device_view" where
  "with_quarantine reasons details v =
     (let id = d_id (dv_device v); d = default_empty (details id)
      in v\<lparr>dv_quarantine_reason :=
            (if d \<noteq> '''' then d
             else (case reasons id of None \<Rightarrow> '''' | Some q \<Rightarrow> quarantine_text q))\<rparr>)"

definition device_views :: "time \<Rightarrow> db \<Rightarrow> device_view list" where
  "device_views now s =
     (let out = map (device_view_of now s) (all_devices s);
          quarantined = map (\<lambda>v. d_id (dv_device v))
                          (filter (\<lambda>v. d_state (dv_device v) = DeviceUnhealthy) out)
      in if quarantined = [] then out
         else map (with_quarantine (quarantine_reasons quarantined s) (quarantine_details quarantined s)) out)"

section \<open>Effects of a handler\<close>

definition publish_event :: "string \<Rightarrow> time \<Rightarrow> payload \<Rightarrow> server \<Rightarrow> server" where
  "publish_event kind now p sv =
     sv\<lparr>sv_events := publish \<lparr>ev_kind = kind, ev_at = now, ev_payload = p\<rparr> (sv_events sv)\<rparr>"

definition publish_job :: "string \<Rightarrow> job_state \<Rightarrow> time \<Rightarrow> server \<Rightarrow> server" where
  "publish_job job st now sv = publish_event ''jobs'' now (JobPayload job st) sv"

text \<open>The views are read with one reading of the clock, the event stamped with the next.\<close>

definition publish_devices :: "time \<Rightarrow> time \<Rightarrow> server \<Rightarrow> server" where
  "publish_devices now now' sv =
     (if \<not> has_subscribers (sv_events sv) then sv
      else publish_event ''devices'' now' (DevicesPayload (device_views now (sv_db sv))) sv)"

definition emit :: "time \<Rightarrow> notify_event \<Rightarrow> server \<Rightarrow> server" where
  "emit now e sv = sv\<lparr>sv_notifier := notify now e (sv_notifier sv)\<rparr>"

definition poke :: "string \<Rightarrow> server \<Rightarrow> server" where
  "poke worker sv = sv\<lparr>sv_waiters := n_poke worker (sv_waiters sv)\<rparr>"

text \<open>None of them touches the database or the logs.\<close>

lemma effects_frame [simp]:
  "sv_db (publish_event k now p sv) = sv_db sv" "sv_logs (publish_event k now p sv) = sv_logs sv"
  "sv_db (publish_job job st now sv) = sv_db sv" "sv_logs (publish_job job st now sv) = sv_logs sv"
  "sv_db (publish_devices now now' sv) = sv_db sv" "sv_logs (publish_devices now now' sv) = sv_logs sv"
  "sv_db (emit now e sv) = sv_db sv" "sv_logs (emit now e sv) = sv_logs sv"
  "sv_db (poke w sv) = sv_db sv" "sv_logs (poke w sv) = sv_logs sv"
  by (simp_all add: publish_event_def publish_job_def publish_devices_def emit_def poke_def)

lemma fold_frame:
  "(\<And>x sv. sv_db (f x sv) = sv_db sv) \<Longrightarrow> sv_db (fold f xs sv) = sv_db sv"
  by (induction xs arbitrary: sv) auto

section \<open>What authorization means\<close>

lemma require_Reply:
  "require cfg role auth path q = Reply code got \<longleftrightarrow>
     code = 200 \<and> (got = ''admin'' \<or> got = role) \<and>
     (let token = (if fst (bearer auth) = '''' \<and> path = ''/v1/events'' then q else fst (bearer auth))
      in token \<noteq> '''' \<and> cf_tokens cfg token = Some got
         \<and> (snd (bearer auth) \<or> fst (bearer auth) = '''' \<and> path = ''/v1/events''))"
  by (cases "bearer auth")
     (auto simp: require_def allows_def Let_def split: option.splits if_splits)

end
