(* ===== verification/Worker_API.thy ===== *)
theory Worker_API
  imports Server_State "HOL-Library.AList"
begin

text \<open>
  The routes workers call (\<open>src/internal/server/worker_api.go\<close>): registration, label
  pushes, heartbeats, the assignment long-poll, faults, log chunks and job status. The
  identifier a worker gets is a hash of its host (\<open>uuid.NewSHA1\<close>), the argument
  \<open>wid\<close>. A Go map in a request is the list of its entries, one per key, in the order the
  handler iterates over it; readings of the clock that a path does not take are skipped.
\<close>

section \<open>Requests\<close>

abbreviation max_log_chunk :: nat where "max_log_chunk \<equiv> 1048576"
abbreviation max_heartbeat_body :: nat where "max_heartbeat_body \<equiv> 65536"
abbreviation max_sheet_bytes :: nat where "max_sheet_bytes \<equiv> 65536"

record device_spec =
  ds_name :: string
  ds_max_runtime :: int

type_synonym 'v entries = "(string \<times> 'v) list"

record device_facts =
  df_labels :: "string entries entries option"
  df_declared :: "string entries entries option"
  df_sheet :: "string option"
  df_device_sheets :: "string entries"

record register_request =
  rq_host :: string
  rq_boot_id :: string
  rq_devices :: "device_spec list"
  rq_recovery :: recovery_proof
  rq_facts :: device_facts

record labels_push_request =
  lp_host :: string
  lp_devices :: "string list"
  lp_facts :: device_facts

record assignment =
  as_job :: string
  as_device :: string
  as_command :: "string list"
  as_cwd :: string
  as_env :: "string \<rightharpoonup> string"
  as_max_runtime :: int
  as_idle_timeout :: int
  as_submitter :: string
  as_kind :: string
  as_stdio :: string

record poll_response =
  pr_assignments :: "assignment list"
  pr_kills :: "string list"

record status_request =
  sq_worker :: string
  sq_state :: job_state
  sq_exit_code :: "int option"
  sq_reason :: string

section \<open>Facts a worker reports\<close>

fun oversized_device_sheet :: "string entries \<Rightarrow> string" where
  "oversized_device_sheet [] = ''''"
| "oversized_device_sheet ((name, body) # rest) =
     (if max_sheet_bytes < length body then name else oversized_device_sheet rest)"

definition oversized_sheet :: "string option \<Rightarrow> string entries \<Rightarrow> string" where
  "oversized_sheet sheet device_sheets =
     (case sheet of
        Some body \<Rightarrow> if max_sheet_bytes < length body then ''host'' else oversized_device_sheet device_sheets
      | None \<Rightarrow> oversized_device_sheet device_sheets)"

definition merge_label_maps :: "string entries \<Rightarrow> string entries \<Rightarrow> string entries" where
  "merge_label_maps host device =
     fold (\<lambda>(k, v). AList.update k v) device (fold (\<lambda>(k, v). AList.update k v) host [])"

text \<open>One source of one device: replaced when its map has an entry for the device.\<close>

definition apply_source ::
  "string \<Rightarrow> string \<Rightarrow> string \<Rightarrow> string entries entries option \<Rightarrow> time \<Rightarrow> db \<Rightarrow> db result" where
  "apply_source dev name source maps now s =
     (case maps of
        None \<Rightarrow> Inr s
      | Some m \<Rightarrow>
          (case map_of m name of
             None \<Rightarrow> Inr s
           | Some own \<Rightarrow>
               (let host = (case map_of m '''' of None \<Rightarrow> [] | Some h \<Rightarrow> h)
                in replace_labels dev source (merge_label_maps host own) now s)))"

text \<open>
  One device. A failing statement ends the loop with what was committed before it: the
  result is the database and the error, if any.
\<close>

definition apply_facts_to :: "string \<Rightarrow> device_facts \<Rightarrow> time \<Rightarrow> string \<Rightarrow> db \<Rightarrow> db \<times> store_error option" where
  "apply_facts_to host df now name s =
     (let dev = host @ '':'' @ name
      in case apply_source dev name SourceDetected (df_labels df) now s of
           Inl e \<Rightarrow> (s, Some e)
         | Inr s1 \<Rightarrow>
             (case apply_source dev name SourceDeclared (df_declared df) now s1 of
                Inl e \<Rightarrow> (s1, Some e)
              | Inr s2 \<Rightarrow>
                  (case map_of (df_device_sheets df) name of
                     None \<Rightarrow> (s2, None)
                   | Some body \<Rightarrow> (upsert_host_doc host dev body now s2, None))))"

fun apply_facts_all :: "string \<Rightarrow> device_facts \<Rightarrow> time \<Rightarrow> string list \<Rightarrow> db \<Rightarrow> db \<times> store_error option" where
  "apply_facts_all host df now [] s = (s, None)"
| "apply_facts_all host df now (name # names) s =
     (case apply_facts_to host df now name s of
        (s', Some e) \<Rightarrow> (s', Some e)
      | (s', None) \<Rightarrow> apply_facts_all host df now names s')"

definition apply_device_facts ::
  "string \<Rightarrow> string list \<Rightarrow> device_facts \<Rightarrow> time \<Rightarrow> db \<Rightarrow> db \<times> store_error option" where
  "apply_device_facts host names df now s =
     apply_facts_all host df now names
       (case df_sheet df of None \<Rightarrow> s | Some body \<Rightarrow> upsert_host_doc host '''' body now s)"

section \<open>Registration\<close>

definition device_id :: "string \<Rightarrow> string \<Rightarrow> string" where
  "device_id host name = host @ '':'' @ name"

definition registered_device :: "string \<Rightarrow> device_spec \<Rightarrow> device_info" where
  "registered_device host spec =
     \<lparr>di_id = device_id host (ds_name spec), di_host = host, di_name = ds_name spec,
      di_state = DeviceReady\<rparr>"

definition registered_worker :: "(string \<Rightarrow> string) \<Rightarrow> register_request \<Rightarrow> time \<Rightarrow> worker_info" where
  "registered_worker wid req now =
     \<lparr>wi_id = wid (rq_host req), wi_host = rq_host req, wi_boot_id = rq_boot_id req,
      wi_last_heartbeat = now\<rparr>"

text \<open>Every declared device gets its ceiling written, zero included.\<close>

fun set_ceilings :: "string \<Rightarrow> device_spec list \<Rightarrow> db \<Rightarrow> db \<times> store_error option" where
  "set_ceilings host [] s = (s, None)"
| "set_ceilings host (spec # specs) s =
     (let sec = (if ds_max_runtime spec < 0 then 0 else ds_max_runtime spec)
      in case set_device_max_runtime (device_id host (ds_name spec)) (seconds_dur sec) s of
           Inl e \<Rightarrow> (s, Some e)
         | Inr s' \<Rightarrow> set_ceilings host specs s')"

definition recovered_event :: "recovery_proof \<Rightarrow> string \<times> quarantine \<Rightarrow> notify_event" where
  "recovered_event pf r =
     \<lparr>ne_kind = KindDeviceRecovered, ne_device = fst r, ne_job = '''',
      ne_reason = ''was quarantined for '' @ quarantine_text (snd r) @ ''; '' @ summary pf,
      ne_at = None\<rparr>"

definition emit_all :: "clock \<Rightarrow> nat \<Rightarrow> notify_event list \<Rightarrow> server \<Rightarrow> server" where
  "emit_all clk i es sv = fold (\<lambda>(k, e). emit (clk k) e) (List.enumerate i es) sv"

definition handle_register ::
  "(string \<Rightarrow> string) \<Rightarrow> clock \<Rightarrow> register_request option \<Rightarrow> server \<Rightarrow> server \<times> string reply" where
  "handle_register wid clk oreq sv =
     (case oreq of
        None \<Rightarrow> (sv, ReplyErr 400 ''bad_request'')
      | Some req \<Rightarrow>
          if rq_host req = '''' then (sv, ReplyErr 400 ''bad_request'')
          else if oversized_sheet (df_sheet (rq_facts req)) (df_device_sheets (rq_facts req)) \<noteq> ''''
          then (sv, ReplyErr 413 ''sheet_too_large'')
          else
            (let now = clk 0;
                 host = rq_host req;
                 w = registered_worker wid req now;
                 s1 = upsert_worker w (map (registered_device host) (rq_devices req)) (sv_db sv)
             in case set_ceilings host (rq_devices req) s1 of
                  (s2, Some e) \<Rightarrow> (sv\<lparr>sv_db := s2\<rparr>, ReplyErr 500 ''store_error'')
                | (s2, None) \<Rightarrow>
                    (let (recovered, s3) = auto_recover (wi_id w) (rq_recovery req) (clk 1) s2;
                         sv3 = emit_all clk 2 (map (recovered_event (rq_recovery req)) recovered)
                                 (sv\<lparr>sv_db := s3\<rparr>);
                         (s4, err) = apply_device_facts host (map ds_name (rq_devices req))
                                       (rq_facts req) now s3;
                         sv4 = sv3\<lparr>sv_db := s4\<rparr>
                     in case err of
                          Some e \<Rightarrow> (sv4, ReplyErr 500 ''store_error'')
                        | None \<Rightarrow>
                            (publish_devices (clk (2 + length recovered)) (clk (3 + length recovered)) sv4,
                             Reply 200 (wi_id w)))))"

section \<open>Label pushes and heartbeats\<close>

definition handle_push_labels ::
  "clock \<Rightarrow> string \<Rightarrow> labels_push_request option \<Rightarrow> server \<Rightarrow> server \<times> unit reply" where
  "handle_push_labels clk worker oreq sv =
     (case oreq of
        None \<Rightarrow> (sv, ReplyErr 400 ''bad_request'')
      | Some req \<Rightarrow>
          if lp_host req = '''' then (sv, ReplyErr 400 ''bad_request'')
          else
            (case worker_host worker (sv_db sv) of
               Inl (ErrWorkerNotFound w) \<Rightarrow> (sv, ReplyErr 404 ''not_found'')
             | Inl e \<Rightarrow> (sv, ReplyErr 500 ''store_error'')
             | Inr known \<Rightarrow>
                 if lp_host req \<noteq> known then (sv, ReplyErr 400 ''bad_request'')
                 else if oversized_sheet (df_sheet (lp_facts req)) (df_device_sheets (lp_facts req)) \<noteq> ''''
                 then (sv, ReplyErr 413 ''sheet_too_large'')
                 else
                   (case apply_device_facts (lp_host req) (lp_devices req) (lp_facts req) (clk 0) (sv_db sv) of
                      (s', Some e) \<Rightarrow> (sv\<lparr>sv_db := s'\<rparr>, ReplyErr 500 ''store_error'')
                    | (s', None) \<Rightarrow> (publish_devices (clk 1) (clk 2) (sv\<lparr>sv_db := s'\<rparr>), Reply 200 ()))))"

text \<open>\<open>parse\<close> decodes the JSON of a body that is not blank.\<close>

definition handle_heartbeat ::
  "config \<Rightarrow> (string \<Rightarrow> string list option) \<Rightarrow> clock \<Rightarrow> string \<Rightarrow> string \<Rightarrow> server \<Rightarrow> server \<times> unit reply" where
  "handle_heartbeat cfg parse clk worker body sv =
     (if max_heartbeat_body < length body then (sv, ReplyErr 413 ''body_too_large'')
      else
        (case (if trim_space body = [] then Some [] else parse body) of
           None \<Rightarrow> (sv, ReplyErr 400 ''bad_request'')
         | Some running \<Rightarrow>
             (sv\<lparr>sv_db := record_heartbeat worker (clk 0) running (cf_retain cfg) (sv_db sv)\<rparr>, Reply 200 ())))"

section \<open>Assignments\<close>

definition assignment_of :: "job_row \<Rightarrow> assignment" where
  "assignment_of j =
     \<lparr>as_job = j_id j, as_device = j_device_id j, as_command = j_command j, as_cwd = j_cwd j,
      as_env = j_env j, as_max_runtime = j_max_runtime j, as_idle_timeout = j_idle_timeout j,
      as_submitter = j_submitter j, as_kind = j_kind j, as_stdio = j_stdio j\<rparr>"

text \<open>\<open>?wait=\<close> as a duration, when it parses.\<close>

definition poll_wait :: "duration option \<Rightarrow> duration" where
  "poll_wait v =
     (case v of
        Some d \<Rightarrow> if 0 < d \<and> d \<le> 60 * go_second then d else 30 * go_second
      | None \<Rightarrow> 30 * go_second)"

text \<open>One pass of the loop: the work there is for the worker, handed out, or none.\<close>

definition poll_round :: "clock \<Rightarrow> string \<Rightarrow> server \<Rightarrow> server \<times> poll_response option" where
  "poll_round clk worker sv =
     (let js = assigned_jobs_for worker (sv_db sv);
          (kills, s1) = take_kill_requests worker (clk 0) (sv_db sv)
      in if js = [] \<and> kills = [] then (sv\<lparr>sv_db := s1\<rparr>, None)
         else (sv\<lparr>sv_db := fold (\<lambda>j. mark_running (j_id j) (clk 1)) js s1\<rparr>,
               Some \<lparr>pr_assignments = map assignment_of js, pr_kills = kills\<rparr>))"

text \<open>
  The long poll. \<open>rounds\<close> is what ends each wait, with what other requests do to the state
  meanwhile and the clock of the next pass; an empty list leaves the handler waiting. A
  client that went away gets no reply.
\<close>

datatype poll_event = Woken | DeadlinePassed | ClientGone

fun poll_loop ::
  "clock \<Rightarrow> string \<Rightarrow> nat \<Rightarrow> (poll_event \<times> (server \<Rightarrow> server) \<times> clock) list \<Rightarrow> server
     \<Rightarrow> server \<times> poll_response reply option" where
  "poll_loop clk worker c rounds sv =
     (case poll_round clk worker sv of
        (sv1, Some resp) \<Rightarrow> (sv1, Some (Reply 200 resp))
      | (sv1, None) \<Rightarrow>
          (case rounds of
             [] \<Rightarrow> (sv1, None)
           | (Woken, others, clk') # rest \<Rightarrow>
               (let sv2 = others sv1
                in poll_loop clk' worker c rest (sv2\<lparr>sv_waiters := n_consume worker c (sv_waiters sv2)\<rparr>))
           | (DeadlinePassed, others, clk') # rest \<Rightarrow>
               (others sv1, Some (Reply 204 \<lparr>pr_assignments = [], pr_kills = []\<rparr>))
           | (ClientGone, others, clk') # rest \<Rightarrow> (others sv1, None)))"

definition handle_assignments ::
  "clock \<Rightarrow> string \<Rightarrow> nat \<Rightarrow> (poll_event \<times> (server \<Rightarrow> server) \<times> clock) list \<Rightarrow> server
     \<Rightarrow> server \<times> poll_response reply option" where
  "handle_assignments clk worker c rounds sv =
     (let (sv1, r) = poll_loop clk worker c rounds (sv\<lparr>sv_waiters := n_wait worker c (sv_waiters sv)\<rparr>)
      in (sv1\<lparr>sv_waiters := n_cancel worker c (sv_waiters sv1)\<rparr>, r))"

section \<open>Faults, logs, status\<close>

definition verify_reason_prefix :: string where
  "verify_reason_prefix = ''verify failed: ''"

definition handle_device_fault ::
  "clock \<Rightarrow> string \<Rightarrow> string option \<Rightarrow> server \<Rightarrow> server \<times> unit reply" where
  "handle_device_fault clk dev oreq sv =
     (case oreq of
        None \<Rightarrow> (sv, ReplyErr 400 ''bad_request'')
      | Some reason \<Rightarrow>
          if reason = '''' then (sv, ReplyErr 400 ''bad_request'')
          else
            (case set_device_state dev DeviceUnhealthy (clk 0) reason (sv_db sv) of
               Inl (ErrDeviceNotFound d) \<Rightarrow> (sv, ReplyErr 404 ''not_found'')
             | Inl e \<Rightarrow> (sv, ReplyErr 500 ''store_error'')
             | Inr s' \<Rightarrow>
                 (let kind = (if has_prefix verify_reason_prefix reason then KindVerifyFailed
                              else KindDeviceUnhealthy);
                      e = \<lparr>ne_kind = kind, ne_device = dev, ne_job = active_job_on_device dev s',
                           ne_reason = reason, ne_at = None\<rparr>
                  in (emit (clk 3) e (publish_devices (clk 1) (clk 2) (sv\<lparr>sv_db := s'\<rparr>)), Reply 200 ()))))"

definition watchdog_reasons :: "string list" where
  "watchdog_reasons = [''max_runtime exceeded'', ''idle: no output for'']"

definition is_watchdog_reason :: "string \<Rightarrow> bool" where
  "is_watchdog_reason reason = list_ex (\<lambda>p. has_prefix p reason) watchdog_reasons"

definition handle_append_logs :: "string \<Rightarrow> string \<Rightarrow> server \<Rightarrow> server \<times> unit reply" where
  "handle_append_logs job chunk sv =
     (if max_log_chunk < length chunk then (sv, ReplyErr 413 ''chunk_too_large'')
      else
        (case log_append job chunk (sv_logs sv) of
           None \<Rightarrow> (sv, ReplyErr 500 ''log_error'')
         | Some logs \<Rightarrow> (sv\<lparr>sv_logs := logs\<rparr>, Reply 200 ())))"

definition handle_job_status ::
  "clock \<Rightarrow> string \<Rightarrow> status_request option \<Rightarrow> server \<Rightarrow> server \<times> unit reply" where
  "handle_job_status clk job oreq sv =
     (case oreq of
        None \<Rightarrow> (sv, ReplyErr 400 ''bad_request'')
      | Some req \<Rightarrow>
          (case get_job job (sv_db sv) of
             Inl ErrNoRows \<Rightarrow> (sv, ReplyErr 404 ''not_found'')
           | Inl e \<Rightarrow> (sv, ReplyErr 500 ''store_error'')
           | Inr j \<Rightarrow>
               if sq_worker req = '''' \<or> sq_worker req \<noteq> j_worker_id j
               then (sv, ReplyErr 403 ''not_job_owner'')
               else if sq_state req = JobRunning then
                 (publish_job job (sq_state req) (clk 1)
                    (sv\<lparr>sv_db := mark_running job (clk 0) (sv_db sv)\<rparr>), Reply 200 ())
               else if \<not> terminal (sq_state req) then (sv, ReplyErr 400 ''bad_request'')
               else
                 (case release job (sq_state req) (sq_exit_code req) (sq_reason req) (clk 0) (sv_db sv) of
                    Inl e \<Rightarrow> (sv, ReplyErr 500 ''store_error'')
                  | Inr s' \<Rightarrow>
                      (let sv1 = publish_job job (sq_state req) (clk 1) (sv\<lparr>sv_db := s'\<rparr>);
                           trip = \<lparr>ne_kind = KindWatchdogTrip, ne_device = j_device_id j, ne_job = job,
                                   ne_reason = sq_reason req, ne_at = None\<rparr>
                       in (if \<not> terminal (j_state j) \<and> j_kind j \<noteq> LeaseKindHold
                              \<and> is_watchdog_reason (sq_reason req)
                           then emit (clk 2) trip sv1 else sv1,
                           Reply 200 ())))))"

end
