(* ===== verification/Go_Format.thy ===== *)
theory Go_Format
  imports Go_Float
begin

text \<open>
  What the worker uses of Go's number formatting: \<open>strconv.Itoa\<close> and
  \<open>time.Duration.String\<close>, which prints the largest unit that fits and drops trailing zeros
  of the fraction.
\<close>

section \<open>Integers\<close>

definition digit_char :: "int \<Rightarrow> char" where
  "digit_char n = ''0123456789'' ! nat (n mod 10)"

function nat_text :: "int \<Rightarrow> string" where
  "nat_text n = (if n < 10 then [digit_char n] else nat_text (n div 10) @ [digit_char n])"
  by pat_completeness auto
termination by (relation "measure nat") auto

declare nat_text.simps [simp del]

definition itoa :: "int \<Rightarrow> string" where
  "itoa i = (if i < 0 then ''-'' @ nat_text (- i) else nat_text i)"

text \<open>\<open>strconv.Atoi\<close> on a 64-bit \<open>int\<close>.\<close>

fun digits_value :: "string \<Rightarrow> nat \<Rightarrow> nat option" where
  "digits_value [] acc = Some acc"
| "digits_value (c # cs) acc =
     (case dec_digit c of None \<Rightarrow> None | Some d \<Rightarrow> digits_value cs (10 * acc + d))"

definition go_atoi :: "string \<Rightarrow> int option" where
  "go_atoi s =
     (let (neg, ds) = cut_sign s
      in if ds = [] then None
         else
           (case digits_value ds 0 of
              None \<Rightarrow> None
            | Some n \<Rightarrow>
                (let v = (if neg then - int n else int n)
                 in if - (2 ^ 63) \<le> v \<and> v < 2 ^ 63 then Some v else None)))"

definition is_digit :: "char \<Rightarrow> bool" where
  "is_digit c \<longleftrightarrow> c \<in> set ''0123456789''"

lemma is_digit_digit_char [simp]: "is_digit (digit_char n)"
proof -
  have "nat (n mod 10) < length ''0123456789''"
    using pos_mod_bound [of 10 n] by simp
  then show ?thesis unfolding is_digit_def digit_char_def by (rule nth_mem)
qed

lemma nat_text_digits: "list_all is_digit (nat_text n) \<and> nat_text n \<noteq> []"
proof (induction n rule: nat_text.induct)
  case (1 n)
  then show ?case by (subst nat_text.simps, subst (2) nat_text.simps) auto
qed

section \<open>Durations\<close>

text \<open>
  \<open>fmtFrac\<close>: the low \<open>prec\<close> digits of \<open>v\<close> as a fraction, without trailing zeros and without
  the point when nothing is left, and the rest of \<open>v\<close>. The text grows at its front.
\<close>

fun frac_digits :: "nat \<Rightarrow> int \<Rightarrow> bool \<Rightarrow> string \<Rightarrow> string \<times> int \<times> bool" where
  "frac_digits 0 v printing acc = (acc, v, printing)"
| "frac_digits (Suc prec) v printing acc =
     (let pr = printing \<or> v mod 10 \<noteq> 0
      in frac_digits prec (v div 10) pr (if pr then digit_char v # acc else acc))"

definition fmt_frac :: "nat \<Rightarrow> int \<Rightarrow> string \<Rightarrow> string \<times> int" where
  "fmt_frac prec v acc =
     (let (text, rest, pr) = frac_digits prec v False acc
      in (if pr then CHR ''.'' # text else text, rest))"

definition micro_sign :: string where
  "micro_sign = [CHR 0xC2, CHR 0xB5]"

definition small_duration :: "int \<Rightarrow> string" where
  "small_duration u =
     (if u = 0 then ''0s''
      else
        (let (unit, prec) = (if u < 1000 then (''ns'', 0) else if u < 1000000 then (micro_sign @ ''s'', 3) else (''ms'', 6));
             (text, rest) = fmt_frac prec u unit
         in nat_text rest @ text))"

definition large_duration :: "int \<Rightarrow> string" where
  "large_duration u =
     (let (text, rest) = fmt_frac 9 u ''s'';
          secs = nat_text (rest mod 60) @ text;
          mins = rest div 60
      in if mins = 0 then secs
         else
           (let with_mins = nat_text (mins mod 60) @ ''m'' @ secs; hours = mins div 60
            in if hours = 0 then with_mins else nat_text hours @ ''h'' @ with_mins))"

definition duration_text :: "duration \<Rightarrow> string" where
  "duration_text d =
     (let u = \<bar>d\<bar>; text = (if u < 1000000000 then small_duration u else large_duration u)
      in if d < 0 then ''-'' @ text else text)"

lemma duration_text_second: "duration_text 1500000000 = ''1.5s''"
  by code_simp

end
