(* ===== verification/Client_API.thy ===== *)
theory Client_API
  imports Server_State Store_Submission Go_Format
begin

text \<open>
  The routes clients and operators call (\<open>src/internal/server/client_api.go\<close>,
  \<open>admin_api.go\<close>): submission, explain, describe, listings, kills, clearing and retiring
  a device, and the start of a log stream. A submission is the handler's own sequence of
  transactions (enqueue, a scheduling pass, the read-back, a cancel); identifiers it draws
  and the environment of the pass are arguments.
\<close>

section \<open>Submission\<close>

abbreviation min_priority :: int where "min_priority \<equiv> - 10"
abbreviation max_priority :: int where "max_priority \<equiv> 10"

record submit_request =
  sb_device_id :: string
  sb_selector :: string
  sb_command :: "string list"
  sb_cwd :: string
  sb_env :: "(string \<times> string) list"
  sb_submitter :: string
  sb_idempotency_key :: string
  sb_priority :: int
  sb_max_runtime_seconds :: int
  sb_idle_timeout_seconds :: int
  sb_no_wait :: bool
  sb_kind :: string
  sb_reason :: string
  sb_stdio :: string

definition hold_command :: "string list" where
  "hold_command = [''hold'']"

definition submit_kind :: "submit_request \<Rightarrow> string" where
  "submit_kind req = (if sb_kind req = '''' then LeaseKindJob else sb_kind req)"

text \<open>The checks on the kind; a hold gets its fixed command.\<close>

definition check_kind :: "submit_request \<Rightarrow> string + submit_request" where
  "check_kind req =
     (if submit_kind req = LeaseKindJob then
        (if sb_command req = [] then Inl ''bad_request'' else Inr req)
      else if submit_kind req = LeaseKindHold then
        (if sb_command req \<noteq> [] then Inl ''bad_request''
         else if sb_cwd req \<noteq> '''' then Inl ''bad_request''
         else if sb_env req \<noteq> [] then Inl ''bad_request''
         else if sb_idle_timeout_seconds req \<noteq> 0 then Inl ''bad_request''
         else if sb_max_runtime_seconds req \<le> 0 then Inl ''bad_request''
         else if sb_stdio req \<noteq> StdioLogs then Inl ''bad_request''
         else Inr (req\<lparr>sb_command := hold_command\<rparr>))
      else Inl ''bad_request'')"

text \<open>The remaining checks before the store is asked.\<close>

definition check_submit :: "submit_request \<Rightarrow> string + submit_request" where
  "check_submit req0 =
     (case check_kind req0 of
        Inl e \<Rightarrow> Inl e
      | Inr req \<Rightarrow>
          if \<not> List.member [StdioLogs, StdioTTY, StdioPipe] (sb_stdio req) then Inl ''bad_request''
          else if sb_device_id req \<noteq> '''' \<and> sb_selector req \<noteq> '''' then Inl ''bad_request''
          else if sb_device_id req = '''' \<and> sb_selector req = '''' then Inl ''bad_request''
          else if sb_submitter req = '''' then Inl ''bad_request''
          else if sb_priority req < min_priority \<or> max_priority < sb_priority req
          then Inl ''priority_out_of_range''
          else if sb_selector req \<noteq> '''' then
            (case sel_parse (sb_selector req) of Inl e \<Rightarrow> Inl ''bad_selector'' | Inr sel \<Rightarrow> Inr req)
          else Inr req)"

definition enqueue_request_of :: "submit_request \<Rightarrow> enqueue_request" where
  "enqueue_request_of req =
     \<lparr>eq_device_id = sb_device_id req, eq_selector = sb_selector req, eq_command = sb_command req,
      eq_cwd = sb_cwd req, eq_env = map_of (sb_env req), eq_submitter = sb_submitter req,
      eq_idempotency_key = sb_idempotency_key req, eq_priority = sb_priority req,
      eq_max_runtime = seconds_dur (sb_max_runtime_seconds req),
      eq_idle_timeout = seconds_dur (sb_idle_timeout_seconds req),
      eq_kind = submit_kind req, eq_reason = sb_reason req, eq_stdio = sb_stdio req\<rparr>"

definition enqueue_error_reply :: "store_error \<Rightarrow> job_row reply" where
  "enqueue_error_reply e =
     (case e of
        ErrRuntimeAboveCeiling d \<Rightarrow> ReplyErr 400 ''runtime_above_ceiling''
      | ErrUnknownDevice d \<Rightarrow> ReplyErr 400 ''unknown_device''
      | ErrNoMatchingDevice d \<Rightarrow> ReplyErr 400 ''no_matching_device''
      | _ \<Rightarrow> ReplyErr 500 ''store_error'')"

definition abandon_queued_job :: "string \<Rightarrow> string \<Rightarrow> time \<Rightarrow> db \<Rightarrow> db" where
  "abandon_queued_job job reason now s = snd (cancel_queued job reason now s)"

text \<open>After the scheduling pass: the read-back, the cancel of a job that must not wait.\<close>

definition finish_submit ::
  "clock \<Rightarrow> submit_request \<Rightarrow> string \<Rightarrow> server \<Rightarrow> server \<times> job_row reply" where
  "finish_submit clk req job sv =
     (case get_job job (sv_db sv) of
        Inl e \<Rightarrow>
          (sv\<lparr>sv_db := abandon_queued_job job ''submit failed: could not read job'' (clk 1) (sv_db sv)\<rparr>,
           ReplyErr 500 ''store_error'')
      | Inr current \<Rightarrow>
          if sb_no_wait req \<and> j_state current = JobQueued then
            (let (cancelled, s') = cancel_queued (j_id current) ''no-wait: device busy'' (clk 1) (sv_db sv);
                 sv' = sv\<lparr>sv_db := s'\<rparr>
             in if cancelled then
                  (publish_job (j_id current) JobKilled (clk 2) sv', ReplyErr 409 ''no_device_available'')
                else
                  (case get_job (j_id current) s' of
                     Inl e \<Rightarrow> (sv', ReplyErr 500 ''store_error'')
                   | Inr reloaded \<Rightarrow>
                       (publish_job (j_id reloaded) (j_state reloaded) (clk 2) sv', Reply 201 reloaded)))
          else (publish_job (j_id current) (j_state current) (clk 2) sv, Reply 201 current))"

definition handle_submit ::
  "string \<Rightarrow> pass_env \<Rightarrow> clock \<Rightarrow> submit_request option \<Rightarrow> server \<Rightarrow> server \<times> job_row reply" where
  "handle_submit job_id env clk oreq sv =
     (case oreq of
        None \<Rightarrow> (sv, ReplyErr 400 ''bad_request'')
      | Some req0 \<Rightarrow>
          (case check_submit req0 of
             Inl e \<Rightarrow> (sv, ReplyErr 400 e)
           | Inr req \<Rightarrow>
               (case enqueue job_id (enqueue_request_of req) (clk 0) (sv_db sv) of
                  Inl e \<Rightarrow> (sv, enqueue_error_reply e)
                | Inr (s1, j) \<Rightarrow>
                    (case schedule_once env s1 of
                       Inl (e, s2) \<Rightarrow>
                         (sv\<lparr>sv_db := abandon_queued_job (j_id j) ''submit failed: could not schedule'' (clk 1) s2\<rparr>,
                          ReplyErr 500 ''store_error'')
                     | Inr p \<Rightarrow>
                         finish_submit clk req (j_id j)
                           (fold (\<lambda>a. poke (j_worker_id a)) (ps_assigned p) (sv\<lparr>sv_db := ps_db p\<rparr>))))))"

section \<open>Explain\<close>

record explain_response =
  xp_selector :: string
  xp_matching :: "string list"
  xp_free :: "string list"
  xp_queue_depth :: nat

text \<open>Whether a queued job waits for a device of the match set.\<close>

definition competes :: "(string \<rightharpoonup> (string \<rightharpoonup> string)) \<Rightarrow> device_row list \<Rightarrow> string list \<Rightarrow> job_row \<Rightarrow> bool" where
  "competes snapshot devs match_set j =
     (if j_device_id j \<noteq> '''' then List.member match_set (j_device_id j)
      else if j_selector j = '''' then False
      else
        (case sel_parse (j_selector j) of
           Inl e \<Rightarrow> False
         | Inr sel \<Rightarrow>
             list_ex (\<lambda>d. List.member match_set (d_id d) \<and> sel_match sel (labels_of snapshot (d_id d))) devs))"

definition handle_explain :: "string \<Rightarrow> db \<Rightarrow> explain_response reply" where
  "handle_explain sel s =
     (if sel = '''' then ReplyErr 400 ''bad_request''
      else
        (case sel_parse sel of
           Inl e \<Rightarrow> ReplyErr 400 ''bad_selector''
         | Inr parsed \<Rightarrow>
             (let snapshot = label_snapshot s;
                  devs = all_devices s;
                  hits = filter (\<lambda>d. sel_match parsed (labels_of snapshot (d_id d))) devs;
                  matching = map d_id hits;
                  free = map d_id (filter (\<lambda>d. d_state d = DeviceReady) hits)
              in Reply 200 \<lparr>xp_selector = sel, xp_matching = matching, xp_free = free,
                   xp_queue_depth = length (filter (competes snapshot devs matching) (queued_jobs s))\<rparr>)))"

section \<open>Describe\<close>

abbreviation describe_recent_jobs :: int where
  "describe_recent_jobs \<equiv> 5"

record device_recovery =
  rc_at :: time
  rc_age :: int
  rc_reason :: string

record describe_response =
  ds_view :: device_view
  ds_labels :: "label list"
  ds_label_ages :: "string \<rightharpoonup> int"
  ds_sheet :: string
  ds_sheet_updated_at :: "time option"
  ds_sheet_age :: "int option"
  ds_sheet_is_host_wide :: bool
  ds_recent :: "job_row list"
  ds_recoveries :: "device_recovery list"
  ds_recoveries_remaining :: int
  ds_recovery_window :: int

definition label_ages :: "label list \<Rightarrow> time \<Rightarrow> string \<rightharpoonup> int" where
  "label_ages ls now =
     fold (\<lambda>l m. m(label_key l @ ''/'' @ label_source l \<mapsto> age now (label_updated_at l))) ls Map.empty"

definition handle_describe :: "clock \<Rightarrow> string \<Rightarrow> db \<Rightarrow> describe_response reply" where
  "handle_describe clk dev s =
     (case sql_row (\<lambda>v. d_id (dv_device v) = dev) (device_views (clk 0) s) of
        None \<Rightarrow> ReplyErr 404 ''not_found''
      | Some view \<Rightarrow>
          (let labels = labels_for dev s;
               host = d_host (dv_device view);
               own = host_doc host dev s;
               (sheet, sheet_at) = (if fst own = '''' then host_doc host '''' s else own)
           in case recent_jobs_for_device dev describe_recent_jobs s of
                Inl e \<Rightarrow> ReplyErr 500 ''store_error''
              | Inr recent \<Rightarrow>
                  (let history = recovery_history_for dev (clk 1) s;
                       now = clk 2
                   in Reply 200
                        \<lparr>ds_view = view, ds_labels = labels, ds_label_ages = label_ages labels now,
                         ds_sheet = sheet, ds_sheet_updated_at = sheet_at,
                         ds_sheet_age =
                           (if sheet = '''' then None
                            else Some (age now (case sheet_at of None \<Rightarrow> 0 | Some t \<Rightarrow> t))),
                         ds_sheet_is_host_wide = (fst own = ''''),
                         ds_recent = recent,
                         ds_recoveries = map (\<lambda>(t, q). \<lparr>rc_at = t, rc_age = age now t, rc_reason = quarantine_text q\<rparr>)
                           (rh_recoveries history),
                         ds_recoveries_remaining = rh_remaining history,
                         ds_recovery_window = whole_seconds (rh_window history)\<rparr>)))"

section \<open>Jobs\<close>

text \<open>A lookup error: only a missing row is \<open>not_found\<close>.\<close>

definition job_lookup_error :: "store_error \<Rightarrow> 'a reply" where
  "job_lookup_error e =
     (if e = ErrNoRows then ReplyErr 404 ''not_found'' else ReplyErr 500 ''store_error'')"

definition handle_get_job :: "string \<Rightarrow> db \<Rightarrow> (job_row \<times> nat) reply" where
  "handle_get_job job s =
     (case get_job job s of
        Inl e \<Rightarrow> job_lookup_error e
      | Inr j \<Rightarrow>
          (case queue_position (j_id j) s of
             Inl e \<Rightarrow> ReplyErr 500 ''store_error''
           | Inr pos \<Rightarrow> Reply 200 (j, pos)))"

text \<open>The state a query names; the empty string names none.\<close>

definition job_state_names :: "(string \<times> job_state) list" where
  "job_state_names =
     [(''assigned'', JobAssigned), (''running'', JobRunning), (''succeeded'', JobSucceeded),
      (''failed'', JobFailed), (''killed'', JobKilled), (''lost'', JobLost), (''queued'', JobQueued)]"

definition valid_job_state :: "string \<Rightarrow> bool" where
  "valid_job_state st \<longleftrightarrow> map_of job_state_names st \<noteq> None"

record list_query =
  lq_limit :: "string option"
  lq_state :: string
  lq_device :: string
  lq_submitter :: string

definition query_limit :: "string option \<Rightarrow> int option" where
  "query_limit raw =
     (case raw of
        None \<Rightarrow> Some 20
      | Some v \<Rightarrow>
          (case go_atoi v of None \<Rightarrow> None | Some n \<Rightarrow> if n < 1 \<or> 200 < n then None else Some n))"

definition handle_list_jobs :: "list_query \<Rightarrow> db \<Rightarrow> job_row list reply" where
  "handle_list_jobs q s =
     (case query_limit (lq_limit q) of
        None \<Rightarrow> ReplyErr 400 ''bad_request''
      | Some limit \<Rightarrow>
          if lq_state q \<noteq> '''' \<and> \<not> valid_job_state (lq_state q) then ReplyErr 400 ''bad_request''
          else
            (case list_jobs \<lparr>jf_limit = limit, jf_device_id = lq_device q, jf_submitter = lq_submitter q,
                             jf_state = map_of job_state_names (lq_state q)\<rparr> s of
               Inl e \<Rightarrow> ReplyErr 500 ''store_error''
             | Inr js \<Rightarrow> Reply 200 js))"

section \<open>Kill\<close>

definition kill_reason_of :: "string \<Rightarrow> string \<Rightarrow> string" where
  "kill_reason_of role submitter =
     (if is_admin role then
        ''killed by admin override'' @ (if submitter \<noteq> '''' then '' (as '' @ submitter @ '')'' else '''')
      else ''killed by '' @ submitter)"

definition handle_kill ::
  "config \<Rightarrow> string \<Rightarrow> clock \<Rightarrow> string \<Rightarrow> string option \<Rightarrow> server \<Rightarrow> server \<times> unit reply" where
  "handle_kill cfg role clk job oreq sv =
     (case oreq of
        None \<Rightarrow> (sv, ReplyErr 400 ''bad_request'')
      | Some submitter \<Rightarrow>
          (case get_job job (sv_db sv) of
             Inl e \<Rightarrow> (sv, job_lookup_error e)
           | Inr j \<Rightarrow>
               if \<not> is_admin role \<and> j_submitter j \<noteq> submitter then (sv, ReplyErr 403 ''not_job_owner'')
               else
                 (let reason = kill_reason_of role submitter
                  in if j_state j = JobQueued then
                       (let (ok, s') = cancel_queued job reason (clk 0) (sv_db sv); sv' = sv\<lparr>sv_db := s'\<rparr>
                        in if ok then (publish_job job JobKilled (clk 1) sv', Reply 200 ())
                           else (sv', ReplyErr 409 ''not_cancellable''))
                     else if in_flight (j_state j) then
                       (case request_kill job reason (cf_retain cfg) (clk 0) (sv_db sv) of
                          Inl e \<Rightarrow> (sv, ReplyErr 500 ''store_error'')
                        | Inr (KillNotCancellable, s') \<Rightarrow> (sv\<lparr>sv_db := s'\<rparr>, ReplyErr 409 ''not_cancellable'')
                        | Inr (KillFinalized, s') \<Rightarrow>
                            (publish_job job JobKilled (clk 1) (sv\<lparr>sv_db := s'\<rparr>), Reply 200 ())
                        | Inr (KillRequested, s') \<Rightarrow>
                            (publish_job job (j_state j) (clk 1) (poke (j_worker_id j) (sv\<lparr>sv_db := s'\<rparr>)),
                             Reply 200 ()))
                     else (sv, ReplyErr 409 ''not_cancellable''))))"

section \<open>Fleet views\<close>

definition handle_devices :: "clock \<Rightarrow> db \<Rightarrow> device_view list reply" where
  "handle_devices clk s = Reply 200 (device_views (clk 0) s)"

record state_response =
  st_devices :: "device_view list"
  st_jobs :: "job_row list"
  st_queued :: "job_row list"
  st_waiting :: "string \<rightharpoonup> int"

text \<open>How long a queued job waits: since it was queued, or else since it was submitted.\<close>

definition waiting_since :: "job_row \<Rightarrow> time" where
  "waiting_since j = (case job_queued_at j of None \<Rightarrow> from_unix (j_submitted_at j) | Some t \<Rightarrow> t)"

definition handle_state :: "clock \<Rightarrow> db \<Rightarrow> state_response reply" where
  "handle_state clk s =
     (let queued = queued_jobs s
      in Reply 200 \<lparr>st_devices = device_views (clk 0) s, st_jobs = active_jobs s, st_queued = queued,
           st_waiting = fold (\<lambda>j m. m(j_id j \<mapsto> age (clk 1) (waiting_since j))) queued Map.empty\<rparr>)"

section \<open>Operators\<close>

definition handle_clear_device :: "clock \<Rightarrow> string \<Rightarrow> server \<Rightarrow> server \<times> unit reply" where
  "handle_clear_device clk dev sv =
     (let (cleared, s') = clear_device dev (sv_db sv); sv' = sv\<lparr>sv_db := s'\<rparr>
      in if \<not> cleared then (sv', ReplyErr 409 ''device_not_cleared'')
         else (publish_devices (clk 0) (clk 1) sv', Reply 200 ()))"

definition handle_whoami :: "string \<Rightarrow> string reply" where
  "handle_whoami role = Reply 200 role"

definition handle_retire_device :: "clock \<Rightarrow> string \<Rightarrow> server \<Rightarrow> server \<times> string reply" where
  "handle_retire_device clk dev sv =
     (case retire_device dev (sv_db sv) of
        Inl (ErrDeviceNotFound d) \<Rightarrow> (sv, ReplyErr 404 ''device_not_found'')
      | Inl (ErrDeviceBusy d) \<Rightarrow> (sv, ReplyErr 409 ''device_busy'')
      | Inl e \<Rightarrow> (sv, ReplyErr 500 ''store_error'')
      | Inr s' \<Rightarrow> (publish_devices (clk 0) (clk 1) (sv\<lparr>sv_db := s'\<rparr>), Reply 200 dev))"

section \<open>Log streams\<close>

text \<open>The whole log, or a follower that starts at its beginning.\<close>

datatype log_stream = LogContent string | LogFollow follower

text \<open>\<open>follow\<close> holds the values of the query parameter, when it is present. \<open>Follow\<close>
  creates the file. The response writer can flush, as those of \<open>net/http\<close> do.\<close>

definition handle_stream_logs ::
  "string \<Rightarrow> string list option \<Rightarrow> server \<Rightarrow> server \<times> log_stream reply" where
  "handle_stream_logs job follow sv =
     (if follow \<noteq> None \<and> follow \<noteq> Some [''true''] \<and> follow \<noteq> Some [''false'']
      then (sv, ReplyErr 400 ''bad_request'')
      else
        (case get_job job (sv_db sv) of
           Inl e \<Rightarrow> (sv, job_lookup_error e)
         | Inr j \<Rightarrow>
             if stdio_attached (j_stdio j) then (sv, ReplyErr 400 ''logs_not_stored'')
             else if follow = Some [''false''] then
               (case log_read job (sv_logs sv) of
                  None \<Rightarrow> (sv, ReplyErr 400 ''bad_request'')
                | Some bytes \<Rightarrow> (sv, Reply 200 (LogContent bytes)))
             else
               (case log_path job of
                  None \<Rightarrow> (sv, ReplyErr 400 ''bad_request'')
                | Some p \<Rightarrow>
                    (let bytes = log_content p (sv_logs sv);
                         logs = (sv_logs sv)\<lparr>ls_files := (ls_files (sv_logs sv))(p \<mapsto> bytes)\<rparr>
                     in (sv\<lparr>sv_logs := logs\<rparr>, Reply 200 (LogFollow (follow_start bytes)))))))"

end
