(* ===== verification/Server_Machine.thy ===== *)
theory Server_Machine
  imports Worker_API Client_API Store_Stability
begin

text \<open>
  The handlers as runs of store transactions: whatever request is served, the database
  moves along transactions of \<open>Store_Machine\<close>, so every reachable database stays
  reachable and the invariants of the store hold behind the API. The one guard of that
  machine a handler has to earn is the orderly registration: a device row carries the
  host and name it was registered with, and hosts without a colon cannot meet in a
  device identifier.
\<close>

section \<open>The identity of a device\<close>

definition idents :: "db \<Rightarrow> (string \<times> string \<times> string \<times> string) list" where
  "idents s = map (\<lambda>d. (d_id d, d_host d, d_name d, d_worker_id d)) (devices s)"

lemma idents_update:
  assumes "\<And>d. d_id (f d) = d_id d \<and> d_host (f d) = d_host d \<and> d_name (f d) = d_name d
      \<and> d_worker_id (f d) = d_worker_id d"
  shows "map (\<lambda>d. (d_id d, d_host d, d_name d, d_worker_id d)) (sql_update P f ds)
    = map (\<lambda>d. (d_id d, d_host d, d_name d, d_worker_id d)) ds"
  by (rule map_key_sql_update) (simp add: assms)

lemma idents_sweep: "idents (snd (sweep grace u hold_off retain now s)) = idents s"
proof -
  have 1: "idents (fold demote ps v) = idents v" for ps v
    by (induction ps arbitrary: v) (simp_all add: idents_def devices_demote idents_update)
  have 2: "idents (snd (fold (reap_device t) devs acc)) = idents (snd acc)" for t devs acc
    by (induction devs arbitrary: acc) (simp_all add: idents_def)
  have 3: "idents (snd (fold (expire_lease t) es acc)) = idents (snd acc)" for t es acc
    by (induction es arbitrary: acc) (simp_all add: idents_def expire_lease_devices quarantine_with_def idents_update)
  show ?thesis unfolding sweep_state swept_jobs_def by (simp add: 1 2 3)
qed

lemma idents_heartbeat: "idents (record_heartbeat worker t running retain s) = idents s"
  by (simp add: record_heartbeat_def Let_def idents_def beat_devices_def unknown_to_ready_def
      unknown_to_busy_def drop_kill_flags_def restore_lost_def renew_leases_def beat_worker_def
      idents_update)

lemma idents_recover: "idents (snd (auto_recover worker pf now s)) = idents s"
proof -
  have "idents (snd (fold (recover_one now) cs acc)) = idents (snd acc)" for cs acc
    by (induction cs arbitrary: acc)
       (simp_all add: idents_def recover_one_def Let_def to_ready_def idents_update)
  then show ?thesis by (simp add: auto_recover_def)
qed

lemma idents_reap: "idents (reap_in_flight worker t reason reb s) = idents s"
proof -
  have "idents (fold (reap_job reason t reb) jds u) = idents u" for jds u
    by (induction jds arbitrary: u)
       (simp_all add: idents_def reap_job_def Let_def to_ready_def quarantine_with_def lose_job_def
          release_leases_of_def idents_update)
  then show ?thesis by (simp add: reap_in_flight_def)
qed

lemma idents_kills: "idents (snd (take_kill_requests worker now s)) = idents s"
proof -
  have "idents (fold (stamp_kill now) ids u) = idents u" for ids u
    by (induction ids arbitrary: u) (simp_all add: stamp_kill_def idents_def)
  then show ?thesis by (simp add: take_kill_requests_def Let_def)
qed

lemma idents_insert: "insert_job j s = Inr s' \<Longrightarrow> idents s' = idents s"
  "insert_lease l s = Inr s' \<Longrightarrow> idents s' = idents s"
  by (auto simp: insert_job_def insert_lease_def idents_def split: if_splits)

lemma idents_mark_busy: "idents (mark_busy dev s) = idents s"
  by (simp add: mark_busy_def idents_def idents_update)

lemma idents_eqI: "idents s' = idents s \<Longrightarrow> set (idents s') \<subseteq> set (idents s)"
  by simp

text \<open>Apart from a registration no transaction gives a device another identity.\<close>

lemma store_step_idents:
  assumes "store_step s op s'" and "\<And>w dis. op \<noteq> OpRegister w dis"
  shows "set (idents s') \<subseteq> set (idents s)"
  using assms
proof (induction rule: store_step.induct)
  case (st_register w dis s)
  then show ?case by blast
next
  case (st_fault dev t detail s s')
  then show ?case by (intro idents_eqI) (auto simp: set_device_state_def Let_def idents_def idents_update split: if_splits)
next
  case (st_heartbeat s worker t running retain)
  then show ?case by (simp add: idents_heartbeat)
next
  case (st_sweep grace u hold_off retain now s res s')
  then show ?case using idents_sweep [of grace u hold_off retain now s] by simp
next
  case (st_clear dev s b s')
  then show ?case by (intro idents_eqI) (auto simp: clear_device_def Let_def idents_def to_ready_def idents_update)
next
  case (st_recover worker pf now s rs s')
  then show ?case using idents_recover [of worker pf now s] by simp
next
  case (st_retire dev s s')
  then show ?case by (auto simp: retire_device_def idents_def sql_delete_def split: option.splits if_splits)
next
  case (st_ceiling dev dur s s')
  then show ?case by (intro idents_eqI) (auto simp: set_device_max_runtime_def idents_def idents_update split: if_splits)
next
  case (st_labels dev source kvs t s s')
  then show ?case by (intro idents_eqI) (auto simp: replace_labels_def idents_def split: if_splits sum.splits)
next
  case (st_doc s host dev body t)
  then show ?case by (simp add: upsert_host_doc_def idents_def)
next
  case (st_enqueue job_id req now s s' j)
  then show ?case
    by (intro idents_eqI) (auto simp: enqueue_def dest!: idents_insert split: sum.splits option.splits)
next
  case (st_allocate job_id lease_id req now s s' j)
  from st_allocate(2) show ?case
    by (cases rule: allocate_Inr) (auto dest!: idents_insert simp: idents_mark_busy)
next
  case (st_assign lease_id job dev now s s' j)
  then show ?case
    by (intro idents_eqI) (auto simp: assign_queued_def Let_def idents_def mark_busy_def idents_update
        dest!: idents_insert split: option.splits sum.splits)
next
  case (st_finish s job j worker st code reason now s')
  then show ?case
    by (intro idents_eqI) (auto simp: release_def Let_def idents_def free_device_def release_leases_of_def idents_update
        split: option.splits if_splits)
next
  case (st_cancel job reason now s b s')
  then show ?case by (intro idents_eqI) (auto simp: cancel_queued_def Let_def idents_def split: if_splits)
next
  case (st_kill job reason fd now s out s')
  then show ?case
    by (intro idents_eqI) (auto simp: request_kill_def Let_def idents_def release_leases_of_def split: option.splits if_splits)
next
  case (st_take_kills worker now s ids s')
  then show ?case using idents_kills [of worker now s] by simp
qed (simp_all add: reserve_def clear_reservations_def mark_running_def idents_def)

section \<open>Hosts and their devices\<close>

text \<open>
  The rows registration writes: the identifier is \<open>host:name\<close>, the host has no colon, and
  the worker is the one of the host.
\<close>

definition hosts_ok :: "(string \<Rightarrow> string) \<Rightarrow> db \<Rightarrow> bool" where
  "hosts_ok wid s \<longleftrightarrow>
     (\<forall>(id, host, name, worker) \<in> set (idents s).
        id = device_id host name \<and> CHR '':'' \<notin> set host \<and> worker = wid host)"

lemma hosts_ok_step:
  assumes "store_step s op s'" and "\<And>w dis. op \<noteq> OpRegister w dis" and "hosts_ok wid s"
  shows "hosts_ok wid s'"
  using store_step_idents [OF assms(1,2)] assms(3) unfolding hosts_ok_def by blast

lemma device_id_host:
  assumes "device_id h n = device_id h' n'" and "CHR '':'' \<notin> set h" and "CHR '':'' \<notin> set h'"
  shows "h = h' \<and> n = n'"
proof -
  have "takeWhile (\<lambda>c. c \<noteq> CHR '':'') (device_id x y) = x" if "CHR '':'' \<notin> set x" for x y
    using that by (simp add: device_id_def takeWhile_append takeWhile_eq_all_conv)
  then have "h = h'" using assms by metis
  with assms(1) show ?thesis by (simp add: device_id_def)
qed

lemma register_orderly:
  assumes "hosts_ok wid s" and "CHR '':'' \<notin> set (rq_host req)"
  shows "orderly (registered_worker wid req now) (map (registered_device (rq_host req)) (rq_devices req)) s"
proof -
  have "d_worker_id d = wid (rq_host req)"
    if "d \<in> set (devices s)" "d_id d = device_id (rq_host req) name" for d name
  proof -
    have d: "d_id d = device_id (d_host d) (d_name d)" "CHR '':'' \<notin> set (d_host d)"
      "d_worker_id d = wid (d_host d)"
      using assms(1) that(1) by (auto simp: hosts_ok_def idents_def)
    with that(2) device_id_host [OF _ d(2) assms(2)] show ?thesis by metis
  qed
  then show ?thesis
    by (auto simp: orderly_def registered_device_def registered_worker_def declared_state_def)
qed

lemma hosts_ok_upsert:
  assumes "hosts_ok wid s" and "CHR '':'' \<notin> set (rq_host req)"
  shows "hosts_ok wid (upsert_worker (registered_worker wid req now)
            (map (registered_device (rq_host req)) (rq_devices req)) s)"
proof -
  let ?w = "registered_worker wid req now"
  have step: "hosts_ok wid (upsert_device ?w (registered_device (rq_host req) spec) u)"
    if u: "hosts_ok wid u" for u spec
  proof (cases "sql_exists (\<lambda>d. d_id d = device_id (rq_host req) (ds_name spec)) (devices u)")
    case True
    have same: "d_worker_id d = wid (rq_host req)"
      if "d \<in> set (devices u)" "d_id d = device_id (rq_host req) (ds_name spec)" for d
      using register_orderly [OF u assms(2), of now] that
      using u device_id_host [of "d_host d" "d_name d" "rq_host req" "ds_name spec"] assms(2)
      by (auto simp: hosts_ok_def idents_def)
    have "idents (upsert_device ?w (registered_device (rq_host req) spec) u) = idents u"
      using True same
      by (auto simp: idents_def upsert_device_def sql_upsert_def registered_device_def redeclare_def
          registered_worker_def sql_update_def)
    with u show ?thesis by (simp add: hosts_ok_def)
  next
    case False
    with u assms(2) show ?thesis
      by (auto simp: hosts_ok_def idents_def upsert_device_def sql_upsert_def registered_device_def
          declared_row_def registered_worker_def device_id_def)
  qed
  have fold: "hosts_ok wid (fold (upsert_device ?w) (map (registered_device (rq_host req)) specs) u)"
    if "hosts_ok wid u" for specs u
    using that by (induction specs arbitrary: u) (simp_all add: step)
  have "idents (upsert_worker_row ?w s) = idents s" for s
    by (simp add: upsert_worker_row_def idents_def)
  moreover have "idents (restore_rebooted x s) = idents s" for x s
    by (simp add: restore_rebooted_def idents_def to_ready_def idents_update)
  ultimately have "hosts_ok wid (reap_in_flight x t reason reb (upsert_worker_row ?w s))"
    "hosts_ok wid (restore_rebooted y (reap_in_flight x t reason reb (upsert_worker_row ?w s)))"
    for x y t reason reb
    using assms(1) by (simp_all add: hosts_ok_def idents_reap)
  then show ?thesis unfolding upsert_worker_def Let_def by (auto intro!: fold)
qed

section \<open>Runs without a registration\<close>

definition registers :: "store_op \<Rightarrow> bool" where
  "registers op \<longleftrightarrow> (case op of OpRegister w dis \<Rightarrow> True | _ \<Rightarrow> False)"

definition quiet_run :: "db \<Rightarrow> db \<Rightarrow> bool" where
  "quiet_run s s' \<longleftrightarrow> (\<exists>ops. run store_step s ops s' \<and> (\<forall>op \<in> set ops. \<not> registers op))"

lemma quiet_refl [intro, simp]: "quiet_run s s"
  unfolding quiet_run_def by (intro exI [of _ "[]"]) (simp add: run_nil)

lemma quiet_trans: "quiet_run s t \<Longrightarrow> quiet_run t u \<Longrightarrow> quiet_run s u"
  unfolding quiet_run_def by (metis Un_iff run_append set_append)

lemma quiet_step: "store_step s op s' \<Longrightarrow> \<not> registers op \<Longrightarrow> quiet_run s s'"
  unfolding quiet_run_def by (intro exI [of _ "[op]"]) (auto intro: run.intros)

lemma pass_not_registers: "pass_op op \<Longrightarrow> \<not> registers op"
  by (cases op) (simp_all add: pass_op_def registers_def)

lemma quiet_pass: "pass_run s s' \<Longrightarrow> quiet_run s s'"
  unfolding quiet_run_def pass_run_def list_all_iff using pass_not_registers by blast

lemma quiet_reachable:
  assumes "quiet_run s s'" and "reachable s" shows "reachable s'"
  using assms unfolding quiet_run_def reachable_def by (metis run_append)

lemma quiet_hosts:
  assumes "quiet_run s s'" and "hosts_ok wid s" shows "hosts_ok wid s'"
proof -
  obtain ops where "run store_step s ops s'" "\<forall>op \<in> set ops. \<not> registers op"
    using assms(1) by (auto simp: quiet_run_def)
  then show ?thesis using assms(2)
  proof (induction rule: run.induct)
    case (run_cons s op t ops u)
    have "hosts_ok wid t"
      using run_cons.prems by (intro hosts_ok_step [OF run_cons.hyps(1)]) (auto simp: registers_def)
    with run_cons show ?case by simp
  qed
qed

text \<open>One transaction each.\<close>

lemmas quiet_steps =
  quiet_step [OF st_fault] quiet_step [OF st_heartbeat] quiet_step [OF st_sweep] quiet_step [OF st_clear]
  quiet_step [OF st_recover] quiet_step [OF st_retire] quiet_step [OF st_ceiling] quiet_step [OF st_labels]
  quiet_step [OF st_doc] quiet_step [OF st_enqueue] quiet_step [OF st_running] quiet_step [OF st_finish]
  quiet_step [OF st_cancel] quiet_step [OF st_kill] quiet_step [OF st_take_kills]

lemma registers_simps [simp]:
  "registers (OpRegister w dis)" "\<not> registers (OpFault dev t detail)" "\<not> registers (OpHeartbeat worker t js r)"
  "\<not> registers (OpSweep grace u h retain now)" "\<not> registers (OpClear dev)" "\<not> registers (OpRecover worker pf now)"
  "\<not> registers (OpRetire dev)" "\<not> registers (OpCeiling dev dur)" "\<not> registers (OpLabels dev source kvs t)"
  "\<not> registers (OpDoc host dev body t)" "\<not> registers (OpEnqueue job req now)" "\<not> registers (OpRunning job t)"
  "\<not> registers (OpFinish worker job st code reason now)" "\<not> registers (OpCancel job reason now)"
  "\<not> registers (OpKill job reason fd now)" "\<not> registers (OpTakeKills worker now)"
  by (simp_all add: registers_def)

lemma quiet_set_ceilings: "quiet_run s (fst (set_ceilings host specs s))"
proof (induction specs arbitrary: s)
  case (Cons spec specs)
  show ?case
  proof (cases "set_device_max_runtime (device_id host (ds_name spec))
      (seconds_dur (if ds_max_runtime spec < 0 then 0 else ds_max_runtime spec)) s")
    case (Inr s1)
    have "quiet_run s s1" by (rule quiet_steps(7) [OF Inr]) simp
    with Inr Cons.IH [of s1] show ?thesis by (auto intro: quiet_trans simp: Let_def)
  qed (simp add: Let_def)
qed simp

lemma quiet_apply_source: "apply_source dev name source maps now s = Inr s' \<Longrightarrow> quiet_run s s'"
  by (auto simp: apply_source_def Let_def split: option.splits intro!: quiet_steps(8))

lemma quiet_apply_facts_to: "quiet_run s (fst (apply_facts_to host df now name s))"
proof (cases "apply_source (host @ '':'' @ name) name SourceDetected (df_labels df) now s")
  case (Inr s1)
  note 1 = quiet_apply_source [OF Inr]
  show ?thesis
  proof (cases "apply_source (host @ '':'' @ name) name SourceDeclared (df_declared df) now s1")
    case (Inr s2)
    with 1 quiet_apply_source [OF Inr] have "quiet_run s s2" by (blast intro: quiet_trans)
    moreover have "quiet_run s2 (upsert_host_doc host (host @ '':'' @ name) body now s2)" for body
      by (rule quiet_steps(9)) simp
    ultimately show ?thesis
      using Inr \<open>apply_source _ _ SourceDetected _ _ _ = _\<close>
      by (auto simp: apply_facts_to_def Let_def intro: quiet_trans split: option.splits)
  qed (use 1 Inr in \<open>simp add: apply_facts_to_def Let_def\<close>)
qed (simp add: apply_facts_to_def Let_def)

lemma quiet_apply_facts_all: "quiet_run s (fst (apply_facts_all host df now names s))"
proof (induction names arbitrary: s)
  case (Cons name names)
  obtain s1 err where 1: "apply_facts_to host df now name s = (s1, err)" by fastforce
  with quiet_apply_facts_to [of s host df now name] have "quiet_run s s1" by simp
  with 1 Cons.IH [of s1] show ?case by (cases err) (auto intro: quiet_trans)
qed simp

lemma quiet_apply_device_facts: "quiet_run s (fst (apply_device_facts host names df now s))"
proof -
  have "quiet_run s (upsert_host_doc host '''' body now s)" for body by (rule quiet_steps(9)) simp
  note doc = this
  show ?thesis
  proof (cases "df_sheet df")
    case (Some body)
    from quiet_trans [OF doc quiet_apply_facts_all] Some show ?thesis by (simp add: apply_device_facts_def)
  qed (simp add: apply_device_facts_def quiet_apply_facts_all)
qed

section \<open>The handlers\<close>

lemma quiet_push_labels: "quiet_run (sv_db sv) (sv_db (fst (handle_push_labels clk worker oreq sv)))"
proof -
  have "quiet_run (sv_db sv) s'" if "apply_device_facts h ns df now (sv_db sv) = (s', err)" for h ns df now s' err
    using quiet_apply_device_facts [of "sv_db sv" h ns df now] that by simp
  then show ?thesis
    by (auto simp: handle_push_labels_def split: option.splits sum.splits store_error.splits prod.splits)
qed

lemma quiet_heartbeat: "quiet_run (sv_db sv) (sv_db (fst (handle_heartbeat cfg parse clk worker body sv)))"
  by (auto simp: handle_heartbeat_def split: option.splits intro!: quiet_steps(2))

lemma quiet_mark_running: "quiet_run s (fold (\<lambda>j. mark_running (j_id j) now) js s)"
proof (induction js arbitrary: s)
  case (Cons j js)
  have "quiet_run s (mark_running (j_id j) now s)" by (rule quiet_steps(11)) simp
  with Cons.IH show ?case by (auto intro: quiet_trans)
qed simp

lemma quiet_poll_round: "quiet_run (sv_db sv) (sv_db (fst (poll_round clk worker sv)))"
proof -
  obtain kills s1 where k: "take_kill_requests worker (clk 0) (sv_db sv) = (kills, s1)" by fastforce
  have 1: "quiet_run (sv_db sv) s1" by (rule quiet_steps(15) [OF k]) simp
  note quiet_trans [OF 1 quiet_mark_running]
  with 1 k show ?thesis by (auto simp: poll_round_def Let_def)
qed

lemma quiet_fault: "quiet_run (sv_db sv) (sv_db (fst (handle_device_fault clk dev oreq sv)))"
  by (auto simp: handle_device_fault_def Let_def split: option.splits sum.splits store_error.splits
      intro!: quiet_steps(1))

lemma db_append_logs: "sv_db (fst (handle_append_logs job chunk sv)) = sv_db sv"
  by (simp add: handle_append_logs_def split: option.splits)

lemma quiet_job_status: "quiet_run (sv_db sv) (sv_db (fst (handle_job_status clk job oreq sv)))"
proof (cases oreq)
  case (Some req)
  show ?thesis
  proof (cases "get_job job (sv_db sv)")
    case (Inr j)
    show ?thesis
    proof (cases "sq_worker req = '''' \<or> sq_worker req \<noteq> j_worker_id j")
      case False
      have "quiet_run (sv_db sv) s'"
        if "release job (sq_state req) (sq_exit_code req) (sq_reason req) (clk 0) (sv_db sv) = Inr s'" for s'
        by (rule quiet_steps(12) [OF Inr _ _ that, of "sq_worker req"]) (use False in auto)
      moreover have "quiet_run (sv_db sv) (mark_running job (clk 0) (sv_db sv))"
        by (rule quiet_steps(11)) simp
      ultimately show ?thesis
        using Some Inr False by (auto simp: handle_job_status_def Let_def split: sum.splits)
    qed (use Some Inr in \<open>auto simp: handle_job_status_def\<close>)
  qed (use Some in \<open>auto simp: handle_job_status_def split: store_error.splits\<close>)
qed (simp add: handle_job_status_def)

lemma quiet_cancel: "quiet_run s (snd (cancel_queued job reason now s))"
  by (rule quiet_steps(13) [of _ _ _ _ "fst (cancel_queued job reason now s)"]) simp_all

lemma quiet_finish_submit: "quiet_run (sv_db sv) (sv_db (fst (finish_submit clk req job sv)))"
proof -
  have "quiet_run (sv_db sv) s'" if "cancel_queued x reason now (sv_db sv) = (b, s')" for x reason now b s'
    using quiet_cancel [of "sv_db sv" x reason now] that by simp
  then show ?thesis
    by (auto simp: finish_submit_def Let_def abandon_queued_job_def quiet_cancel split: sum.splits prod.splits)
qed

text \<open>A failing pass has committed the transactions before the failure.\<close>

lemma try_assign_Inl: "try_assign env job devs p = Inl (e, s') \<Longrightarrow> s' = ps_db p"
  by (induction env job devs p rule: try_assign.induct) (auto split: sum.splits store_error.splits)

lemma schedule_job_Inl: "schedule_job env j p = Inl (e, s') \<Longrightarrow> s' = ps_db p"
  by (auto simp: schedule_job_def Let_def split: option.splits sum.splits if_splits dest: try_assign_Inl)

lemma schedule_once_Inl:
  assumes "schedule_once env s = Inl (e, s')" shows "pass_run s s'"
proof -
  have "pass_run (ps_db p) s'" if "schedule_pass env js p = Inl (e, s')" for js p
    using that
  proof (induction js arbitrary: p)
    case (Cons j js)
    show ?case
    proof (cases "schedule_job env j p")
      case (Inl f)
      with Cons.prems schedule_job_Inl [of env j p e s'] show ?thesis by (auto simp: pass_run_refl)
    next
      case (Inr p')
      with Cons have "pass_run (ps_db p') s'" by simp
      with schedule_job_run [OF Inr] show ?thesis by (rule pass_run_trans)
    qed
  qed simp
  from this [of "queued_jobs s"] assms have "pass_run (clear_reservations s) s'"
    by (fastforce simp: schedule_once_def)
  moreover have "pass_run s (clear_reservations s)"
    by (rule pass_run_step [OF st_unreserve]) (simp add: pass_op_def)
  ultimately show ?thesis using pass_run_trans by blast
qed

lemma quiet_submit:
  assumes "job_id \<noteq> ''''"
  shows "quiet_run (sv_db sv) (sv_db (fst (handle_submit job_id env clk oreq sv)))"
proof (cases oreq)
  case (Some req0)
  show ?thesis
  proof (cases "check_submit req0")
    case (Inr req)
    show ?thesis
    proof (cases "enqueue job_id (enqueue_request_of req) (clk 0) (sv_db sv)")
      case (Inr r)
      obtain s1 j where r: "r = (s1, j)" by fastforce
      have 1: "quiet_run (sv_db sv) s1" by (rule quiet_steps(10) [OF assms(1) Inr [unfolded r]]) simp
      show ?thesis
      proof (cases "schedule_once env s1")
        case (Inl f)
        obtain e s2 where f: "f = (e, s2)" by fastforce
        have "quiet_run (sv_db sv) s2" using 1 quiet_pass [OF schedule_once_Inl] Inl f quiet_trans by blast
        then show ?thesis
          using Some \<open>check_submit req0 = _\<close> Inr r Inl f quiet_cancel quiet_trans
          by (auto simp: handle_submit_def abandon_queued_job_def)
      next
        case (Inr p)
        have "quiet_run (sv_db sv) (ps_db p)" using 1 quiet_pass [OF schedule_once_run [OF Inr]] quiet_trans by blast
        moreover have "sv_db (fold (\<lambda>a. poke (j_worker_id a)) (ps_assigned p) (sv\<lparr>sv_db := ps_db p\<rparr>)) = ps_db p"
          by (simp add: fold_frame)
        ultimately show ?thesis
          using Some \<open>check_submit req0 = _\<close> \<open>enqueue _ _ _ _ = _\<close> r Inr
            quiet_finish_submit [of "fold (\<lambda>a. poke (j_worker_id a)) (ps_assigned p) (sv\<lparr>sv_db := ps_db p\<rparr>)" clk req "j_id j"]
            quiet_trans
          by (auto simp: handle_submit_def)
      qed
    qed (use Some Inr in \<open>simp add: handle_submit_def\<close>)
  qed (use Some in \<open>simp add: handle_submit_def\<close>)
qed (simp add: handle_submit_def)

lemma quiet_kill: "quiet_run (sv_db sv) (sv_db (fst (handle_kill cfg role clk job oreq sv)))"
proof -
  have c: "quiet_run (sv_db sv) s'" if "cancel_queued x reason now (sv_db sv) = (b, s')" for x reason now b s'
    using quiet_cancel [of "sv_db sv" x reason now] that by simp
  have k: "quiet_run (sv_db sv) s'" if "request_kill x reason fd now (sv_db sv) = Inr (out, s')" for x reason fd now out s'
    by (rule quiet_steps(14) [OF that]) simp
  show ?thesis
    by (auto simp: handle_kill_def Let_def c k split: option.splits sum.splits prod.splits kill_outcome.splits)
qed

lemma quiet_clear: "quiet_run (sv_db sv) (sv_db (fst (handle_clear_device clk dev sv)))"
  by (auto simp: handle_clear_device_def Let_def split: prod.splits intro!: quiet_steps(4))

lemma quiet_retire: "quiet_run (sv_db sv) (sv_db (fst (handle_retire_device clk dev sv)))"
  by (auto simp: handle_retire_device_def split: sum.splits store_error.splits intro!: quiet_steps(6))

lemma db_stream_logs: "sv_db (fst (handle_stream_logs job follow sv)) = sv_db sv"
  by (auto simp: handle_stream_logs_def Let_def split: sum.splits option.splits)

section \<open>Registration\<close>

text \<open>The one handler with a registration in it, for hosts without a colon.\<close>

definition store_run :: "db \<Rightarrow> db \<Rightarrow> bool" where
  "store_run s s' \<longleftrightarrow> (\<exists>ops. run store_step s ops s')"

lemma store_run_refl [intro, simp]: "store_run s s"
  unfolding store_run_def by (intro exI) (rule run_nil)

lemma store_run_trans: "store_run s t \<Longrightarrow> store_run t u \<Longrightarrow> store_run s u"
  unfolding store_run_def by (metis run_append)

lemma store_run_step: "store_step s op s' \<Longrightarrow> store_run s s'"
  unfolding store_run_def using run_single by metis

lemma store_run_reachable: "store_run s s' \<Longrightarrow> reachable s \<Longrightarrow> reachable s'"
  unfolding store_run_def reachable_def by (metis run_append)

definition server_sound :: "(string \<Rightarrow> string) \<Rightarrow> db \<Rightarrow> bool" where
  "server_sound wid s \<longleftrightarrow> reachable s \<and> hosts_ok wid s"

text \<open>A sound move is a run of transactions that keeps the rows of registration well-formed.\<close>

definition sound_move :: "(string \<Rightarrow> string) \<Rightarrow> db \<Rightarrow> db \<Rightarrow> bool" where
  "sound_move wid s s' \<longleftrightarrow> store_run s s' \<and> hosts_ok wid s'"

lemma sound_move_sound: "sound_move wid s s' \<Longrightarrow> server_sound wid s \<Longrightarrow> server_sound wid s'"
  unfolding sound_move_def server_sound_def using store_run_reachable by blast

lemma sound_move_quiet:
  assumes "sound_move wid s t" and "quiet_run t u" shows "sound_move wid s u"
proof -
  have "store_run t u" using assms(2) by (auto simp: quiet_run_def store_run_def)
  with assms quiet_hosts show ?thesis unfolding sound_move_def using store_run_trans by blast
qed

lemma quiet_move: "server_sound wid s \<Longrightarrow> quiet_run s s' \<Longrightarrow> sound_move wid s s'"
  by (rule sound_move_quiet) (auto simp: sound_move_def server_sound_def)

lemma move_upsert:
  assumes "server_sound wid s" and "CHR '':'' \<notin> set (rq_host req)"
  shows "sound_move wid s (upsert_worker (registered_worker wid req now)
           (map (registered_device (rq_host req)) (rq_devices req)) s)"
  using assms register_orderly [of wid s req now] hosts_ok_upsert [of wid s req now]
  by (auto simp: sound_move_def server_sound_def intro: store_run_step [OF st_register])

lemma db_emit_all [simp]: "sv_db (emit_all clk i es sv) = sv_db sv"
  unfolding emit_all_def by (rule fold_frame) (simp split: prod.split)

lemma move_register:
  assumes ok: "server_sound wid (sv_db sv)"
    and "\<And>req. oreq = Some req \<Longrightarrow> CHR '':'' \<notin> set (rq_host req)"
  shows "sound_move wid (sv_db sv) (sv_db (fst (handle_register wid clk oreq sv)))"
proof (cases oreq)
  case (Some req)
  let ?w = "registered_worker wid req (clk 0)"
  define s1 where "s1 = upsert_worker ?w (map (registered_device (rq_host req)) (rq_devices req)) (sv_db sv)"
  have 1: "sound_move wid (sv_db sv) s1" unfolding s1_def by (rule move_upsert [OF ok assms(2) [OF Some]])
  obtain s2 err where 2: "set_ceilings (rq_host req) (rq_devices req) s1 = (s2, err)" by fastforce
  have s2: "sound_move wid (sv_db sv) s2"
    using sound_move_quiet [OF 1 quiet_set_ceilings, of "rq_host req" "rq_devices req"] 2 by simp
  obtain rs s3 where 3: "auto_recover (wi_id ?w) (rq_recovery req) (clk 1) s2 = (rs, s3)" by fastforce
  have s3: "sound_move wid (sv_db sv) s3" by (rule sound_move_quiet [OF s2 quiet_steps(5) [OF 3]]) simp
  obtain s4 err' where 4: "apply_device_facts (rq_host req) (map ds_name (rq_devices req)) (rq_facts req) (clk 0) s3 = (s4, err')"
    by fastforce
  have s4: "sound_move wid (sv_db sv) s4"
    using sound_move_quiet [OF s3 quiet_apply_device_facts, of "rq_host req" "map ds_name (rq_devices req)" "rq_facts req" "clk 0"] 4
    by simp
  show ?thesis
    using quiet_move [OF ok quiet_refl] Some s2 s4 2 3 4
    by (cases err; cases err') (simp_all add: handle_register_def Let_def s1_def [symmetric])
qed (use quiet_move [OF ok quiet_refl] in \<open>simp add: handle_register_def\<close>)

lemma server_sound_empty: "server_sound wid empty_db"
  unfolding server_sound_def reachable_def
  by (auto simp: hosts_ok_def idents_def empty_db_def intro: run_nil)

end
