(* ===== verification/Serve.thy ===== *)
theory Serve
  imports Server_State
begin

text \<open>
  The loops of the controller process (\<open>src/internal/cli/serve.go\<close>): one tick of the
  reaper with the events it announces, one tick of the scheduler, and the token table read
  at startup. The environment is an argument (\<open>None\<close> where a variable is not set); the
  reads after a sweep do not fail.
\<close>

section \<open>Settings\<close>

abbreviation heartbeat_grace :: duration where
  "heartbeat_grace \<equiv> 30 * go_second"

abbreviation sweep_unhealthy_after :: duration where
  "sweep_unhealthy_after \<equiv> 300 * go_second"

definition startup_grace :: duration where
  "startup_grace = heartbeat_grace"

definition notifier_options :: notify_options where
  "notifier_options = \<lparr>no_queue_size = 256, no_attempts = 3, no_backoff = go_second\<rparr>"

definition resolve_webhook_url :: "string \<Rightarrow> string option \<Rightarrow> string" where
  "resolve_webhook_url flag env = (if flag \<noteq> '''' then flag else default_empty env)"

text \<open>No sink without a URL, and so no notifier.\<close>

definition start_notifier :: "string \<Rightarrow> notifier option" where
  "start_notifier url = new_notifier (url \<noteq> '''') notifier_options"

section \<open>Tokens\<close>

datatype token_error = TokensUnset | MalformedEntry string | EmptyToken string | UnknownRole string
  | DuplicateToken string

fun load_token_pairs :: "string list \<Rightarrow> (string \<rightharpoonup> string) \<Rightarrow> token_error + (string \<rightharpoonup> string)" where
  "load_token_pairs [] tokens = Inr tokens"
| "load_token_pairs (pair # pairs) tokens =
     (case cut_at '':'' (trim_space pair) of
        None \<Rightarrow> Inl (MalformedEntry pair)
      | Some (token, role) \<Rightarrow>
          if token = '''' then Inl (EmptyToken pair)
          else if \<not> List.member [''worker'', ''client'', ''admin''] role then Inl (UnknownRole role)
          else if tokens token \<noteq> None then Inl (DuplicateToken token)
          else load_token_pairs pairs (tokens(token \<mapsto> role)))"

definition load_tokens :: "string option \<Rightarrow> token_error + (string \<rightharpoonup> string)" where
  "load_tokens env =
     (if default_empty env = '''' then Inl TokensUnset
      else load_token_pairs (split_on (CHR '','') (default_empty env)) Map.empty)"

section \<open>The reaper's tick\<close>

definition sweep_job_lost_reason :: string where
  "sweep_job_lost_reason = ''worker lost''"

definition sweep_lease_expired_reason :: string where
  "sweep_lease_expired_reason = ''lease expired''"

definition reason_of :: "(string \<rightharpoonup> quarantine) \<Rightarrow> string \<Rightarrow> string" where
  "reason_of reasons dev = (case reasons dev of None \<Rightarrow> '''' | Some q \<Rightarrow> quarantine_text q)"

definition unhealthy_event :: "(string \<rightharpoonup> quarantine) \<Rightarrow> string \<Rightarrow> notify_event" where
  "unhealthy_event reasons dev =
     \<lparr>ne_kind = (if reason_of reasons dev = ''worker_lost'' then KindWorkerLost else KindDeviceUnhealthy),
      ne_device = dev, ne_job = '''', ne_reason = reason_of reasons dev, ne_at = None\<rparr>"

definition job_lost_event :: "string \<Rightarrow> notify_event" where
  "job_lost_event job =
     \<lparr>ne_kind = KindJobLost, ne_device = '''', ne_job = job, ne_reason = sweep_job_lost_reason, ne_at = None\<rparr>"

definition lease_event :: "string \<Rightarrow> string \<Rightarrow> notify_event" where
  "lease_event job dev =
     \<lparr>ne_kind = KindLeaseExpired, ne_device = dev, ne_job = job, ne_reason = sweep_lease_expired_reason,
      ne_at = None\<rparr>"

definition expired_device_event :: "string \<Rightarrow> notify_event" where
  "expired_device_event dev =
     \<lparr>ne_kind = KindDeviceUnhealthy, ne_device = dev, ne_job = '''', ne_reason = ''lease_expired'',
      ne_at = None\<rparr>"

text \<open>The loop over the expired leases; \<open>announced\<close> are the devices already reported.\<close>

fun lease_events ::
  "(string \<rightharpoonup> quarantine) \<Rightarrow> (string \<rightharpoonup> string) \<Rightarrow> string list \<Rightarrow> string list \<Rightarrow> notify_event list" where
  "lease_events reasons lease_devs announced [] = []"
| "lease_events reasons lease_devs announced (x # xs) =
     (let dev = default_empty (lease_devs x)
      in lease_event x dev #
         (if dev = '''' \<or> List.member announced dev then lease_events reasons lease_devs announced xs
          else
            (if reason_of reasons dev = ''lease_expired'' then [expired_device_event dev] else [])
            @ lease_events reasons lease_devs (dev # announced) xs))"

definition sweep_events ::
  "sweep_result \<Rightarrow> (string \<rightharpoonup> quarantine) \<Rightarrow> (string \<rightharpoonup> string) \<Rightarrow> notify_event list" where
  "sweep_events res reasons lease_devs =
     map (unhealthy_event reasons) (sr_unhealthy res)
     @ map job_lost_event (sr_lost res)
     @ lease_events reasons lease_devs (sr_unhealthy res) (sr_expired res)"

text \<open>What the tick reads back after the sweep committed.\<close>

definition quarantined_by :: "sweep_result \<Rightarrow> (string \<rightharpoonup> string) \<Rightarrow> string list" where
  "quarantined_by res lease_devs =
     sr_unhealthy res
     @ filter (\<lambda>dev. dev \<noteq> '''') (map (\<lambda>x. default_empty (lease_devs x)) (sr_expired res))"

definition announcements :: "sweep_result \<Rightarrow> db \<Rightarrow> notify_event list" where
  "announcements res s =
     (let lease_devs = (if sr_expired res = [] then Map.empty else lease_devices (sr_expired res) s);
          quarantined = quarantined_by res lease_devs;
          reasons = (if quarantined = [] then Map.empty else quarantine_reasons quarantined s)
      in sweep_events res reasons lease_devs)"

definition sweep_and_notify ::
  "duration \<Rightarrow> duration \<Rightarrow> time \<Rightarrow> bool \<Rightarrow> clock \<Rightarrow> server \<Rightarrow> server \<times> sweep_result" where
  "sweep_and_notify grace unhealthy_after hold_off retain clk sv =
     (let (res, s') = sweep grace unhealthy_after hold_off retain (clk 0) (sv_db sv)
      in (fold (\<lambda>(k, e). emit (clk k) e) (List.enumerate 1 (announcements res s')) (sv\<lparr>sv_db := s'\<rparr>), res))"

definition sweep_tick :: "time \<Rightarrow> bool \<Rightarrow> clock \<Rightarrow> server \<Rightarrow> server" where
  "sweep_tick hold_off retain clk sv =
     (let (sv', res) = sweep_and_notify heartbeat_grace sweep_unhealthy_after hold_off retain clk sv
      in if sr_unhealthy res \<noteq> [] \<or> sr_lost res \<noteq> [] \<or> sr_expired res \<noteq> []
         then publish_event ''devices'' (clk (1 + length (announcements res (sv_db sv')))) NoPayload sv'
         else sv')"

section \<open>The scheduler's tick\<close>

text \<open>A failing pass leaves what it committed; nobody is poked and nothing published.\<close>

definition schedule_tick :: "pass_env \<Rightarrow> clock \<Rightarrow> server \<Rightarrow> server" where
  "schedule_tick env clk sv =
     (case schedule_once env (sv_db sv) of
        Inl (e, s') \<Rightarrow> sv\<lparr>sv_db := s'\<rparr>
      | Inr p \<Rightarrow>
          (let sv' = fold (\<lambda>j. poke (j_worker_id j)) (ps_assigned p) (sv\<lparr>sv_db := ps_db p\<rparr>)
           in if ps_assigned p \<noteq> [] then publish_event ''jobs'' (clk 0) NoPayload sv' else sv'))"

end
