(* ===== verification/Controller.thy ===== *)
theory Controller
  imports Server_Machine Serve
begin

text \<open>
  The controller as one state machine: every route behind its authorization, the two
  loops of \<open>serve.go\<close>, the long polls, the dashboards, the notifier's goroutine and a
  restart of the process. A request is served by \<open>serve\<close>; the steps of the machine
  interleave in any order. Sessions of the stdio relay are in \<open>TTY\<close>.
\<close>

section \<open>Requests\<close>

datatype request =
    RqRegister "register_request option"
  | RqPushLabels string "labels_push_request option"
  | RqHeartbeat string string
  | RqAppendLogs string string
  | RqJobStatus string "status_request option"
  | RqDeviceFault string "string option"
  | RqSubmit string pass_env "submit_request option"
  | RqListJobs list_query
  | RqGetJob string
  | RqKill string "string option"
  | RqStreamLogs string "string list option"
  | RqDevices
  | RqDescribe string
  | RqExplain string
  | RqState
  | RqWhoami
  | RqClearDevice string
  | RqRetireDevice string

fun route_of :: "request \<Rightarrow> string" where
  "route_of (RqRegister req) = ''POST /v1/workers/register''"
| "route_of (RqPushLabels w req) = ''POST /v1/workers/{id}/labels''"
| "route_of (RqHeartbeat w body) = ''POST /v1/workers/{id}/heartbeat''"
| "route_of (RqAppendLogs job chunk) = ''POST /v1/jobs/{id}/logs''"
| "route_of (RqJobStatus job req) = ''POST /v1/jobs/{id}/status''"
| "route_of (RqDeviceFault dev req) = ''POST /v1/devices/{id}/fault''"
| "route_of (RqSubmit job env req) = ''POST /v1/jobs''"
| "route_of (RqListJobs q) = ''GET /v1/jobs''"
| "route_of (RqGetJob job) = ''GET /v1/jobs/{id}''"
| "route_of (RqKill job req) = ''POST /v1/jobs/{id}/kill''"
| "route_of (RqStreamLogs job follow) = ''GET /v1/jobs/{id}/logs''"
| "route_of RqDevices = ''GET /v1/devices''"
| "route_of (RqDescribe dev) = ''GET /v1/devices/{id}/describe''"
| "route_of (RqExplain sel) = ''GET /v1/explain''"
| "route_of RqState = ''GET /v1/state''"
| "route_of RqWhoami = ''GET /v1/whoami''"
| "route_of (RqClearDevice dev) = ''POST /v1/devices/{id}/clear''"
| "route_of (RqRetireDevice dev) = ''DELETE /v1/devices/{id}''"

text \<open>The role \<open>New\<close> wraps the route in; every route of \<open>request\<close> is in the table.\<close>

definition required_role :: "request \<Rightarrow> string" where
  "required_role rq = default_empty (map_of routes (route_of rq))"

text \<open>What a request carries besides its body.\<close>

record credentials =
  cr_authorization :: string
  cr_path :: string
  cr_token_query :: string

text \<open>The parameters of the handlers that stand for the standard library.\<close>

record server_env =
  se_worker_id :: "string \<Rightarrow> string"
  se_parse_running :: "string \<Rightarrow> string list option"

definition with_status :: "server \<times> 'a reply \<Rightarrow> server \<times> nat" where
  "with_status r = (fst r, status (snd r))"

fun dispatch :: "server_env \<Rightarrow> config \<Rightarrow> string \<Rightarrow> clock \<Rightarrow> request \<Rightarrow> server \<Rightarrow> server \<times> nat" where
  "dispatch senv cfg role clk (RqRegister req) sv =
     with_status (handle_register (se_worker_id senv) clk req sv)"
| "dispatch senv cfg role clk (RqPushLabels w req) sv = with_status (handle_push_labels clk w req sv)"
| "dispatch senv cfg role clk (RqHeartbeat w body) sv =
     with_status (handle_heartbeat cfg (se_parse_running senv) clk w body sv)"
| "dispatch senv cfg role clk (RqAppendLogs job chunk) sv = with_status (handle_append_logs job chunk sv)"
| "dispatch senv cfg role clk (RqJobStatus job req) sv = with_status (handle_job_status clk job req sv)"
| "dispatch senv cfg role clk (RqDeviceFault dev req) sv = with_status (handle_device_fault clk dev req sv)"
| "dispatch senv cfg role clk (RqSubmit job env req) sv = with_status (handle_submit job env clk req sv)"
| "dispatch senv cfg role clk (RqListJobs q) sv = (sv, status (handle_list_jobs q (sv_db sv)))"
| "dispatch senv cfg role clk (RqGetJob job) sv = (sv, status (handle_get_job job (sv_db sv)))"
| "dispatch senv cfg role clk (RqKill job req) sv = with_status (handle_kill cfg role clk job req sv)"
| "dispatch senv cfg role clk (RqStreamLogs job follow) sv = with_status (handle_stream_logs job follow sv)"
| "dispatch senv cfg role clk RqDevices sv = (sv, status (handle_devices clk (sv_db sv)))"
| "dispatch senv cfg role clk (RqDescribe dev) sv = (sv, status (handle_describe clk dev (sv_db sv)))"
| "dispatch senv cfg role clk (RqExplain sel) sv = (sv, status (handle_explain sel (sv_db sv)))"
| "dispatch senv cfg role clk RqState sv = (sv, status (handle_state clk (sv_db sv)))"
| "dispatch senv cfg role clk RqWhoami sv = (sv, status (handle_whoami role))"
| "dispatch senv cfg role clk (RqClearDevice dev) sv = with_status (handle_clear_device clk dev sv)"
| "dispatch senv cfg role clk (RqRetireDevice dev) sv = with_status (handle_retire_device clk dev sv)"

definition serve ::
  "server_env \<Rightarrow> config \<Rightarrow> credentials \<Rightarrow> clock \<Rightarrow> request \<Rightarrow> server \<Rightarrow> server \<times> nat" where
  "serve senv cfg cr clk rq sv =
     (case require cfg (required_role rq) (cr_authorization cr) (cr_path cr) (cr_token_query cr) of
        ReplyErr code e \<Rightarrow> (sv, code)
      | Reply code role \<Rightarrow> dispatch senv cfg role clk rq sv)"

lemma required_role_cases:
  "required_role rq =
     (case rq of
        RqRegister req \<Rightarrow> ''worker'' | RqPushLabels w req \<Rightarrow> ''worker'' | RqHeartbeat w body \<Rightarrow> ''worker''
      | RqAppendLogs job chunk \<Rightarrow> ''worker'' | RqJobStatus job req \<Rightarrow> ''worker''
      | RqDeviceFault dev req \<Rightarrow> ''worker'' | RqClearDevice dev \<Rightarrow> ''admin''
      | RqRetireDevice dev \<Rightarrow> ''admin'' | _ \<Rightarrow> ''client'')"
  by (cases rq) (simp_all add: required_role_def routes_def default_empty_def)

section \<open>Steps\<close>

datatype server_label =
    SvRequest credentials clock request
  | SvPollOpen string nat
  | SvPollPass clock string
  | SvPollWake string nat
  | SvPollClose string nat
  | SvSweep clock
  | SvSchedule pass_env clock
  | SvSubscribe
  | SvReceive nat
  | SvUnsubscribe nat
  | SvDeliver
  | SvRestart

text \<open>
  What the callers of the machine ensure: a submission draws a job identifier that is not
  empty, and no host has a colon in its name.
\<close>

fun orderly_request :: "request \<Rightarrow> bool" where
  "orderly_request (RqSubmit job env req) \<longleftrightarrow> job \<noteq> ''''"
| "orderly_request (RqRegister (Some req)) \<longleftrightarrow> CHR '':'' \<notin> set (rq_host req)"
| "orderly_request rq \<longleftrightarrow> True"

definition fresh_process :: "notifier option \<Rightarrow> server \<Rightarrow> server" where
  "fresh_process nf sv =
     sv\<lparr>sv_logs := (sv_logs sv)\<lparr>ls_listeners := Map.empty\<rparr>, sv_notifier := nf, sv_events := new_broadcaster,
       sv_waiters := Map.empty\<rparr>"

inductive server_step :: "server_env \<Rightarrow> config \<Rightarrow> time \<Rightarrow> server \<Rightarrow> server_label \<Rightarrow> server \<Rightarrow> bool"
  for senv :: server_env and cfg :: config and hold_off :: time where
  sv_request: "orderly_request rq \<Longrightarrow>
    server_step senv cfg hold_off sv (SvRequest cr clk rq) (fst (serve senv cfg cr clk rq sv))"
| sv_poll_open: "server_step senv cfg hold_off sv (SvPollOpen w c)
    (sv\<lparr>sv_waiters := n_wait w c (sv_waiters sv)\<rparr>)"
| sv_poll_pass: "server_step senv cfg hold_off sv (SvPollPass clk w) (fst (poll_round clk w sv))"
| sv_poll_wake: "server_step senv cfg hold_off sv (SvPollWake w c)
    (sv\<lparr>sv_waiters := n_consume w c (sv_waiters sv)\<rparr>)"
| sv_poll_close: "server_step senv cfg hold_off sv (SvPollClose w c)
    (sv\<lparr>sv_waiters := n_cancel w c (sv_waiters sv)\<rparr>)"
| sv_sweep: "server_step senv cfg hold_off sv (SvSweep clk) (sweep_tick hold_off (cf_retain cfg) clk sv)"
| sv_schedule: "server_step senv cfg hold_off sv (SvSchedule env clk) (schedule_tick env clk sv)"
| sv_subscribe: "server_step senv cfg hold_off sv SvSubscribe
    (sv\<lparr>sv_events := snd (bc_subscribe (sv_events sv))\<rparr>)"
| sv_receive: "bc_receive c (sv_events sv) = Some (e, b) \<Longrightarrow>
    server_step senv cfg hold_off sv (SvReceive c) (sv\<lparr>sv_events := b\<rparr>)"
| sv_unsubscribe: "server_step senv cfg hold_off sv (SvUnsubscribe c)
    (sv\<lparr>sv_events := bc_unsubscribe c (sv_events sv)\<rparr>)"
| sv_deliver: "sv_notifier sv = Some n \<Longrightarrow> nf_queue n = e # rest \<Longrightarrow>
    server_step senv cfg hold_off sv SvDeliver (sv\<lparr>sv_notifier := Some (n\<lparr>nf_queue := rest\<rparr>)\<rparr>)"
| sv_restart: "server_step senv cfg hold_off sv SvRestart (fresh_process nf sv)"

inductive_cases server_stepE: "server_step senv cfg hold_off sv l sv'"

section \<open>The database behind the API\<close>

lemma move_dispatch:
  assumes ok: "server_sound (se_worker_id senv) (sv_db sv)" and "orderly_request rq"
  shows "sound_move (se_worker_id senv) (sv_db sv) (sv_db (fst (dispatch senv cfg role clk rq sv)))"
proof (cases rq)
  case (RqRegister oreq)
  then show ?thesis
    using move_register [OF ok, of oreq clk] assms(2) by (cases oreq) (simp_all add: with_status_def)
next
  case (RqSubmit job env oreq)
  with assms(2) show ?thesis
    by (simp add: with_status_def quiet_move [OF ok quiet_submit])
qed (simp_all add: with_status_def db_append_logs db_stream_logs quiet_move [OF ok]
       quiet_push_labels quiet_heartbeat quiet_job_status quiet_fault quiet_kill quiet_clear quiet_retire)

lemma quiet_sweep_tick: "quiet_run (sv_db sv) (sv_db (sweep_tick hold_off retain clk sv))"
proof -
  have "quiet_run s (snd (sweep g u h r now s))" for g u h r now s
    by (rule quiet_steps(3) [of _ _ _ _ _ _ "fst (sweep g u h r now s)"]) simp_all
  moreover have "sv_db (fst (sweep_and_notify g u h r clk sv)) = snd (sweep g u h r (clk 0) (sv_db sv))" for g u h r
    by (simp add: sweep_and_notify_def fold_frame split: prod.split)
  ultimately show ?thesis
    by (simp add: sweep_tick_def case_prod_beta)
qed

lemma quiet_schedule_tick: "quiet_run (sv_db sv) (sv_db (schedule_tick env clk sv))"
proof (cases "schedule_once env (sv_db sv)")
  case (Inl f)
  then show ?thesis
    by (cases f) (auto simp: schedule_tick_def intro: quiet_pass schedule_once_Inl)
next
  case (Inr p)
  then show ?thesis
    by (auto simp: schedule_tick_def fold_frame Let_def intro: quiet_pass schedule_once_run)
qed

definition controller_ok :: "server_env \<Rightarrow> server \<Rightarrow> bool" where
  "controller_ok senv sv \<longleftrightarrow> server_sound (se_worker_id senv) (sv_db sv)"

text \<open>The simulation: a step of the controller is a run of transactions of the store.\<close>

lemma server_step_move:
  assumes "server_step senv cfg hold_off sv l sv'" and ok: "controller_ok senv sv"
  shows "sound_move (se_worker_id senv) (sv_db sv) (sv_db sv')"
proof -
  have ok': "server_sound (se_worker_id senv) (sv_db sv)" using ok by (simp add: controller_ok_def)
  note quiet = quiet_move [OF ok']
  from assms(1) show ?thesis
  proof (cases rule: server_step.cases)
    case (sv_request rq cr clk)
    then show ?thesis
      by (auto simp: serve_def quiet move_dispatch [OF ok'] split: reply.splits)
  qed (simp_all add: quiet quiet_poll_round quiet_sweep_tick quiet_schedule_tick fresh_process_def)
qed

lemma server_step_ok: "server_step senv cfg hold_off sv l sv' \<Longrightarrow> controller_ok senv sv \<Longrightarrow> controller_ok senv sv'"
  using server_step_move sound_move_sound unfolding controller_ok_def by blast

interpretation controller: invariant_system "server_step senv cfg hold_off" "controller_ok senv"
  for senv cfg hold_off
  by unfold_locales (rule server_step_ok)

definition first_process :: "notifier option \<Rightarrow> server" where
  "first_process nf =
     \<lparr>sv_db = empty_db, sv_logs = \<lparr>ls_files = Map.empty, ls_listeners = Map.empty\<rparr>, sv_notifier = nf,
      sv_events = new_broadcaster, sv_waiters = Map.empty\<rparr>"

lemma first_process_ok: "controller_ok senv (first_process nf)"
  by (simp add: controller_ok_def first_process_def server_sound_empty)


lemma server_run_store:
  assumes "run (server_step senv cfg hold_off) sv ls sv'" and "controller_ok senv sv"
  shows "store_run (sv_db sv) (sv_db sv')"
  using assms
proof (induction rule: run.induct)
  case (run_cons sv l sv1 ls sv2)
  have "store_run (sv_db sv) (sv_db sv1)"
    using server_step_move [OF run_cons.hyps(1) run_cons.prems] by (simp add: sound_move_def)
  moreover have "controller_ok senv sv1" using server_step_ok [OF run_cons.hyps(1) run_cons.prems] .
  ultimately show ?case using run_cons.IH store_run_trans by blast
qed simp

end
