(* ===== verification/Store_Progress.thy ===== *)
theory Store_Progress
  imports Store_Stability
begin

text \<open>
  A job only moves forward: queued, assigned, running, ended. Once it has left the queue
  its device and its worker are fixed. Proved operation by operation, lifted to runs.
\<close>

fun stage :: "job_state \<Rightarrow> nat" where
  "stage JobQueued = 0"
| "stage JobAssigned = 1"
| "stage JobRunning = 2"
| "stage (JobStateOther x) = 2"
| "stage st = 3"

lemma stage_le_3 [simp]: "stage st \<le> 3"
  by (cases st) simp_all

lemma stage_terminal [simp]: "terminal st \<Longrightarrow> stage st = 3"
  by (cases st) simp_all

definition moved_on :: "job_row \<Rightarrow> job_row \<Rightarrow> bool" where
  "moved_on j j' \<longleftrightarrow>
     j_id j' = j_id j \<and> stage (j_state j) \<le> stage (j_state j')
     \<and> (j_state j \<noteq> JobQueued \<longrightarrow> j_device_id j' = j_device_id j \<and> j_worker_id j' = j_worker_id j)"

definition advanced :: "db \<Rightarrow> db \<Rightarrow> bool" where
  "advanced s t \<longleftrightarrow> (\<forall>j \<in> set (jobs s). \<exists>j' \<in> set (jobs t). moved_on j j')"

lemma moved_on_refl [simp]: "moved_on j j"
  by (simp add: moved_on_def)

lemma stage_0: "stage st = 0 \<longleftrightarrow> st = JobQueued"
  by (cases st) simp_all

lemma moved_on_trans:
  assumes "moved_on a b" and "moved_on b c" shows "moved_on a c"
proof (cases "j_state a = JobQueued")
  case False
  then have "0 < stage (j_state a)" by (simp add: stage_0 flip: neq0_conv)
  with assms(1) have "0 < stage (j_state b)" by (simp add: moved_on_def)
  then have "j_state b \<noteq> JobQueued" by auto
  with False assms show ?thesis by (simp add: moved_on_def)
qed (use assms in \<open>simp add: moved_on_def\<close>)

lemma advanced_refl: "advanced s s"
  unfolding advanced_def using moved_on_refl by blast

lemma advanced_trans: "advanced s t \<Longrightarrow> advanced t u \<Longrightarrow> advanced s u"
  unfolding advanced_def using moved_on_trans by meson

lemma advanced_append: "jobs t = jobs s @ js \<Longrightarrow> advanced s t"
  unfolding advanced_def by (metis Un_iff moved_on_refl set_append)

lemma advanced_jobs: "jobs t = jobs s \<Longrightarrow> advanced s t"
  by (rule advanced_append [of _ _ "[]"]) simp

lemma advanced_update:
  assumes "jobs t = sql_update P f (jobs s)"
    and "\<And>j. j \<in> set (jobs s) \<Longrightarrow> P j \<Longrightarrow> moved_on j (f j)"
  shows "advanced s t"
  unfolding advanced_def
proof
  fix j assume j: "j \<in> set (jobs s)"
  have "(if P j then f j else j) \<in> set (jobs t)" unfolding assms(1) by (rule sql_update_mem [OF j])
  moreover have "moved_on j (if P j then f j else j)" using assms(2) [OF j] by simp
  ultimately show "\<exists>j' \<in> set (jobs t). moved_on j j'" by blast
qed

lemma advanced_fold: "(\<And>x s. advanced s (f x s)) \<Longrightarrow> advanced s (fold f xs s)"
  by (induction xs arbitrary: s) (auto intro: advanced_refl advanced_trans)

lemma advanced_fold_acc:
  assumes "\<And>x acc. advanced (snd acc) (snd (f x acc))"
  shows "advanced (snd acc) (snd (fold f xs acc))"
proof (induction xs arbitrary: acc)
  case (Cons x xs)
  from advanced_trans [OF assms Cons.IH] show ?case by simp
qed (simp add: advanced_refl)

lemma advanced_lose_job: "advanced s (lose_job reason t job s)"
  by (rule advanced_update [OF jobs_lose_job]) (simp add: moved_on_def)

lemma advanced_reap_job: "advanced s (reap_job reason t reb jd s)"
  using advanced_lose_job [of s reason t "fst jd"] by (simp add: advanced_def)

lemma advanced_sweep: "advanced s (snd (sweep grace u hold_off retain now s))"
proof -
  have lose: "advanced a (fold (lose_job reason t) xs a)" for a reason t xs
    by (rule advanced_fold) (rule advanced_lose_job)
  have "advanced s (fold demote (sweep_pending (judges now hold_off) grace u now s) s)"
    by (rule advanced_jobs) simp
  moreover have "advanced (snd ([] :: string list, a)) (snd (fold (reap_device t) devs ([], a)))" for a t devs
    by (rule advanced_fold_acc) (simp add: reap_device_def Let_def lose)
  then have "advanced a (snd (fold (reap_device t) devs ([], a)))" for a t devs by simp
  moreover have "advanced (snd acc) (snd (expire_lease t e acc))" for t e acc
  proof (cases "l_job_id e = ''''")
    case True
    then show ?thesis by (intro advanced_jobs) (simp add: expire_lease_def Let_def)
  next
    case False
    then have "jobs (snd (expire_lease t e acc)) =
       sql_update (\<lambda>j. j_id j = l_job_id e \<and> in_flight (j_state j))
         (\<lambda>j. j\<lparr>j_state := JobLost, j_kill_reason := ''lease expired'', j_finished_at := Some t\<rparr>) (jobs (snd acc))"
      by (simp add: expire_lease_def Let_def)
    then show ?thesis by (rule advanced_update) (simp add: moved_on_def)
  qed
  then have "advanced (snd acc) (snd (fold (expire_lease t) es acc))" for t es acc
    by (rule advanced_fold_acc)
  then have "advanced a (snd (fold (expire_lease t) es ([], a)))" for a t es
    by (metis snd_conv)
  ultimately show ?thesis
    unfolding sweep_state swept_jobs_def using advanced_trans by meson
qed

lemma advanced_upsert_worker: "advanced s (upsert_worker w dis s)"
proof -
  have "advanced (upsert_worker_row w s) (reap_in_flight x t reason reb (upsert_worker_row w s))" for x t reason reb
    unfolding reap_in_flight_def by (rule advanced_fold) (rule advanced_reap_job)
  then show ?thesis
    by (simp add: advanced_def upsert_worker_def Let_def restore_rebooted_def upsert_worker_row_def)
qed

lemma advanced_one:
  assumes core: "core_ok s" and "jobs t = sql_update (\<lambda>j. j_id j = job) f (jobs s)"
    and j: "j \<in> set (jobs s)" "j_id j = job" "moved_on j (f j)"
  shows "advanced s t"
proof (rule advanced_update [OF assms(2)])
  fix x assume "x \<in> set (jobs s)" "j_id x = job"
  with job_unique [OF core, of x j] j show "moved_on x (f x)" by simp
qed

lemma advanced_release:
  assumes r: "release job st code reason now s = Inr s'" shows "advanced s s'"
proof (cases "jobs s' = jobs s")
  case False
  with r have "terminal st" "jobs s' = sql_update (\<lambda>j. j_id j = job) (finish_job st code reason (unix now)) (jobs s)"
    by (auto simp: release_def Let_def free_device_def release_leases_of_def split: if_splits option.splits)
  then show ?thesis by (auto intro: advanced_update simp: moved_on_def finish_job_def)
qed (rule advanced_jobs)

lemma advanced_assign:
  assumes core: "core_ok s" and r: "assign_queued lid job dev now s = Inr (s', a)"
  shows "advanced s s'"
  using r
proof (rule assign_queued_Inr)
  fix d j s3
  assume j: "j \<in> set (jobs s)" "j_id j = job" "j_state j = JobQueued"
    and ins: "insert_lease (granted_lease lid d j now) ((mark_busy dev s)\<lparr>jobs :=
        sql_update (\<lambda>j. j_id j = job) (assign_row d (landing_runtime j d)) (jobs (mark_busy dev s))\<rparr>) = Inr s3"
    and s': "s' = s3\<lparr>reservations := sql_delete (\<lambda>r. rv_device_id r = dev) (reservations s3)\<rparr>"
  have "jobs s' = sql_update (\<lambda>j. j_id j = job) (assign_row d (landing_runtime j d)) (jobs s)"
    using ins s' by (auto simp: insert_lease_def mark_busy_def split: if_splits)
  then show ?thesis
    by (rule advanced_one [OF core _ j(1,2)]) (simp add: j(3) moved_on_def assign_row_def)
qed

lemma advanced_request_kill:
  assumes r: "request_kill job reason fd now s = Inr (out, s')" shows "advanced s s'"
proof (cases "jobs s' = jobs s")
  case False
  let ?g = "\<lambda>j. j\<lparr>j_state := JobKilled, j_kill_requested := True, j_kill_delivered_at := 0,
            j_kill_reason := reason, j_finished_at := Some (unix now)\<rparr>"
  let ?h = "\<lambda>j. j\<lparr>j_kill_requested := True, j_kill_delivered_at := 0\<rparr>"
  from r False consider "jobs s' = sql_update (\<lambda>j. j_id j = job) ?g (jobs s)"
    | "jobs s' = sql_update (\<lambda>j. j_id j = job \<and> in_flight (j_state j)) ?h (jobs s)"
    by (auto simp: request_kill_def Let_def release_leases_of_def split: if_splits option.splits)
  then show ?thesis by cases (auto intro: advanced_update simp: moved_on_def)
qed (rule advanced_jobs)

lemma store_step_advanced:
  assumes "store_step s op s'" and ok: "db_ok s" shows "advanced s s'"
proof -
  have core: "core_ok s" using ok by (simp add: db_ok_def)
  from assms(1) show ?thesis
  proof (cases rule: store_step.cases)
    case (st_register w dis)
    then show ?thesis by (simp add: advanced_upsert_worker)
  next
    case (st_heartbeat worker t running retain)
    then have "jobs s' = sql_update
         (\<lambda>j. j_worker_id j = worker \<and> j_state j = JobKilled \<and> j_kill_requested j
              \<and> \<not> List.member running (j_id j))
         (\<lambda>j. j\<lparr>j_kill_requested := False\<rparr>) (jobs s)"
      by (simp add: jobs_record_heartbeat drop_kill_flags_def)
    then show ?thesis by (rule advanced_update) (simp add: moved_on_def)
  next
    case (st_sweep grace u hold_off retain now res)
    with advanced_sweep [of s grace u hold_off retain now] show ?thesis by simp
  next
    case (st_recover worker pf now rs)
    with jobs_auto_recover [of worker pf now s] show ?thesis by (simp add: advanced_jobs)
  next
    case (st_enqueue job_id req now j)
    with jobs_enqueue advanced_append show ?thesis by blast
  next
    case (st_allocate job_id lease_id req now j)
    with jobs_allocate advanced_append show ?thesis by blast
  next
    case (st_assign lid job dev now a)
    with advanced_assign [OF core] show ?thesis by blast
  next
    case (st_finish job j worker st code reason now)
    with advanced_release show ?thesis by blast
  next
    case (st_kill job reason fd now out)
    with advanced_request_kill show ?thesis by blast
  next
    case (st_take_kills worker now ids)
    have "advanced s (fold (stamp_kill now) xs s)" for xs
    proof (rule advanced_fold)
      fix x u
      have "jobs (stamp_kill now x u)
          = sql_update (\<lambda>j. j_id j = x) (\<lambda>j. j\<lparr>j_kill_delivered_at := unix now\<rparr>) (jobs u)"
        by (simp add: stamp_kill_def)
      then show "advanced u (stamp_kill now x u)" by (rule advanced_update) (simp add: moved_on_def)
    qed
    with st_take_kills show ?thesis by (auto simp: take_kill_requests_def Let_def)
  next
    case (st_running job t)
    then have "jobs s' = sql_update (\<lambda>j. j_id j = job \<and> j_state j = JobAssigned)
        (\<lambda>j. j\<lparr>j_state := JobRunning, j_started_at := Some (unix t)\<rparr>) (jobs s)"
      by (simp add: mark_running_def)
    then show ?thesis by (rule advanced_update) (simp add: moved_on_def)
  next
    case (st_cancel job reason now b)
    then have "s' = snd (cancel_queued job reason now s)" by simp
    then have "jobs s' = sql_update (\<lambda>j. j_id j = job \<and> j_state j = JobQueued)
        (\<lambda>j. j\<lparr>j_state := JobKilled, j_kill_reason := reason, j_finished_at := Some (unix now)\<rparr>) (jobs s)"
      by (simp add: cancel_queued_def Let_def)
    then show ?thesis by (rule advanced_update) (simp add: moved_on_def)
  qed (auto intro!: advanced_jobs simp: set_device_state_def Let_def clear_device_def retire_device_def
      set_device_max_runtime_def replace_labels_def upsert_host_doc_def reserve_def
      clear_reservations_def split: if_splits option.splits sum.splits)
qed

lemma run_advanced:
  assumes "run store_step s ops s'" and "db_ok s" shows "advanced s s'"
  using store_system.run_stable [OF assms, where Q = "advanced s"] advanced_refl advanced_trans
    store_step_advanced by blast

end
