(* ===== verification/Server_Facts.thy ===== *)
theory Server_Facts
  imports Controller Store_Progress
begin

text \<open>
  What single handlers do, as lemmas the properties of the server rest on: who may change
  what, what a poll hands out, what a status report records.
\<close>

section \<open>Reports of a worker\<close>

lemma get_job_update:
  assumes "get_job job s = Inr j" and "\<And>x. j_id (f x) = j_id x"
    and "jobs s' = sql_update P f (jobs s)" and "P j"
    and "distinct (map j_id (jobs s))"
  shows "get_job job s' = Inr (f j)"
proof -
  have j: "j \<in> set (jobs s)" "j_id j = job"
    using assms(1) by (auto simp: get_job_def dest!: sql_row_Some split: option.splits)
  have "f j \<in> set (jobs s')" using sql_update_mem [OF j(1), of P f] assms(3,4) by simp
  moreover have "map j_id (jobs s') = map j_id (jobs s)"
    unfolding assms(3) by (rule map_key_sql_update) (rule assms(2))
  ultimately have "sql_row (\<lambda>x. j_id x = j_id (f j)) (jobs s') = Some (f j)"
    using job_table.find_unique [of s' "f j"] assms(5) by simp
  with j(2) assms(2) show ?thesis by (simp add: get_job_def)
qed

lemma release_get_job:
  assumes ok: "db_ok s" and j: "get_job job s = Inr j" and "terminal st"
  shows "\<exists>s'. release job st code reason now s = Inr s' \<and>
    get_job job s' = Inr (if terminal (j_state j) then j else finish_job st code reason (unix now) j)"
proof -
  have row: "sql_row (\<lambda>j. j_id j = job) (jobs s) = Some j"
    using j by (simp add: get_job_def split: option.splits)
  show ?thesis
  proof (cases "terminal (j_state j)")
    case True
    with row j assms(3) show ?thesis by (simp add: release_def)
  next
    case False
    let ?s' = "free_device (j_device_id j) (release_leases_of job (unix now)
        (s\<lparr>jobs := sql_update (\<lambda>j. j_id j = job) (finish_job st code reason (unix now)) (jobs s)\<rparr>))"
    have "get_job job ?s' = Inr (finish_job st code reason (unix now) j)"
      by (rule get_job_update [OF j, where P = "\<lambda>j. j_id j = job" and f = "finish_job st code reason (unix now)"])
         (use ok sql_row_Some [OF row] in
           \<open>simp_all add: free_device_def release_leases_of_def db_ok_def core_ok_def schema_ok_def,
            simp add: finish_job_def\<close>)
    with row False assms(3) show ?thesis by (simp add: release_def)
  qed
qed

lemma mark_running_get_job:
  assumes ok: "db_ok s" and j: "get_job job s = Inr j"
  shows "get_job job (mark_running job now s) =
    Inr (if j_state j = JobAssigned then j\<lparr>j_state := JobRunning, j_started_at := Some (unix now)\<rparr> else j)"
proof -
  let ?f = "\<lambda>x. if j_state x = JobAssigned then x\<lparr>j_state := JobRunning, j_started_at := Some (unix now)\<rparr> else x"
  have "jobs (mark_running job now s) = sql_update (\<lambda>x. j_id x = job) ?f (jobs s)"
    by (simp add: mark_running_def sql_update_def) 
  moreover have "j_id j = job" using j by (auto simp: get_job_def dest!: sql_row_Some split: option.splits)
  ultimately show ?thesis
    by (intro get_job_update [OF j, where P = "\<lambda>x. j_id x = job" and f = ?f])
       (use ok in \<open>simp_all add: db_ok_def core_ok_def schema_ok_def\<close>)
qed

section \<open>What a poll hands out\<close>

definition handed_out :: "poll_response option \<Rightarrow> string list" where
  "handed_out r = (case r of None \<Rightarrow> [] | Some resp \<Rightarrow> map as_job (pr_assignments resp))"

lemma states_fold_stamp_kill:
  "map (\<lambda>j. (j_id j, j_worker_id j, j_state j)) (jobs (fold (stamp_kill now) ids s))
     = map (\<lambda>j. (j_id j, j_worker_id j, j_state j)) (jobs s)"
  by (induction ids arbitrary: s) (simp_all add: stamp_kill_def map_key_sql_update)

lemma mark_running_all:
  assumes "j \<in> set (jobs (fold (\<lambda>x. mark_running (j_id x) now) js s))" and "j_state j = JobAssigned"
  shows "j \<in> set (jobs s) \<and> j_id j \<notin> j_id ` set js"
  using assms
proof (induction js arbitrary: s)
  case (Cons x js)
  then have "j \<in> set (jobs (mark_running (j_id x) now s)) \<and> j_id j \<notin> j_id ` set js" by simp
  with Cons.prems(2) show ?case by (auto simp: mark_running_def set_sql_update split: if_splits)
qed simp

lemma poll_round_handed_out:
  "handed_out (snd (poll_round clk w sv)) = map j_id (assigned_jobs_for w (sv_db sv))"
proof -
  have "map as_job (map assignment_of js) = map j_id js" for js
    by (simp add: assignment_of_def)
  then show ?thesis
    by (simp add: poll_round_def Let_def handed_out_def take_kill_requests_def)
qed

lemma set_assigned:
  "set (assigned_jobs_for w s) = {j \<in> set (jobs s). j_worker_id j = w \<and> j_state j = JobAssigned}"
  by (auto simp: assigned_jobs_for_def)

lemma poll_round_empties: "assigned_jobs_for w (sv_db (fst (poll_round clk w sv))) = []"
proof -
  define js where "js = assigned_jobs_for w (sv_db sv)"
  define s1 where "s1 = snd (take_kill_requests w (clk 0) (sv_db sv))"
  have keep: "(j_id j, j_worker_id j, j_state j) \<in> (\<lambda>j. (j_id j, j_worker_id j, j_state j)) ` set (jobs (sv_db sv))"
    if "j \<in> set (jobs s1)" for j
  proof -
    have "(\<lambda>j. (j_id j, j_worker_id j, j_state j)) ` set (jobs s1)
        = (\<lambda>j. (j_id j, j_worker_id j, j_state j)) ` set (jobs (sv_db sv))"
      using arg_cong [OF states_fold_stamp_kill, of set] by (simp add: s1_def take_kill_requests_def Let_def)
    with that show ?thesis by blast
  qed
  have in_js: "j_id j \<in> j_id ` set js"
    if "j \<in> set (jobs s1)" "j_worker_id j = w" "j_state j = JobAssigned" for j
    using keep [OF that(1)] that(2,3) by (auto simp: js_def assigned_jobs_for_def)
  have "\<not> (j_worker_id j = w \<and> j_state j = JobAssigned)"
    if "j \<in> set (jobs (sv_db (fst (poll_round clk w sv))))" for j
  proof (cases "js = [] \<and> fst (take_kill_requests w (clk 0) (sv_db sv)) = []")
    case True
    then have "sv_db (fst (poll_round clk w sv)) = s1"
      by (simp add: poll_round_def Let_def js_def s1_def case_prod_beta)
    with that in_js True show ?thesis by fastforce
  next
    case False
    then have "sv_db (fst (poll_round clk w sv)) = fold (\<lambda>x. mark_running (j_id x) (clk 1)) js s1"
      by (auto simp: poll_round_def Let_def js_def s1_def case_prod_beta)
    with that in_js mark_running_all show ?thesis by metis
  qed
  then show ?thesis by (simp add: assigned_jobs_for_def filter_empty_conv)
qed

text \<open>A job that was handed out is past the assignment, and no run takes it back.\<close>

lemma handed_out_past:
  assumes ok: "db_ok (sv_db sv)" and "store_run (sv_db (fst (poll_round clk w sv))) s'"
    and job: "job \<in> set (handed_out (snd (poll_round clk w sv)))"
  shows "job \<notin> set (map j_id (assigned_jobs_for w' s'))"
proof
  define s1 where "s1 = sv_db (fst (poll_round clk w sv))"
  assume "job \<in> set (map j_id (assigned_jobs_for w' s'))"
  then obtain y where y: "y \<in> set (jobs s')" "j_id y = job" "j_state y = JobAssigned"
    by (auto simp: assigned_jobs_for_def)
  from job obtain x where x: "x \<in> set (jobs (sv_db sv))" "j_id x = job" "j_worker_id x = w" "j_state x = JobAssigned"
    by (auto simp: poll_round_handed_out assigned_jobs_for_def)
  have "store_run (sv_db sv) s1"
    using quiet_poll_round [of sv clk w] by (auto simp: s1_def quiet_run_def store_run_def)
  then obtain ops where ops: "run store_step (sv_db sv) ops s1" by (auto simp: store_run_def)
  have ok1: "db_ok s1" by (rule store_system.run_inv [OF ops ok])
  obtain x1 where x1: "x1 \<in> set (jobs s1)" "moved_on x x1"
    using run_advanced [OF ops ok] x(1) by (auto simp: advanced_def)
  have "j_worker_id x1 = w" "1 \<le> stage (j_state x1)"
    using x1(2) x by (auto simp: moved_on_def)
  moreover have "j_state x1 \<noteq> JobAssigned"
    using poll_round_empties [of w clk sv] set_assigned [of w s1] x1(1) \<open>j_worker_id x1 = w\<close>
    by (auto simp: s1_def)
  ultimately have "2 \<le> stage (j_state x1)" by (cases "j_state x1") simp_all
  moreover obtain ops' where ops': "run store_step s1 ops' s'" using assms(2) by (auto simp: s1_def store_run_def)
  then obtain x2 where x2: "x2 \<in> set (jobs s')" "moved_on x1 x2"
    using run_advanced [OF ops' ok1] x1(1) by (auto simp: advanced_def)
  ultimately have st: "2 \<le> stage (j_state x2)" "j_id x2 = job" using x1(2) x(2) by (auto simp: moved_on_def)
  have "core_ok s'" using store_system.run_inv [OF ops' ok1] by (simp add: db_ok_def)
  from job_unique [OF this x2(1) y(1)] st(2) y(2) have "x2 = y" by simp
  with st(1) y(3) show False by simp
qed

section \<open>Kills\<close>

lemma handle_kill_owner:
  assumes "handle_kill cfg role clk job oreq sv = (sv', r)" and "sv' \<noteq> sv \<or> status r = 200"
  shows "\<exists>submitter j. oreq = Some submitter \<and> get_job job (sv_db sv) = Inr j
    \<and> (role = ''admin'' \<or> j_submitter j = submitter) \<and> (j_state j = JobQueued \<or> in_flight (j_state j))"
proof -
  obtain submitter where 1: "oreq = Some submitter" using assms by (cases oreq) (auto simp: handle_kill_def)
  obtain j where 2: "get_job job (sv_db sv) = Inr j"
    using assms 1 by (cases "get_job job (sv_db sv)") (auto simp: handle_kill_def job_lookup_error_def split: if_splits)
  have 3: "is_admin role \<or> j_submitter j = submitter" using assms 1 2 by (auto simp: handle_kill_def split: if_splits)
  have 4: "j_state j = JobQueued \<or> in_flight (j_state j)"
  proof (rule ccontr)
    assume "\<not> (j_state j = JobQueued \<or> in_flight (j_state j))"
    with 1 2 3 assms show False by (auto simp: handle_kill_def Let_def)
  qed
  from 1 2 3 4 show ?thesis by (auto simp: is_admin_def)
qed

section \<open>Wake-ups\<close>

fun waiter_op :: "wake_op \<Rightarrow> registry \<Rightarrow> registry" where
  "waiter_op (WListen w c) r = n_wait w c r"
| "waiter_op (WIgnore w c) r = n_cancel w c r"
| "waiter_op (WPoke w) r = n_poke w r"
| "waiter_op (WTake w c) r = n_consume w c r"

lemma waiter_op_apply: "waiter_op op r = waker.apply_op op r"
  by (cases op) (simp_all add: waker.apply_op.simps)

lemma waiters_fold_poke:
  "sv_waiters (fold (\<lambda>j. poke (j_worker_id j)) js sv) = fold waiter_op (map (\<lambda>j. WPoke (j_worker_id j)) js) (sv_waiters sv)"
  by (induction js arbitrary: sv) (simp_all add: poke_def)

lemma waiters_frame [simp]:
  "sv_waiters (publish_event k now p sv) = sv_waiters sv"
  by (simp add: publish_event_def)

lemma schedule_tick_waiters:
  assumes "schedule_once env (sv_db sv) = Inr p"
  shows "sv_waiters (schedule_tick env clk sv)
    = fold waiter_op (map (\<lambda>j. WPoke (j_worker_id j)) (ps_assigned p)) (sv_waiters sv)"
  by (simp add: schedule_tick_def assms Let_def waiters_fold_poke)

lemma woken_waiter:
  assumes "WPoke w \<in> set ops" and "\<forall>op \<in> set ops. op \<notin> {WListen w c, WIgnore w c, WTake w c}"
    and "reg_token r w c = Some b"
  shows "reg_token (fold waiter_op ops r) w c = Some True"
proof -
  have "fold waiter_op ops r = fold waker.apply_op ops r"
    by (induction ops arbitrary: r) (simp_all add: waiter_op_apply)
  then show ?thesis using waker.no_lost_wakeup [OF assms(2,1,3)] by simp
qed

section \<open>Boundaries\<close>

text \<open>
  The runtime of a submission is a Go duration: the seconds a request names survive the
  conversion exactly up to 9223372036. One more is a negative runtime, and a hold with a
  ttl of 18446744074 seconds is stored without one.
\<close>

lemma requested_runtime_range:
  "eq_max_runtime (enqueue_request_of req) = sb_max_runtime_seconds req * go_second
     \<longleftrightarrow> \<bar>sb_max_runtime_seconds req\<bar> \<le> 9223372036"
proof -
  have "wrap64 x = x \<longleftrightarrow> - (2 ^ 63) \<le> x \<and> x < 2 ^ 63" for x
    using wrap64_bounds [of x] wrap64_id [of x] by metis
  then show ?thesis by (simp add: enqueue_request_of_def seconds_dur_def abs_le_iff) linarith
qed

lemma runtime_wraps:
  "sb_max_runtime_seconds req = 9223372037 \<Longrightarrow> eq_max_runtime (enqueue_request_of req) < 0"
  "sb_max_runtime_seconds req = 18446744074 \<Longrightarrow> whole_seconds (eq_max_runtime (enqueue_request_of req)) = 0"
  by (simp_all add: enqueue_request_of_def seconds_dur_def wrap64_def whole_seconds_def)

lemma hold_ttl_wraps:
  assumes "sb_kind req = LeaseKindHold" and "sb_max_runtime_seconds req = 18446744074"
    and "check_submit req = Inr req'"
  shows "whole_seconds (eq_max_runtime (enqueue_request_of req')) = 0"
proof -
  have "sb_max_runtime_seconds req' = sb_max_runtime_seconds req"
    using assms(3) by (auto simp: check_submit_def check_kind_def split: if_splits sum.splits)
  with assms(2) show ?thesis by (intro runtime_wraps(2)) simp
qed

text \<open>Two hosts and their devices meet in one identifier when a name has a colon.\<close>

lemma device_id_collision: "device_id (h @ '':'' @ x) y = device_id h (x @ '':'' @ y)"
  by (simp add: device_id_def)

end
