(* ===== verification/Server_Claims.thy ===== *)
theory Server_Claims
  imports Server_Facts Store_Claims
begin

text \<open>
  The properties of the HTTP server: the database behind the API, authorization, what a
  worker may report and what it is handed, what a client may kill, and what explain shows.
\<close>

section \<open>A server to apply them to\<close>

definition ex_config :: config where
  "ex_config = \<lparr>cf_tokens = [''wt'' \<mapsto> ''worker'', ''ct'' \<mapsto> ''client'', ''at'' \<mapsto> ''admin''], cf_retain = False\<rparr>"


definition ex_clock :: clock where
  "ex_clock n = 2000 * go_second"

definition ex_server :: server where
  "ex_server = (first_process None)\<lparr>sv_db := ex_db\<rparr>"



lemma ex_server_db_ok: "db_ok (sv_db ex_server)"
  by (simp add: ex_server_def ex_db_ok)

section \<open>The database behind the API\<close>




section \<open>Authorization\<close>



section \<open>Reports, hand-outs and kills\<close>

text \<open>
  C12. A status report is refused, with nothing changed, unless it names the worker the job is
  recorded with. The owner's report of a terminal state records the outcome of a job that has
  not ended and leaves an ended one as it is; its report of \<open>running\<close> moves an assigned job on;
  any other state is refused.
\<close>
theorem status_report_effect:
  assumes "db_ok (sv_db sv)" and "get_job job (sv_db sv) = Inr j"
    and "handle_job_status clk job (Some req) sv = (sv', r)"
  shows "(r, get_job job (sv_db sv')) =
     (if sq_worker req = '''' \<or> sq_worker req \<noteq> j_worker_id j then (ReplyErr 403 ''not_job_owner'', Inr j)
      else if sq_state req = JobRunning then
        (Reply 200 (), Inr (if j_state j = JobAssigned
           then j\<lparr>j_state := JobRunning, j_started_at := Some (unix (clk 0))\<rparr> else j))
      else if terminal (sq_state req) then
        (Reply 200 (), Inr (if terminal (j_state j) then j
           else finish_job (sq_state req) (sq_exit_code req) (sq_reason req) (unix (clk 0)) j))
      else (ReplyErr 400 ''bad_request'', Inr j))
   \<and> (status r = 200 \<or> sv' = sv)"
proof (cases "sq_worker req = '''' \<or> sq_worker req \<noteq> j_worker_id j")
  case True
  with assms show ?thesis by (auto simp: handle_job_status_def)
next
  case owner: False
  show ?thesis
  proof (cases "sq_state req = JobRunning")
    case True
    with owner assms mark_running_get_job [OF assms(1,2), of "clk 0"] show ?thesis
      by (auto simp: handle_job_status_def)
  next
    case run: False
    show ?thesis
    proof (cases "terminal (sq_state req)")
      case True
      from release_get_job [OF assms(1,2) True, of "sq_exit_code req" "sq_reason req" "clk 0"]
      obtain s' where s': "release job (sq_state req) (sq_exit_code req) (sq_reason req) (clk 0) (sv_db sv) = Inr s'"
        "get_job job s' = Inr (if terminal (j_state j) then j
           else finish_job (sq_state req) (sq_exit_code req) (sq_reason req) (unix (clk 0)) j)" by blast
      with owner run True assms(2,3) show ?thesis
        by (auto simp: handle_job_status_def Let_def split: if_splits)
    qed (use owner run assms in \<open>auto simp: handle_job_status_def\<close>)
  qed
qed

definition ex_report :: "string \<Rightarrow> status_request" where
  "ex_report worker = \<lparr>sq_worker = worker, sq_state = JobSucceeded, sq_exit_code = Some 0, sq_reason = ''''\<rparr>"

lemma ex_get_job: "get_job ''j1'' (sv_db ex_server) = Inr (ex_job ''j1'' ''h:0'' '''' JobAssigned ''w'' 0)"
  by (simp add: get_job_def ex_server_def ex_defs)

theorem status_report_effect_witness:
  "get_job ''j1'' (sv_db (fst (handle_job_status ex_clock ''j1'' (Some (ex_report ''w'')) ex_server)))
     = Inr (finish_job JobSucceeded (Some 0) '''' 2000 (ex_job ''j1'' ''h:0'' '''' JobAssigned ''w'' 0))
   \<and> fst (handle_job_status ex_clock ''j1'' (Some (ex_report ''v'')) ex_server) = ex_server"
  using status_report_effect [OF ex_server_db_ok ex_get_job surjective_pairing, of ex_clock "ex_report ''w''"]
    status_report_effect [OF ex_server_db_ok ex_get_job surjective_pairing, of ex_clock "ex_report ''v''"]
  by (auto simp: ex_report_def ex_job_def ex_clock_def unix_def)




text \<open>
  A kill changes something, or is acknowledged, only when it came from an admin or named
  the job's own submitter, and only while the job is queued or in flight.
\<close>
theorem kill_by_owner:
  assumes "handle_kill cfg role clk job oreq sv = (sv', r)" and "sv' \<noteq> sv \<or> status r = 200"
  shows "\<exists>submitter j. oreq = Some submitter \<and> get_job job (sv_db sv) = Inr j
    \<and> (role = ''admin'' \<or> j_submitter j = submitter) \<and> (j_state j = JobQueued \<or> in_flight (j_state j))"
  by (rule handle_kill_owner [OF assms])

theorem kill_by_owner_witness:
  "\<exists>submitter j. Some ''ann'' = Some submitter \<and> get_job ''j1'' (sv_db ex_server) = Inr j
    \<and> (''client'' = ''admin'' \<or> j_submitter j = submitter) \<and> (j_state j = JobQueued \<or> in_flight (j_state j))"
proof (rule kill_by_owner [of ex_config "''client''" ex_clock "''j1''" "Some ''ann''" ex_server, OF surjective_pairing])
  have "\<exists>out s'. request_kill ''j1'' reason False t (sv_db ex_server) = Inr (out, s') \<and> out \<noteq> KillNotCancellable" for reason t
    by (auto simp: request_kill_def ex_server_def ex_defs Let_def sql_count_def)
  then obtain out s' where "request_kill ''j1'' (kill_reason_of ''client'' ''ann'') False (ex_clock 0) (sv_db ex_server) = Inr (out, s')"
    "out \<noteq> KillNotCancellable" by blast
  then show "fst (handle_kill ex_config ''client'' ex_clock ''j1'' (Some ''ann'') ex_server) \<noteq> ex_server
      \<or> status (snd (handle_kill ex_config ''client'' ex_clock ''j1'' (Some ''ann'') ex_server)) = 200"
    by (cases out) (simp_all add: handle_kill_def ex_get_job ex_job_def ex_config_def is_admin_def)
qed

text \<open>
  A worker that waits in its long poll is woken for every job the scheduler's tick gives it:
  its channel holds a token after the tick, and keeps it whatever other waiters and pokes do,
  until it takes the token itself.
\<close>
theorem assignment_wakes_worker:
  assumes "schedule_once env (sv_db sv) = Inr p" and "j \<in> set (ps_assigned p)"
    and "reg_token (sv_waiters sv) (j_worker_id j) c = Some b"
    and "\<forall>op \<in> set ops. op \<notin> {WListen (j_worker_id j) c, WIgnore (j_worker_id j) c, WTake (j_worker_id j) c}"
  shows "reg_token (fold waiter_op ops (sv_waiters (schedule_tick env clk sv))) (j_worker_id j) c = Some True"
proof -
  have "sv_waiters (schedule_tick env clk sv)
      = fold waiter_op (map (\<lambda>j. WPoke (j_worker_id j)) (ps_assigned p)) (sv_waiters sv)"
    by (rule schedule_tick_waiters [OF assms(1)])
  moreover have "reg_token (fold waiter_op (map (\<lambda>j. WPoke (j_worker_id j)) (ps_assigned p) @ ops) (sv_waiters sv))
      (j_worker_id j) c = Some True"
    by (rule woken_waiter [OF _ _ assms(3)]) (use assms(2,4) in auto)
  ultimately show ?thesis by simp
qed

theorem assignment_wakes_worker_witness:
  "reg_token (fold waiter_op [WListen ''w'' 8, WTake ''w'' 8, WPoke ''w'']
      (sv_waiters (schedule_tick ex_env ex_clock (ex_server\<lparr>sv_waiters := n_wait ''w'' 7 Map.empty\<rparr>)))) ''w'' 7
     = Some True"
proof (rule ex_pass)
  fix p assume p: "schedule_once ex_env ex_db = Inr p"
    "ps_assigned p = [ex_job ''j3'' ''h:1'' ''gpu=a100'' JobAssigned ''w'' 60]"
  have 1: "schedule_once ex_env (sv_db (ex_server\<lparr>sv_waiters := n_wait ''w'' 7 Map.empty\<rparr>)) = Inr p"
    by (simp add: ex_server_def p)
  have 2: "ex_job ''j3'' ''h:1'' ''gpu=a100'' JobAssigned ''w'' 60 \<in> set (ps_assigned p)" by (simp add: p)
  from assignment_wakes_worker [OF 1 2, of 7 False "[WListen ''w'' 8, WTake ''w'' 8, WPoke ''w'']" ex_clock]
  show ?thesis by (simp add: ex_job_def n_wait_def reg_token_def)
qed

section \<open>Explain\<close>

text \<open>
  C13. What explain shows is what the scheduler does: the devices it lists are those the
  scheduler matches for the selector in its canonical form, the free ones are those of them
  that are ready, and a submission without a runtime is refused for lack of a matching device
  exactly when the list is empty.
\<close>
theorem explain_is_scheduling:
  assumes "db_ok s" and "handle_explain (eq_selector req) s = Reply code r"
  shows "\<exists>canon. matching_devices canon s = Inr (xp_matching r)
    \<and> xp_free r = filter (\<lambda>dev. \<exists>d \<in> set (devices s). d_id d = dev \<and> d_state d = DeviceReady) (xp_matching r)
    \<and> (eq_max_runtime req \<le> 0 \<longrightarrow>
        resolve_selector req s = (if xp_matching r = [] then Inl (ErrNoMatchingDevice canon) else Inr canon))"
proof -
  obtain sel where sel: "eq_selector req \<noteq> ''''" "sel_parse (eq_selector req) = Inr sel"
    using assms(2) by (auto simp: handle_explain_def split: if_splits sum.splits)
  define hits where "hits = filter (\<lambda>d. sel_match sel (labels_of (label_snapshot s) (d_id d))) (all_devices s)"
  have r: "xp_matching r = map d_id hits" "xp_free r = map d_id (filter (\<lambda>d. d_state d = DeviceReady) hits)"
    using assms(2) sel by (auto simp: handle_explain_def hits_def Let_def)
  have canon: "sel_parse (sel_string sel) = Inr sel"
    by (rule sel_parse_string [OF sel_parse_wf [OF sel(2)]])
  have "sorted (map d_id hits)" unfolding hits_def all_devices_def by (rule sorted_filter) simp
  then have m: "matching_devices (sel_string sel) s = Inr (xp_matching r)"
    by (simp add: matching_devices_def canon r(1) hits_def sorted_sort_id)
  have ids: "(\<exists>x \<in> set (devices s). d_id x = d_id d \<and> d_state x = DeviceReady) \<longleftrightarrow> d_state d = DeviceReady"
    if "d \<in> set hits" for d
  proof -
    have "d \<in> set (devices s)" using that by (simp add: hits_def all_devices_def)
    moreover have "distinct (map d_id (devices s))" using assms(1) by (simp add: db_ok_def core_ok_def schema_ok_def)
    ultimately show ?thesis using device_table.key_inj [of s] by blast
  qed
  have "filter (\<lambda>dev. \<exists>x \<in> set (devices s). d_id x = dev \<and> d_state x = DeviceReady) (map d_id hits)
      = map d_id (filter (\<lambda>d. d_state d = DeviceReady) hits)"
    unfolding filter_map comp_def using ids by (intro arg_cong [of _ _ "map d_id"] filter_cong refl) simp
  moreover have "resolve_selector req s
      = (if xp_matching r = [] then Inl (ErrNoMatchingDevice (sel_string sel)) else Inr (sel_string sel))"
    if "eq_max_runtime req \<le> 0"
    using that sel m by (simp add: resolve_selector_def)
  ultimately show ?thesis using m r by (intro exI [of _ "sel_string sel"]) simp
qed

theorem explain_is_scheduling_witness:
  "\<exists>canon r. handle_explain ''gpu=a100'' ex_fleet = Reply 200 r \<and> matching_devices canon ex_fleet = Inr (xp_matching r)
    \<and> resolve_selector (ex_request '''' ''gpu=a100'' '''' 0) ex_fleet
        = (if xp_matching r = [] then Inl (ErrNoMatchingDevice canon) else Inr canon)"
proof -
  obtain r where r: "handle_explain ''gpu=a100'' ex_fleet = Reply 200 r"
    by (simp add: handle_explain_def Let_def ex_selector)
  then have "handle_explain (eq_selector (ex_request '''' ''gpu=a100'' '''' 0)) ex_fleet = Reply 200 r"
    by (simp add: ex_request_def)
  from explain_is_scheduling [OF ex_fleet_db_ok this] r show ?thesis
    by (auto simp: ex_request_def)
qed

end
