(* ===== verification/Platform_Claims.thy ===== *)
theory Platform_Claims
  imports Notify Server_Channels Logstore Serve Store_Examples
begin

text \<open>
  The properties of what surrounds the store and the handlers: the notifier, the dashboards'
  broadcaster, the log files and the reaper's announcements.
\<close>

section \<open>The notifier\<close>

lemma nf_opts_step:
  "notify_step s l s' \<Longrightarrow> nf_opts (ns_notifier s') = nf_opts (ns_notifier s)"
  by (induction rule: notify_step.induct) (simp_all add: drop_event_def try_enqueue_def take_event_def)

lemma nf_opts_run:
  "run notify_step s ls s' \<Longrightarrow> nf_opts (ns_notifier s') = nf_opts (ns_notifier s)"
  by (induction rule: run.induct) (simp_all add: nf_opts_step)

text \<open>
  Whatever calls of \<open>Notify\<close> and \<open>Close\<close> interleave with the goroutine, the events it has
  handed on followed by those waiting are the accepted ones in the order of acceptance, no more
  than the queue's size wait, and every call is accepted, dropped and counted, or still between
  its check and its send.
\<close>
theorem notifier_accounts:
  assumes "new_notifier True opts = Some n" and "run notify_step (notify_start n) ls s"
  shows "ns_accepted s = ns_handled s @ nf_queue (ns_notifier s)
    \<and> int (length (nf_queue (ns_notifier s))) \<le> max 1 (no_queue_size opts)
    \<and> ns_calls s = nf_dropped (ns_notifier s) + length (ns_passed s) + length (ns_accepted s)"
proof -
  have "notify_ok s"
    using notify_system.run_inv [OF assms(2)] new_notifier_ok [OF assms(1)] by blast
  moreover have "no_queue_size (nf_opts n) \<le> max 1 (no_queue_size opts)"
    using assms(1) by (auto simp: new_notifier_def Let_def split: if_splits)
  moreover have "nf_opts (ns_notifier s) = nf_opts n"
    using nf_opts_run [OF assms(2)] by (simp add: notify_start_def)
  ultimately show ?thesis by (simp add: notify_ok_def nf_cap_def)
qed

definition ex_event :: notify_event where
  "ex_event = \<lparr>ne_kind = KindJobLost, ne_device = '''', ne_job = ''j'', ne_reason = ''worker lost'', ne_at = None\<rparr>"

definition ex_notifier :: notifier where
  "ex_notifier = \<lparr>nf_opts = \<lparr>no_queue_size = 1, no_attempts = 1, no_backoff = 0\<rparr>, nf_queue = [],
     nf_close_requested = False, nf_done = False, nf_dropped = 0\<rparr>"

definition ex_called :: notify_state where
  "ex_called = \<lparr>ns_notifier = ex_notifier\<lparr>nf_queue := [ex_event\<lparr>ne_at := Some 5\<rparr>]\<rparr>, ns_phase = Probing, ns_passed = [],
     ns_handled = [], ns_accepted = [ex_event\<lparr>ne_at := Some 5\<rparr>], ns_calls = 1\<rparr>"

lemma ex_called_run: "run notify_step (notify_start ex_notifier) [CallCheck ex_event, CallSend 0 5] ex_called"
proof -
  let ?s1 = "(notify_start ex_notifier)\<lparr>ns_passed := [ex_event], ns_calls := 1\<rparr>"
  have "notify_step (notify_start ex_notifier) (CallCheck ex_event) ?s1"
    using ns_check_open [of "notify_start ex_notifier" ex_event] by (simp add: notify_start_def ex_notifier_def)
  moreover have "notify_step ?s1 (CallSend 0 5) ex_called"
    using ns_send [of 0 ?s1 "ex_event\<lparr>ne_at := Some 5\<rparr>" 5 "ex_notifier\<lparr>nf_queue := [ex_event\<lparr>ne_at := Some 5\<rparr>]\<rparr>"]
    by (simp add: notify_start_def ex_notifier_def ex_event_def ex_called_def stamp_event_def try_enqueue_def)
  ultimately show ?thesis using run_cons [OF _ run_single] by metis
qed

lemma ex_new_notifier:
  "new_notifier True \<lparr>no_queue_size = 1, no_attempts = 1, no_backoff = 0\<rparr> = Some ex_notifier"
  by (simp add: new_notifier_def ex_notifier_def)

theorem notifier_accounts_witness:
  "ns_accepted ex_called = ns_handled ex_called @ nf_queue (ns_notifier ex_called) \<and> ns_calls ex_called = 1"
  using notifier_accounts [OF ex_new_notifier ex_called_run] by (simp add: ex_called_def)



section \<open>Dashboards\<close>

text \<open>
  An open subscription receives a subsequence of what was published since it was opened, in
  order, whatever the other subscribers do; its buffer never holds more than sixteen events, and
  as long as no more than that have been published nothing is lost.
\<close>
theorem dashboard_sees_subsequence:
  assumes "bc_wf b" and "run (bc_step (bc_next b)) (bc_opened b) ops s"
  shows "\<exists>buf. map_of (bc_subs (bs_bc s)) (bc_next b) = Some buf \<and> length buf \<le> subscriber_buffer
    \<and> subseq (bs_received s @ buf) (bs_published s)
    \<and> (length (bs_published s) \<le> subscriber_buffer \<longrightarrow> bs_published s = bs_received s @ buf)"
proof -
  have "bc_ok (bc_next b) s" "bc_lossless (bc_next b) s"
    using bc_system.run_inv [OF assms(2)] bc_opened_ok [OF assms(1)]
      bc_system.run_stable [OF assms(2), where Q = "bc_lossless (bc_next b)"] bc_step_lossless by blast+
  then show ?thesis by (auto simp: bc_ok_def bc_lossless_def)
qed

theorem dashboard_sees_subsequence_witness:
  "\<exists>buf. map_of (bc_subs (publish (7::nat) (snd (bc_subscribe new_broadcaster)))) 0 = Some buf
    \<and> subseq ([] @ buf) [7::nat]"
proof -
  have "run (bc_step (bc_next new_broadcaster)) (bc_opened new_broadcaster) [BcPublish (7::nat)]
      ((bc_opened new_broadcaster)\<lparr>bs_bc := publish 7 (bs_bc (bc_opened new_broadcaster)),
         bs_published := bs_published (bc_opened new_broadcaster) @ [7]\<rparr>)"
    by (intro run_single bc_publish)
  from dashboard_sees_subsequence [OF bc_wf_new this] show ?thesis
    by (auto simp: bc_opened_def new_broadcaster_def)
qed

section \<open>Logs\<close>

text \<open>Appends of many workers, one after the other; a refused one changes nothing.\<close>

definition log_write :: "string \<times> string \<Rightarrow> logstore \<Rightarrow> logstore" where
  "log_write w ls = (case log_append (fst w) (snd w) ls of None \<Rightarrow> ls | Some ls' \<Rightarrow> ls')"

lemma log_read_write:
  assumes "safe_id job"
  shows "log_read job (log_write w ls) = (if fst w = job then map_option (\<lambda>b. b @ snd w) (log_read job ls) else log_read job ls)"
proof (cases "log_path (fst w)")
  case None
  with assms show ?thesis by (auto simp: log_write_def log_append_def log_path_def split: if_splits)
next
  case (Some p)
  then show ?thesis
    using log_path_inj [of "fst w" p job] assms
    by (auto simp: log_write_def log_append_def log_read_def log_content_def log_path_def split: option.splits if_splits)
qed

text \<open>
  Reading a job's log gives what was there followed by the chunks appended for that job, in
  order, however the appends of other jobs interleave; a job identifier that is not a plain file
  name is refused by both.
\<close>
theorem log_round_trip:
  "log_read job (fold log_write ws ls)
     = (if safe_id job
        then map_option (\<lambda>b. b @ concat (map snd (filter (\<lambda>w. fst w = job) ws))) (log_read job ls)
        else None)"
proof (cases "safe_id job")
  case True
  have "log_read job (fold log_write ws ls)
      = map_option (\<lambda>b. b @ concat (map snd (filter (\<lambda>w. fst w = job) ws))) (log_read job ls)"
    by (induction ws arbitrary: ls) (auto simp: log_read_write [OF True] option.map_comp comp_def option.map_ident)
  with True show ?thesis by simp
qed (simp add: log_read_def log_path_def)

text \<open>
  C17. A log stream that ends because the job is over has sent the whole file as it was at its
  last read, and that read comes after the job was over: everything appended before the end of
  the job has been sent.
\<close>
theorem log_stream_complete:
  assumes "run follow_step (follow_start file) es f" and "fo_phase f = Stopped True"
  shows "\<exists>es1 es2 f1. es = es1 @ FeEof # es2 \<and> FeDone \<in> set es1
    \<and> run follow_step (follow_start file) es1 f1
    \<and> concat (fo_sent f) = fo_file f1 \<and> (\<exists>more. fo_file f = fo_file f1 @ more)"
proof -
  have ok: "follow_ok (follow_start file)" "fo_phase (follow_start file) \<noteq> Stopped True"
    by (simp_all add: follow_ok_def follow_start_def)
  obtain es1 es2 f1 where f1: "es = es1 @ FeEof # es2" "run follow_step (follow_start file) es1 f1"
    "fo_phase f1 = Flushing" "concat (fo_sent f) = fo_file f1" "\<exists>more. fo_file f = fo_file f1 @ more"
    using follow_complete [OF assms(1) ok assms(2)] by blast
  have "FeDone \<in> set es1"
    by (rule flushing_after_done [OF f1(2,3)]) (simp add: follow_start_def)
  with f1 show ?thesis by blast
qed

theorem log_stream_complete_witness:
  "\<exists>es1 es2 f1. [FeChunk, FeEof, FeDone, FeEof] = es1 @ FeEof # es2 \<and> FeDone \<in> set es1
    \<and> run follow_step (follow_start ''ab'') es1 f1 \<and> concat [''ab''] = fo_file f1"
proof -
  let ?f = "\<lambda>ph. \<lparr>fo_file = ''ab'', fo_offset = 2, fo_sent = [''ab''], fo_phase = ph\<rparr>"
  have 1: "follow_step (follow_start ''ab'') FeChunk (?f Reading)"
    using fo_chunk [of "follow_start ''ab''"]
    by (simp add: follow_start_def fo_rest_def send_chunk_def Let_def numeral_2_eq_2)
  have 2: "follow_step (?f Reading) FeEof (?f Waiting)" using fo_eof [of "?f Reading"] by (simp add: fo_rest_def)
  have 3: "follow_step (?f Waiting) FeDone (?f Flushing)" using fo_done [of "?f Waiting"] by simp
  have 4: "follow_step (?f Flushing) FeEof (?f (Stopped True))"
    using fo_flushed [of "?f Flushing"] by (simp add: fo_rest_def)
  have "run follow_step (follow_start ''ab'') [FeChunk, FeEof, FeDone, FeEof] (?f (Stopped True))"
    by (intro run_cons [where stp = follow_step, OF 1] run_cons [where stp = follow_step, OF 2]
        run_cons [where stp = follow_step, OF 3] run_cons [where stp = follow_step, OF 4] run_nil)
  from log_stream_complete [OF this] show ?thesis by auto
qed

section \<open>The reaper's announcements\<close>

lemma lease_events_kinds:
  "filter (\<lambda>e. ne_kind e = KindLeaseExpired) (lease_events reasons devs announced xs)
     = map (\<lambda>x. lease_event x (default_empty (devs x))) xs"
  "filter (\<lambda>e. ne_kind e = KindJobLost) (lease_events reasons devs announced xs) = []"
  by (induction xs arbitrary: announced)
     (auto simp: Let_def lease_event_def expired_device_event_def)

abbreviation quarantine_notice :: "notify_event \<Rightarrow> bool" where
  "quarantine_notice e \<equiv> ne_kind e = KindWorkerLost \<or> ne_kind e = KindDeviceUnhealthy"

lemma lease_events_notices:
  "distinct (map ne_device (filter quarantine_notice (lease_events reasons devs announced xs)))
   \<and> set (map ne_device (filter quarantine_notice (lease_events reasons devs announced xs))) \<inter> set announced = {}"
proof (induction xs arbitrary: announced)
  case (Cons x xs)
  show ?case
    using Cons.IH [of announced] Cons.IH [of "default_empty (devs x) # announced"]
    by (auto simp: Let_def lease_event_def expired_device_event_def)
qed simp

lemma distinct_reporting: 
  assumes "core_ok s" shows "distinct (map fst (reporting s))"
proof -
  have w: "distinct (map w_id (workers s))" and d: "distinct (map d_id (devices s))"
    using assms by (auto simp: core_ok_def schema_ok_def)
  have one: "length (filter (\<lambda>w. w_id w = i) ws) \<le> 1" if "distinct (map w_id ws)" for i ws
    using that
  proof (induction ws)
    case (Cons a ws)
    then have "w_id a \<notin> w_id ` set ws" by simp
    then have "w_id w \<noteq> w_id a" if "w \<in> set ws" for w using that by (metis imageI)
    then have "filter (\<lambda>w. w_id w = w_id a) ws = []" by (simp add: filter_empty_conv)
    with Cons show ?case by auto
  qed simp
  have "distinct (map fst (concat (map (\<lambda>d. map (\<lambda>w. (d_id d, d_state d, w_heartbeat w))
      (filter (\<lambda>w. w_id w = d_worker_id d) (workers s))) ds)))"
    if "distinct (map d_id ds)" for ds
    using that
  proof (induction ds)
    case (Cons d ds)
    have "distinct (map (\<lambda>w. d_id d) (filter (\<lambda>w. w_id w = d_worker_id d) (workers s)))"
      using one [OF w, of "d_worker_id d"] by (cases "filter (\<lambda>w. w_id w = d_worker_id d) (workers s)") simp_all
    with Cons show ?case by (auto simp: comp_def)
  qed simp
  with d show ?thesis by (simp add: reporting_def)
qed

lemma distinct_sr_unhealthy:
  assumes "core_ok s" shows "distinct (sr_unhealthy (fst (sweep grace u hold_off retain now s)))"
proof -
  let ?f = "demotion (judges now hold_off) now grace u" and ?un = "\<lambda>p. snd p = DeviceUnhealthy"
  let ?rows = "filter (\<lambda>r. ?f r \<noteq> None \<and> ?un (the (?f r))) (reporting s)"
  have "fst (the (?f r)) = fst r" if "?f r \<noteq> None" for r
    using that by (auto simp: demotion_def split: prod.splits if_splits)
  then have 1: "map (\<lambda>r. fst (the (?f r))) ?rows = map fst ?rows" by (intro map_cong) auto
  have 2: "map fst (filter ?un (List.map_filter ?f (reporting s))) = map (\<lambda>r. fst (the (?f r))) ?rows"
    by (simp add: List.map_filter_def filter_map comp_def)
  have 3: "sr_unhealthy (fst (sweep grace u hold_off retain now s))
      = map fst (filter ?un (List.map_filter ?f (reporting s)))"
    by (simp add: sweep_def Let_def case_prod_beta)
  show ?thesis unfolding 3 2 1 by (rule distinct_map_filter [OF distinct_reporting [OF assms]])
qed

text \<open>
  What a sweep did is announced in full and once: one event for every lost job, one for every
  ended lease, and for every device it wrote off exactly one event saying that the device left
  the pool, also when the device lost its worker and its lease in the same sweep.
\<close>
theorem sweep_announced_once:
  assumes "db_ok s" and "sweep grace u hold_off retain now s = (res, s')"
    and "es = announcements res s'"
  shows "map ne_job (filter (\<lambda>e. ne_kind e = KindJobLost) es) = sr_lost res
    \<and> map ne_job (filter (\<lambda>e. ne_kind e = KindLeaseExpired) es) = sr_expired res
    \<and> distinct (map ne_device (filter quarantine_notice es))
    \<and> set (sr_unhealthy res) \<subseteq> set (map ne_device (filter quarantine_notice es))"
proof -
  obtain reasons devs where es: "es = sweep_events res reasons devs"
    by (simp add: assms(3) announcements_def Let_def)
  have u: "filter (\<lambda>e. ne_kind e = KindJobLost) (map (unhealthy_event reasons) xs) = []"
    "filter (\<lambda>e. ne_kind e = KindLeaseExpired) (map (unhealthy_event reasons) xs) = []"
    "filter quarantine_notice (map (unhealthy_event reasons) xs) = map (unhealthy_event reasons) xs"
    "map ne_device (map (unhealthy_event reasons) xs) = xs" for xs
    by (induction xs) (simp_all add: unhealthy_event_def)
  have l: "filter (\<lambda>e. ne_kind e = KindJobLost) (map job_lost_event xs) = map job_lost_event xs"
    "filter (\<lambda>e. ne_kind e = KindLeaseExpired) (map job_lost_event xs) = []"
    "filter quarantine_notice (map job_lost_event xs) = []"
    "map ne_job (map job_lost_event xs) = xs" for xs
    by (induction xs) (simp_all add: job_lost_event_def)
  have "distinct (sr_unhealthy res)"
    using distinct_sr_unhealthy [of s grace u hold_off retain now] assms(1,2) by (simp add: db_ok_def)
  with u l lease_events_kinds lease_events_notices [of reasons devs "sr_unhealthy res" "sr_expired res"]
  show ?thesis by (auto simp: es sweep_events_def lease_event_def comp_def)
qed

theorem sweep_announced_once_witness:
  "\<exists>res s'. sweep 30 60 0 False (9000 * go_second) ex_db = (res, s')
    \<and> map ne_job (filter (\<lambda>e. ne_kind e = KindJobLost) (announcements res s')) = sr_lost res
    \<and> distinct (map ne_device (filter quarantine_notice (announcements res s')))"
proof -
  obtain res s' where s: "sweep 30 60 0 False (9000 * go_second) ex_db = (res, s')" by fastforce
  from sweep_announced_once [OF ex_db_ok s refl] s show ?thesis by auto
qed

end
