(* ===== verification/TTY.thy ===== *)
theory TTY
  imports Server_State
begin

text \<open>
  The stdio relay (\<open>src/internal/server/tty.go\<close>): the registry of live sessions, their four
  slots and two pipes, and the life of a half from \<open>ttyAttach\<close> to the end of its teardown.
  Sessions and pipes live in a heap, because a half keeps the pipe it was given while the
  session may get another: a session is its number, a pipe is its number, and the registry
  maps jobs to sessions. A pipe is unbuffered, so a byte written is a byte read: the relay of
  bytes is one step of a writer and a reader of the same open pipe.
\<close>

section \<open>Slots, pipes, sessions\<close>

datatype tty_dir = DirOut | DirIn

datatype tty_slot = SlotClientOut | SlotWorkerOut | SlotClientIn | SlotWorkerIn

definition tty_slots :: "tty_slot list" where
  "tty_slots = [SlotClientOut, SlotWorkerOut, SlotClientIn, SlotWorkerIn]"

fun slot_dir :: "tty_slot \<Rightarrow> tty_dir" where
  "slot_dir SlotClientOut = DirOut"
| "slot_dir SlotWorkerOut = DirOut"
| "slot_dir SlotClientIn = DirIn"
| "slot_dir SlotWorkerIn = DirIn"

record tty_session =
  ts_job :: string
  ts_out :: nat
  ts_in :: nat
  ts_dead :: bool
  ts_attached :: "tty_slot \<Rightarrow> bool"

text \<open>The heap, the pipes that are closed, the registry's map and the next free numbers.\<close>

record tty_registry =
  tr_sessions :: "string \<rightharpoonup> nat"
  tr_heap :: "nat \<Rightarrow> tty_session"
  tr_closed :: "nat \<Rightarrow> bool"
  tr_next :: nat
  tr_next_pipe :: nat

definition no_session :: tty_session where
  "no_session = \<lparr>ts_job = '''', ts_out = 0, ts_in = 0, ts_dead = False, ts_attached = (\<lambda>s. False)\<rparr>"

definition new_tty_registry :: tty_registry where
  "new_tty_registry = \<lparr>tr_sessions = Map.empty, tr_heap = (\<lambda>i. no_session), tr_closed = (\<lambda>p. False),
     tr_next = 0, tr_next_pipe = 0\<rparr>"

definition new_tty_session :: "string \<Rightarrow> tty_registry \<Rightarrow> tty_registry" where
  "new_tty_session job r =
     r\<lparr>tr_sessions := (tr_sessions r)(job \<mapsto> tr_next r),
       tr_heap := (tr_heap r)(tr_next r := \<lparr>ts_job = job, ts_out = tr_next_pipe r, ts_in = tr_next_pipe r + 1,
                                  ts_dead = False, ts_attached = (\<lambda>s. False)\<rparr>),
       tr_next := tr_next r + 1, tr_next_pipe := tr_next_pipe r + 2\<rparr>"

definition pipe_of :: "tty_dir \<Rightarrow> tty_session \<Rightarrow> nat" where
  "pipe_of d s = (case d of DirOut \<Rightarrow> ts_out s | DirIn \<Rightarrow> ts_in s)"

definition close_pipe :: "nat \<Rightarrow> tty_registry \<Rightarrow> tty_registry" where
  "close_pipe p r = r\<lparr>tr_closed := (tr_closed r)(p := True)\<rparr>"

section \<open>Operations\<close>

definition renew_in :: "nat \<Rightarrow> tty_registry \<Rightarrow> tty_registry" where
  "renew_in i r =
     (let s = tr_heap r i
      in if \<not> ts_dead s \<and> tr_closed r (ts_in s)
         then r\<lparr>tr_heap := (tr_heap r)(i := s\<lparr>ts_in := tr_next_pipe r\<rparr>), tr_next_pipe := tr_next_pipe r + 1\<rparr>
         else r)"

definition session_close :: "nat \<Rightarrow> tty_registry \<Rightarrow> tty_registry" where
  "session_close i r =
     (let s = tr_heap r i
      in if ts_dead s then r
         else close_pipe (ts_in s) (close_pipe (ts_out s)
                (r\<lparr>tr_heap := (tr_heap r)(i := s\<lparr>ts_dead := True\<rparr>)\<rparr>)))"

text \<open>A half: the job it was asked for, its session, its slot and the pipe it is bound to for
  life.\<close>

record tty_half =
  th_job :: string
  th_session :: nat
  th_slot :: tty_slot
  th_pipe :: nat

definition attach_slot :: "nat \<Rightarrow> tty_slot \<Rightarrow> bool \<Rightarrow> tty_registry \<Rightarrow> tty_registry" where
  "attach_slot i slot b r =
     (let s = tr_heap r i
      in r\<lparr>tr_heap := (tr_heap r)(i := s\<lparr>ts_attached := (ts_attached s)(slot := b)\<rparr>)\<rparr>)"

definition tty_acquire :: "string \<Rightarrow> tty_slot \<Rightarrow> tty_registry \<Rightarrow> (tty_half \<times> tty_registry) option" where
  "tty_acquire job slot r =
     (let r1 = (if tr_sessions r job = None then new_tty_session job r else r);
          i = the (tr_sessions r1 job)
      in if ts_attached (tr_heap r1 i) slot then None
         else
           (let r2 = attach_slot i slot True r1;
                r3 = (if slot_dir slot = DirIn then renew_in i r2 else r2)
            in Some (\<lparr>th_job = job, th_session = i, th_slot = slot, th_pipe = pipe_of (slot_dir slot) (tr_heap r3 i)\<rparr>, r3)))"

definition attached_count :: "tty_session \<Rightarrow> nat" where
  "attached_count s = length (filter (ts_attached s) tty_slots)"

definition tty_forget :: "nat \<Rightarrow> tty_registry \<Rightarrow> tty_registry" where
  "tty_forget i r =
     (let job = ts_job (tr_heap r i)
      in if tr_sessions r job = Some i then r\<lparr>tr_sessions := (tr_sessions r)(job := None)\<rparr> else r)"

text \<open>\<open>release\<close> under the lock: whether the session is idle now, and so is to be closed.\<close>

definition tty_release :: "nat \<Rightarrow> tty_slot \<Rightarrow> tty_registry \<Rightarrow> bool \<times> tty_registry" where
  "tty_release i slot r =
     (let r1 = attach_slot i slot False r; idle = (attached_count (tr_heap r1 i) = 0)
      in (idle, if idle then tty_forget i r1 else r1))"

definition tty_alone :: "nat \<Rightarrow> tty_registry \<Rightarrow> bool" where
  "tty_alone i r \<longleftrightarrow> attached_count (tr_heap r i) \<le> 1"

section \<open>The life of a half\<close>

text \<open>
  Streaming; after \<open>discard\<close> unregistered the session and before it closes it; before
  \<open>release\<close>; and after a \<open>release\<close> that found the session idle, before the close.
\<close>

datatype half_phase = Streaming | Discarding | Releasing | Closing

record tty_state =
  tt_reg :: tty_registry
  tt_halves :: "nat \<rightharpoonup> tty_half \<times> half_phase"
  tt_next :: nat

datatype tty_label = TtyAttach string tty_slot | TtyRefused string tty_slot | TtyGone nat | TtyGuard nat
  | TtyRelay nat nat | TtyEnd nat | TtyClose nat | TtyRelease nat | TtyLast nat

text \<open>The state after a half's step: the registry and the half's phase, or its end.\<close>

definition moves :: "nat \<Rightarrow> (tty_half \<times> half_phase) option \<Rightarrow> tty_registry \<Rightarrow> tty_state \<Rightarrow> tty_state" where
  "moves k x r t = t\<lparr>tt_reg := r, tt_halves := (tt_halves t)(k := x)\<rparr>"

text \<open>
  The steps: \<open>acquire\<close>; the context watcher and the handoff guard closing a half's pipe; one
  write handed from a half to the half that reads its pipe; the handler's return, which for
  an output half unregisters the session and for an input half closes its own pipe; and the
  rest of the teardown. Each is atomic, under the registry's mutex or the session's.
\<close>

inductive tty_step :: "tty_state \<Rightarrow> tty_label \<Rightarrow> tty_state \<Rightarrow> bool" where
  ty_attach: "tty_acquire job slot (tt_reg t) = Some (h, r) \<Longrightarrow>
    tty_step t (TtyAttach job slot)
      (t\<lparr>tt_reg := r, tt_halves := (tt_halves t)(tt_next t \<mapsto> (h, Streaming)), tt_next := tt_next t + 1\<rparr>)"
| ty_refused: "tty_acquire job slot (tt_reg t) = None \<Longrightarrow> tty_step t (TtyRefused job slot) t"
| ty_gone: "tt_halves t k = Some (h, Streaming) \<Longrightarrow>
    tty_step t (TtyGone k) (t\<lparr>tt_reg := close_pipe (th_pipe h) (tt_reg t)\<rparr>)"
| ty_guard: "tt_halves t k = Some (h, Streaming) \<Longrightarrow> th_slot h \<in> {SlotWorkerOut, SlotClientIn} \<Longrightarrow>
    tty_alone (th_session h) (tt_reg t) \<Longrightarrow>
    tty_step t (TtyGuard k) (t\<lparr>tt_reg := close_pipe (th_pipe h) (tt_reg t)\<rparr>)"
| ty_relay: "tt_halves t k = Some (w, Streaming) \<Longrightarrow> tt_halves t l = Some (r, Streaming) \<Longrightarrow>
    th_slot w \<in> {SlotWorkerOut, SlotClientIn} \<Longrightarrow> th_slot r \<in> {SlotClientOut, SlotWorkerIn} \<Longrightarrow>
    th_pipe w = th_pipe r \<Longrightarrow> \<not> tr_closed (tt_reg t) (th_pipe w) \<Longrightarrow> tty_step t (TtyRelay k l) t"
| ty_end_out: "tt_halves t k = Some (h, Streaming) \<Longrightarrow> slot_dir (th_slot h) = DirOut \<Longrightarrow>
    tty_step t (TtyEnd k) (moves k (Some (h, Discarding)) (tty_forget (th_session h) (tt_reg t)) t)"
| ty_end_in: "tt_halves t k = Some (h, Streaming) \<Longrightarrow> slot_dir (th_slot h) = DirIn \<Longrightarrow>
    tty_step t (TtyEnd k) (moves k (Some (h, Releasing)) (close_pipe (th_pipe h) (tt_reg t)) t)"
| ty_close: "tt_halves t k = Some (h, Discarding) \<Longrightarrow>
    tty_step t (TtyClose k) (moves k (Some (h, Releasing)) (session_close (th_session h) (tt_reg t)) t)"
| ty_release: "tt_halves t k = Some (h, Releasing) \<Longrightarrow>
    tty_release (th_session h) (th_slot h) (tt_reg t) = (idle, r) \<Longrightarrow>
    tty_step t (TtyRelease k) (moves k (if idle then Some (h, Closing) else None) r t)"
| ty_last: "tt_halves t k = Some (h, Closing) \<Longrightarrow>
    tty_step t (TtyLast k) (moves k None (session_close (th_session h) (tt_reg t)) t)"

inductive_cases tty_stepE: "tty_step t l t'"

definition tty_start :: tty_state where
  "tty_start = \<lparr>tt_reg = new_tty_registry, tt_halves = Map.empty, tt_next = 0\<rparr>"

section \<open>The invariant\<close>

text \<open>The registry: a registered session is the job's, alive, and somebody is attached to it.\<close>

definition registry_ok :: "tty_registry \<Rightarrow> bool" where
  "registry_ok r \<longleftrightarrow>
     (\<forall>job i. tr_sessions r job = Some i \<longrightarrow>
        i < tr_next r \<and> ts_job (tr_heap r i) = job \<and> \<not> ts_dead (tr_heap r i)
        \<and> (\<exists>slot. ts_attached (tr_heap r i) slot))"

text \<open>The pipes of sessions are numbers already drawn, and no two sessions share one.\<close>

definition pipes_ok :: "tty_registry \<Rightarrow> bool" where
  "pipes_ok r \<longleftrightarrow>
     (\<forall>i < tr_next r. ts_out (tr_heap r i) < tr_next_pipe r \<and> ts_in (tr_heap r i) < tr_next_pipe r)
     \<and> (\<forall>i < tr_next r. \<forall>j < tr_next r. ts_out (tr_heap r i) \<noteq> ts_in (tr_heap r j)
          \<and> (i \<noteq> j \<longrightarrow> ts_out (tr_heap r i) \<noteq> ts_out (tr_heap r j) \<and> ts_in (tr_heap r i) \<noteq> ts_in (tr_heap r j)))"

text \<open>What a half holds: a session of its job; an output half that session's output pipe, an input
  half a pipe that is no other session's.\<close>

definition bound_ok :: "tty_registry \<Rightarrow> tty_half \<Rightarrow> bool" where
  "bound_ok r h \<longleftrightarrow>
     th_session h < tr_next r \<and> th_pipe h < tr_next_pipe r
     \<and> ts_job (tr_heap r (th_session h)) = th_job h
     \<and> (case slot_dir (th_slot h) of
          DirOut \<Rightarrow> th_pipe h = ts_out (tr_heap r (th_session h))
        | DirIn \<Rightarrow> (\<forall>i < tr_next r. th_pipe h \<noteq> ts_out (tr_heap r i)
                      \<and> (i \<noteq> th_session h \<longrightarrow> th_pipe h \<noteq> ts_in (tr_heap r i))))"

definition halves_ok :: "tty_state \<Rightarrow> bool" where
  "halves_ok t \<longleftrightarrow>
     (\<forall>k h ph. tt_halves t k = Some (h, ph) \<longrightarrow>
        k < tt_next t \<and> bound_ok (tt_reg t) h
        \<and> (ph \<noteq> Closing \<longrightarrow> ts_attached (tr_heap (tt_reg t) (th_session h)) (th_slot h))
        \<and> (ph = Discarding \<or> ph = Closing \<longrightarrow>
             tr_sessions (tt_reg t) (ts_job (tr_heap (tt_reg t) (th_session h))) \<noteq> Some (th_session h)))"

text \<open>A slot of a session has one half, and input halves meet in a pipe only within a session.\<close>

definition slots_ok :: "tty_state \<Rightarrow> bool" where
  "slots_ok t \<longleftrightarrow>
     (\<forall>k l h g ph qh. tt_halves t k = Some (h, ph) \<longrightarrow> tt_halves t l = Some (g, qh) \<longrightarrow>
        (k \<noteq> l \<longrightarrow> ph \<noteq> Closing \<longrightarrow> qh \<noteq> Closing \<longrightarrow> (th_session h, th_slot h) \<noteq> (th_session g, th_slot g))
        \<and> (slot_dir (th_slot h) = DirIn \<longrightarrow> slot_dir (th_slot g) = DirIn \<longrightarrow> th_pipe h = th_pipe g \<longrightarrow>
             th_session h = th_session g))"

text \<open>Every attached slot has a half whose teardown has not yet released it.\<close>

definition manned :: "tty_state \<Rightarrow> bool" where
  "manned t \<longleftrightarrow>
     (\<forall>i < tr_next (tt_reg t). \<forall>slot. ts_attached (tr_heap (tt_reg t) i) slot \<longrightarrow>
        (\<exists>k h ph. tt_halves t k = Some (h, ph) \<and> ph \<noteq> Closing \<and> th_session h = i \<and> th_slot h = slot))"

definition tty_ok :: "tty_state \<Rightarrow> bool" where
  "tty_ok t \<longleftrightarrow> registry_ok (tt_reg t) \<and> pipes_ok (tt_reg t) \<and> halves_ok t \<and> slots_ok t \<and> manned t"

section \<open>Its preservation\<close>

lemma attached_count_0: "attached_count s = 0 \<longleftrightarrow> (\<forall>slot. \<not> ts_attached s slot)"
proof -
  have "slot \<in> set tty_slots" for slot by (cases slot) (simp_all add: tty_slots_def)
  then show ?thesis by (auto simp: attached_count_def filter_empty_conv)
qed

lemma tty_ok_start: "tty_ok tty_start"
  by (simp add: tty_ok_def registry_ok_def pipes_ok_def halves_ok_def slots_ok_def manned_def
      tty_start_def new_tty_registry_def)

lemma close_pipe_frame [simp]:
  "tr_sessions (close_pipe p r) = tr_sessions r" "tr_heap (close_pipe p r) = tr_heap r"
  "tr_next (close_pipe p r) = tr_next r" "tr_next_pipe (close_pipe p r) = tr_next_pipe r"
  by (simp_all add: close_pipe_def)

lemma session_close_frame:
  "tr_sessions (session_close i r) = tr_sessions r" "tr_next (session_close i r) = tr_next r"
  "tr_next_pipe (session_close i r) = tr_next_pipe r"
  "ts_job (tr_heap (session_close i r) j) = ts_job (tr_heap r j)"
  "ts_out (tr_heap (session_close i r) j) = ts_out (tr_heap r j)"
  "ts_in (tr_heap (session_close i r) j) = ts_in (tr_heap r j)"
  "ts_attached (tr_heap (session_close i r) j) = ts_attached (tr_heap r j)"
  "ts_dead (tr_heap (session_close i r) j) = (ts_dead (tr_heap r j) \<or> i = j)"
  by (auto simp: session_close_def Let_def)

lemma tty_forget_frame:
  "tr_heap (tty_forget i r) = tr_heap r" "tr_next (tty_forget i r) = tr_next r"
  "tr_next_pipe (tty_forget i r) = tr_next_pipe r"
  "tr_sessions (tty_forget i r) job = Some j \<longleftrightarrow> tr_sessions r job = Some j \<and> \<not> (i = j \<and> ts_job (tr_heap r i) = job)"
  by (auto simp: tty_forget_def Let_def)

lemma attach_slot_frame:
  "tr_sessions (attach_slot i slot b r) = tr_sessions r" "tr_next (attach_slot i slot b r) = tr_next r"
  "tr_next_pipe (attach_slot i slot b r) = tr_next_pipe r"
  "ts_job (tr_heap (attach_slot i slot b r) j) = ts_job (tr_heap r j)"
  "ts_out (tr_heap (attach_slot i slot b r) j) = ts_out (tr_heap r j)"
  "ts_in (tr_heap (attach_slot i slot b r) j) = ts_in (tr_heap r j)"
  "ts_dead (tr_heap (attach_slot i slot b r) j) = ts_dead (tr_heap r j)"
  "ts_attached (tr_heap (attach_slot i slot b r) j) sl
     = (if j = i \<and> sl = slot then b else ts_attached (tr_heap r j) sl)"
  by (auto simp: attach_slot_def Let_def)

text \<open>What the invariant depends on: everything but the closed pipes and the dead sessions.\<close>

lemma bound_ok_cong:
  assumes "\<And>j. ts_out (tr_heap r' j) = ts_out (tr_heap r j)" "\<And>j. ts_in (tr_heap r' j) = ts_in (tr_heap r j)"
    "\<And>j. ts_job (tr_heap r' j) = ts_job (tr_heap r j)"
    "tr_next r' = tr_next r" "tr_next_pipe r' = tr_next_pipe r"
  shows "bound_ok r' h = bound_ok r h" "pipes_ok r' = pipes_ok r"
  by (simp_all add: bound_ok_def pipes_ok_def assms cong: tty_dir.case_cong)

text \<open>A half moves on, and the registry changes its map, its attachments and its dead sessions.\<close>

lemma tty_ok_moves:
  assumes ok: "tty_ok t" and k: "tt_halves t k = Some (h, ph)"
    and same: "\<And>j. ts_out (tr_heap r j) = ts_out (tr_heap (tt_reg t) j)" "\<And>j. ts_in (tr_heap r j) = ts_in (tr_heap (tt_reg t) j)"
      "\<And>j. ts_job (tr_heap r j) = ts_job (tr_heap (tt_reg t) j)"
      "tr_next r = tr_next (tt_reg t)" "tr_next_pipe r = tr_next_pipe (tt_reg t)"
    and att: "\<And>j slot. ts_attached (tr_heap r j) slot
       = (ts_attached (tr_heap (tt_reg t) j) slot
          \<and> \<not> (x \<notin> {Some (h, Streaming), Some (h, Discarding), Some (h, Releasing)} \<and> ph \<noteq> Closing
                \<and> j = th_session h \<and> slot = th_slot h))"
    and reg: "registry_ok r" "\<And>job i. tr_sessions r job = Some i \<Longrightarrow> tr_sessions (tt_reg t) job = Some i"
    and x: "x = None \<or> (\<exists>qh. x = Some (h, qh)
       \<and> (qh = Discarding \<or> qh = Closing \<longrightarrow> tr_sessions r (ts_job (tr_heap r (th_session h))) \<noteq> Some (th_session h))
       \<and> (ph = Closing \<longrightarrow> qh = Closing))"
  shows "tty_ok (moves k x r t)"
proof -
  have ok': "pipes_ok (tt_reg t)" "halves_ok t" "slots_ok t" "manned t" using ok by (auto simp: tty_ok_def)
  note cong = bound_ok_cong [of r "tt_reg t", OF same]
  have old: "\<exists>qh'. tt_halves t l = Some (g, qh') \<and> (qh' = Closing \<longrightarrow> qh = Closing)
      \<and> (l = k \<longrightarrow> g = h \<and> x = Some (h, qh)) \<and> (l \<noteq> k \<longrightarrow> qh' = qh)"
    if "tt_halves (moves k x r t) l = Some (g, qh)" for l g qh
    using that k x by (cases "l = k") (auto simp: moves_def)
  have "halves_ok (moves k x r t)"
    unfolding halves_ok_def
  proof (intro allI impI)
    fix l g qh assume l: "tt_halves (moves k x r t) l = Some (g, qh)"
    then obtain qh' where o: "tt_halves t l = Some (g, qh')" "qh' = Closing \<Longrightarrow> qh = Closing"
      "l = k \<Longrightarrow> g = h \<and> x = Some (h, qh)" "l \<noteq> k \<Longrightarrow> qh' = qh" using old by blast
    have b: "l < tt_next t" "bound_ok (tt_reg t) g"
      "qh' \<noteq> Closing \<Longrightarrow> ts_attached (tr_heap (tt_reg t) (th_session g)) (th_slot g)"
      "qh' = Discarding \<or> qh' = Closing \<Longrightarrow>
         tr_sessions (tt_reg t) (ts_job (tr_heap (tt_reg t) (th_session g))) \<noteq> Some (th_session g)"
      using ok'(2) o(1) unfolding halves_ok_def by blast+
    have "ts_attached (tr_heap r (th_session g)) (th_slot g)" if "qh \<noteq> Closing"
    proof (cases "l = k")
      case True
      with o(3) have "x = Some (h, qh)" "g = h" by auto
      with that b(3) o(2) show ?thesis by (cases qh) (auto simp: att)
    next
      case False
      with o(4) that have q: "qh' \<noteq> Closing" by simp
      have "(th_session h, th_slot h) \<noteq> (th_session g, th_slot g)" if "ph \<noteq> Closing"
        using ok'(3) k o(1) q that False unfolding slots_ok_def by metis
      with b(3) [OF q] show ?thesis by (auto simp: att)
    qed
    moreover have "tr_sessions r (ts_job (tr_heap r (th_session g))) \<noteq> Some (th_session g)"
      if "qh = Discarding \<or> qh = Closing"
    proof (cases "l = k")
      case True
      with o(3) x that show ?thesis by auto
    next
      case False
      with o(4) b(4) that reg(2) same(3) show ?thesis by metis
    qed
    ultimately show "l < tt_next (moves k x r t) \<and> bound_ok (tt_reg (moves k x r t)) g
        \<and> (qh \<noteq> Closing \<longrightarrow> ts_attached (tr_heap (tt_reg (moves k x r t)) (th_session g)) (th_slot g))
        \<and> (qh = Discarding \<or> qh = Closing \<longrightarrow>
             tr_sessions (tt_reg (moves k x r t)) (ts_job (tr_heap (tt_reg (moves k x r t)) (th_session g))) \<noteq> Some (th_session g))"
      using b(1,2) by (simp add: moves_def cong)
  qed
  moreover have "slots_ok (moves k x r t)"
    unfolding slots_ok_def
  proof (intro allI impI)
    fix l m g1 g2 p1 p2
    assume "tt_halves (moves k x r t) l = Some (g1, p1)" "tt_halves (moves k x r t) m = Some (g2, p2)"
    then obtain q1 q2 where "tt_halves t l = Some (g1, q1)" "q1 = Closing \<longrightarrow> p1 = Closing"
      "tt_halves t m = Some (g2, q2)" "q2 = Closing \<longrightarrow> p2 = Closing" using old by meson
    with ok'(3) show "(l \<noteq> m \<longrightarrow> p1 \<noteq> Closing \<longrightarrow> p2 \<noteq> Closing \<longrightarrow> (th_session g1, th_slot g1) \<noteq> (th_session g2, th_slot g2))
        \<and> (slot_dir (th_slot g1) = DirIn \<longrightarrow> slot_dir (th_slot g2) = DirIn \<longrightarrow> th_pipe g1 = th_pipe g2 \<longrightarrow>
             th_session g1 = th_session g2)"
      unfolding slots_ok_def by blast
  qed
  moreover have "manned (moves k x r t)"
    unfolding manned_def
  proof (intro allI impI)
    fix i slot
    assume i: "i < tr_next (tt_reg (moves k x r t))" "ts_attached (tr_heap (tt_reg (moves k x r t)) i) slot"
    then have a: "ts_attached (tr_heap (tt_reg t) i) slot"
      "\<not> (x \<notin> {Some (h, Streaming), Some (h, Discarding), Some (h, Releasing)} \<and> ph \<noteq> Closing
          \<and> i = th_session h \<and> slot = th_slot h)" "i < tr_next (tt_reg t)"
      by (simp_all add: moves_def att same)
    then obtain l g qh where l: "tt_halves t l = Some (g, qh)" "qh \<noteq> Closing" "th_session g = i" "th_slot g = slot"
      using ok'(4) unfolding manned_def by blast
    show "\<exists>l g qh. tt_halves (moves k x r t) l = Some (g, qh) \<and> qh \<noteq> Closing \<and> th_session g = i \<and> th_slot g = slot"
    proof (cases "l = k")
      case True
      with l k a(2) have "x \<in> {Some (h, Streaming), Some (h, Discarding), Some (h, Releasing)}" by auto
      with True l k show ?thesis by (auto simp: moves_def)
    next
      case False
      with l show ?thesis by (auto simp: moves_def)
    qed
  qed
  ultimately show ?thesis using reg(1) ok'(1) by (simp add: tty_ok_def moves_def cong)
qed

lemma registry_ok_close [simp]: "registry_ok (close_pipe p r) = registry_ok r"
  by (simp add: registry_ok_def)

lemma tty_ok_close_pipe: "tty_ok (t\<lparr>tt_reg := close_pipe p (tt_reg t)\<rparr>) = tty_ok t"
  by (simp add: tty_ok_def pipes_ok_def halves_ok_def slots_ok_def manned_def bound_ok_def cong: tty_dir.case_cong)

lemma registry_ok_forget: "registry_ok r \<Longrightarrow> registry_ok (tty_forget i r)"
  by (auto simp: registry_ok_def tty_forget_frame)

lemma registry_ok_session_close:
  assumes "registry_ok r" and "tr_sessions r (ts_job (tr_heap r i)) \<noteq> Some i"
  shows "registry_ok (session_close i r)"
  using assms by (auto simp: registry_ok_def session_close_frame)

text \<open>A release keeps the registered sessions attended: an idle one is forgotten.\<close>

lemma tty_release_facts:
  assumes "tty_release i slot r = (idle, r')" and "registry_ok r"
  shows "registry_ok r'"
    and "\<And>j. ts_out (tr_heap r' j) = ts_out (tr_heap r j)" and "\<And>j. ts_in (tr_heap r' j) = ts_in (tr_heap r j)"
    and "\<And>j. ts_job (tr_heap r' j) = ts_job (tr_heap r j)"
    and "tr_next r' = tr_next r" and "tr_next_pipe r' = tr_next_pipe r"
    and "\<And>j sl. ts_attached (tr_heap r' j) sl = (ts_attached (tr_heap r j) sl \<and> \<not> (j = i \<and> sl = slot))"
    and "\<And>job j. tr_sessions r' job = Some j \<Longrightarrow> tr_sessions r job = Some j"
    and "idle \<Longrightarrow> tr_sessions r' (ts_job (tr_heap r' i)) \<noteq> Some i"
proof -
  define r1 where "r1 = attach_slot i slot False r"
  have r': "idle = (attached_count (tr_heap r1 i) = 0)" "r' = (if idle then tty_forget i r1 else r1)"
    using assms(1) by (auto simp: tty_release_def Let_def r1_def)
  show "\<And>j. ts_out (tr_heap r' j) = ts_out (tr_heap r j)" "\<And>j. ts_in (tr_heap r' j) = ts_in (tr_heap r j)"
    "\<And>j. ts_job (tr_heap r' j) = ts_job (tr_heap r j)" "tr_next r' = tr_next r" "tr_next_pipe r' = tr_next_pipe r"
    "\<And>j sl. ts_attached (tr_heap r' j) sl = (ts_attached (tr_heap r j) sl \<and> \<not> (j = i \<and> sl = slot))"
    "\<And>job j. tr_sessions r' job = Some j \<Longrightarrow> tr_sessions r job = Some j"
    "idle \<Longrightarrow> tr_sessions r' (ts_job (tr_heap r' i)) \<noteq> Some i"
    by (auto simp: r'(2) r1_def tty_forget_frame attach_slot_frame split: if_splits)
  show "registry_ok r'"
    unfolding registry_ok_def
  proof (intro allI impI)
    fix job j assume j: "tr_sessions r' job = Some j"
    then have old: "tr_sessions r job = Some j" by (auto simp: r'(2) r1_def tty_forget_frame attach_slot_frame split: if_splits)
    with assms(2) have o: "j < tr_next r" "ts_job (tr_heap r j) = job" "\<not> ts_dead (tr_heap r j)"
      "\<exists>sl. ts_attached (tr_heap r j) sl" by (auto simp: registry_ok_def)
    have "\<exists>sl. ts_attached (tr_heap r' j) sl"
    proof (cases "j = i")
      case True
      have "\<not> idle"
      proof
        assume idle
        with j True o(2) show False by (auto simp: r'(2) r1_def tty_forget_frame attach_slot_frame)
      qed
      then show ?thesis using r' True by (auto simp: attached_count_0)
    next
      case False
      with o(4) show ?thesis by (auto simp: r'(2) r1_def tty_forget_frame attach_slot_frame)
    qed
    with o show "j < tr_next r' \<and> ts_job (tr_heap r' j) = job \<and> \<not> ts_dead (tr_heap r' j)
        \<and> (\<exists>sl. ts_attached (tr_heap r' j) sl)"
      by (auto simp: r'(2) r1_def tty_forget_frame attach_slot_frame)
  qed
qed

text \<open>An attachment: the session it joins or opens, and the pipe it gets.\<close>

lemma renew_in_frame:
  "tr_sessions (renew_in i r) = tr_sessions r" "tr_next (renew_in i r) = tr_next r"
  "tr_next_pipe (renew_in i r) = tr_next_pipe r + (if \<not> ts_dead (tr_heap r i) \<and> tr_closed r (ts_in (tr_heap r i)) then 1 else 0)"
  "j \<noteq> i \<Longrightarrow> tr_heap (renew_in i r) j = tr_heap r j"
  "ts_job (tr_heap (renew_in i r) i) = ts_job (tr_heap r i)" "ts_dead (tr_heap (renew_in i r) i) = ts_dead (tr_heap r i)"
  "ts_out (tr_heap (renew_in i r) i) = ts_out (tr_heap r i)"
  "ts_attached (tr_heap (renew_in i r) i) = ts_attached (tr_heap r i)"
  "ts_in (tr_heap (renew_in i r) i)
     = (if \<not> ts_dead (tr_heap r i) \<and> tr_closed r (ts_in (tr_heap r i)) then tr_next_pipe r else ts_in (tr_heap r i))"
  "tr_closed (renew_in i r) = tr_closed r"
  by (simp_all add: renew_in_def Let_def)

lemma tty_acquire_Some:
  assumes "tty_acquire job slot r = Some (h, r')"
  obtains r1 where "r1 = (if tr_sessions r job = None then new_tty_session job r else r)"
    "th_session h = the (tr_sessions r1 job)" "th_slot h = slot" "th_job h = job"
    "\<not> ts_attached (tr_heap r1 (th_session h)) slot"
    "r' = (if slot_dir slot = DirIn then renew_in (th_session h) (attach_slot (th_session h) slot True r1)
           else attach_slot (th_session h) slot True r1)"
    "th_pipe h = pipe_of (slot_dir slot) (tr_heap r' (th_session h))"
  using assms unfolding tty_acquire_def Let_def by (auto split: if_splits)

lemma tty_acquire_facts:
  assumes a: "tty_acquire job slot r = Some (h, r')" and reg: "registry_ok r" and pipes: "pipes_ok r"
  shows "tr_sessions r' = (tr_sessions r)(job \<mapsto> th_session h)" and "th_slot h = slot"
    and "tr_sessions r job = Some (th_session h) \<and> tr_next r' = tr_next r
       \<or> tr_sessions r job = None \<and> th_session h = tr_next r \<and> tr_next r' = tr_next r + 1"
    and "\<And>j. j \<noteq> th_session h \<Longrightarrow> tr_heap r' j = tr_heap r j"
    and "ts_job (tr_heap r' (th_session h)) = job" and "\<not> ts_dead (tr_heap r' (th_session h))"
    and "ts_attached (tr_heap r' (th_session h)) sl
       = (sl = slot \<or> th_session h < tr_next r \<and> ts_attached (tr_heap r (th_session h)) sl)"
    and "th_session h < tr_next r \<Longrightarrow> \<not> ts_attached (tr_heap r (th_session h)) slot"
    and "th_session h < tr_next r \<Longrightarrow> ts_out (tr_heap r' (th_session h)) = ts_out (tr_heap r (th_session h))"
    and "\<not> th_session h < tr_next r \<Longrightarrow> tr_next_pipe r \<le> ts_out (tr_heap r' (th_session h))"
    and "th_session h < tr_next r \<and> ts_in (tr_heap r' (th_session h)) = ts_in (tr_heap r (th_session h))
       \<or> tr_next_pipe r \<le> ts_in (tr_heap r' (th_session h))"
    and "tr_next_pipe r \<le> tr_next_pipe r'" and "ts_out (tr_heap r' (th_session h)) < tr_next_pipe r'"
    and "ts_in (tr_heap r' (th_session h)) < tr_next_pipe r'"
    and "ts_out (tr_heap r' (th_session h)) \<noteq> ts_in (tr_heap r' (th_session h))"
    and "th_pipe h = pipe_of (slot_dir slot) (tr_heap r' (th_session h))"
    and "slot_dir slot = DirIn \<Longrightarrow> tr_closed r (th_pipe h) \<Longrightarrow> tr_next_pipe r \<le> th_pipe h"
    and "th_job h = job" and "tr_closed r' = tr_closed r"
proof -
  obtain r1 where r1: "r1 = (if tr_sessions r job = None then new_tty_session job r else r)"
    and h: "th_session h = the (tr_sessions r1 job)" "th_slot h = slot" "th_job h = job"
    and free: "\<not> ts_attached (tr_heap r1 (th_session h)) slot"
    and r': "r' = (if slot_dir slot = DirIn then renew_in (th_session h) (attach_slot (th_session h) slot True r1)
           else attach_slot (th_session h) slot True r1)"
    and pipe: "th_pipe h = pipe_of (slot_dir slot) (tr_heap r' (th_session h))"
    by (rule tty_acquire_Some [OF a])
  define i where "i = th_session h"
  define s0 where "s0 = tr_heap r1 i"
  have known: "j < tr_next r \<and> ts_job (tr_heap r j) = job \<and> \<not> ts_dead (tr_heap r j)
      \<and> ts_out (tr_heap r j) < tr_next_pipe r \<and> ts_in (tr_heap r j) < tr_next_pipe r
      \<and> ts_out (tr_heap r j) \<noteq> ts_in (tr_heap r j)" if "tr_sessions r job = Some j" for j
    using that reg pipes by (auto simp: registry_ok_def pipes_ok_def)
  have base: "tr_sessions r1 = (tr_sessions r)(job \<mapsto> i)"
      "tr_sessions r job = Some i \<and> tr_next r1 = tr_next r \<and> i < tr_next r \<and> s0 = tr_heap r i
         \<and> tr_next_pipe r1 = tr_next_pipe r \<and> ts_out s0 < tr_next_pipe r \<and> ts_in s0 < tr_next_pipe r
       \<or> tr_sessions r job = None \<and> i = tr_next r \<and> tr_next r1 = tr_next r + 1 \<and> ts_attached s0 = (\<lambda>s. False)
         \<and> tr_next_pipe r1 = tr_next_pipe r + 2 \<and> ts_out s0 = tr_next_pipe r \<and> ts_in s0 = tr_next_pipe r + 1"
      "\<And>j. j \<noteq> i \<Longrightarrow> tr_heap r1 j = tr_heap r j" "ts_job s0 = job" "\<not> ts_dead s0" "ts_out s0 \<noteq> ts_in s0"
      "tr_closed r1 = tr_closed r"
    using known by (cases "tr_sessions r job"; force simp: r1 i_def h s0_def new_tty_session_def)+
  define again where "again \<longleftrightarrow> slot_dir slot = DirIn \<and> tr_closed r (ts_in s0)"
  have at: "tr_heap (attach_slot i slot True r1) i = s0\<lparr>ts_attached := (ts_attached s0)(slot := True)\<rparr>"
    "\<And>j. j \<noteq> i \<Longrightarrow> tr_heap (attach_slot i slot True r1) j = tr_heap r1 j"
    "tr_closed (attach_slot i slot True r1) = tr_closed r1"
    by (simp_all add: attach_slot_def Let_def s0_def)
  have final: "tr_sessions r' = (tr_sessions r)(job \<mapsto> i)" "tr_next r' = tr_next r1"
      "\<And>j. j \<noteq> i \<Longrightarrow> tr_heap r' j = tr_heap r j"
      "ts_job (tr_heap r' i) = job" "\<not> ts_dead (tr_heap r' i)" "ts_out (tr_heap r' i) = ts_out s0"
      "ts_attached (tr_heap r' i) = (ts_attached s0)(slot := True)"
      "ts_in (tr_heap r' i) = (if again then tr_next_pipe r1 else ts_in s0)"
      "tr_next_pipe r' = tr_next_pipe r1 + (if again then 1 else 0)"
    using base(1,3-5,7) unfolding r' again_def i_def [symmetric]
    by (simp_all add: renew_in_frame attach_slot_frame at)
  show "tr_sessions r' = (tr_sessions r)(job \<mapsto> th_session h)" "th_slot h = slot"
    "\<And>j. j \<noteq> th_session h \<Longrightarrow> tr_heap r' j = tr_heap r j"
    "ts_job (tr_heap r' (th_session h)) = job" "\<not> ts_dead (tr_heap r' (th_session h))"
    "th_pipe h = pipe_of (slot_dir slot) (tr_heap r' (th_session h))"
    using final h(2) pipe by (simp_all add: i_def)
  show "tr_sessions r job = Some (th_session h) \<and> tr_next r' = tr_next r
       \<or> tr_sessions r job = None \<and> th_session h = tr_next r \<and> tr_next r' = tr_next r + 1"
    "ts_attached (tr_heap r' (th_session h)) sl
       = (sl = slot \<or> th_session h < tr_next r \<and> ts_attached (tr_heap r (th_session h)) sl)"
    "th_session h < tr_next r \<Longrightarrow> \<not> ts_attached (tr_heap r (th_session h)) slot"
    "th_session h < tr_next r \<Longrightarrow> ts_out (tr_heap r' (th_session h)) = ts_out (tr_heap r (th_session h))"
    "\<not> th_session h < tr_next r \<Longrightarrow> tr_next_pipe r \<le> ts_out (tr_heap r' (th_session h))"
    "th_session h < tr_next r \<and> ts_in (tr_heap r' (th_session h)) = ts_in (tr_heap r (th_session h))
       \<or> tr_next_pipe r \<le> ts_in (tr_heap r' (th_session h))"
    "tr_next_pipe r \<le> tr_next_pipe r'" "ts_out (tr_heap r' (th_session h)) < tr_next_pipe r'"
    "ts_in (tr_heap r' (th_session h)) < tr_next_pipe r'"
    "ts_out (tr_heap r' (th_session h)) \<noteq> ts_in (tr_heap r' (th_session h))"
    using base(2,6) final free unfolding i_def [symmetric] s0_def [symmetric]
    by (elim disjE conjE; auto)+
  show "tr_next_pipe r \<le> th_pipe h" if "slot_dir slot = DirIn" "tr_closed r (th_pipe h)"
    using base(2) final that pipe unfolding i_def [symmetric]
    by (auto simp: pipe_of_def again_def split: if_splits)
  show "th_job h = job" by (rule h(3))
  show "tr_closed r' = tr_closed r"
    using base(7) unfolding r' i_def [symmetric] by (simp add: renew_in_frame at)
qed

lemma tty_ok_attach:
  assumes ok: "tty_ok t" and a: "tty_acquire job slot (tt_reg t) = Some (h, r)"
  shows "tty_ok (t\<lparr>tt_reg := r, tt_halves := (tt_halves t)(tt_next t \<mapsto> (h, Streaming)), tt_next := tt_next t + 1\<rparr>)"
    (is "tty_ok ?t")
proof -
  let ?r = "tt_reg t" and ?i = "th_session h"
  have ok': "registry_ok ?r" "pipes_ok ?r" "halves_ok t" "slots_ok t" "manned t" using ok by (auto simp: tty_ok_def)
  note f = tty_acquire_facts [OF a ok'(1,2)]
  have nxt: "j < tr_next r \<longleftrightarrow> j < tr_next ?r \<or> j = ?i" for j
    using f(3) ok'(1) by (auto simp: registry_ok_def)
  have old_pipes: "ts_out (tr_heap ?r j) < tr_next_pipe ?r" "ts_in (tr_heap ?r j) < tr_next_pipe ?r"
    if "j < tr_next ?r" for j using ok'(2) that by (auto simp: pipes_ok_def)
  have out': "ts_out (tr_heap r j) = ts_out (tr_heap ?r j)" if "j < tr_next ?r" for j
    using that f(4) f(9) by (cases "j = ?i") auto
  have in': "ts_in (tr_heap r j) = ts_in (tr_heap ?r j) \<or> j = ?i \<and> tr_next_pipe ?r \<le> ts_in (tr_heap r j)"
    if "j < tr_next ?r" for j
    using that f(4) f(11) by (cases "j = ?i") auto
  have fresh: "tr_next_pipe ?r \<le> ts_out (tr_heap r ?i)" "tr_next_pipe ?r \<le> ts_in (tr_heap r ?i)"
    if "\<not> ?i < tr_next ?r" using that f(10,11) by auto
  have "registry_ok r"
    unfolding registry_ok_def
  proof (intro allI impI)
    fix job' j assume "tr_sessions r job' = Some j"
    then consider "job' = job" "j = ?i" | "job' \<noteq> job" "tr_sessions ?r job' = Some j"
      using f(1) by (auto split: if_splits)
    then show "j < tr_next r \<and> ts_job (tr_heap r j) = job' \<and> \<not> ts_dead (tr_heap r j) \<and> (\<exists>slot. ts_attached (tr_heap r j) slot)"
    proof cases
      case 1
      with f(5-7) nxt show ?thesis by auto
    next
      case 2
      then have o: "j < tr_next ?r" "ts_job (tr_heap ?r j) = job'" "\<not> ts_dead (tr_heap ?r j)"
        "\<exists>slot. ts_attached (tr_heap ?r j) slot" using ok'(1) by (auto simp: registry_ok_def)
      have "j \<noteq> ?i"
      proof
        assume "j = ?i"
        with o(1) f(3) have "tr_sessions ?r job = Some ?i" by auto
        then have "ts_job (tr_heap ?r ?i) = job" using ok'(1) by (auto simp: registry_ok_def)
        with o(2) \<open>j = ?i\<close> 2(1) show False by simp
      qed
      with o f(4) nxt show ?thesis by simp
    qed
  qed
  moreover have "pipes_ok r"
    unfolding pipes_ok_def
  proof (intro conjI allI impI)
    fix j assume "j < tr_next r"
    then have "j < tr_next ?r \<and> j \<noteq> ?i \<or> j = ?i" using nxt by auto
    then show "ts_out (tr_heap r j) < tr_next_pipe r" "ts_in (tr_heap r j) < tr_next_pipe r"
      using old_pipes [of j] f(4,12,13,14) by auto
  next
    fix j k assume jk: "j < tr_next r" "k < tr_next r"
    have old: "ts_out (tr_heap ?r x) \<noteq> ts_in (tr_heap ?r y)" "x \<noteq> y \<Longrightarrow> ts_out (tr_heap ?r x) \<noteq> ts_out (tr_heap ?r y)"
      "x \<noteq> y \<Longrightarrow> ts_in (tr_heap ?r x) \<noteq> ts_in (tr_heap ?r y)" if "x < tr_next ?r" "y < tr_next ?r" for x y
      using ok'(2) that unfolding pipes_ok_def by auto
    have o: "ts_out (tr_heap r x) = ts_out (tr_heap ?r x) \<and> ts_out (tr_heap r x) < tr_next_pipe ?r"
      if "x < tr_next ?r" for x
      using out' [OF that] old_pipes(1) [OF that] by simp
    have n: "ts_in (tr_heap r x) = ts_in (tr_heap ?r x) \<and> ts_in (tr_heap r x) < tr_next_pipe ?r
        \<or> x = ?i \<and> tr_next_pipe ?r \<le> ts_in (tr_heap r x)" if "x < tr_next ?r" for x
      using in' [OF that] old_pipes(2) [OF that] by linarith
    have new: "x = ?i \<and> tr_next_pipe ?r \<le> ts_out (tr_heap r x) \<and> tr_next_pipe ?r \<le> ts_in (tr_heap r x)"
      if "x < tr_next r" "\<not> x < tr_next ?r" for x
      using that nxt [of x] fresh by simp
    show "ts_out (tr_heap r j) \<noteq> ts_in (tr_heap r k)"
    proof (cases "j < tr_next ?r")
      case True
      note oj = o [OF True]
      show ?thesis
      proof (cases "k < tr_next ?r")
        case k: True
        from n [OF k] oj old(1) [OF True k] show ?thesis by linarith
      next
        case False
        from new [OF jk(2) False] oj show ?thesis by linarith
      qed
    next
      case False
      note nj = new [OF jk(1) False]
      show ?thesis
      proof (cases "k < tr_next ?r")
        case True
        from n [OF True] have "ts_in (tr_heap r k) < tr_next_pipe ?r" using nj False True by auto
        with nj show ?thesis by linarith
      next
        case k: False
        from new [OF jk(2) k] nj f(15) show ?thesis by simp
      qed
    qed
    assume jk': "j \<noteq> k"
    show "ts_out (tr_heap r j) \<noteq> ts_out (tr_heap r k)"
    proof (cases "j < tr_next ?r \<and> k < tr_next ?r")
      case True
      with o [of j] o [of k] old(2) [of j k] jk' show ?thesis by simp
    next
      case False
      with jk jk' nxt consider "j < tr_next ?r" "\<not> k < tr_next ?r" | "\<not> j < tr_next ?r" "k < tr_next ?r" by auto
      then show ?thesis
      proof cases
        case 1
        from o [OF 1(1)] new [OF jk(2) 1(2)] show ?thesis by linarith
      next
        case 2
        from o [OF 2(2)] new [OF jk(1) 2(1)] show ?thesis by linarith
      qed
    qed
    show "ts_in (tr_heap r j) \<noteq> ts_in (tr_heap r k)"
    proof (cases "j < tr_next ?r \<and> k < tr_next ?r")
      case True
      with n [of j] n [of k] old(3) [of j k] jk' show ?thesis by linarith
    next
      case False
      with jk jk' nxt consider "j < tr_next ?r" "\<not> k < tr_next ?r" | "\<not> j < tr_next ?r" "k < tr_next ?r" by auto
      then show ?thesis
      proof cases
        case 1
        with n [OF 1(1)] new [OF jk(2) 1(2)] jk' show ?thesis by linarith
      next
        case 2
        with n [OF 2(2)] new [OF jk(1) 2(1)] jk' show ?thesis by linarith
      qed
    qed
  qed
  moreover have bound_new: "bound_ok r h"
  proof (cases "slot_dir slot")
    case DirOut
    then show ?thesis using f(2,5,13,16,18) nxt by (simp add: bound_ok_def pipe_of_def)
  next
    case DirIn
    then have p: "th_pipe h = ts_in (tr_heap r ?i)" using f(16) by (simp add: pipe_of_def)
    have "?i < tr_next r" using nxt by simp
    then have "ts_in (tr_heap r ?i) \<noteq> ts_out (tr_heap r j) \<and> (j \<noteq> ?i \<longrightarrow> ts_in (tr_heap r ?i) \<noteq> ts_in (tr_heap r j))"
      if "j < tr_next r" for j
      using \<open>pipes_ok r\<close> that unfolding pipes_ok_def by metis
    with p DirIn f(2,5,14,18) \<open>?i < tr_next r\<close> show ?thesis by (simp add: bound_ok_def)
  qed
  moreover have job_old: "ts_job (tr_heap r j) = ts_job (tr_heap ?r j)" if "j < tr_next ?r" for j
  proof (cases "j = ?i")
    case True
    with that f(3) have "tr_sessions ?r job = Some ?i" by auto
    then have "ts_job (tr_heap ?r ?i) = job" using ok'(1) by (auto simp: registry_ok_def)
    with True f(5) show ?thesis by simp
  qed (simp add: f(4))
  moreover have bound_old: "bound_ok r g" if g: "bound_ok ?r g" for g
  proof (cases "slot_dir (th_slot g)")
    case DirOut
    with g out' job_old nxt f(12) show ?thesis by (auto simp: bound_ok_def)
  next
    case DirIn
    have b: "th_session g < tr_next ?r" "th_pipe g < tr_next_pipe ?r"
      "ts_job (tr_heap ?r (th_session g)) = th_job g"
      "\<And>j. j < tr_next ?r \<Longrightarrow> th_pipe g \<noteq> ts_out (tr_heap ?r j) \<and> (j \<noteq> th_session g \<longrightarrow> th_pipe g \<noteq> ts_in (tr_heap ?r j))"
      using g DirIn by (auto simp: bound_ok_def)
    have "th_pipe g \<noteq> ts_out (tr_heap r j) \<and> (j \<noteq> th_session g \<longrightarrow> th_pipe g \<noteq> ts_in (tr_heap r j))"
      if "j < tr_next r" for j
    proof (cases "j < tr_next ?r")
      case True
      note b3 = b(4) [OF True]
      from in' [OF True] show ?thesis
      proof
        assume "ts_in (tr_heap r j) = ts_in (tr_heap ?r j)"
        with b3 out' [OF True] show ?thesis by simp
      next
        assume "j = ?i \<and> tr_next_pipe ?r \<le> ts_in (tr_heap r j)"
        with b3 b(2) out' [OF True] show ?thesis by auto
      qed
    next
      case False
      then have "j = ?i" using that nxt by blast
      with False fresh b(2) show ?thesis by auto
    qed
    with b(1-3) job_old [OF b(1)] nxt f(12) DirIn show ?thesis by (simp add: bound_ok_def)
  qed
  moreover have live: "k < tt_next t" "bound_ok ?r g"
      "ph \<noteq> Closing \<Longrightarrow> ts_attached (tr_heap ?r (th_session g)) (th_slot g)"
      "ph = Discarding \<or> ph = Closing \<Longrightarrow> tr_sessions ?r (ts_job (tr_heap ?r (th_session g))) \<noteq> Some (th_session g)"
    if "tt_halves t k = Some (g, ph)" for k g ph
    using ok'(3) that unfolding halves_ok_def by blast+
  have "halves_ok ?t"
    unfolding halves_ok_def
  proof (intro allI impI)
    fix k g ph assume k: "tt_halves ?t k = Some (g, ph)"
    show "k < tt_next ?t \<and> bound_ok (tt_reg ?t) g
        \<and> (ph \<noteq> Closing \<longrightarrow> ts_attached (tr_heap (tt_reg ?t) (th_session g)) (th_slot g))
        \<and> (ph = Discarding \<or> ph = Closing \<longrightarrow>
             tr_sessions (tt_reg ?t) (ts_job (tr_heap (tt_reg ?t) (th_session g))) \<noteq> Some (th_session g))"
    proof (cases "k = tt_next t")
      case True
      with k bound_new f(2,7) show ?thesis by auto
    next
      case False
      with k have k': "tt_halves t k = Some (g, ph)" by simp
      note l = live [OF k']
      have s: "th_session g < tr_next ?r" using l(2) by (simp add: bound_ok_def)
      have "ts_attached (tr_heap r (th_session g)) (th_slot g)" if "ph \<noteq> Closing"
        using l(3) [OF that] s f(4,7) by (cases "th_session g = ?i") auto
      moreover have "tr_sessions r (ts_job (tr_heap r (th_session g))) \<noteq> Some (th_session g)"
        if "ph = Discarding \<or> ph = Closing"
      proof (cases "th_session g = ?i")
        case True
        with s f(3) have "tr_sessions ?r job = Some ?i" by auto
        moreover from this have "ts_job (tr_heap ?r ?i) = job" using ok'(1) by (auto simp: registry_ok_def)
        ultimately show ?thesis using l(4) [OF that] True by simp
      next
        case False
        with l(4) [OF that] f(1,4) show ?thesis by auto
      qed
      ultimately show ?thesis using l(1,2) bound_old by simp
    qed
  qed
  moreover have "slots_ok ?t"
  proof -
    have new: "(th_session h, th_slot h) \<noteq> (th_session g, th_slot g)"
      if "tt_halves t k = Some (g, ph)" "ph \<noteq> Closing" for k g ph
      using live(2,3) [OF that(1)] that(2) f(2,8) by (auto simp: bound_ok_def)
    have pipe: "th_session h = th_session g"
      if "tt_halves t k = Some (g, ph)" "slot_dir (th_slot h) = DirIn" "slot_dir (th_slot g) = DirIn" "th_pipe h = th_pipe g"
      for k g ph
    proof -
      have "bound_ok r g" using live(2) [OF that(1)] by (rule bound_old)
      then have "?i \<noteq> th_session g \<longrightarrow> th_pipe g \<noteq> ts_in (tr_heap r ?i)" using that(3) nxt by (auto simp: bound_ok_def)
      moreover have "th_pipe h = ts_in (tr_heap r ?i)" using that(2) f(2,16) by (simp add: pipe_of_def)
      ultimately show ?thesis using that(4) by auto
    qed
    show ?thesis
      unfolding slots_ok_def
    proof (intro allI impI)
      fix k l g1 g2 p1 p2
      assume "tt_halves ?t k = Some (g1, p1)" "tt_halves ?t l = Some (g2, p2)"
      then consider "k = l" "g1 = g2" | "k \<noteq> l" "g1 = h" "tt_halves t l = Some (g2, p2)"
        | "k \<noteq> l" "g2 = h" "tt_halves t k = Some (g1, p1)"
        | "tt_halves t k = Some (g1, p1)" "tt_halves t l = Some (g2, p2)"
        by (cases "k = tt_next t"; cases "l = tt_next t") auto
      then show "(k \<noteq> l \<longrightarrow> p1 \<noteq> Closing \<longrightarrow> p2 \<noteq> Closing \<longrightarrow> (th_session g1, th_slot g1) \<noteq> (th_session g2, th_slot g2))
          \<and> (slot_dir (th_slot g1) = DirIn \<longrightarrow> slot_dir (th_slot g2) = DirIn \<longrightarrow> th_pipe g1 = th_pipe g2 \<longrightarrow>
               th_session g1 = th_session g2)"
      proof cases
        case 2
        with new pipe show ?thesis by metis
      next
        case 3
        with new pipe show ?thesis by metis
      next
        case 4
        with ok'(4) show ?thesis unfolding slots_ok_def by blast
      qed simp
    qed
  qed
  moreover have "manned ?t"
    unfolding manned_def
  proof (intro allI impI)
    fix j sl assume j: "j < tr_next (tt_reg ?t)" "ts_attached (tr_heap (tt_reg ?t) j) sl"
    show "\<exists>k g ph. tt_halves ?t k = Some (g, ph) \<and> ph \<noteq> Closing \<and> th_session g = j \<and> th_slot g = sl"
    proof (cases "j = ?i \<and> sl = slot")
      case True
      with f(2) show ?thesis by (intro exI [of _ "tt_next t"] exI [of _ h] exI [of _ Streaming]) auto
    next
      case False
      with j nxt f(4,7) have "j < tr_next ?r" "ts_attached (tr_heap ?r j) sl"
        by (cases "j = ?i"; auto)+
      then obtain k g ph where k: "tt_halves t k = Some (g, ph)" "ph \<noteq> Closing" "th_session g = j" "th_slot g = sl"
        using ok'(5) unfolding manned_def by blast
      then have "k \<noteq> tt_next t" using live(1) by blast
      with k show ?thesis by (intro exI [of _ k] exI [of _ g] exI [of _ ph]) auto
    qed
  qed
  ultimately show ?thesis by (simp add: tty_ok_def)
qed

lemma tty_step_ok:
  assumes "tty_step t l t'" and ok: "tty_ok t" shows "tty_ok t'"
  using assms(1)
proof (cases rule: tty_step.cases)
  case (ty_attach job slot h r)
  with tty_ok_attach [OF ok] show ?thesis by simp
next
  case (ty_gone k h)
  with ok show ?thesis by (simp add: tty_ok_close_pipe)
next
  case (ty_guard k h)
  with ok show ?thesis by (simp add: tty_ok_close_pipe)
next
  case (ty_end_out k h)
  have "tty_ok (moves k (Some (h, Discarding)) (tty_forget (th_session h) (tt_reg t)) t)"
    by (rule tty_ok_moves [OF ok ty_end_out(3)])
       (use ok in \<open>auto simp: tty_forget_frame tty_ok_def intro: registry_ok_forget\<close>)
  with ty_end_out show ?thesis by simp
next
  case (ty_end_in k h)
  have "tty_ok (moves k (Some (h, Releasing)) (close_pipe (th_pipe h) (tt_reg t)) t)"
    by (rule tty_ok_moves [OF ok ty_end_in(3)]) (use ok in \<open>auto simp: tty_ok_def\<close>)
  with ty_end_in show ?thesis by simp
next
  case (ty_close k h)
  then have "tr_sessions (tt_reg t) (ts_job (tr_heap (tt_reg t) (th_session h))) \<noteq> Some (th_session h)"
    using ok unfolding tty_ok_def halves_ok_def by blast
  then have "registry_ok (session_close (th_session h) (tt_reg t))"
    using ok by (intro registry_ok_session_close) (auto simp: tty_ok_def)
  then have "tty_ok (moves k (Some (h, Releasing)) (session_close (th_session h) (tt_reg t)) t)"
    by (intro tty_ok_moves [OF ok ty_close(3)]) (auto simp: session_close_frame)
  with ty_close show ?thesis by simp
next
  case (ty_release k h idle r)
  have "registry_ok (tt_reg t)" using ok by (simp add: tty_ok_def)
  note f = tty_release_facts [OF ty_release(4) this]
  have "tty_ok (moves k (if idle then Some (h, Closing) else None) r t)"
    by (rule tty_ok_moves [OF ok ty_release(3)]) (use f in auto)
  with ty_release show ?thesis by simp
next
  case (ty_last k h)
  then have "tr_sessions (tt_reg t) (ts_job (tr_heap (tt_reg t) (th_session h))) \<noteq> Some (th_session h)"
    using ok unfolding tty_ok_def halves_ok_def by blast
  then have "registry_ok (session_close (th_session h) (tt_reg t))"
    using ok by (intro registry_ok_session_close) (auto simp: tty_ok_def)
  then have "tty_ok (moves k None (session_close (th_session h) (tt_reg t)) t)"
    by (intro tty_ok_moves [OF ok ty_last(3)]) (auto simp: session_close_frame)
  with ty_last show ?thesis by simp
qed (use ok in simp_all)

interpretation tty_system: invariant_system tty_step tty_ok
  by unfold_locales (rule tty_step_ok)

text \<open>Halves that share a pipe are the two ends of one direction of one session.\<close>

lemma shared_pipe:
  assumes ok: "tty_ok t" and k: "tt_halves t k = Some (g, ph)" and l: "tt_halves t l = Some (h, qh)"
    and p: "th_pipe g = th_pipe h"
  shows "th_session g = th_session h \<and> slot_dir (th_slot g) = slot_dir (th_slot h)"
proof -
  have pipes: "pipes_ok (tt_reg t)" and slots: "slots_ok t" using ok by (auto simp: tty_ok_def)
  have b: "bound_ok (tt_reg t) g" "bound_ok (tt_reg t) h"
    using ok k l unfolding tty_ok_def halves_ok_def by blast+
  have out: "th_pipe x = ts_out (tr_heap (tt_reg t) (th_session x)) \<and> th_session x < tr_next (tt_reg t)"
    if "bound_ok (tt_reg t) x" "slot_dir (th_slot x) = DirOut" for x
    using that by (simp add: bound_ok_def)
  have ino: "th_pipe x \<noteq> ts_out (tr_heap (tt_reg t) i)"
    if "bound_ok (tt_reg t) x" "slot_dir (th_slot x) = DirIn" "i < tr_next (tt_reg t)" for x i
    using that by (simp add: bound_ok_def)
  show ?thesis
  proof (cases "slot_dir (th_slot g)"; cases "slot_dir (th_slot h)")
    assume "slot_dir (th_slot g) = DirOut" "slot_dir (th_slot h) = DirOut"
    moreover from this have "th_session g = th_session h"
      using out [OF b(1)] out [OF b(2)] p pipes unfolding pipes_ok_def by metis
    ultimately show ?thesis by simp
  next
    assume "slot_dir (th_slot g) = DirIn" "slot_dir (th_slot h) = DirIn"
    moreover from this have "th_session g = th_session h" using slots k l p unfolding slots_ok_def by blast
    ultimately show ?thesis by simp
  next
    assume "slot_dir (th_slot g) = DirOut" "slot_dir (th_slot h) = DirIn"
    with out [OF b(1)] ino [OF b(2)] p show ?thesis by metis
  next
    assume "slot_dir (th_slot g) = DirIn" "slot_dir (th_slot h) = DirOut"
    with out [OF b(2)] ino [OF b(1)] p show ?thesis by metis
  qed
qed

section \<open>Closed pipes\<close>

definition closed_ok :: "tty_registry \<Rightarrow> bool" where
  "closed_ok r \<longleftrightarrow> (\<forall>p. tr_closed r p \<longrightarrow> p < tr_next_pipe r)"

lemma closed_ok_close_pipe: "closed_ok r \<Longrightarrow> p < tr_next_pipe r \<Longrightarrow> closed_ok (close_pipe p r)"
  by (simp add: closed_ok_def close_pipe_def)

lemma closed_ok_session_close:
  assumes "closed_ok r" and "pipes_ok r" and "i < tr_next r" shows "closed_ok (session_close i r)"
  using assms by (auto simp: session_close_def Let_def closed_ok_def close_pipe_def pipes_ok_def)

lemma tty_step_closed_ok:
  assumes "tty_step t l t'" and ok: "tty_ok t" and c: "closed_ok (tt_reg t)"
  shows "closed_ok (tt_reg t')"
proof -
  have b: "bound_ok (tt_reg t) h" if "tt_halves t k = Some (h, ph)" for k h ph
    using ok that unfolding tty_ok_def halves_ok_def by blast
  have ok': "registry_ok (tt_reg t)" "pipes_ok (tt_reg t)" using ok by (auto simp: tty_ok_def)
  from assms(1) show ?thesis
  proof (cases rule: tty_step.cases)
    case (ty_attach job slot h r)
    from tty_acquire_facts(12,19) [OF ty_attach(3) ok'] c show ?thesis
      unfolding ty_attach closed_ok_def by fastforce
  next
    case (ty_end_out k h)
    with c show ?thesis by (simp add: moves_def closed_ok_def tty_forget_def Let_def)
  next
    case (ty_release k h idle r)
    with c show ?thesis
      by (auto simp: moves_def closed_ok_def tty_release_def Let_def tty_forget_def attach_slot_def split: if_splits)
  next
    case (ty_close k h)
    with b [OF ty_close(3)] ok' c show ?thesis by (simp add: moves_def closed_ok_session_close bound_ok_def)
  next
    case (ty_last k h)
    with b [OF ty_last(3)] ok' c show ?thesis by (simp add: moves_def closed_ok_session_close bound_ok_def)
  qed (use b c in \<open>auto simp: moves_def bound_ok_def intro!: closed_ok_close_pipe\<close>)
qed

lemma tty_run_closed_ok:
  assumes "run tty_step tty_start ls t" shows "closed_ok (tt_reg t)"
proof (rule tty_system.run_stable [OF assms tty_ok_start, where Q = "\<lambda>t. closed_ok (tt_reg t)"])
  show "closed_ok (tt_reg tty_start)" by (simp add: closed_ok_def tty_start_def new_tty_registry_def)
qed (rule tty_step_closed_ok)

end
