(* ===== verification/TTY_Claims.thy ===== *)
theory TTY_Claims
  imports TTY
begin

text \<open>
  The properties of the stdio relay: whose bytes reach whom, which session an attachment
  finds, and that nothing stays behind.
\<close>

text \<open>
  C15. Terminals are never spliced. Whenever a half hands bytes to another, the two were opened
  for the same job and share its session, one is the worker's end and the other the client's
  end of the same direction, and no further half streams at either end, under every
  interleaving of attachments, dropped connections, timeouts and teardowns.
\<close>
theorem terminals_not_spliced:
  assumes "run tty_step tty_start ls t" and "tty_step t (TtyRelay k l) t'"
  shows "\<exists>w r. tt_halves t k = Some (w, Streaming) \<and> tt_halves t l = Some (r, Streaming)
    \<and> th_job w = th_job r \<and> th_session w = th_session r
    \<and> (th_slot w, th_slot r) \<in> {(SlotWorkerOut, SlotClientOut), (SlotClientIn, SlotWorkerIn)}
    \<and> (\<forall>m h. tt_halves t m = Some (h, Streaming) \<longrightarrow> th_session h = th_session w \<longrightarrow>
          (th_slot h = th_slot w \<longrightarrow> m = k) \<and> (th_slot h = th_slot r \<longrightarrow> m = l))"
proof -
  have ok: "tty_ok t" by (rule tty_system.run_inv [OF assms(1) tty_ok_start])
  from assms(2) obtain w r where h: "tt_halves t k = Some (w, Streaming)" "tt_halves t l = Some (r, Streaming)"
    "th_slot w \<in> {SlotWorkerOut, SlotClientIn}" "th_slot r \<in> {SlotClientOut, SlotWorkerIn}" "th_pipe w = th_pipe r"
    by (cases rule: tty_step.cases) auto
  note same = shared_pipe [OF ok h(1,2,5)]
  have "bound_ok (tt_reg t) w" "bound_ok (tt_reg t) r"
    using ok h(1,2) unfolding tty_ok_def halves_ok_def by blast+
  then have "th_job w = th_job r" using same by (simp add: bound_ok_def)
  moreover have "(th_slot w, th_slot r) \<in> {(SlotWorkerOut, SlotClientOut), (SlotClientIn, SlotWorkerIn)}"
    using same h(3,4) by auto
  moreover have "m = n"
    if "tt_halves t m = Some (g, Streaming)" "tt_halves t n = Some (x, Streaming)" "th_session g = th_session x" "th_slot g = th_slot x"
    for m n g x
    using ok that unfolding tty_ok_def slots_ok_def by (metis half_phase.distinct(5))
  ultimately show ?thesis using h(1,2) same by (intro exI [of _ w] exI [of _ r]) auto
qed

definition ex_tty :: tty_state where
  "ex_tty = \<lparr>tt_reg = snd (the (tty_acquire ''j'' SlotClientOut (snd (the (tty_acquire ''j'' SlotWorkerOut new_tty_registry))))),
     tt_halves = [0 \<mapsto> (\<lparr>th_job = ''j'', th_session = 0, th_slot = SlotWorkerOut, th_pipe = 0\<rparr>, Streaming),
                  1 \<mapsto> (\<lparr>th_job = ''j'', th_session = 0, th_slot = SlotClientOut, th_pipe = 0\<rparr>, Streaming)],
     tt_next = 2\<rparr>"

lemmas tty_eval = tty_acquire_def Let_def new_tty_session_def attach_slot_def new_tty_registry_def pipe_of_def

lemma ex_tty_run: "run tty_step tty_start [TtyAttach ''j'' SlotWorkerOut, TtyAttach ''j'' SlotClientOut] ex_tty"
proof -
  let ?h = "\<lambda>sl. \<lparr>th_job = ''j'', th_session = 0, th_slot = sl, th_pipe = 0\<rparr>"
  let ?r1 = "snd (the (tty_acquire ''j'' SlotWorkerOut new_tty_registry))"
  let ?t1 = "\<lparr>tt_reg = ?r1, tt_halves = [0 \<mapsto> (?h SlotWorkerOut, Streaming)], tt_next = 1\<rparr>"
  have "tty_acquire ''j'' SlotWorkerOut (tt_reg tty_start) = Some (?h SlotWorkerOut, ?r1)"
    by (simp add: tty_start_def tty_eval)
  from ty_attach [OF this] have 1: "tty_step tty_start (TtyAttach ''j'' SlotWorkerOut) ?t1"
    by (simp add: tty_start_def)
  have "tty_acquire ''j'' SlotClientOut (tt_reg ?t1) = Some (?h SlotClientOut, tt_reg ex_tty)"
    by (simp add: ex_tty_def tty_eval)
  from ty_attach [OF this] have 2: "tty_step ?t1 (TtyAttach ''j'' SlotClientOut) ex_tty"
    by (simp add: ex_tty_def numeral_2_eq_2)
  show ?thesis by (intro run_cons [where stp = tty_step, OF 1] run_cons [where stp = tty_step, OF 2] run_nil)
qed

theorem terminals_not_spliced_witness:
  "\<exists>w r. tt_halves ex_tty 0 = Some (w, Streaming) \<and> tt_halves ex_tty 1 = Some (r, Streaming)
    \<and> th_job w = th_job r \<and> (th_slot w, th_slot r) \<in> {(SlotWorkerOut, SlotClientOut), (SlotClientIn, SlotWorkerIn)}"
proof -
  have "tty_step ex_tty (TtyRelay 0 1) ex_tty"
    by (rule ty_relay [of _ _ "\<lparr>th_job = ''j'', th_session = 0, th_slot = SlotWorkerOut, th_pipe = 0\<rparr>" _
          "\<lparr>th_job = ''j'', th_session = 0, th_slot = SlotClientOut, th_pipe = 0\<rparr>"])
       (simp_all add: ex_tty_def tty_eval)
  from terminals_not_spliced [OF ex_tty_run this] show ?thesis by blast
qed

text \<open>
  An attachment never joins a session that is over: the session it gets is the job's, is
  registered and alive, nobody held the slot, and an input half gets an open pipe, also when
  the previous input connection was dropped. The registry keeps only sessions to which some
  half is still attached, so it is empty when no half is left.
\<close>
theorem attachment_finds_live_session:
  assumes "run tty_step tty_start ls t" and "tty_acquire job slot (tt_reg t) = Some (h, r)"
  shows "tr_sessions r job = Some (th_session h) \<and> \<not> ts_dead (tr_heap r (th_session h))
    \<and> (\<forall>k g ph. tt_halves t k = Some (g, ph) \<longrightarrow> ph \<noteq> Closing \<longrightarrow>
          (th_session g, th_slot g) \<noteq> (th_session h, slot))
    \<and> (slot_dir slot = DirIn \<longrightarrow> \<not> tr_closed r (th_pipe h))
    \<and> (\<forall>job' i. tr_sessions (tt_reg t) job' = Some i \<longrightarrow>
          (\<exists>k g ph. tt_halves t k = Some (g, ph) \<and> th_session g = i \<and> th_job g = job'))"
proof -
  have ok: "tty_ok t" by (rule tty_system.run_inv [OF assms(1) tty_ok_start])
  then have ok': "registry_ok (tt_reg t)" "pipes_ok (tt_reg t)" "halves_ok t" "manned t" by (auto simp: tty_ok_def)
  note f = tty_acquire_facts [OF assms(2) ok'(1,2)]
  have live: "bound_ok (tt_reg t) g"
      "ph \<noteq> Closing \<Longrightarrow> ts_attached (tr_heap (tt_reg t) (th_session g)) (th_slot g)"
    if "tt_halves t k = Some (g, ph)" for k g ph
    using ok'(3) that unfolding halves_ok_def by blast+
  have "(th_session g, th_slot g) \<noteq> (th_session h, slot)" if "tt_halves t k = Some (g, ph)" "ph \<noteq> Closing" for k g ph
    using live [OF that(1)] that(2) f(8) by (auto simp: bound_ok_def)
  moreover have "\<not> tr_closed r (th_pipe h)" if "slot_dir slot = DirIn"
  proof
    assume "tr_closed r (th_pipe h)"
    then have "tr_closed (tt_reg t) (th_pipe h)" by (simp add: f(19))
    with tty_run_closed_ok [OF assms(1)] f(17) [OF that] show False by (fastforce simp: closed_ok_def)
  qed
  moreover have "\<exists>k g ph. tt_halves t k = Some (g, ph) \<and> th_session g = i \<and> th_job g = job'"
    if s: "tr_sessions (tt_reg t) job' = Some i" for job' i
  proof -
    from s ok'(1) obtain sl where "i < tr_next (tt_reg t)" "ts_job (tr_heap (tt_reg t) i) = job'"
      "ts_attached (tr_heap (tt_reg t) i) sl" unfolding registry_ok_def by blast
    moreover from this ok'(4) obtain k g ph where g: "tt_halves t k = Some (g, ph)" "th_session g = i"
      unfolding manned_def by blast
    ultimately show ?thesis using live(1) [OF g(1)] by (auto simp: bound_ok_def)
  qed
  ultimately show ?thesis using f(1,6) by simp
qed

theorem attachment_finds_live_session_witness:
  "\<exists>h r. tty_acquire ''j'' SlotClientIn (tt_reg ex_tty) = Some (h, r)
    \<and> tr_sessions r ''j'' = Some (th_session h) \<and> \<not> tr_closed r (th_pipe h)"
proof -
  obtain h r where a: "tty_acquire ''j'' SlotClientIn (tt_reg ex_tty) = Some (h, r)"
    by (simp add: ex_tty_def tty_eval renew_in_def)
  from attachment_finds_live_session [OF ex_tty_run this] a show ?thesis by auto
qed

text \<open>An output half may meet a pipe that its session's own context watcher has closed already:
  the watcher closes the pipe before the teardown unregisters the session.\<close>

lemma output_half_meets_closed_pipe:
  "\<exists>t h r. run tty_step tty_start [TtyAttach ''j'' SlotClientOut, TtyGone 0] t
     \<and> tty_acquire ''j'' SlotWorkerOut (tt_reg t) = Some (h, r) \<and> tr_closed r (th_pipe h)"
proof -
  let ?h = "\<lparr>th_job = ''j'', th_session = 0, th_slot = SlotClientOut, th_pipe = 0\<rparr>"
  let ?r1 = "snd (the (tty_acquire ''j'' SlotClientOut new_tty_registry))"
  let ?t1 = "\<lparr>tt_reg = ?r1, tt_halves = [0 \<mapsto> (?h, Streaming)], tt_next = 1\<rparr>"
  have "tty_acquire ''j'' SlotClientOut (tt_reg tty_start) = Some (?h, ?r1)"
    by (simp add: tty_start_def tty_eval)
  from ty_attach [OF this] have 1: "tty_step tty_start (TtyAttach ''j'' SlotClientOut) ?t1"
    by (simp add: tty_start_def)
  have 2: "tty_step ?t1 (TtyGone 0) (?t1\<lparr>tt_reg := close_pipe 0 ?r1\<rparr>)"
    using ty_gone [of ?t1 0 ?h] by simp
  have "run tty_step tty_start [TtyAttach ''j'' SlotClientOut, TtyGone 0] (?t1\<lparr>tt_reg := close_pipe 0 ?r1\<rparr>)"
    by (intro run_cons [where stp = tty_step, OF 1] run_cons [where stp = tty_step, OF 2] run_nil)
  moreover have "\<exists>h r. tty_acquire ''j'' SlotWorkerOut (close_pipe 0 ?r1) = Some (h, r) \<and> tr_closed r (th_pipe h)"
    by (simp add: tty_eval close_pipe_def)
  ultimately show ?thesis by auto
qed

end
