(* ===== verification/Exec.thy ===== *)
theory Exec
  imports Go_Format
begin

text \<open>
  Running one command (\<open>src/internal/worker/exec.go\<close>, \<open>watchdog.go\<close>): what \<open>Run\<close> makes of
  the operating system's answers. The process, its group and the clock are outside the program,
  so each answer the code asks for is an argument: how the select was resolved, what
  \<open>kill(2)\<close> and \<open>wait(2)\<close> returned, whether the group was alive at each probe. What the
  definitions compute is the sequence of signals sent and the result: exit code, label, reason.
\<close>

section \<open>Specifications and results\<close>

record job_spec =
  js_command :: "string list"
  js_cwd :: string
  js_env :: "string \<rightharpoonup> string"
  js_grace :: duration
  js_max_runtime :: duration
  js_idle_timeout :: duration
  js_stdin :: bool
  js_sweep :: string

record sweep_report =
  sw_scanned :: bool
  sw_found :: "int list"
  sw_remaining :: "int list"
  sw_blind :: bool

definition no_sweep :: sweep_report where
  "no_sweep = \<lparr>sw_scanned = False, sw_found = [], sw_remaining = [], sw_blind = False\<rparr>"

record exec_result =
  r_exit :: int
  r_killed :: bool
  r_reason :: string
  r_err :: "string option"
  r_sweep :: sweep_report

definition zero_result :: exec_result where
  "zero_result = \<lparr>r_exit = 0, r_killed = False, r_reason = '''', r_err = None, r_sweep = no_sweep\<rparr>"

definition failed_result :: "string \<Rightarrow> exec_result" where
  "failed_result e = zero_result\<lparr>r_exit := - 1, r_err := Some e\<rparr>"

section \<open>The kernel's verdict\<close>

text \<open>What \<open>cmd.Wait\<close> returned: nothing wrong, a signal with its name, another exit code, or an
  error that is no exit status.\<close>

datatype wait_status = WaitClean | WaitSignaled int string | WaitExited int | WaitFailed string

fun finish_result :: "wait_status \<Rightarrow> exec_result" where
  "finish_result WaitClean = zero_result"
| "finish_result (WaitSignaled sig name) =
     zero_result\<lparr>r_exit := 128 + sig, r_killed := True, r_reason := ''signal: '' @ name\<rparr>"
| "finish_result (WaitExited code) = zero_result\<lparr>r_exit := code\<rparr>"
| "finish_result (WaitFailed e) = failed_result e"

section \<open>Stragglers\<close>

datatype signal = SigTerm | SigKill

text \<open>
  The target's answers after its leader was reaped: whether anything is alive, what each probe
  before the deadline of \<open>awaitTargetExit\<close> says, and what the last probe says.
\<close>

record target_answers =
  ta_alive :: bool
  ta_polls :: "bool list"
  ta_last :: bool

fun await_exit :: "bool list \<Rightarrow> bool \<Rightarrow> bool" where
  "await_exit [] final = (\<not> final)"
| "await_exit (alive # polls) final = (if \<not> alive then True else await_exit polls final)"

definition reap_stragglers :: "target_answers \<Rightarrow> bool \<times> bool \<times> signal list" where
  "reap_stragglers t =
     (if \<not> ta_alive t then (False, True, []) else (True, await_exit (ta_polls t) (ta_last t), [SigKill]))"

definition finish_clean :: "wait_status \<Rightarrow> target_answers \<Rightarrow> exec_result \<times> signal list" where
  "finish_clean st t =
     (let res = finish_result st; (found, gone, sent) = reap_stragglers t
      in (if found
          then res\<lparr>r_killed := True,
                   r_reason := (if gone then ''stragglers reaped after exit'' else ''stragglers remained after exit'')\<rparr>
          else res, sent))"

section \<open>Limits\<close>

text \<open>
  One tick of the watchdog: the reason it trips with, or none. The ceiling is looked at first;
  both comparisons are strict, and a limit that is not positive is none.
\<close>

definition watchdog_tick :: "job_spec \<Rightarrow> time \<Rightarrow> time \<Rightarrow> time \<Rightarrow> string option" where
  "watchdog_tick spec started last_output now =
     (if 0 < js_max_runtime spec \<and> started + js_max_runtime spec < now
      then Some (''max_runtime exceeded ('' @ duration_text (js_max_runtime spec) @ '')'')
      else if 0 < js_idle_timeout spec \<and> js_idle_timeout spec < time_sub now last_output
      then Some (''idle: no output for '' @ duration_text (js_idle_timeout spec))
      else None)"

text \<open>The watchdog's ticks up to the one that trips it, each with the time of the last output;
  it does not run when neither limit is set.\<close>

fun watchdog_trip :: "job_spec \<Rightarrow> time \<Rightarrow> (time \<times> time) list \<Rightarrow> string option" where
  "watchdog_trip spec started [] = None"
| "watchdog_trip spec started ((now, last_output) # ticks) =
     (case watchdog_tick spec started last_output now of
        Some reason \<Rightarrow> Some reason
      | None \<Rightarrow> watchdog_trip spec started ticks)"

definition watchdog :: "job_spec \<Rightarrow> time \<Rightarrow> (time \<times> time) list \<Rightarrow> string option" where
  "watchdog spec started ticks =
     (if 0 < js_max_runtime spec \<or> 0 < js_idle_timeout spec then watchdog_trip spec started ticks else None)"

section \<open>Supervision\<close>

text \<open>
  How the select of \<open>superviseTarget\<close> was resolved. \<open>Exited\<close>: the wait came first.
  \<open>Cancelled\<close>: the context was done; then the answers of the re-checks of the wait channel, of
  the first signal, of the wait within the grace period and after it, and the ticks the
  watchdog has made.
\<close>

record cancellation =
  cn_spins :: "wait_status option list"
  cn_delivered :: bool
  cn_in_grace :: "wait_status option"
  cn_after_kill :: wait_status

datatype supervision =
    Exited wait_status target_answers
  | Cancelled cancellation target_answers "(time \<times> time) list"

definition spin_limit :: nat where
  "spin_limit = 200"

fun first_answer :: "wait_status option list \<Rightarrow> wait_status option" where
  "first_answer [] = None"
| "first_answer (None # xs) = first_answer xs"
| "first_answer (Some st # xs) = Some st"

definition terminate :: "cancellation \<Rightarrow> wait_status \<times> signal list" where
  "terminate c =
     (case cn_in_grace c of
        Some st \<Rightarrow> (st, [SigTerm])
      | None \<Rightarrow> (cn_after_kill c, [SigTerm, SigKill]))"

definition cancelled_result :: "cancellation \<Rightarrow> target_answers \<Rightarrow> string option \<Rightarrow> exec_result \<times> signal list" where
  "cancelled_result c t trip =
     (let (st, sent) = terminate c;
          res = finish_result st;
          (found, gone, forced) = reap_stragglers t;
          reason = (if found \<and> \<not> gone then ''cancelled; survivors remained after SIGKILL'' else ''cancelled'');
          res1 = (if cn_delivered c \<or> found then res\<lparr>r_killed := True, r_reason := reason\<rparr> else res);
          res2 = (case trip of Some why \<Rightarrow> res1\<lparr>r_killed := True, r_reason := why\<rparr> | None \<Rightarrow> res1)
      in (res2, sent @ forced))"

fun supervise_target :: "job_spec \<Rightarrow> time \<Rightarrow> supervision \<Rightarrow> exec_result \<times> signal list" where
  "supervise_target spec started (Exited st t) = finish_clean st t"
| "supervise_target spec started (Cancelled c t ticks) =
     (case first_answer (take spin_limit (cn_spins c)) of
        Some st \<Rightarrow> finish_clean st t
      | None \<Rightarrow> cancelled_result c t (watchdog spec started ticks))"

text \<open>\<open>runSupervised\<close>: the sweep by job id runs on every path out, and only its report changes.\<close>

definition run_supervised :: "(string \<Rightarrow> sweep_report) \<Rightarrow> job_spec \<Rightarrow> time \<Rightarrow> supervision \<Rightarrow> exec_result \<times> signal list" where
  "run_supervised sweep spec started sv =
     (let (res, sent) = supervise_target spec started sv
      in (if js_sweep spec \<noteq> '''' then res\<lparr>r_sweep := sweep (js_sweep spec)\<rparr> else res, sent))"

text \<open>\<open>Run\<close>: the ways not to start, then the supervision. The first two arguments are the errors
  of making the pipe and of starting the process.\<close>

record launch =
  la_pipe_err :: "string option"
  la_start_err :: "string option"
  la_started :: time
  la_course :: supervision
  la_sweep :: "string \<Rightarrow> sweep_report"

definition run_command :: "job_spec \<Rightarrow> launch \<Rightarrow> exec_result \<times> signal list" where
  "run_command spec l =
     (if js_command spec = [] then (failed_result ''empty command'', [])
      else
        (case (if js_stdin spec then la_pipe_err l else None) of
           Some e \<Rightarrow> (failed_result (''stdin pipe: '' @ e), [])
         | None \<Rightarrow>
             (case la_start_err l of
                Some e \<Rightarrow> (failed_result (''start: '' @ e), [])
              | None \<Rightarrow> run_supervised (la_sweep l) spec (la_started l) (la_course l))))"

section \<open>What a result means\<close>

text \<open>The target was still alive when the code stopped looking.\<close>

definition left_alive :: "target_answers \<Rightarrow> bool" where
  "left_alive t \<longleftrightarrow> ta_alive t \<and> \<not> await_exit (ta_polls t) (ta_last t)"

lemma await_exit_iff: "await_exit polls final \<longleftrightarrow> False \<in> set polls \<or> \<not> final"
  by (induction polls final rule: await_exit.induct) auto

lemma finish_clean_simps:
  "\<not> ta_alive t \<Longrightarrow> finish_clean st t = (finish_result st, [])"
  "ta_alive t \<Longrightarrow> snd (finish_clean st t) = [SigKill]"
  "ta_alive t \<Longrightarrow> r_killed (fst (finish_clean st t))"
  "ta_alive t \<Longrightarrow> r_reason (fst (finish_clean st t))
     = (if left_alive t then ''stragglers remained after exit'' else ''stragglers reaped after exit'')"
  by (simp_all add: finish_clean_def reap_stragglers_def left_alive_def)

lemma cancelled_result_trip:
  "r_killed (fst (cancelled_result c t (Some why))) \<and> r_reason (fst (cancelled_result c t (Some why))) = why"
  by (simp add: cancelled_result_def Let_def split: prod.splits)

lemma cancelled_result_no_trip:
  "r_killed (fst (cancelled_result c t None))
     \<longleftrightarrow> cn_delivered c \<or> ta_alive t \<or> r_killed (finish_result (fst (terminate c)))"
  "cn_delivered c \<or> ta_alive t \<Longrightarrow>
     r_reason (fst (cancelled_result c t None))
       = (if left_alive t then ''cancelled; survivors remained after SIGKILL'' else ''cancelled'')"
  by (auto simp: cancelled_result_def Let_def reap_stragglers_def left_alive_def split: prod.splits)

lemma cancelled_result_sent:
  "snd (cancelled_result c t trip)
     = SigTerm # (if cn_in_grace c = None then [SigKill] else []) @ (if ta_alive t then [SigKill] else [])"
  by (auto simp: cancelled_result_def Let_def reap_stragglers_def terminate_def split: prod.splits option.splits)

lemma run_supervised_fields:
  "r_exit (fst (run_supervised sweep spec started sv)) = r_exit (fst (supervise_target spec started sv))"
  "r_killed (fst (run_supervised sweep spec started sv)) = r_killed (fst (supervise_target spec started sv))"
  "r_reason (fst (run_supervised sweep spec started sv)) = r_reason (fst (supervise_target spec started sv))"
  "r_err (fst (run_supervised sweep spec started sv)) = r_err (fst (supervise_target spec started sv))"
  "snd (run_supervised sweep spec started sv) = snd (supervise_target spec started sv)"
  by (simp_all add: run_supervised_def split: prod.splits)

text \<open>The watchdog trips exactly at the first tick after a limit was passed.\<close>

lemma watchdog_trip_None:
  "watchdog_trip spec started ticks = None
     \<longleftrightarrow> (\<forall>(now, out) \<in> set ticks. watchdog_tick spec started out now = None)"
  by (induction spec started ticks rule: watchdog_trip.induct) (auto split: option.splits)

lemma watchdog_tick_None:
  "watchdog_tick spec started out now = None
     \<longleftrightarrow> (0 < js_max_runtime spec \<longrightarrow> now \<le> started + js_max_runtime spec)
        \<and> (0 < js_idle_timeout spec \<longrightarrow> time_sub now out \<le> js_idle_timeout spec)"
  by (auto simp: watchdog_tick_def)

lemma no_limit_no_watchdog:
  "js_max_runtime spec \<le> 0 \<Longrightarrow> js_idle_timeout spec \<le> 0 \<Longrightarrow> watchdog spec started ticks = None"
  by (simp add: watchdog_def)

end
