(* ===== verification/Hooks.thy ===== *)
theory Hooks
  imports Exec
begin

text \<open>
  The lifecycle hooks of a device (\<open>src/internal/worker/hooks.go\<close>): the worker's record of
  whether a device is held, the release timer with its generation and the epoch of the job that
  owns the device. Each operation runs under the device's mutex and so is one step; a timer that
  has elapsed is a callback that waits for that mutex, and may find itself superseded. The
  counters are 64-bit in the code and grow by one per job, so they are integers here.
\<close>

section \<open>Specifications and environment\<close>

record hook_spec =
  hk_on_acquire :: string
  hk_on_release :: string
  hk_timeout :: duration
  hk_linger :: duration

definition no_hooks :: hook_spec where
  "no_hooks = \<lparr>hk_on_acquire = '''', hk_on_release = '''', hk_timeout = 0, hk_linger = 0\<rparr>"

definition hook_configured :: "hook_spec \<Rightarrow> bool" where
  "hook_configured h \<longleftrightarrow> hk_on_acquire h \<noteq> '''' \<or> hk_on_release h \<noteq> ''''"

definition hook_output_tail :: nat where
  "hook_output_tail = 4096"

definition tail_output :: "string \<Rightarrow> string" where
  "tail_output s = (if length s \<le> hook_output_tail then s else drop (length s - hook_output_tail) s)"

text \<open>The trailing digits of the name after the first colon, when \<open>Atoi\<close> accepts them.\<close>

definition cuda_device_index :: "string \<Rightarrow> string option" where
  "cuda_device_index dev =
     (case cut_at '':'' dev of
        None \<Rightarrow> None
      | Some (_, name) \<Rightarrow>
          (let ds = rev (takeWhile is_digit (rev name))
           in if ds = [] \<or> go_atoi ds = None then None else Some ds))"

definition hook_env :: "string \<Rightarrow> string \<Rightarrow> string \<Rightarrow> string \<Rightarrow> string \<rightharpoonup> string" where
  "hook_env event dev job submitter =
     (let env = [''RC_EVENT'' \<mapsto> event, ''RC_DEVICE'' \<mapsto> dev, ''RC_JOB_ID'' \<mapsto> job, ''RC_SUBMITTER'' \<mapsto> submitter]
      in (case cuda_device_index dev of Some i \<Rightarrow> env(''CUDA_VISIBLE_DEVICES'' \<mapsto> i) | None \<Rightarrow> env))"

text \<open>\<open>runHook\<close>: what is run, and what its result means.\<close>

definition hook_job :: "string \<Rightarrow> string \<Rightarrow> string \<Rightarrow> string \<Rightarrow> string \<Rightarrow> duration \<Rightarrow> job_spec" where
  "hook_job path event dev job submitter timeout =
     \<lparr>js_command = [path], js_cwd = '''', js_env = hook_env event dev job submitter, js_grace = 0,
      js_max_runtime = timeout, js_idle_timeout = 0, js_stdin = False, js_sweep = ''''\<rparr>"

definition hook_verdict :: "string \<Rightarrow> exec_result \<Rightarrow> string option" where
  "hook_verdict path res =
     (case r_err res of
        Some e \<Rightarrow> Some (''hook '' @ path @ '': '' @ e)
      | None \<Rightarrow>
          if r_killed res
          then Some (''hook '' @ path @ '': '' @ (if r_reason res = '''' then ''killed'' else r_reason res))
          else if r_exit res \<noteq> 0 then Some (''hook '' @ path @ '': exited '' @ itoa (r_exit res))
          else None)"

section \<open>The state of one device\<close>

text \<open>\<open>hs_timer\<close> is the timer's pointer with the generation its callback was launched with.\<close>

record hook_state =
  hs_held :: bool
  hs_timer :: "int option"
  hs_gen :: int
  hs_epoch :: int
  hs_job :: string
  hs_submitter :: string

definition fresh_hook_state :: hook_state where
  "fresh_hook_state = \<lparr>hs_held = False, hs_timer = None, hs_gen = 0, hs_epoch = 0, hs_job = '''', hs_submitter = ''''\<rparr>"

text \<open>A hook that was run, and whether it succeeded.\<close>

record hook_call =
  hc_event :: string
  hc_device :: string
  hc_job :: string
  hc_submitter :: string
  hc_ok :: bool

record acquire_result =
  aq_ran :: bool
  aq_output :: string
  aq_err :: "string option"
  aq_epoch :: int

definition no_acquire :: acquire_result where
  "no_acquire = \<lparr>aq_ran = False, aq_output = '''', aq_err = None, aq_epoch = 0\<rparr>"

text \<open>What a hook leaves when it is run: its result and its output.\<close>

type_synonym hook_outcome = "exec_result \<times> string"

definition own_device :: "hook_state \<Rightarrow> hook_state" where
  "own_device st = st\<lparr>hs_held := True, hs_epoch := hs_epoch st + 1\<rparr>"

definition acquire_device ::
  "string \<Rightarrow> hook_spec \<Rightarrow> string \<Rightarrow> string \<Rightarrow> hook_outcome \<Rightarrow> hook_state
     \<Rightarrow> acquire_result \<times> hook_call list \<times> hook_state" where
  "acquire_device dev spec job submitter outcome st0 =
     (let st = st0\<lparr>hs_timer := None, hs_gen := hs_gen st0 + 1\<rparr>; owned = own_device st
      in if hs_held st \<or> hk_on_acquire spec = '''' then (no_acquire\<lparr>aq_epoch := hs_epoch owned\<rparr>, [], owned)
         else
           (let err = hook_verdict (hk_on_acquire spec) (fst outcome);
                call = \<lparr>hc_event = ''acquire'', hc_device = dev, hc_job = job, hc_submitter = submitter, hc_ok = (err = None)\<rparr>
            in if err \<noteq> None
               then (\<lparr>aq_ran = True, aq_output = snd outcome, aq_err = err, aq_epoch = 0\<rparr>, [call], st)
               else (\<lparr>aq_ran = True, aq_output = snd outcome, aq_err = None, aq_epoch = hs_epoch owned\<rparr>, [call], owned)))"

text \<open>\<open>scheduleRelease\<close>: the new state, and whether a timer was armed.\<close>

definition schedule_release :: "string \<Rightarrow> string \<Rightarrow> int \<Rightarrow> hook_state \<Rightarrow> hook_state \<times> bool" where
  "schedule_release job submitter epoch st =
     (if \<not> hs_held st then (st, False)
      else if hs_epoch st \<noteq> epoch then (st, False)
      else (st\<lparr>hs_timer := Some (hs_gen st + 1), hs_gen := hs_gen st + 1, hs_job := job, hs_submitter := submitter\<rparr>, True))"

definition fire_release :: "string \<Rightarrow> hook_spec \<Rightarrow> int \<Rightarrow> hook_outcome \<Rightarrow> hook_state \<Rightarrow> hook_call list \<times> hook_state" where
  "fire_release dev spec gen outcome st =
     (if hs_gen st \<noteq> gen then ([], st)
      else
        (let calls = (if hk_on_release spec = '''' then []
                      else [\<lparr>hc_event = ''release'', hc_device = dev, hc_job = hs_job st, hc_submitter = hs_submitter st,
                             hc_ok = (hook_verdict (hk_on_release spec) (fst outcome) = None)\<rparr>])
         in (calls, st\<lparr>hs_timer := None, hs_held := False\<rparr>)))"

text \<open>The step of \<open>drainPendingReleases\<close> for one device: the timer is stopped and a release of a
  new generation is launched; without a timer the device is skipped.\<close>

definition drain_device :: "hook_state \<Rightarrow> (int \<times> hook_state) option" where
  "drain_device st =
     (if hs_timer st = None then None
      else Some (hs_gen st + 1, st\<lparr>hs_timer := None, hs_gen := hs_gen st + 1\<rparr>))"

section \<open>All devices of a worker\<close>

text \<open>
  The map of states, the timers still running, the callbacks that elapsed and wait for the
  mutex, the jobs that acquired a device and have not handed it back yet, and the hooks run.
\<close>

record hook_owner =
  ho_device :: string
  ho_job :: string
  ho_submitter :: string
  ho_epoch :: int

record hook_world =
  hw_states :: "string \<rightharpoonup> hook_state"
  hw_armed :: "(string \<times> int) set"
  hw_flying :: "(string \<times> int) set"
  hw_owners :: "nat \<rightharpoonup> hook_owner"
  hw_next :: nat
  hw_calls :: "hook_call list"

definition hooks_start :: hook_world where
  "hooks_start = \<lparr>hw_states = Map.empty, hw_armed = {}, hw_flying = {}, hw_owners = Map.empty, hw_next = 0, hw_calls = []\<rparr>"

text \<open>\<open>hookState\<close> creates a device's state on first use.\<close>

definition state_of :: "hook_world \<Rightarrow> string \<Rightarrow> hook_state" where
  "state_of w d = (case hw_states w d of Some st \<Rightarrow> st | None \<Rightarrow> fresh_hook_state)"

definition put_state :: "string \<Rightarrow> hook_state \<Rightarrow> hook_world \<Rightarrow> hook_world" where
  "put_state d st w = w\<lparr>hw_states := (hw_states w)(d \<mapsto> st)\<rparr>"

text \<open>\<open>timer.Stop\<close>: a timer that has not elapsed never will; a callback already started stays.\<close>

definition stop_timer :: "string \<Rightarrow> hook_world \<Rightarrow> hook_world" where
  "stop_timer d w =
     (case hs_timer (state_of w d) of Some g \<Rightarrow> w\<lparr>hw_armed := hw_armed w - {(d, g)}\<rparr> | None \<Rightarrow> w)"

definition world_acquire ::
  "(string \<Rightarrow> hook_spec) \<Rightarrow> string \<Rightarrow> string \<Rightarrow> string \<Rightarrow> hook_outcome \<Rightarrow> hook_world \<Rightarrow> acquire_result \<times> hook_world" where
  "world_acquire specs d job submitter outcome w =
     (if \<not> hook_configured (specs d) then (no_acquire, w)
      else
        (let (r, calls, st) = acquire_device d (specs d) job submitter outcome (state_of w d);
             w1 = (put_state d st (stop_timer d w))\<lparr>hw_calls := hw_calls w @ calls\<rparr>;
             me = \<lparr>ho_device = d, ho_job = job, ho_submitter = submitter, ho_epoch = aq_epoch r\<rparr>
         in (r, if aq_err r = None then w1\<lparr>hw_owners := (hw_owners w)(hw_next w \<mapsto> me), hw_next := hw_next w + 1\<rparr> else w1)))"

definition world_release :: "nat \<Rightarrow> hook_owner \<Rightarrow> hook_world \<Rightarrow> hook_world" where
  "world_release k me w =
     (let d = ho_device me; w0 = w\<lparr>hw_owners := (hw_owners w)(k := None)\<rparr>;
          (st, armed) = schedule_release (ho_job me) (ho_submitter me) (ho_epoch me) (state_of w d)
      in if armed
         then (put_state d st (stop_timer d w0))\<lparr>hw_armed := insert (d, hs_gen st) (hw_armed (stop_timer d w0))\<rparr>
         else w0)"

definition world_fire :: "(string \<Rightarrow> hook_spec) \<Rightarrow> string \<Rightarrow> int \<Rightarrow> hook_outcome \<Rightarrow> hook_world \<Rightarrow> hook_world" where
  "world_fire specs d g outcome w =
     (let (calls, st) = fire_release d (specs d) g outcome (state_of w d)
      in (put_state d st w)\<lparr>hw_flying := hw_flying w - {(d, g)}, hw_calls := hw_calls w @ calls\<rparr>)"

definition world_drain :: "string \<Rightarrow> hook_world \<Rightarrow> hook_world" where
  "world_drain d w =
     (case drain_device (state_of w d) of
        None \<Rightarrow> w
      | Some (g, st) \<Rightarrow> (put_state d st (stop_timer d w))\<lparr>hw_flying := insert (d, g) (hw_flying w)\<rparr>)"

datatype hook_label =
    HAcquired nat string string
  | HRefused string string
  | HReleased nat
  | HElapsed string int
  | HFired string int
  | HDrained string

inductive hook_step :: "(string \<Rightarrow> hook_spec) \<Rightarrow> hook_world \<Rightarrow> hook_label \<Rightarrow> hook_world \<Rightarrow> bool"
  for specs :: "string \<Rightarrow> hook_spec" where
  hk_acquire: "hook_configured (specs d) \<Longrightarrow> world_acquire specs d job submitter outcome w = (r, w') \<Longrightarrow>
    aq_err r = None \<Longrightarrow> hook_step specs w (HAcquired (hw_next w) d job) w'"
| hk_refuse: "hook_configured (specs d) \<Longrightarrow> world_acquire specs d job submitter outcome w = (r, w') \<Longrightarrow>
    aq_err r \<noteq> None \<Longrightarrow> hook_step specs w (HRefused d job) w'"
| hk_release: "hw_owners w k = Some me \<Longrightarrow> hook_step specs w (HReleased k) (world_release k me w)"
| hk_elapse: "(d, g) \<in> hw_armed w \<Longrightarrow>
    hook_step specs w (HElapsed d g) (w\<lparr>hw_armed := hw_armed w - {(d, g)}, hw_flying := insert (d, g) (hw_flying w)\<rparr>)"
| hk_fire: "(d, g) \<in> hw_flying w \<Longrightarrow> hook_step specs w (HFired d g) (world_fire specs d g outcome w)"
| hk_drain: "hook_step specs w (HDrained d) (world_drain d w)"

inductive_cases hook_stepE: "hook_step specs w l w'"

section \<open>The invariant of one device\<close>

text \<open>
  \<open>A\<close>: the generations of its running timers, \<open>F\<close>: of the callbacks that wait, \<open>O\<close>: the jobs that
  hold an epoch of it. A release of the current generation is under way exactly while the device
  is held and its last owner has handed it back.
\<close>

definition dev_ok :: "hook_state \<Rightarrow> int set \<Rightarrow> int set \<Rightarrow> (nat \<times> int) set \<Rightarrow> bool" where
  "dev_ok st A F O' \<longleftrightarrow>
     (\<forall>g \<in> A \<union> F. g \<le> hs_gen st)
     \<and> A \<inter> F = {}
     \<and> (\<forall>g \<in> A. hs_timer st = Some g)
     \<and> (\<forall>g. hs_timer st = Some g \<longrightarrow> g = hs_gen st \<and> g \<in> A \<union> F)
     \<and> (\<forall>k e. (k, e) \<in> O' \<longrightarrow> e \<le> hs_epoch st)
     \<and> (\<forall>k l e. (k, e) \<in> O' \<longrightarrow> (l, e) \<in> O' \<longrightarrow> k = l)
     \<and> (hs_gen st \<in> A \<union> F \<longrightarrow> hs_held st \<and> (\<forall>k. (k, hs_epoch st) \<notin> O'))
     \<and> (\<forall>k. (k, hs_epoch st) \<in> O' \<longrightarrow> hs_held st)
     \<and> (hs_held st \<longrightarrow> (\<exists>k. (k, hs_epoch st) \<in> O') \<or> hs_gen st \<in> A \<union> F)"

lemma dev_okI:
  assumes "\<And>g. g \<in> A \<Longrightarrow> g \<le> hs_gen st" "\<And>g. g \<in> F \<Longrightarrow> g \<le> hs_gen st"
    "\<And>g. g \<in> A \<Longrightarrow> g \<notin> F"
    "\<And>g. g \<in> A \<Longrightarrow> hs_timer st = Some g"
    "\<And>g. hs_timer st = Some g \<Longrightarrow> g = hs_gen st \<and> (g \<in> A \<or> g \<in> F)"
    "\<And>k e. (k, e) \<in> O' \<Longrightarrow> e \<le> hs_epoch st"
    "\<And>k l e. (k, e) \<in> O' \<Longrightarrow> (l, e) \<in> O' \<Longrightarrow> k = l"
    "hs_gen st \<in> A \<or> hs_gen st \<in> F \<Longrightarrow> hs_held st"
    "\<And>k. hs_gen st \<in> A \<or> hs_gen st \<in> F \<Longrightarrow> (k, hs_epoch st) \<notin> O'"
    "\<And>k. (k, hs_epoch st) \<in> O' \<Longrightarrow> hs_held st"
    "hs_held st \<Longrightarrow> (\<exists>k. (k, hs_epoch st) \<in> O') \<or> hs_gen st \<in> A \<or> hs_gen st \<in> F"
  shows "dev_ok st A F O'"
  unfolding dev_ok_def using assms by (intro conjI ballI allI impI) blast+

lemma dev_okD:
  assumes "dev_ok st A F O'"
  shows "g \<in> A \<Longrightarrow> g \<le> hs_gen st" "g \<in> F \<Longrightarrow> g \<le> hs_gen st"
    "g \<in> A \<Longrightarrow> g \<notin> F"
    "g \<in> A \<Longrightarrow> hs_timer st = Some g"
    "hs_timer st = Some g \<Longrightarrow> g = hs_gen st \<and> (g \<in> A \<or> g \<in> F)"
    "(k, e) \<in> O' \<Longrightarrow> e \<le> hs_epoch st"
    "(k, e) \<in> O' \<Longrightarrow> (l, e) \<in> O' \<Longrightarrow> k = l"
    "hs_gen st \<in> A \<or> hs_gen st \<in> F \<Longrightarrow> hs_held st"
    "hs_gen st \<in> A \<or> hs_gen st \<in> F \<Longrightarrow> (k, hs_epoch st) \<notin> O'"
    "(k, hs_epoch st) \<in> O' \<Longrightarrow> hs_held st"
    "hs_held st \<Longrightarrow> (\<exists>k. (k, hs_epoch st) \<in> O') \<or> hs_gen st \<in> A \<or> hs_gen st \<in> F"
  using assms unfolding dev_ok_def by blast+

lemma dev_ok_fresh: "dev_ok fresh_hook_state {} {} {}"
  by (rule dev_okI) (simp_all add: fresh_hook_state_def)

text \<open>What an acquisition leaves of the state, by its result.\<close>

lemma acquire_device_state:
  assumes "acquire_device d spec job sub outcome st = (r, calls, st')"
  shows "hs_timer st' = None" "hs_gen st' = hs_gen st + 1"
    "aq_err r = None \<Longrightarrow> hs_held st' \<and> hs_epoch st' = hs_epoch st + 1 \<and> aq_epoch r = hs_epoch st + 1"
    "aq_err r \<noteq> None \<Longrightarrow> \<not> hs_held st \<and> \<not> hs_held st' \<and> hs_epoch st' = hs_epoch st"
  using assms
  by (auto simp: acquire_device_def own_device_def no_acquire_def Let_def split: if_splits)

lemma dev_ok_acquired:
  assumes ok: "dev_ok st A F O'" and a: "acquire_device d spec job sub outcome st = (r, calls, st')"
    and good: "aq_err r = None" and fresh: "\<And>e. (k, e) \<notin> O'"
  shows "dev_ok st' {} F (insert (k, aq_epoch r) O')"
proof -
  note s = acquire_device_state(1,2) [OF a]
  from acquire_device_state(3) [OF a good] have s3: "hs_held st'" "hs_epoch st' = hs_epoch st + 1" "aq_epoch r = hs_epoch st + 1"
    by simp_all
  have Fle: "g \<le> hs_gen st'" if "g \<in> F" for g using dev_okD(2) [OF ok that] s(2) by simp
  have nF: "hs_gen st' \<notin> F" using dev_okD(2) [OF ok, of "hs_gen st'"] s(2) by auto
  have O: "e < hs_epoch st'" if "(l, e) \<in> O'" for l e using dev_okD(6) [OF ok that] s3(2) by simp
  show ?thesis
  proof (rule dev_okI)
    fix l m e assume "(l, e) \<in> insert (k, aq_epoch r) O'" "(m, e) \<in> insert (k, aq_epoch r) O'"
    then have "l = k \<and> e = aq_epoch r \<or> (l, e) \<in> O'" "m = k \<and> e = aq_epoch r \<or> (m, e) \<in> O'" by blast+
    moreover have "(x, aq_epoch r) \<notin> O'" for x using O [of x "aq_epoch r"] s3 by auto
    ultimately show "l = m" using dev_okD(7) [OF ok, of l e m] by auto
  next
    fix l e assume "(l, e) \<in> insert (k, aq_epoch r) O'"
    then show "e \<le> hs_epoch st'" using O [of l e] s3 by auto
  qed (use Fle nF s s3 in auto)
qed

lemma dev_ok_refused:
  assumes ok: "dev_ok st A F O'" and a: "acquire_device d spec job sub outcome st = (r, calls, st')"
    and bad: "aq_err r \<noteq> None"
  shows "dev_ok st' {} F O'"
proof -
  note s = acquire_device_state(1,2) [OF a]
  from acquire_device_state(4) [OF a bad] have s3: "\<not> hs_held st" "\<not> hs_held st'" "hs_epoch st' = hs_epoch st"
    by simp_all
  have Fle: "g \<le> hs_gen st'" if "g \<in> F" for g using dev_okD(2) [OF ok that] s(2) by simp
  have nF: "hs_gen st' \<notin> F" using dev_okD(2) [OF ok, of "hs_gen st'"] s(2) by auto
  show ?thesis
  proof (rule dev_okI)
    fix l m e assume "(l, e) \<in> O'" "(m, e) \<in> O'"
    then show "l = m" by (rule dev_okD(7) [OF ok])
  next
    fix l e assume "(l, e) \<in> O'"
    then show "e \<le> hs_epoch st'" using dev_okD(6) [OF ok] s3(3) by simp
  next
    fix l assume "(l, hs_epoch st') \<in> O'"
    then show "hs_held st'" using dev_okD(10) [OF ok] s3 by simp
  qed (use Fle nF s s3 in auto)
qed

lemma dev_ok_released:
  assumes ok: "dev_ok st A F O'" and mine: "(k, e) \<in> O'"
    and r: "schedule_release job sub e st = (st', armed)"
  shows "if armed then A = {} \<and> hs_timer st = None \<and> dev_ok st' {hs_gen st'} F (O' - {(k, e)})
    else dev_ok st A F (O' - {(k, e)})"
proof (cases armed)
  case True
  with r have held: "hs_held st" and e: "hs_epoch st = e"
    and st': "st' = st\<lparr>hs_timer := Some (hs_gen st + 1), hs_gen := hs_gen st + 1, hs_job := job, hs_submitter := sub\<rparr>"
    by (auto simp: schedule_release_def split: if_splits)
  have cur: "(k, hs_epoch st) \<in> O'" using mine e by simp
  then have idle: "hs_gen st \<notin> A" "hs_gen st \<notin> F" using dev_okD(9) [OF ok] by blast+
  have t: "hs_timer st = None"
  proof (cases "hs_timer st")
    case (Some g)
    with dev_okD(5) [OF ok Some] idle show ?thesis by blast
  qed
  then have A: "A = {}" using dev_okD(4) [OF ok] by fastforce
  have Fle: "g \<le> hs_gen st'" if "g \<in> F" for g using dev_okD(2) [OF ok that] st' by simp
  have nF: "hs_gen st' \<notin> F" using dev_okD(2) [OF ok, of "hs_gen st'"] st' by auto
  have other: "l = k" if "(l, hs_epoch st) \<in> O'" for l using dev_okD(7) [OF ok that cur] .
  have "dev_ok st' {hs_gen st'} F (O' - {(k, e)})"
  proof (rule dev_okI)
    fix l m x assume "(l, x) \<in> O' - {(k, e)}" "(m, x) \<in> O' - {(k, e)}"
    then show "l = m" using dev_okD(7) [OF ok] by blast
  next
    fix l x assume "(l, x) \<in> O' - {(k, e)}"
    then show "x \<le> hs_epoch st'" using dev_okD(6) [OF ok] st' by auto
  next
    fix l show "(l, hs_epoch st') \<notin> O' - {(k, e)}" using other e st' by auto
  qed (use Fle nF held st' in auto)
  with True A t show ?thesis by simp
next
  case False
  with r have "\<not> hs_held st \<or> hs_epoch st \<noteq> e" by (auto simp: schedule_release_def split: if_splits)
  then have cur: "hs_held st \<Longrightarrow> (l, hs_epoch st) \<in> O' \<Longrightarrow> (l, hs_epoch st) \<in> O' - {(k, e)}" for l by auto
  have "dev_ok st A F (O' - {(k, e)})"
  proof (rule dev_okI)
    assume "hs_held st"
    with dev_okD(11) [OF ok this] cur
    show "(\<exists>l. (l, hs_epoch st) \<in> O' - {(k, e)}) \<or> hs_gen st \<in> A \<or> hs_gen st \<in> F" by blast
  qed (use dev_okD [OF ok] in blast)+
  with False show ?thesis by simp
qed

lemma dev_ok_elapsed:
  assumes ok: "dev_ok st A F O'" and "g \<in> A"
  shows "dev_ok st (A - {g}) (insert g F) O'"
proof (rule dev_okI)
  fix h assume "h \<in> A - {g}"
  with dev_okD(4) [OF ok, of h] dev_okD(4) [OF ok assms(2)] show "h \<notin> insert g F" by simp
qed (use dev_okD [OF ok] assms(2) in blast)+

lemma dev_ok_fired:
  assumes ok: "dev_ok st A F O'" and g: "g \<in> F" and f: "fire_release d spec g outcome st = (calls, st')"
  shows "dev_ok st' A (F - {g}) O'"
proof (cases "hs_gen st = g")
  case False
  then have st': "st' = st" using f by (simp add: fire_release_def)
  show ?thesis
  proof (unfold st', rule dev_okI)
    fix h assume "hs_timer st = Some h"
    with dev_okD(5) [OF ok this] False show "h = hs_gen st \<and> (h \<in> A \<or> h \<in> F - {g})" by blast
  next
    assume "hs_held st"
    with dev_okD(11) [OF ok this] False
    show "(\<exists>l. (l, hs_epoch st) \<in> O') \<or> hs_gen st \<in> A \<or> hs_gen st \<in> F - {g}" by blast
  qed (use dev_okD [OF ok] in blast)+
next
  case True
  then have st': "st' = st\<lparr>hs_timer := None, hs_held := False\<rparr>" using f by (simp add: fire_release_def Let_def)
  have A: "A = {}"
  proof (rule ccontr)
    assume "A \<noteq> {}"
    then obtain a where "a \<in> A" by blast
    with dev_okD(4,3,5) [OF ok, of a] True g show False by blast
  qed
  have free: "(k, hs_epoch st) \<notin> O'" for k using dev_okD(9) [OF ok] g True by blast
  show ?thesis
    by (rule dev_okI) (use dev_okD(2,6,7) [OF ok] A True free st' in auto)
qed

lemma dev_ok_drained:
  assumes ok: "dev_ok st A F O'" and d: "drain_device st = Some (g, st')"
  shows "dev_ok st' {} (insert g F) O'"
proof -
  obtain t where t: "hs_timer st = Some t" and g: "g = hs_gen st + 1"
    and st': "st' = st\<lparr>hs_timer := None, hs_gen := g\<rparr>"
    using d by (auto simp: drain_device_def split: if_splits)
  from dev_okD(5) [OF ok t] have under_way: "hs_gen st \<in> A \<or> hs_gen st \<in> F" by blast
  have held: "hs_held st" and free: "\<And>k. (k, hs_epoch st) \<notin> O'"
    using dev_okD(8,9) [OF ok under_way] by blast+
  have F: "h \<le> g" if "h \<in> F" for h using dev_okD(2) [OF ok that] g by simp
  show ?thesis by (rule dev_okI) (use dev_okD(6,7) [OF ok] held free F st' in auto)
qed

section \<open>The invariant of a worker's devices\<close>

definition gens_of :: "(string \<times> int) set \<Rightarrow> string \<Rightarrow> int set" where
  "gens_of X d = {g. (d, g) \<in> X}"

definition owners_of :: "hook_world \<Rightarrow> string \<Rightarrow> (nat \<times> int) set" where
  "owners_of w d = {(k, e). \<exists>me. hw_owners w k = Some me \<and> ho_device me = d \<and> ho_epoch me = e}"

definition device_ok :: "hook_world \<Rightarrow> string \<Rightarrow> bool" where
  "device_ok w d \<longleftrightarrow> dev_ok (state_of w d) (gens_of (hw_armed w) d) (gens_of (hw_flying w) d) (owners_of w d)"

text \<open>Whether a list of hook calls leaves the device held; none when an acquisition follows an
  acquisition or a release a release. A failed acquisition leaves the device as it was.\<close>

fun held_after :: "string \<Rightarrow> bool \<Rightarrow> hook_call list \<Rightarrow> bool option" where
  "held_after d h [] = Some h"
| "held_after d h (c # cs) =
     (if hc_device c \<noteq> d \<or> (hc_event c = ''acquire'' \<and> \<not> hc_ok c) then held_after d h cs
      else if (hc_event c = ''acquire'') = h then None
      else held_after d (\<not> h) cs)"

definition calls_ok :: "(string \<Rightarrow> hook_spec) \<Rightarrow> hook_world \<Rightarrow> string \<Rightarrow> bool" where
  "calls_ok specs w d \<longleftrightarrow>
     (hk_on_acquire (specs d) \<noteq> '''' \<longrightarrow> hk_on_release (specs d) \<noteq> '''' \<longrightarrow>
        held_after d False (hw_calls w) = Some (hs_held (state_of w d)))"

definition hooks_ok :: "(string \<Rightarrow> hook_spec) \<Rightarrow> hook_world \<Rightarrow> bool" where
  "hooks_ok specs w \<longleftrightarrow>
     (\<forall>d. device_ok w d \<and> calls_ok specs w d) \<and> (\<forall>k \<ge> hw_next w. hw_owners w k = None)"

lemma held_after_append:
  "held_after d h (xs @ ys) = Option.bind (held_after d h xs) (\<lambda>h'. held_after d h' ys)"
  by (induction d h xs rule: held_after.induct) auto

lemma state_of_put [simp]: "state_of (put_state d st w) d' = (if d' = d then st else state_of w d')"
  by (simp add: state_of_def put_state_def)

lemma put_state_frame [simp]:
  "hw_armed (put_state d st w) = hw_armed w" "hw_flying (put_state d st w) = hw_flying w"
  "hw_owners (put_state d st w) = hw_owners w" "hw_next (put_state d st w) = hw_next w"
  "hw_calls (put_state d st w) = hw_calls w"
  by (simp_all add: put_state_def)

lemma stop_timer_frame [simp]:
  "hw_states (stop_timer d w) = hw_states w" "hw_flying (stop_timer d w) = hw_flying w"
  "hw_owners (stop_timer d w) = hw_owners w" "hw_next (stop_timer d w) = hw_next w"
  "hw_calls (stop_timer d w) = hw_calls w"
  by (simp_all add: stop_timer_def split: option.splits)

lemma state_of_frame [simp]:
  "state_of (stop_timer d w) d' = state_of w d'"
  "state_of (w\<lparr>hw_armed := a\<rparr>) d' = state_of w d'" "state_of (w\<lparr>hw_flying := f\<rparr>) d' = state_of w d'"
  "state_of (w\<lparr>hw_owners := ow\<rparr>) d' = state_of w d'" "state_of (w\<lparr>hw_next := n\<rparr>) d' = state_of w d'"
  "state_of (w\<lparr>hw_calls := cs\<rparr>) d' = state_of w d'"
  by (simp_all add: state_of_def)

lemma owners_of_frame [simp]:
  "owners_of (put_state d st w) d' = owners_of w d'" "owners_of (stop_timer d w) d' = owners_of w d'"
  "owners_of (w\<lparr>hw_armed := a\<rparr>) d' = owners_of w d'" "owners_of (w\<lparr>hw_flying := f\<rparr>) d' = owners_of w d'"
  "owners_of (w\<lparr>hw_next := n\<rparr>) d' = owners_of w d'" "owners_of (w\<lparr>hw_calls := cs\<rparr>) d' = owners_of w d'"
  by (simp_all add: owners_of_def)

lemma gens_of_stop:
  "d' \<noteq> d \<Longrightarrow> gens_of (hw_armed (stop_timer d w)) d' = gens_of (hw_armed w) d'"
  "device_ok w d \<Longrightarrow> gens_of (hw_armed (stop_timer d w)) d = {}"
proof -
  show "gens_of (hw_armed (stop_timer d w)) d' = gens_of (hw_armed w) d'" if "d' \<noteq> d"
    using that by (auto simp: stop_timer_def gens_of_def split: option.splits)
  assume "device_ok w d"
  then have "g \<in> gens_of (hw_armed w) d \<Longrightarrow> hs_timer (state_of w d) = Some g" for g
    unfolding device_ok_def by (rule dev_okD(4))
  then show "gens_of (hw_armed (stop_timer d w)) d = {}"
    by (fastforce simp: stop_timer_def gens_of_def split: option.splits)
qed

lemma gens_of_insert [simp]: "gens_of (insert (d, g) X) d' = (if d' = d then insert g (gens_of X d') else gens_of X d')"
  by (auto simp: gens_of_def)

lemma gens_of_remove [simp]: "gens_of (X - {(d, g)}) d' = (if d' = d then gens_of X d' - {g} else gens_of X d')"
  by (auto simp: gens_of_def)

lemma hooks_ok_start: "hooks_ok specs hooks_start"
  by (simp add: hooks_ok_def device_ok_def calls_ok_def hooks_start_def state_of_def gens_of_def owners_of_def
      dev_ok_fresh [unfolded fresh_hook_state_def] fresh_hook_state_def)

text \<open>A step on one device leaves the others as they were.\<close>

lemma hooks_okI:
  assumes ok: "hooks_ok specs w" and dev: "device_ok w' d" and calls: "calls_ok specs w' d"
    and other: "\<And>d'. d' \<noteq> d \<Longrightarrow> state_of w' d' = state_of w d' \<and> gens_of (hw_armed w') d' = gens_of (hw_armed w) d'
        \<and> gens_of (hw_flying w') d' = gens_of (hw_flying w) d' \<and> owners_of w' d' = owners_of w d'"
    and log: "hw_calls w' = hw_calls w @ cs" "\<And>c. c \<in> set cs \<Longrightarrow> hc_device c = d"
    and fresh: "\<And>k. hw_next w' \<le> k \<Longrightarrow> hw_owners w' k = None"
  shows "hooks_ok specs w'"
proof -
  have skip: "held_after d' h cs = Some h" if "d' \<noteq> d" for d' h
    using log(2) that by (induction cs) auto
  have "device_ok w' d' \<and> calls_ok specs w' d'" for d'
  proof (cases "d' = d")
    case True
    with dev calls show ?thesis by simp
  next
    case False
    with ok other [OF False] skip [OF False] log(1) show ?thesis
      by (auto simp: hooks_ok_def device_ok_def calls_ok_def held_after_append)
  qed
  with fresh show ?thesis by (simp add: hooks_ok_def)
qed

lemma hooks_okD:
  assumes "hooks_ok specs w"
  shows "device_ok w d" "calls_ok specs w d" "hw_next w \<le> k \<Longrightarrow> hw_owners w k = None"
  using assms by (simp_all add: hooks_ok_def)

lemma owners_of_upd:
  "owners_of (w\<lparr>hw_owners := (hw_owners w)(k := x)\<rparr>) d =
     {(l, e) \<in> owners_of w d. l \<noteq> k} \<union> {(l, e). l = k \<and> (\<exists>me. x = Some me \<and> ho_device me = d \<and> ho_epoch me = e)}"
  by (auto simp: owners_of_def split: if_splits)

lemma owners_of_add:
  assumes "hw_owners w k = None"
  shows "owners_of (w\<lparr>hw_owners := (hw_owners w)(k \<mapsto> me)\<rparr>) d =
    (if d = ho_device me then insert (k, ho_epoch me) (owners_of w d) else owners_of w d)"
proof -
  have "(k, e) \<notin> owners_of w d" for e using assms by (simp add: owners_of_def)
  then show ?thesis unfolding owners_of_upd by auto
qed

lemma owners_of_del:
  assumes "hw_owners w k = Some me"
  shows "owners_of (w\<lparr>hw_owners := (hw_owners w)(k := None)\<rparr>) d =
    (if d = ho_device me then owners_of w d - {(k, ho_epoch me)} else owners_of w d)"
proof -
  have "(k, e) \<in> owners_of w d \<longleftrightarrow> d = ho_device me \<and> e = ho_epoch me" for e
    using assms by (auto simp: owners_of_def)
  then show ?thesis unfolding owners_of_upd by auto
qed

lemma owners_of_cong: "hw_owners w = hw_owners w' \<Longrightarrow> owners_of w d = owners_of w' d"
  by (simp add: owners_of_def)

text \<open>The calls of one acquisition of a device, and of one release.\<close>

lemma acquire_device_calls:
  assumes "acquire_device d spec job sub outcome st = (r, calls, st')"
  shows "c \<in> set calls \<Longrightarrow> hc_device c = d"
    and "hk_on_acquire spec \<noteq> '''' \<Longrightarrow> held_after d (hs_held st) calls = Some (hs_held st')"
  using assms
  by (auto simp: acquire_device_def own_device_def no_acquire_def Let_def split: if_splits)

lemma fire_release_calls:
  assumes "fire_release d spec g outcome st = (calls, st')"
  shows "c \<in> set calls \<Longrightarrow> hc_device c = d"
    and "hk_on_release spec \<noteq> '''' \<Longrightarrow> hs_gen st = g \<Longrightarrow> hs_held st \<Longrightarrow> held_after d True calls = Some (hs_held st')"
    and "hs_gen st \<noteq> g \<Longrightarrow> calls = [] \<and> st' = st"
  using assms by (auto simp: fire_release_def Let_def split: if_splits)

lemma hooks_ok_acquire:
  assumes ok: "hooks_ok specs w" and conf: "hook_configured (specs d)"
    and a: "world_acquire specs d job sub outcome w = (r, w')"
  shows "hooks_ok specs w'"
proof -
  obtain calls st where ad: "acquire_device d (specs d) job sub outcome (state_of w d) = (r, calls, st)"
    using a conf by (auto simp: world_acquire_def Let_def split: prod.splits)
  define me where "me = \<lparr>ho_device = d, ho_job = job, ho_submitter = sub, ho_epoch = aq_epoch r\<rparr>"
  define w1 where "w1 = (put_state d st (stop_timer d w))\<lparr>hw_calls := hw_calls w @ calls\<rparr>"
  have w': "w' = (if aq_err r = None then w1\<lparr>hw_owners := (hw_owners w)(hw_next w \<mapsto> me), hw_next := hw_next w + 1\<rparr> else w1)"
    using a conf ad by (auto simp: world_acquire_def Let_def w1_def me_def)
  note dev = hooks_okD(1) [OF ok, unfolded device_ok_def]
  have new: "owners_of w' d' = (if d' = d \<and> aq_err r = None then insert (hw_next w, aq_epoch r) (owners_of w d') else owners_of w d')"
    for d'
  proof -
    have "owners_of w' d' = owners_of (if aq_err r = None then w\<lparr>hw_owners := (hw_owners w)(hw_next w \<mapsto> me)\<rparr> else w) d'"
      by (rule owners_of_cong) (simp add: w' w1_def)
    with owners_of_add [OF hooks_okD(3) [OF ok, of "hw_next w"]] show ?thesis by (simp add: me_def)
  qed
  have shape: "state_of w' d' = (if d' = d then st else state_of w d')"
    "hw_armed w' = hw_armed (stop_timer d w)" "hw_flying w' = hw_flying w" "hw_calls w' = hw_calls w @ calls" for d'
    by (simp_all add: w' w1_def)
  have fresh: "(hw_next w, e) \<notin> owners_of w d" for e using hooks_okD(3) [OF ok] by (simp add: owners_of_def)
  show ?thesis
  proof (rule hooks_okI [OF ok, where d = d and cs = calls])
    show "device_ok w' d"
    proof (cases "aq_err r = None")
      case True
      from dev_ok_acquired [OF dev ad True fresh] True show ?thesis
        by (simp add: device_ok_def shape new gens_of_stop(2) [OF hooks_okD(1) [OF ok]])
    next
      case False
      have "owners_of w' d = owners_of w d" using False by (simp add: new del: not_None_eq)
      with dev_ok_refused [OF dev ad False] show ?thesis
        by (simp add: device_ok_def shape gens_of_stop(2) [OF hooks_okD(1) [OF ok]])
    qed
    show "calls_ok specs w' d"
      using hooks_okD(2) [OF ok, of d] acquire_device_calls(2) [OF ad] by (simp add: calls_ok_def shape held_after_append)
    show "hw_owners w' k = None" if "hw_next w' \<le> k" for k
      using that hooks_okD(3) [OF ok] by (auto simp: w' w1_def split: if_splits)
  qed (use acquire_device_calls(1) [OF ad] in \<open>auto simp: shape new gens_of_stop(1)\<close>)
qed

lemma hooks_ok_release:
  assumes ok: "hooks_ok specs w" and k: "hw_owners w k = Some me"
  shows "hooks_ok specs (world_release k me w)"
proof -
  let ?d = "ho_device me" and ?w' = "world_release k me w"
  obtain st armed where sr: "schedule_release (ho_job me) (ho_submitter me) (ho_epoch me) (state_of w ?d) = (st, armed)"
    by (meson surj_pair)
  note dev = hooks_okD(1) [OF ok, of ?d]
  have mine: "(k, ho_epoch me) \<in> owners_of w ?d" using k by (simp add: owners_of_def)
  have owners: "owners_of ?w' d' = (if d' = ?d then owners_of w d' - {(k, ho_epoch me)} else owners_of w d')" for d'
  proof -
    have "owners_of ?w' d' = owners_of (w\<lparr>hw_owners := (hw_owners w)(k := None)\<rparr>) d'"
      by (rule owners_of_cong) (simp add: world_release_def Let_def sr)
    with owners_of_del [OF k] show ?thesis by simp
  qed
  note out = dev_ok_released [OF dev [unfolded device_ok_def] mine sr]
  have held: "hs_held st = hs_held (state_of w ?d)" using sr by (auto simp: schedule_release_def split: if_splits)
  have timer: "stop_timer ?d (w\<lparr>hw_owners := (hw_owners w)(k := None)\<rparr>) = w\<lparr>hw_owners := (hw_owners w)(k := None)\<rparr>" if armed
    using out that by (simp add: stop_timer_def)
  have same: "st = state_of w ?d" if "\<not> armed" using sr that by (auto simp: schedule_release_def split: if_splits)
  have shape: "state_of ?w' d' = (if d' = ?d then st else state_of w d')"
    "hw_armed ?w' = (if armed then insert (?d, hs_gen st) (hw_armed w) else hw_armed w)"
    "hw_flying ?w' = hw_flying w" "hw_calls ?w' = hw_calls w" "hw_next ?w' = hw_next w"
    "hw_owners ?w' = (hw_owners w)(k := None)" for d'
    using same by (auto simp: world_release_def Let_def sr timer)
  have new: "gens_of (insert (?d, hs_gen st) (hw_armed w)) ?d = {hs_gen st}" if armed
    using out that by simp
  show ?thesis
  proof (rule hooks_okI [OF ok, where d = ?d and cs = "[]"])
    show "device_ok ?w' ?d"
      using out new same dev by (cases armed) (simp_all add: device_ok_def shape owners del: gens_of_insert)
    show "calls_ok specs ?w' ?d" using hooks_okD(2) [OF ok, of ?d] held by (simp add: calls_ok_def shape)
  qed (use hooks_okD(3) [OF ok] in \<open>auto simp: shape owners\<close>)
qed

lemma hooks_ok_elapse:
  assumes ok: "hooks_ok specs w" and g: "(d, g) \<in> hw_armed w"
  shows "hooks_ok specs (w\<lparr>hw_armed := hw_armed w - {(d, g)}, hw_flying := insert (d, g) (hw_flying w)\<rparr>)"
proof (rule hooks_okI [OF ok, where d = d and cs = "[]"])
  have "g \<in> gens_of (hw_armed w) d" using g by (simp add: gens_of_def)
  from dev_ok_elapsed [OF hooks_okD(1) [OF ok, of d, unfolded device_ok_def] this]
  show "device_ok (w\<lparr>hw_armed := hw_armed w - {(d, g)}, hw_flying := insert (d, g) (hw_flying w)\<rparr>) d"
    by (simp add: device_ok_def)
  show "calls_ok specs (w\<lparr>hw_armed := hw_armed w - {(d, g)}, hw_flying := insert (d, g) (hw_flying w)\<rparr>) d"
    using hooks_okD(2) [OF ok, of d] by (simp add: calls_ok_def)
qed (use hooks_okD(3) [OF ok] in auto)

lemma hooks_ok_fire:
  assumes ok: "hooks_ok specs w" and g: "(d, g) \<in> hw_flying w"
  shows "hooks_ok specs (world_fire specs d g outcome w)"
proof -
  let ?w' = "world_fire specs d g outcome w"
  obtain calls st where f: "fire_release d (specs d) g outcome (state_of w d) = (calls, st)" by (meson surj_pair)
  have shape: "state_of ?w' d' = (if d' = d then st else state_of w d')" "hw_armed ?w' = hw_armed w"
    "hw_flying ?w' = hw_flying w - {(d, g)}" "hw_calls ?w' = hw_calls w @ calls" "hw_next ?w' = hw_next w"
    "hw_owners ?w' = hw_owners w" "owners_of ?w' d' = owners_of w d'" for d'
    by (simp_all add: world_fire_def f)
  note dev = hooks_okD(1) [OF ok, of d, unfolded device_ok_def]
  have gF: "g \<in> gens_of (hw_flying w) d" using g by (simp add: gens_of_def)
  show ?thesis
  proof (rule hooks_okI [OF ok, where d = d and cs = calls])
    from dev_ok_fired [OF dev gF f] show "device_ok ?w' d" by (simp add: device_ok_def shape)
    show "calls_ok specs ?w' d"
    proof (cases "hs_gen (state_of w d) = g")
      case True
      then have "hs_held (state_of w d)" using dev_okD(8) [OF dev] gF by simp
      with hooks_okD(2) [OF ok, of d] fire_release_calls(2) [OF f _ True] show ?thesis
        by (simp add: calls_ok_def shape held_after_append)
    next
      case False
      with hooks_okD(2) [OF ok, of d] fire_release_calls(3) [OF f False] show ?thesis
        by (simp add: calls_ok_def shape)
    qed
  qed (use hooks_okD(3) [OF ok] fire_release_calls(1) [OF f] in \<open>auto simp: shape\<close>)
qed

lemma hooks_ok_drain:
  assumes ok: "hooks_ok specs w"
  shows "hooks_ok specs (world_drain d w)"
proof (cases "drain_device (state_of w d)")
  case None
  with ok show ?thesis by (simp add: world_drain_def)
next
  case (Some gs)
  obtain g st where d: "drain_device (state_of w d) = Some (g, st)" using Some by (cases gs) simp
  let ?w' = "world_drain d w"
  have shape: "state_of ?w' d' = (if d' = d then st else state_of w d')" "hw_armed ?w' = hw_armed (stop_timer d w)"
    "hw_flying ?w' = insert (d, g) (hw_flying w)" "hw_calls ?w' = hw_calls w" "hw_next ?w' = hw_next w"
    "hw_owners ?w' = hw_owners w" "owners_of ?w' d' = owners_of w d'" for d'
    by (simp_all add: world_drain_def d)
  have held: "hs_held st = hs_held (state_of w d)" using d by (auto simp: drain_device_def split: if_splits)
  show ?thesis
  proof (rule hooks_okI [OF ok, where d = d and cs = "[]"])
    from dev_ok_drained [OF hooks_okD(1) [OF ok, of d, unfolded device_ok_def] d]
    show "device_ok ?w' d" by (simp add: device_ok_def shape gens_of_stop(2) [OF hooks_okD(1) [OF ok]])
    show "calls_ok specs ?w' d" using hooks_okD(2) [OF ok, of d] held by (simp add: calls_ok_def shape)
  qed (use hooks_okD(3) [OF ok] in \<open>auto simp: shape gens_of_stop(1)\<close>)
qed

lemma hooks_ok_step: "hook_step specs w l w' \<Longrightarrow> hooks_ok specs w \<Longrightarrow> hooks_ok specs w'"
  by (cases rule: hook_step.cases)
     (auto intro: hooks_ok_acquire hooks_ok_release hooks_ok_elapse hooks_ok_fire hooks_ok_drain)

interpretation hook_system: invariant_system "hook_step specs" "hooks_ok specs" for specs
  by unfold_locales (rule hooks_ok_step)

lemma world_acquire_effect:
  assumes "world_acquire specs d job sub outcome w = (r, w')" and "hook_configured (specs d)"
  shows "aq_err r = None \<Longrightarrow> (hw_next w, hs_epoch (state_of w' d)) \<in> owners_of w' d"
    and "aq_err r \<noteq> None \<Longrightarrow> hw_owners w' = hw_owners w \<and> \<not> hs_held (state_of w' d)
           \<and> hs_epoch (state_of w' d) = hs_epoch (state_of w d)"
    and "d' \<noteq> d \<Longrightarrow> state_of w' d' = state_of w d' \<and> (aq_err r = None \<longrightarrow> (\<forall>k. k \<noteq> hw_next w \<longrightarrow> hw_owners w' k = hw_owners w k))"
proof -
  obtain calls st where ad: "acquire_device d (specs d) job sub outcome (state_of w d) = (r, calls, st)"
    using assms by (auto simp: world_acquire_def Let_def split: prod.splits)
  note w' = assms(1) [unfolded world_acquire_def Let_def ad, simplified assms(2)]
  show "(hw_next w, hs_epoch (state_of w' d)) \<in> owners_of w' d" if "aq_err r = None"
    using acquire_device_state(3) [OF ad that] w' that by (auto simp: owners_of_def)
  show "hw_owners w' = hw_owners w \<and> \<not> hs_held (state_of w' d) \<and> hs_epoch (state_of w' d) = hs_epoch (state_of w d)"
    if "aq_err r \<noteq> None"
    using acquire_device_state(4) [OF ad that] w' that by auto
  show "state_of w' d' = state_of w d' \<and> (aq_err r = None \<longrightarrow> (\<forall>k. k \<noteq> hw_next w \<longrightarrow> hw_owners w' k = hw_owners w k))"
    if "d' \<noteq> d"
    using w' that by (auto split: if_splits)
qed

end
