(* ===== verification/Verify.thy ===== *)
theory Verify
  imports Hooks "HOL-Library.Word"
begin

unbundle bit_operations_syntax

text \<open>
  The check of a device after a job (\<open>src/internal/worker/verify.go\<close>), and the bounded capture of
  a script's output (\<open>boundedBuffer\<close> in \<open>probe.go\<close>). The directory, the mode of a script, its
  run and whether the pass's budget is used up are answers of the system.
\<close>

section \<open>Captured output\<close>

record bounded_buffer =
  bb_limit :: nat
  bb_buf :: string
  bb_truncated :: bool

definition max_probe_output :: nat where
  "max_probe_output = 65536"

definition empty_buffer :: "nat \<Rightarrow> bounded_buffer" where
  "empty_buffer limit = \<lparr>bb_limit = limit, bb_buf = '''', bb_truncated = False\<rparr>"

text \<open>\<open>Write\<close> keeps what fits and always accepts everything.\<close>

definition bb_write :: "string \<Rightarrow> bounded_buffer \<Rightarrow> bounded_buffer" where
  "bb_write p b =
     (if bb_truncated b then b
      else
        (let room = min (bb_limit b - length (bb_buf b)) (length p)
         in b\<lparr>bb_buf := bb_buf b @ take room p, bb_truncated := (room < length p)\<rparr>))"

lemma bb_write_fold:
  assumes "length (bb_buf b) \<le> bb_limit b" and "\<not> bb_truncated b"
  shows "fold bb_write ps b = b\<lparr>bb_buf := take (bb_limit b) (bb_buf b @ concat ps),
           bb_truncated := (bb_limit b < length (bb_buf b @ concat ps))\<rparr>"
  using assms
proof (induction ps arbitrary: b)
  case (Cons p ps)
  have skip: "bb_truncated c \<Longrightarrow> fold bb_write qs c = c" for qs c
    by (induction qs arbitrary: c) (auto simp: bb_write_def)
  show ?case
  proof (cases "length (bb_buf b @ p) \<le> bb_limit b")
    case True
    then have "bb_write p b = b\<lparr>bb_buf := bb_buf b @ p, bb_truncated := False\<rparr>"
      using Cons.prems by (simp add: bb_write_def min_def)
    with Cons.IH [of "bb_write p b"] True show ?thesis by simp
  next
    case False
    then have "bb_write p b = b\<lparr>bb_buf := bb_buf b @ take (bb_limit b - length (bb_buf b)) p, bb_truncated := True\<rparr>"
      using Cons.prems by (auto simp: bb_write_def min_def Let_def)
    with skip [of "bb_write p b" ps] False Cons.prems show ?thesis by simp
  qed
qed simp

section \<open>The pass\<close>

record verify_result =
  v_ok :: bool
  v_reason :: string

definition verify_passed :: verify_result where
  "verify_passed = \<lparr>v_ok = True, v_reason = ''''\<rparr>"

definition verify_prefix :: string where
  "verify_prefix = ''verify failed: ''"

datatype dir_read = DirMissing | DirError string | DirEntries "(string \<times> bool) list"

text \<open>The names that are no directories, in name order.\<close>

definition script_names :: "(string \<times> bool) list \<Rightarrow> string list" where
  "script_names entries = sort (map fst (filter (\<lambda>(n, is_dir). \<not> is_dir) entries))"

text \<open>What the system answers about one script: whether the budget is used up before it, its mode
  or the error of looking, its run, its captured stderr, and whether the budget is used up after.\<close>

record script_run =
  sr_late :: bool
  sr_stat :: "string + 32 word"
  sr_result :: exec_result
  sr_stderr :: bounded_buffer
  sr_late_after :: bool

definition executable_mode :: "32 word \<Rightarrow> bool" where
  "executable_mode mode \<longleftrightarrow> mode AND 0x49 \<noteq> 0"

definition budget_exceeded_reason :: "duration \<Rightarrow> string" where
  "budget_exceeded_reason budget = verify_prefix @ ''pass exceeded its '' @ duration_text budget @ '' budget''"

definition verify_failure_detail :: "exec_result \<Rightarrow> string" where
  "verify_failure_detail res =
     (case r_err res of
        Some e \<Rightarrow> ''run: '' @ e
      | None \<Rightarrow>
          if r_killed res then (if r_reason res \<noteq> '''' then r_reason res else ''killed'')
          else ''exited '' @ itoa (r_exit res))"

definition max_verify_tail :: nat where
  "max_verify_tail = 200"

definition verify_stderr_tail :: "bounded_buffer \<Rightarrow> string" where
  "verify_stderr_tail b =
     (let s = trim_space (bb_buf b)
      in if s = '''' then ''''
         else
           (let s1 = (if max_verify_tail < length s
                      then ''...(truncated)'' @ drop (length s - max_verify_tail) s else s)
            in if bb_truncated b then s1 @ '' (stderr itself was truncated)'' else s1))"

definition script_passed :: "exec_result \<Rightarrow> bool" where
  "script_passed res \<longleftrightarrow> r_err res = None \<and> \<not> r_killed res \<and> r_exit res = 0"

definition fail_once :: "string \<Rightarrow> verify_result \<Rightarrow> verify_result" where
  "fail_once why r = (if v_ok r then \<lparr>v_ok = False, v_reason = why\<rparr> else r)"

definition failure_reason :: "string \<Rightarrow> script_run \<Rightarrow> string" where
  "failure_reason name s =
     (let why = verify_prefix @ name @ '': '' @ verify_failure_detail (sr_result s); tail = verify_stderr_tail (sr_stderr s)
      in if tail \<noteq> '''' then why @ '': '' @ tail else why)"

text \<open>The loop over the names; the second result is the scripts that were run.\<close>

fun verify_loop :: "duration \<Rightarrow> (string \<Rightarrow> script_run) \<Rightarrow> string list \<Rightarrow> verify_result \<Rightarrow> verify_result \<times> string list" where
  "verify_loop budget sys [] r = (r, [])"
| "verify_loop budget sys (name # names) r =
     (let s = sys name
      in if sr_late s then (fail_once (budget_exceeded_reason budget) r, [])
         else
           (case sr_stat s of
              Inl e \<Rightarrow> verify_loop budget sys names (fail_once (verify_prefix @ name @ '': stat: '' @ e) r)
            | Inr mode \<Rightarrow>
                if \<not> executable_mode mode then verify_loop budget sys names r
                else if script_passed (sr_result s)
                then (let (r', ran) = verify_loop budget sys names r in (r', name # ran))
                else if sr_late_after s then (fail_once (budget_exceeded_reason budget) r, [name])
                else (let (r', ran) = verify_loop budget sys names (fail_once (failure_reason name s) r) in (r', name # ran))))"

definition run_verify :: "duration \<Rightarrow> dir_read \<Rightarrow> (string \<Rightarrow> script_run) \<Rightarrow> verify_result \<times> string list" where
  "run_verify budget dir sys =
     (case dir of
        DirMissing \<Rightarrow> (verify_passed, [])
      | DirError e \<Rightarrow> (\<lparr>v_ok = False, v_reason = verify_prefix @ ''read verify_dir: '' @ e\<rparr>, [])
      | DirEntries entries \<Rightarrow> verify_loop budget sys (script_names entries) verify_passed)"

section \<open>What a pass means\<close>

text \<open>A script does not speak against the device: it was reached in time, could be looked at, and is
  either not executable or exited 0 by itself.\<close>

definition script_fine :: "script_run \<Rightarrow> bool" where
  "script_fine s \<longleftrightarrow>
     \<not> sr_late s \<and> (case sr_stat s of Inl e \<Rightarrow> False
       | Inr mode \<Rightarrow> executable_mode mode \<longrightarrow> script_passed (sr_result s))"

lemma fail_once_ok [simp]: "v_ok (fail_once why r) = False"
  by (simp add: fail_once_def)

lemma verify_loop_failed: "\<not> v_ok r \<Longrightarrow> fst (verify_loop budget sys names r) = r"
proof (induction names)
  case (Cons n ns)
  then have "fail_once why r = r" for why by (simp add: fail_once_def)
  with Cons show ?case by (auto simp: Let_def case_prod_beta split: sum.splits)
qed simp

lemma verify_loop_ok:
  "v_ok r \<Longrightarrow> v_ok (fst (verify_loop budget sys names r)) \<longleftrightarrow> (\<forall>n \<in> set names. script_fine (sys n))"
proof (induction names arbitrary: r)
  case (Cons n ns)
  have failed: "v_ok (fst (verify_loop budget sys ns (fail_once why r))) = False" for why
    by (simp add: verify_loop_failed)
  show ?case using Cons failed
    by (auto simp: script_fine_def Let_def case_prod_beta split: sum.splits)
qed simp

lemma script_names_set: "set (script_names entries) = {n. (n, False) \<in> set entries}"
  by (force simp: script_names_def)

lemma run_verify_ok:
  "v_ok (fst (run_verify budget dir sys)) \<longleftrightarrow>
     dir = DirMissing \<or> (\<exists>entries. dir = DirEntries entries \<and> (\<forall>n. (n, False) \<in> set entries \<longrightarrow> script_fine (sys n)))"
  by (cases dir) (auto simp: run_verify_def verify_loop_ok verify_passed_def script_names_set)

end
