(* ===== verification/Reporting.thy ===== *)
theory Reporting
  imports Verify Model
begin

text \<open>
  How the worker tells the controller (\<open>src/internal/worker/worker.go\<close>): the status report, the
  fault report and the retries of both. What the network answers to an attempt, and how long it
  took, are arguments; an attempt's context ends it after \<open>terminalReportAttemptTimeout\<close>.
\<close>

section \<open>One attempt\<close>

datatype http_answer = NoAnswer | Answered int

definition accepted_answer :: "http_answer \<Rightarrow> bool" where
  "accepted_answer a = (case a of NoAnswer \<Rightarrow> False | Answered status \<Rightarrow> status div 100 = 2)"

text \<open>\<open>postFault\<close>: accepted, and whether another attempt could help.\<close>

definition fault_answer :: "http_answer \<Rightarrow> bool \<times> bool" where
  "fault_answer a =
     (case a of
        NoAnswer \<Rightarrow> (False, True)
      | Answered status \<Rightarrow> if status div 100 = 2 then (True, False) else (False, status div 100 = 5))"

section \<open>The retry loops\<close>

definition report_attempts :: nat where
  "report_attempts = 5"

definition attempt_timeout :: duration where
  "attempt_timeout = 5 * go_second"

definition first_backoff :: duration where
  "first_backoff = 200000000"

text \<open>What a loop does: an attempt with its answer, or a pause.\<close>

datatype report_act = Attempt http_answer | Pause duration

text \<open>
  The loops with the attempts that are left, the pause due next and the answers still to come (an
  attempt without one gets none); the result says whether the controller accepted.
\<close>

definition next_answer :: "http_answer list \<Rightarrow> http_answer" where
  "next_answer answers = (case answers of [] \<Rightarrow> NoAnswer | a # _ \<Rightarrow> a)"

fun terminal_loop :: "nat \<Rightarrow> duration \<Rightarrow> http_answer list \<Rightarrow> bool \<times> report_act list" where
  "terminal_loop 0 backoff answers = (False, [])"
| "terminal_loop (Suc n) backoff answers =
     (let a = next_answer answers
      in if accepted_answer a then (True, [Attempt a])
         else if n = 0 then (False, [Attempt a])
         else
           (let (ok, acts) = terminal_loop n (backoff * 2) (tl answers)
            in (ok, Attempt a # Pause backoff # acts)))"

definition report_terminal :: "http_answer list \<Rightarrow> bool \<times> report_act list" where
  "report_terminal answers = terminal_loop report_attempts first_backoff answers"

fun fault_loop :: "nat \<Rightarrow> duration \<Rightarrow> http_answer list \<Rightarrow> bool \<times> report_act list" where
  "fault_loop 0 backoff answers = (False, [])"
| "fault_loop (Suc n) backoff answers =
     (let a = next_answer answers; (ok, retryable) = fault_answer a
      in if ok then (True, [Attempt a])
         else if \<not> retryable \<or> n = 0 then (False, [Attempt a])
         else
           (let (ok, acts) = fault_loop n (backoff * 2) (tl answers)
            in (ok, Attempt a # Pause backoff # acts)))"

definition report_fault :: "http_answer list \<Rightarrow> bool \<times> report_act list" where
  "report_fault answers = fault_loop report_attempts first_backoff answers"

section \<open>Their bounds\<close>

fun attempts_of :: "report_act list \<Rightarrow> http_answer list" where
  "attempts_of [] = []"
| "attempts_of (Attempt a # acts) = a # attempts_of acts"
| "attempts_of (Pause d # acts) = attempts_of acts"

fun pauses_of :: "report_act list \<Rightarrow> duration" where
  "pauses_of [] = 0"
| "pauses_of (Attempt a # acts) = pauses_of acts"
| "pauses_of (Pause d # acts) = d + pauses_of acts"

text \<open>The longest a loop can take, when no attempt outlives its context.\<close>

definition longest :: "report_act list \<Rightarrow> duration" where
  "longest acts = attempt_timeout * int (length (attempts_of acts)) + pauses_of acts"

lemma terminal_loop_bounds:
  "0 \<le> backoff \<Longrightarrow> length (attempts_of (snd (terminal_loop n backoff answers))) \<le> n
     \<and> pauses_of (snd (terminal_loop n backoff answers)) \<le> backoff * (2 ^ (n - 1) - 1)
     \<and> 0 \<le> pauses_of (snd (terminal_loop n backoff answers))"
proof (induction n backoff answers rule: terminal_loop.induct)
  case (2 n backoff answers)
  show ?case
  proof (cases "accepted_answer (next_answer answers) \<or> n = 0")
    case True
    with 2(2) show ?thesis by (auto simp: Let_def)
  next
    case False
    then obtain m where m: "n = Suc m" by (cases n) auto
    have e: "backoff + backoff * 2 * (2 ^ (n - 1) - 1) = backoff * (2 ^ n - 1)"
      unfolding m by (simp add: algebra_simps)
    from 2(1) [OF refl _ _] False 2(2) have "length (attempts_of (snd (terminal_loop n (backoff * 2) (tl answers)))) \<le> n"
      "pauses_of (snd (terminal_loop n (backoff * 2) (tl answers))) \<le> backoff * 2 * (2 ^ (n - 1) - 1)"
      "0 \<le> pauses_of (snd (terminal_loop n (backoff * 2) (tl answers)))" by auto
    with False e 2(2) show ?thesis by (auto simp: Let_def case_prod_beta simp del: power_Suc)
  qed
qed simp

lemma fault_loop_bounds:
  "0 \<le> backoff \<Longrightarrow> length (attempts_of (snd (fault_loop n backoff answers))) \<le> n
     \<and> pauses_of (snd (fault_loop n backoff answers)) \<le> backoff * (2 ^ (n - 1) - 1)
     \<and> 0 \<le> pauses_of (snd (fault_loop n backoff answers))"
proof (induction n arbitrary: backoff answers)
  case (Suc n)
  obtain ok retryable where f: "fault_answer (next_answer answers) = (ok, retryable)" by (meson surj_pair)
  show ?case
  proof (cases "ok \<or> \<not> retryable \<or> n = 0")
    case True
    with Suc.prems f show ?thesis by (auto simp: Let_def)
  next
    case False
    then obtain m where m: "n = Suc m" by (cases n) auto
    have e: "backoff + backoff * 2 * (2 ^ (n - 1) - 1) = backoff * (2 ^ n - 1)"
      unfolding m by (simp add: algebra_simps)
    from Suc.IH [of "backoff * 2" "tl answers"] Suc.prems False e f show ?thesis
      by (auto simp: Let_def case_prod_beta simp del: power_Suc)
  qed
qed simp

text \<open>A report is accepted exactly when one of its attempts is; the loop stops there.\<close>

lemma terminal_loop_accepted:
  "fst (terminal_loop n backoff answers)
     \<longleftrightarrow> (\<exists>a \<in> set (attempts_of (snd (terminal_loop n backoff answers))). accepted_answer a)"
  by (induction n backoff answers rule: terminal_loop.induct) (auto simp: Let_def case_prod_beta)

lemma terminal_loop_attempts:
  "attempts_of (snd (terminal_loop n backoff answers)) \<noteq> [] \<or> n = 0"
  by (cases n) (auto simp: Let_def case_prod_beta)

end
