(* ===== verification/Reconnect.thy ===== *)
theory Reconnect
  imports RC_Prelude
begin

text \<open>
  When a worker registers again (\<open>src/internal/worker/reconnect.go\<close>): the tracker of contact
  with the controller. Each operation holds the tracker's mutex. The zero \<open>time.Time\<close> is \<open>None\<close>;
  the draw of the jitter is an argument.
\<close>

section \<open>The tracker\<close>

definition reregister_after_silence :: duration where
  "reregister_after_silence = 300 * go_second"

definition reregister_jitter :: duration where
  "reregister_jitter = 30 * go_second"

definition reregister_retry_after :: duration where
  "reregister_retry_after = 60 * go_second"

record contact =
  ct_last :: "time option"
  ct_instance :: string
  ct_due :: "time option"

definition new_contact :: contact where
  "new_contact = \<lparr>ct_last = None, ct_instance = '''', ct_due = None\<rparr>"

text \<open>\<open>rand.N(reregisterJitter)\<close> draws below its argument.\<close>

definition jitter_draw :: "duration \<Rightarrow> bool" where
  "jitter_draw j \<longleftrightarrow> 0 \<le> j \<and> j < reregister_jitter"

definition contact_arm :: "duration \<Rightarrow> time \<Rightarrow> contact \<Rightarrow> contact" where
  "contact_arm jitter now t = (if ct_due t \<noteq> None then t else t\<lparr>ct_due := Some (now + jitter)\<rparr>)"

definition contact_lost :: "time \<Rightarrow> contact \<Rightarrow> bool" where
  "contact_lost now t =
     (case ct_last t of None \<Rightarrow> False | Some l \<Rightarrow> reregister_after_silence \<le> time_sub now l)"

definition contact_observe :: "duration \<Rightarrow> duration \<Rightarrow> time \<Rightarrow> string \<Rightarrow> contact \<Rightarrow> contact" where
  "contact_observe j1 j2 now inst t =
     (let t1 = (if contact_lost now t then contact_arm j1 now t else t);
          t2 = (if inst \<noteq> '''' then
                  (if ct_instance t1 \<noteq> '''' \<and> inst \<noteq> ct_instance t1 then contact_arm j2 now t1 else t1)\<lparr>ct_instance := inst\<rparr>
                else t1)
      in (case ct_last t2 of
            None \<Rightarrow> t2\<lparr>ct_last := Some now\<rparr>
          | Some l \<Rightarrow> if l < now then t2\<lparr>ct_last := Some now\<rparr> else t2))"

definition contact_due :: "time \<Rightarrow> contact \<Rightarrow> bool" where
  "contact_due now t = (case ct_due t of None \<Rightarrow> False | Some d \<Rightarrow> d \<le> now)"

definition contact_attempting :: "time \<Rightarrow> contact \<Rightarrow> contact" where
  "contact_attempting now t = t\<lparr>ct_due := Some (now + reregister_retry_after)\<rparr>"

definition contact_registered :: "contact \<Rightarrow> contact" where
  "contact_registered t = t\<lparr>ct_due := None\<rparr>"

section \<open>Its behaviour\<close>

text \<open>What an exchange says: contact was lost for long enough, or the controller is another one.\<close>

definition must_reregister :: "time \<Rightarrow> string \<Rightarrow> contact \<Rightarrow> bool" where
  "must_reregister now inst t \<longleftrightarrow>
     contact_lost now t \<or> (inst \<noteq> '''' \<and> ct_instance t \<noteq> '''' \<and> inst \<noteq> ct_instance t)"

lemma contact_arm_simps [simp]:
  "ct_last (contact_arm j now t) = ct_last t" "ct_instance (contact_arm j now t) = ct_instance t"
  "ct_due (contact_arm j now t) = (if ct_due t = None then Some (now + j) else ct_due t)"
  by (simp_all add: contact_arm_def)

lemma contact_observe_due:
  "ct_due (contact_observe j1 j2 now inst t) =
     (if ct_due t \<noteq> None then ct_due t
      else if contact_lost now t then Some (now + j1)
      else if must_reregister now inst t then Some (now + j2) else None)"
  by (auto simp: contact_observe_def must_reregister_def Let_def split: option.splits)

lemma contact_observe_instance:
  "ct_instance (contact_observe j1 j2 now inst t) = (if inst = '''' then ct_instance t else inst)"
  by (auto simp: contact_observe_def Let_def split: option.splits)

lemma contact_observe_last:
  "ct_last (contact_observe j1 j2 now inst t) =
     Some (case ct_last t of None \<Rightarrow> now | Some l \<Rightarrow> max l now)"
  by (auto simp: contact_observe_def Let_def split: option.splits)

text \<open>Exchanges in the order they are recorded, each with its time, instance and draws.\<close>

fun observe_all :: "(duration \<times> duration \<times> time \<times> string) list \<Rightarrow> contact \<Rightarrow> contact" where
  "observe_all [] t = t"
| "observe_all ((j1, j2, now, inst) # xs) t = observe_all xs (contact_observe j1 j2 now inst t)"

lemma observe_all_keeps_debt: "ct_due t = Some d \<Longrightarrow> ct_due (observe_all xs t) = Some d"
  by (induction xs t rule: observe_all.induct) (simp_all add: contact_observe_due)

lemma observe_all_append: "observe_all (xs @ ys) t = observe_all ys (observe_all xs t)"
  by (induction xs t rule: observe_all.induct) simp_all

lemma observe_all_last: "ct_last t = Some l \<Longrightarrow> \<exists>m. ct_last (observe_all xs t) = Some m \<and> l \<le> m"
proof (induction xs t arbitrary: l rule: observe_all.induct)
  case (2 j1 j2 now inst xs t)
  then have "ct_last (contact_observe j1 j2 now inst t) = Some (max l now)" by (simp add: contact_observe_last)
  from 2(1) [OF this] show ?case by fastforce
qed simp

text \<open>Nothing is owed while every gap is short and every named controller is the same one.\<close>

definition steady :: "string \<Rightarrow> contact \<Rightarrow> (duration \<times> duration \<times> time \<times> string) list \<Rightarrow> bool" where
  "steady inst t xs \<longleftrightarrow>
     (\<forall>ys j1 j2 now i zs. xs = ys @ (j1, j2, now, i) # zs \<longrightarrow>
        \<not> contact_lost now (observe_all ys t) \<and> (i = '''' \<or> i = inst))"

lemma steady_owes_nothing:
  assumes "ct_due t = None" and "ct_instance t = '''' \<or> ct_instance t = inst" and "steady inst t xs"
  shows "ct_due (observe_all xs t) = None"
proof -
  have "ct_due (observe_all xs t) = None \<and> (ct_instance (observe_all xs t) = '''' \<or> ct_instance (observe_all xs t) = inst)"
    using assms(3)
  proof (induction xs rule: rev_induct)
    case Nil
    with assms(1,2) show ?case by simp
  next
    case (snoc x xs)
    obtain j1 j2 now i where x: "x = (j1, j2, now, i)" by (cases x) auto
    have "steady inst t xs" unfolding steady_def
      using snoc.prems [unfolded steady_def] by (metis append.assoc append_Cons)
    with snoc.IH have ih: "ct_due (observe_all xs t) = None" "ct_instance (observe_all xs t) = '''' \<or> ct_instance (observe_all xs t) = inst"
      by auto
    from snoc.prems x have "\<not> contact_lost now (observe_all xs t)" "i = '''' \<or> i = inst"
      unfolding steady_def by blast+
    with ih show ?case
      by (auto simp: x observe_all_append contact_observe_due contact_observe_instance must_reregister_def)
  qed
  then show ?thesis by simp
qed

end
