(* ===== verification/Worker_Config.thy ===== *)
theory Worker_Config
  imports Hooks
begin

text \<open>
  The worker's configuration (\<open>src/internal/worker/config.go\<close>): the defaults, what the
  environment adds, the checks of \<open>LoadConfig\<close>; and the usage sheets it sends
  (\<open>sheet.go\<close>). Reading the file and decoding YAML are not the program's: \<open>load_config\<close> starts from
  the decoded value.
\<close>

section \<open>The records\<close>

record device_config =
  dc_name :: string
  dc_max_runtime :: duration
  dc_on_acquire :: string
  dc_on_release :: string
  dc_hook_timeout :: duration
  dc_release_linger :: duration
  dc_labels :: "string \<rightharpoonup> string"

record worker_config =
  wc_controller_url :: string
  wc_token :: string
  wc_host :: string
  wc_devices :: "device_config list"
  wc_heartbeat_interval :: duration
  wc_poll_wait :: duration
  wc_hook_timeout :: duration
  wc_release_linger :: duration
  wc_probe_dir :: string
  wc_probe_interval :: duration
  wc_probe_timeout :: duration
  wc_verify_dir :: string
  wc_verify_timeout :: duration
  wc_verify_budget :: duration
  wc_sheet_dir :: string
  wc_manual_clear :: bool

section \<open>Defaults\<close>

definition or_default :: "duration \<Rightarrow> duration \<Rightarrow> duration" where
  "or_default d x = (if x \<le> 0 then d else x)"

definition or_text :: "string \<Rightarrow> string \<Rightarrow> string" where
  "or_text d s = (if s = '''' then d else s)"

definition device_defaults :: "duration \<Rightarrow> duration \<Rightarrow> device_config \<Rightarrow> device_config" where
  "device_defaults timeout linger d =
     d\<lparr>dc_hook_timeout := or_default timeout (dc_hook_timeout d),
       dc_release_linger := or_default linger (dc_release_linger d)\<rparr>"

definition with_defaults :: "worker_config \<Rightarrow> worker_config" where
  "with_defaults c =
     (let timeout = or_default (60 * go_second) (wc_hook_timeout c);
          linger = or_default (30 * go_second) (wc_release_linger c)
      in c\<lparr>wc_hook_timeout := timeout, wc_release_linger := linger,
           wc_devices := map (device_defaults timeout linger) (wc_devices c),
           wc_heartbeat_interval := or_default (10 * go_second) (wc_heartbeat_interval c),
           wc_poll_wait := or_default (30 * go_second) (wc_poll_wait c),
           wc_probe_dir := or_text ''/etc/rc/probe.d'' (wc_probe_dir c),
           wc_probe_interval := or_default (300 * go_second) (wc_probe_interval c),
           wc_probe_timeout := or_default (5 * go_second) (wc_probe_timeout c),
           wc_verify_dir := or_text ''/etc/rc/verify.d'' (wc_verify_dir c),
           wc_verify_timeout := or_default (30 * go_second) (wc_verify_timeout c),
           wc_verify_budget := or_default (120 * go_second) (wc_verify_budget c),
           wc_sheet_dir := or_text ''/etc/rc'' (wc_sheet_dir c)\<rparr>)"

text \<open>\<open>New\<close>: the hooks of the devices by full identifier; a later device of the same name wins.\<close>

definition resolve_hooks :: "worker_config \<Rightarrow> string \<Rightarrow> hook_spec" where
  "resolve_hooks c dev =
     (case map_of (rev (map (\<lambda>d. (wc_host c @ '':'' @ dc_name d, d)) (wc_devices (with_defaults c)))) dev of
        None \<Rightarrow> no_hooks
      | Some d \<Rightarrow> \<lparr>hk_on_acquire = dc_on_acquire d, hk_on_release = dc_on_release d,
                   hk_timeout = dc_hook_timeout d, hk_linger = dc_release_linger d\<rparr>)"

section \<open>The environment and the checks\<close>

text \<open>\<open>strconv.ParseBool\<close>.\<close>

definition parse_bool :: "string \<Rightarrow> bool option" where
  "parse_bool s =
     (if s \<in> {''1'', ''t'', ''T'', ''TRUE'', ''true'', ''True''} then Some True
      else if s \<in> {''0'', ''f'', ''F'', ''FALSE'', ''false'', ''False''} then Some False
      else None)"

definition env_requires_manual_clear :: "string \<Rightarrow> bool" where
  "env_requires_manual_clear raw0 =
     (let raw = trim_space raw0
      in if raw = '''' then False else (case parse_bool raw of None \<Rightarrow> True | Some v \<Rightarrow> v))"

datatype config_error = NoHostname | NoControllerURL | NoDevices | DeviceUnnamed
  | CeilingBelowSecond string | BlankAcquire string | BlankRelease string

definition check_device :: "device_config \<Rightarrow> config_error option" where
  "check_device d =
     (if dc_name d = '''' then Some DeviceUnnamed
      else if 0 < dc_max_runtime d \<and> dc_max_runtime d < go_second then Some (CeilingBelowSecond (dc_name d))
      else if dc_on_acquire d \<noteq> '''' \<and> trim_space (dc_on_acquire d) = '''' then Some (BlankAcquire (dc_name d))
      else if dc_on_release d \<noteq> '''' \<and> trim_space (dc_on_release d) = '''' then Some (BlankRelease (dc_name d))
      else None)"

fun check_devices :: "device_config list \<Rightarrow> config_error option" where
  "check_devices [] = None"
| "check_devices (d # ds) = (case check_device d of Some e \<Rightarrow> Some e | None \<Rightarrow> check_devices ds)"

text \<open>The decoded file, \<open>RC_TOKEN\<close>, \<open>RC_REQUIRE_MANUAL_CLEAR\<close> and the host's name.\<close>

definition load_config :: "worker_config \<Rightarrow> string \<Rightarrow> string \<Rightarrow> string option \<Rightarrow> config_error + worker_config" where
  "load_config file token manual hostname =
     (let c1 = (if wc_token file = '''' then file\<lparr>wc_token := trim_space token\<rparr> else file);
          c2 = (if env_requires_manual_clear manual then c1\<lparr>wc_manual_clear := True\<rparr> else c1)
      in case (if wc_host c2 = '''' then map_option (\<lambda>h. c2\<lparr>wc_host := h\<rparr>) hostname else Some c2) of
           None \<Rightarrow> Inl NoHostname
         | Some c \<Rightarrow>
             if wc_controller_url c = '''' then Inl NoControllerURL
             else if wc_devices c = [] then Inl NoDevices
             else (case check_devices (wc_devices c) of Some e \<Rightarrow> Inl e | None \<Rightarrow> Inr (with_defaults c)))"

section \<open>Usage sheets\<close>

definition max_sheet :: nat where
  "max_sheet = 65536"

definition sheet_marker :: string where
  "sheet_marker = CHR 0x0A # ''...(truncated: sheet exceeds 64KB)'' @ [CHR 0x0A]"

text \<open>\<open>utf8.RuneStart\<close>: not a continuation byte.\<close>

definition rune_start :: "char \<Rightarrow> bool" where
  "rune_start c \<longleftrightarrow> (let n = of_char c :: nat in n < 128 \<or> 192 \<le> n)"

fun back_to_rune :: "string \<Rightarrow> nat \<Rightarrow> nat" where
  "back_to_rune body 0 = 0"
| "back_to_rune body (Suc n) = (if rune_start (body ! Suc n) then Suc n else back_to_rune body n)"

definition truncate_sheet :: "string \<Rightarrow> string" where
  "truncate_sheet body =
     (if length body \<le> max_sheet then body
      else take (back_to_rune body (max_sheet - length sheet_marker)) body @ sheet_marker)"

text \<open>Reading one sheet: absent is the empty sheet, another error is no answer.\<close>

datatype file_read = FileMissing | FileError string | FileText string

definition read_sheet_file :: "file_read \<Rightarrow> string + string" where
  "read_sheet_file f =
     (case f of FileMissing \<Rightarrow> Inr '''' | FileError e \<Rightarrow> Inl e | FileText body \<Rightarrow> Inr (truncate_sheet body))"

text \<open>\<open>sheetPayload\<close> over \<open>readSheets\<close>: the host's sheet when it could be read, and those of the
  devices whose sheet could.\<close>

definition sheet_payload :: "file_read \<Rightarrow> (string \<Rightarrow> file_read) \<Rightarrow> device_config list \<Rightarrow> string option \<times> (string \<rightharpoonup> string)" where
  "sheet_payload host devs ds =
     ((case read_sheet_file host of Inl e \<Rightarrow> None | Inr body \<Rightarrow> Some body),
      (\<lambda>name. if name \<in> set (map dc_name ds)
              then (case read_sheet_file (devs name) of Inl e \<Rightarrow> None | Inr body \<Rightarrow> Some body) else None))"

section \<open>What a loaded configuration guarantees\<close>

lemma or_default_pos: "0 < d \<Longrightarrow> 0 < or_default d x"
  by (simp add: or_default_def)

lemma or_default_idem: "0 < d \<Longrightarrow> or_default e (or_default d x) = or_default d x"
  by (simp add: or_default_def)

lemma or_text_idem: "or_text d (or_text d s) = or_text d s"
  by (simp add: or_text_def)

lemma device_defaults_idem:
  "0 < t \<Longrightarrow> 0 < l \<Longrightarrow> device_defaults t l (device_defaults t l d) = device_defaults t l d"
  by (simp add: device_defaults_def or_default_idem)

lemma with_defaults_idem: "with_defaults (with_defaults c) = with_defaults c"
  by (simp add: with_defaults_def Let_def or_default_idem or_text_idem comp_def device_defaults_idem or_default_pos)

lemma with_defaults_bounds:
  "0 < wc_heartbeat_interval (with_defaults c)" "0 < wc_poll_wait (with_defaults c)"
  "0 < wc_probe_interval (with_defaults c)" "0 < wc_probe_timeout (with_defaults c)"
  "0 < wc_verify_timeout (with_defaults c)" "0 < wc_verify_budget (with_defaults c)"
  "d \<in> set (wc_devices (with_defaults c)) \<Longrightarrow> 0 < dc_hook_timeout d \<and> 0 < dc_release_linger d"
  by (auto simp: with_defaults_def Let_def device_defaults_def or_default_pos)

lemma check_devices_None: "check_devices ds = None \<longleftrightarrow> (\<forall>d \<in> set ds. check_device d = None)"
  by (induction ds) (auto split: option.splits)

lemma resolve_hooks_timeout:
  "hook_configured (resolve_hooks c dev) \<Longrightarrow> 0 < hk_timeout (resolve_hooks c dev) \<and> 0 < hk_linger (resolve_hooks c dev)"
  using with_defaults_bounds(7) [of _ c]
  by (auto simp: resolve_hooks_def hook_configured_def no_hooks_def split: option.splits dest!: map_of_SomeD)

lemma sheet_marker_length: "length sheet_marker = 36"
  by (simp add: sheet_marker_def)

lemma back_to_rune_le: "back_to_rune body n \<le> n"
  by (induction body n rule: back_to_rune.induct) auto

lemma back_to_rune_start: "back_to_rune body n = 0 \<or> rune_start (body ! back_to_rune body n)"
  by (induction body n rule: back_to_rune.induct) auto

lemma truncate_sheet_length: "length (truncate_sheet body) \<le> max_sheet"
proof (cases "length body \<le> max_sheet")
  case False
  have "back_to_rune body (max_sheet - length sheet_marker) + length sheet_marker \<le> max_sheet"
    using back_to_rune_le [of body "max_sheet - length sheet_marker"] by (simp add: max_sheet_def sheet_marker_length)
  then show ?thesis by (simp add: truncate_sheet_def)
qed (simp add: truncate_sheet_def)

end
