(* ===== verification/Agent.thy ===== *)
theory Agent
  imports Reporting Reconnect Worker_Config
begin

text \<open>
  The worker process (\<open>src/internal/worker/worker.go\<close>): the jobs it runs. The poll loop spawns a
  goroutine per assignment; a goroutine goes through the stages of \<open>execute\<close>, which are the
  constructors of \<open>phase\<close>, and what it tells the controller and the system is recorded per job.
  Timers, contact with the controller and the shutdown interleave with it freely.
\<close>

section \<open>Assignments\<close>

record assignment =
  as_job :: string
  as_device :: string
  as_command :: "string list"
  as_cwd :: string
  as_env :: "string \<rightharpoonup> string"
  as_max_runtime :: int
  as_idle_timeout :: int
  as_submitter :: string
  as_kind :: string
  as_stdio :: string

record poll_response =
  pr_assignments :: "assignment list"
  pr_kills :: "string list"

definition hold_sleeper :: "string list" where
  "hold_sleeper = [''sleep'', ''2147483647'']"

text \<open>The environment of a job: the submitter's, then the job's identity, then the device index
  unless the submitter set it.\<close>

definition job_env :: "assignment \<Rightarrow> string \<rightharpoonup> string" where
  "job_env a =
     (let env = (as_env a)(''RC_JOB_ID'' \<mapsto> as_job a, ''RC_DEVICE'' \<mapsto> as_device a)
      in if env ''CUDA_VISIBLE_DEVICES'' \<noteq> None then env
         else (case cuda_device_index (as_device a) of
                 Some i \<Rightarrow> env(''CUDA_VISIBLE_DEVICES'' \<mapsto> i)
               | None \<Rightarrow> env))"

definition job_spec_of :: "assignment \<Rightarrow> job_spec" where
  "job_spec_of a =
     \<lparr>js_command = (if as_kind a = LeaseKindHold then hold_sleeper else as_command a),
      js_cwd = as_cwd a, js_env = job_env a, js_grace = 0,
      js_max_runtime = seconds_dur (as_max_runtime a), js_idle_timeout = seconds_dur (as_idle_timeout a),
      js_stdin = False, js_sweep = as_job a\<rparr>"

text \<open>
  \<open>runAttached\<close>, \<open>runTTY\<close>, \<open>startPTY\<close>: an attached job needs its streams first; a pipe is a run with
  standard input, a terminal is a supervision of the session.
\<close>

definition run_attached :: "assignment \<Rightarrow> job_spec \<Rightarrow> string option \<Rightarrow> launch \<Rightarrow> exec_result" where
  "run_attached a spec dial_err l =
     (case dial_err of
        Some e \<Rightarrow> failed_result (''attach '' @ as_stdio a @ '' stdio: '' @ e)
      | None \<Rightarrow>
          if as_stdio a = StdioTTY then
            (if js_command spec = [] then failed_result ''empty command''
             else
               (case la_start_err l of
                  Some e \<Rightarrow> failed_result (''start pty: '' @ e)
                | None \<Rightarrow> fst (run_supervised (la_sweep l) spec (la_started l) (la_course l))))
          else fst (run_command (spec\<lparr>js_stdin := True\<rparr>) l))"

definition run_job :: "assignment \<Rightarrow> string option \<Rightarrow> launch \<Rightarrow> exec_result" where
  "run_job a dial_err l =
     (if stdio_attached (as_stdio a) then run_attached a (job_spec_of a) dial_err l
      else fst (run_command (job_spec_of a) l))"

section \<open>The report of a job's end\<close>

record job_report =
  jr_state :: job_state
  jr_exit :: "int option"
  jr_reason :: "string option"

definition job_outcome :: "exec_result \<Rightarrow> job_report" where
  "job_outcome res =
     \<lparr>jr_state = (if r_killed res then JobKilled
                  else if r_err res \<noteq> None \<or> r_exit res \<noteq> 0 then JobFailed else JobSucceeded),
      jr_exit = Some (r_exit res),
      jr_reason = (case r_err res of Some e \<Rightarrow> Some e
                   | None \<Rightarrow> if r_reason res \<noteq> '''' then Some (r_reason res) else None)\<rparr>"

definition prekilled_report :: job_report where
  "prekilled_report = \<lparr>jr_state = JobKilled, jr_exit = None, jr_reason = Some ''killed before this worker started it''\<rparr>"

definition acquire_cancelled_report :: "string \<Rightarrow> job_report" where
  "acquire_cancelled_report err =
     \<lparr>jr_state = JobKilled, jr_exit = None, jr_reason = Some (''cancelled during acquire hook: '' @ err)\<rparr>"

definition acquire_failed_reason :: "acquire_result \<Rightarrow> string \<Rightarrow> string" where
  "acquire_failed_reason r err =
     (let why = ''acquire hook failed: '' @ err; tail = tail_output (aq_output r)
      in if tail \<noteq> '''' then why @ [CHR 0x0A] @ tail else why)"

section \<open>The stages of a job\<close>

text \<open>The number is the job's ownership of its device, when the device has hooks (\<open>acq.epoch\<close>).\<close>

datatype phase =
    Spawned assignment
  | PreKilled string
  | PreKilledReport string
  | Acquiring assignment
  | GivingUp assignment job_report "string option"
  | FaultAfter assignment string
  | Starting assignment "nat option"
  | Running assignment "nat option"
  | Verifying assignment "nat option" job_report
  | Faulting assignment "nat option" string job_report
  | Ending assignment "nat option" job_report
  | HandingBack assignment "nat option"
  | Leaving assignment

fun phase_job :: "phase \<Rightarrow> string" where
  "phase_job (Spawned a) = as_job a"
| "phase_job (PreKilled j) = j"
| "phase_job (PreKilledReport j) = j"
| "phase_job (Acquiring a) = as_job a"
| "phase_job (GivingUp a jr why) = as_job a"
| "phase_job (FaultAfter a why) = as_job a"
| "phase_job (Starting a t) = as_job a"
| "phase_job (Running a t) = as_job a"
| "phase_job (Verifying a t jr) = as_job a"
| "phase_job (Faulting a t why jr) = as_job a"
| "phase_job (Ending a t jr) = as_job a"
| "phase_job (HandingBack a t) = as_job a"
| "phase_job (Leaving a) = as_job a"

text \<open>What is recorded of a job: the report that it runs, the run, the verdict of the verify pass, a
  fault report and the terminal report, each report with whether it was accepted.\<close>

datatype job_event =
    EvStart bool
  | EvRan job_spec exec_result
  | EvVerified bool
  | EvFault string string bool
  | EvTerminal job_report bool

record agent =
  ag_running :: "string \<rightharpoonup> bool"
  ag_started :: "string set"
  ag_stopping :: bool
  ag_threads :: "nat \<rightharpoonup> phase"
  ag_next :: nat
  ag_hooks :: hook_world
  ag_contact :: contact
  ag_log :: "(string \<times> job_event) list"

definition new_agent :: agent where
  "new_agent = \<lparr>ag_running = Map.empty, ag_started = {}, ag_stopping = False, ag_threads = Map.empty,
     ag_next = 0, ag_hooks = hooks_start, ag_contact = new_contact, ag_log = []\<rparr>"

text \<open>\<open>jobCtx.Err() != nil\<close>: the worker shuts down, or the job was killed.\<close>

definition job_cancelled :: "agent \<Rightarrow> string \<Rightarrow> bool" where
  "job_cancelled s j \<longleftrightarrow> ag_stopping s \<or> ag_running s j = Some True"

definition supervised_jobs :: "agent \<Rightarrow> string set" where
  "supervised_jobs s = dom (ag_running s)"

definition cancel_running :: "string \<Rightarrow> agent \<Rightarrow> agent" where
  "cancel_running j s = (if ag_running s j = None then s else s\<lparr>ag_running := (ag_running s)(j \<mapsto> True)\<rparr>)"

definition spawn :: "phase \<Rightarrow> agent \<Rightarrow> agent" where
  "spawn p s = s\<lparr>ag_threads := (ag_threads s)(ag_next s \<mapsto> p), ag_next := ag_next s + 1\<rparr>"

text \<open>One answered poll: kills reach the jobs that run; an assignment killed in the same answer is
  reported and never spawned.\<close>

definition handle_poll :: "poll_response \<Rightarrow> agent \<Rightarrow> agent" where
  "handle_poll resp s =
     fold (\<lambda>a. spawn (if as_job a \<in> set (pr_kills resp) then PreKilled (as_job a) else Spawned a)) (pr_assignments resp)
       (fold cancel_running (pr_kills resp) s)"

definition advance :: "nat \<Rightarrow> phase option \<Rightarrow> (string \<times> job_event) list \<Rightarrow> agent \<Rightarrow> agent" where
  "advance k p es s = s\<lparr>ag_threads := (ag_threads s)(k := p), ag_log := ag_log s @ es\<rparr>"

text \<open>A supervision can be cancelled only by its job's context or its own watchdog.\<close>

definition course_possible :: "agent \<Rightarrow> assignment \<Rightarrow> launch \<Rightarrow> bool" where
  "course_possible s a l \<longleftrightarrow>
     (case la_course l of
        Exited st t \<Rightarrow> True
      | Cancelled c t ticks \<Rightarrow> job_cancelled s (as_job a) \<or> watchdog (job_spec_of a) (la_started l) ticks \<noteq> None)"

definition hand_back :: "nat option \<Rightarrow> hook_world \<Rightarrow> hook_world" where
  "hand_back t w =
     (case t of None \<Rightarrow> w
      | Some n \<Rightarrow> (case hw_owners w n of None \<Rightarrow> w | Some me \<Rightarrow> world_release n me w))"

definition timer_label :: "hook_label \<Rightarrow> bool" where
  "timer_label l \<longleftrightarrow> (case l of HElapsed d g \<Rightarrow> True | HFired d g \<Rightarrow> True | HDrained d \<Rightarrow> True | _ \<Rightarrow> False)"

datatype agent_label =
    APoll poll_response
  | AStop
  | ABegin nat
  | ADuplicate nat
  | AAcquire nat "nat option" string string
  | ARefuse nat string string
  | AWork nat
  | ARun nat
  | AHandBack nat "nat option"
  | ALeave nat
  | ATimer hook_label
  | AContact
  | AReregister bool

inductive agent_step :: "(string \<Rightarrow> hook_spec) \<Rightarrow> agent \<Rightarrow> agent_label \<Rightarrow> agent \<Rightarrow> bool"
  for specs :: "string \<Rightarrow> hook_spec" where
  ag_poll: "agent_step specs s (APoll resp) (handle_poll resp s)"
| ag_stop: "agent_step specs s AStop (s\<lparr>ag_stopping := True\<rparr>)"
| ag_duplicate: "ag_threads s k = Some (Spawned a) \<Longrightarrow> ag_running s (as_job a) \<noteq> None \<or> as_job a \<in> ag_started s \<Longrightarrow>
    agent_step specs s (ADuplicate k) (advance k None [] s)"
| ag_begin: "ag_threads s k = Some (Spawned a) \<Longrightarrow> ag_running s (as_job a) = None \<Longrightarrow> as_job a \<notin> ag_started s \<Longrightarrow>
    agent_step specs s (ABegin k)
      ((advance k (Some (Acquiring a)) [] s)\<lparr>ag_started := insert (as_job a) (ag_started s),
         ag_running := (ag_running s)(as_job a \<mapsto> False)\<rparr>)"
| ag_duplicate_killed: "ag_threads s k = Some (PreKilled j) \<Longrightarrow> j \<in> ag_started s \<Longrightarrow>
    agent_step specs s (ADuplicate k) (advance k None [] s)"
| ag_begin_killed: "ag_threads s k = Some (PreKilled j) \<Longrightarrow> j \<notin> ag_started s \<Longrightarrow>
    agent_step specs s (ABegin k) ((advance k (Some (PreKilledReport j)) [] s)\<lparr>ag_started := insert j (ag_started s)\<rparr>)"
| ag_report_killed: "ag_threads s k = Some (PreKilledReport j) \<Longrightarrow> report_terminal answers = (ok, acts) \<Longrightarrow>
    agent_step specs s (AWork k) (advance k None [(j, EvTerminal prekilled_report ok)] s)"
| ag_acquire: "ag_threads s k = Some (Acquiring a) \<Longrightarrow>
    world_acquire specs (as_device a) (as_job a) (as_submitter a) outcome (ag_hooks s) = (r, w) \<Longrightarrow> aq_err r = None \<Longrightarrow>
    t = (if hook_configured (specs (as_device a)) then Some (hw_next (ag_hooks s)) else None) \<Longrightarrow>
    agent_step specs s (AAcquire k t (as_device a) (as_job a)) ((advance k (Some (Starting a t)) [] s)\<lparr>ag_hooks := w\<rparr>)"
| ag_refuse: "ag_threads s k = Some (Acquiring a) \<Longrightarrow>
    world_acquire specs (as_device a) (as_job a) (as_submitter a) outcome (ag_hooks s) = (r, w) \<Longrightarrow> aq_err r = Some e \<Longrightarrow>
    p = (if job_cancelled s (as_job a) then GivingUp a (acquire_cancelled_report e) None
         else let why = acquire_failed_reason r e
              in GivingUp a \<lparr>jr_state = JobFailed, jr_exit = None, jr_reason = Some why\<rparr> (Some why)) \<Longrightarrow>
    agent_step specs s (ARefuse k (as_device a) (as_job a)) ((advance k (Some p) [] s)\<lparr>ag_hooks := w\<rparr>)"
| ag_give_up: "ag_threads s k = Some (GivingUp a jr why) \<Longrightarrow> report_terminal answers = (ok, acts) \<Longrightarrow>
    p = (case why of None \<Rightarrow> Leaving a | Some e \<Rightarrow> FaultAfter a e) \<Longrightarrow>
    agent_step specs s (AWork k) (advance k (Some p) [(as_job a, EvTerminal jr ok)] s)"
| ag_fault_after: "ag_threads s k = Some (FaultAfter a why) \<Longrightarrow> report_fault answers = (ok, acts) \<Longrightarrow>
    agent_step specs s (AWork k) (advance k (Some (Leaving a)) [(as_job a, EvFault (as_device a) why ok)] s)"
| ag_starting: "ag_threads s k = Some (Starting a t) \<Longrightarrow>
    agent_step specs s (AWork k) (advance k (Some (Running a t)) [(as_job a, EvStart (accepted_answer answer))] s)"
| ag_running: "ag_threads s k = Some (Running a t) \<Longrightarrow> course_possible s a l \<Longrightarrow> res = run_job a dial_err l \<Longrightarrow>
    agent_step specs s (ARun k) (advance k (Some (Verifying a t (job_outcome res))) [(as_job a, EvRan (job_spec_of a) res)] s)"
| ag_verifying: "ag_threads s k = Some (Verifying a t jr) \<Longrightarrow> run_verify budget dir sys = (v, scripts) \<Longrightarrow>
    p = (if v_ok v then Ending a t jr else Faulting a t (v_reason v) jr) \<Longrightarrow>
    agent_step specs s (AWork k) (advance k (Some p) [(as_job a, EvVerified (v_ok v))] s)"
| ag_faulting: "ag_threads s k = Some (Faulting a t why jr) \<Longrightarrow> report_fault answers = (ok, acts) \<Longrightarrow>
    agent_step specs s (AWork k) (advance k (Some (Ending a t jr)) [(as_job a, EvFault (as_device a) why ok)] s)"
| ag_ending: "ag_threads s k = Some (Ending a t jr) \<Longrightarrow> report_terminal answers = (ok, acts) \<Longrightarrow>
    agent_step specs s (AWork k) (advance k (Some (HandingBack a t)) [(as_job a, EvTerminal jr ok)] s)"
| ag_handing_back: "ag_threads s k = Some (HandingBack a t) \<Longrightarrow>
    agent_step specs s (AHandBack k t) ((advance k (Some (Leaving a)) [] s)\<lparr>ag_hooks := hand_back t (ag_hooks s)\<rparr>)"
| ag_leaving: "ag_threads s k = Some (Leaving a) \<Longrightarrow>
    agent_step specs s (ALeave k) ((advance k None [] s)\<lparr>ag_running := (ag_running s)(as_job a := None)\<rparr>)"
| ag_timer: "hook_step specs (ag_hooks s) l w \<Longrightarrow> timer_label l \<Longrightarrow>
    agent_step specs s (ATimer l) (s\<lparr>ag_hooks := w\<rparr>)"
| ag_observe: "agent_step specs s AContact (s\<lparr>ag_contact := contact_observe j1 j2 now inst (ag_contact s)\<rparr>)"
| ag_reregister: "contact_due now (ag_contact s) \<Longrightarrow> supervised_jobs s = {} \<Longrightarrow>
    c = contact_attempting later (ag_contact s) \<Longrightarrow>
    agent_step specs s (AReregister ok) (s\<lparr>ag_contact := (if ok then contact_registered c else c)\<rparr>)"

inductive_cases agent_stepE: "agent_step specs s l s'"

section \<open>The protocol of a job\<close>

definition job_trace :: "string \<Rightarrow> (string \<times> job_event) list \<Rightarrow> job_event list" where
  "job_trace j evs = map snd (filter (\<lambda>(i, e). i = j) evs)"

lemma job_trace_append [simp]: "job_trace j (xs @ ys) = job_trace j xs @ job_trace j ys"
  by (simp add: job_trace_def)

lemma job_trace_simps [simp]:
  "job_trace j [] = []" "job_trace j ((i, e) # evs) = (if i = j then e # job_trace j evs else job_trace j evs)"
  by (simp_all add: job_trace_def)

text \<open>
  The stages between which the protocol of a job moves, and how each event moves it. \<open>Fresh\<close>:
  nothing recorded; \<open>Begun\<close>: reported running; \<open>Ran res\<close>: the command has run; \<open>Clean\<close> and \<open>Dirty\<close>: the
  verdict on the device; \<open>Quarantined\<close>: the fault is reported; \<open>Refused\<close>: ended without having run,
  with its reason; \<open>Over\<close>.
\<close>

datatype stage = Fresh | Begun | Ran exec_result | Clean exec_result | Dirty exec_result
  | Quarantined exec_result | Refused job_report | Over

definition unrun_report :: "job_report \<Rightarrow> bool" where
  "unrun_report jr \<longleftrightarrow> jr_state jr \<in> {JobKilled, JobFailed} \<and> jr_exit jr = None"

fun protocol_step :: "stage \<Rightarrow> job_event \<Rightarrow> stage option" where
  "protocol_step Fresh (EvStart ok) = Some Begun"
| "protocol_step Fresh (EvTerminal jr ok) =
     (if jr_state jr = JobFailed \<and> jr_exit jr = None then Some (Refused jr)
      else if jr_state jr = JobKilled \<and> jr_exit jr = None then Some Over else None)"
| "protocol_step Begun (EvRan spec res) = Some (Ran res)"
| "protocol_step (Ran res) (EvVerified ok) = Some (if ok then Clean res else Dirty res)"
| "protocol_step (Dirty res) (EvFault d why ok) = Some (Quarantined res)"
| "protocol_step (Clean res) (EvTerminal jr ok) = (if jr = job_outcome res then Some Over else None)"
| "protocol_step (Quarantined res) (EvTerminal jr ok) = (if jr = job_outcome res then Some Over else None)"
| "protocol_step (Refused jr) (EvFault d why ok) = (if jr_reason jr = Some why then Some Over else None)"
| "protocol_step st e = None"

fun protocol :: "stage \<Rightarrow> job_event list \<Rightarrow> stage option" where
  "protocol st [] = Some st"
| "protocol st (e # es) = Option.bind (protocol_step st e) (\<lambda>st'. protocol st' es)"

lemma protocol_append: "protocol st (xs @ ys) = Option.bind (protocol st xs) (\<lambda>st'. protocol st' ys)"
proof (induction st xs rule: protocol.induct)
  case (2 st e es)
  then show ?case by (cases "protocol_step st e") auto
qed simp

text \<open>The stage a goroutine's phase stands for.\<close>

fun phase_stage :: "phase \<Rightarrow> stage \<Rightarrow> bool" where
  "phase_stage (Spawned a) st = False"
| "phase_stage (PreKilled j) st = False"
| "phase_stage (PreKilledReport j) st = (st = Fresh)"
| "phase_stage (Acquiring a) st = (st = Fresh)"
| "phase_stage (GivingUp a jr why) st = (st = Fresh \<and> jr_exit jr = None
     \<and> (case why of None \<Rightarrow> jr_state jr = JobKilled | Some e \<Rightarrow> jr_state jr = JobFailed \<and> jr_reason jr = Some e))"
| "phase_stage (FaultAfter a why) st = (\<exists>jr. st = Refused jr \<and> jr_reason jr = Some why)"
| "phase_stage (Starting a t) st = (st = Fresh)"
| "phase_stage (Running a t) st = (st = Begun)"
| "phase_stage (Verifying a t jr) st = (\<exists>res. st = Ran res \<and> jr = job_outcome res)"
| "phase_stage (Faulting a t why jr) st = (\<exists>res. st = Dirty res \<and> jr = job_outcome res)"
| "phase_stage (Ending a t jr) st = (\<exists>res. (st = Clean res \<or> st = Quarantined res) \<and> jr = job_outcome res)"
| "phase_stage (HandingBack a t) st = (st = Over)"
| "phase_stage (Leaving a) st = (st = Over)"

definition begun :: "phase \<Rightarrow> bool" where
  "begun p \<longleftrightarrow> (case p of Spawned a \<Rightarrow> False | PreKilled j \<Rightarrow> False | _ \<Rightarrow> True)"

text \<open>Begun and registered in \<open>running\<close>.\<close>

definition in_hand :: "phase \<Rightarrow> bool" where
  "in_hand p \<longleftrightarrow> (case p of Spawned a \<Rightarrow> False | PreKilled j \<Rightarrow> False | PreKilledReport j \<Rightarrow> False | _ \<Rightarrow> True)"

lemma begun_simps [simp]:
  "\<not> begun (Spawned a)" "\<not> begun (PreKilled j)" "begun (PreKilledReport j)" "begun (Acquiring a)"
  "begun (GivingUp a jr w)" "begun (FaultAfter a e)" "begun (Starting a t)" "begun (Running a t)"
  "begun (Verifying a t jr)" "begun (Faulting a t e jr)" "begun (Ending a t jr)" "begun (HandingBack a t)" "begun (Leaving a)"
  by (simp_all add: begun_def)

lemma in_hand_simps [simp]:
  "\<not> in_hand (Spawned a)" "\<not> in_hand (PreKilled j)" "\<not> in_hand (PreKilledReport j)" "in_hand (Acquiring a)"
  "in_hand (GivingUp a jr w)" "in_hand (FaultAfter a e)" "in_hand (Starting a t)" "in_hand (Running a t)"
  "in_hand (Verifying a t jr)" "in_hand (Faulting a t e jr)" "in_hand (Ending a t jr)" "in_hand (HandingBack a t)" "in_hand (Leaving a)"
  by (simp_all add: in_hand_def)

lemma in_hand_begun: "in_hand p \<Longrightarrow> begun p"
  by (cases p) simp_all

section \<open>The invariant\<close>

definition jobs_ok :: "agent \<Rightarrow> bool" where
  "jobs_ok s \<longleftrightarrow>
     (\<forall>k \<ge> ag_next s. ag_threads s k = None)
     \<and> (\<forall>k p. ag_threads s k = Some p \<longrightarrow> begun p \<longrightarrow>
          phase_job p \<in> ag_started s \<and> (\<exists>st. protocol Fresh (job_trace (phase_job p) (ag_log s)) = Some st \<and> phase_stage p st))
     \<and> (\<forall>k l p q. ag_threads s k = Some p \<longrightarrow> ag_threads s l = Some q \<longrightarrow> begun p \<longrightarrow> begun q \<longrightarrow>
          phase_job p = phase_job q \<longrightarrow> k = l)
     \<and> (\<forall>j \<in> ag_started s. (\<exists>k p. ag_threads s k = Some p \<and> begun p \<and> phase_job p = j)
          \<or> protocol Fresh (job_trace j (ag_log s)) = Some Over)
     \<and> (\<forall>j. j \<notin> ag_started s \<longrightarrow> job_trace j (ag_log s) = [])
     \<and> (\<forall>j. ag_running s j \<noteq> None \<longleftrightarrow> (\<exists>k p. ag_threads s k = Some p \<and> in_hand p \<and> phase_job p = j))"

lemma jobs_okI:
  assumes "\<And>k. ag_next s \<le> k \<Longrightarrow> ag_threads s k = None"
    "\<And>k p. ag_threads s k = Some p \<Longrightarrow> begun p \<Longrightarrow> phase_job p \<in> ag_started s"
    "\<And>k p. ag_threads s k = Some p \<Longrightarrow> begun p \<Longrightarrow> \<exists>st. protocol Fresh (job_trace (phase_job p) (ag_log s)) = Some st \<and> phase_stage p st"
    "\<And>k l p q. ag_threads s k = Some p \<Longrightarrow> ag_threads s l = Some q \<Longrightarrow> begun p \<Longrightarrow> begun q \<Longrightarrow> phase_job p = phase_job q \<Longrightarrow> k = l"
    "\<And>j. j \<in> ag_started s \<Longrightarrow> (\<exists>k p. ag_threads s k = Some p \<and> begun p \<and> phase_job p = j)
       \<or> protocol Fresh (job_trace j (ag_log s)) = Some Over"
    "\<And>j. j \<notin> ag_started s \<Longrightarrow> job_trace j (ag_log s) = []"
    "\<And>j. ag_running s j \<noteq> None \<longleftrightarrow> (\<exists>k p. ag_threads s k = Some p \<and> in_hand p \<and> phase_job p = j)"
  shows "jobs_ok s"
  unfolding jobs_ok_def using assms by (intro conjI allI ballI impI) simp_all

lemma jobs_okD:
  assumes "jobs_ok s"
  shows "ag_next s \<le> k \<Longrightarrow> ag_threads s k = None"
    "ag_threads s k = Some p \<Longrightarrow> begun p \<Longrightarrow> phase_job p \<in> ag_started s"
    "ag_threads s k = Some p \<Longrightarrow> begun p \<Longrightarrow> \<exists>st. protocol Fresh (job_trace (phase_job p) (ag_log s)) = Some st \<and> phase_stage p st"
    "ag_threads s k = Some p \<Longrightarrow> ag_threads s l = Some q \<Longrightarrow> begun p \<Longrightarrow> begun q \<Longrightarrow> phase_job p = phase_job q \<Longrightarrow> k = l"
    "j \<in> ag_started s \<Longrightarrow> (\<exists>k p. ag_threads s k = Some p \<and> begun p \<and> phase_job p = j)
       \<or> protocol Fresh (job_trace j (ag_log s)) = Some Over"
    "j \<notin> ag_started s \<Longrightarrow> job_trace j (ag_log s) = []"
    "ag_running s j \<noteq> None \<longleftrightarrow> (\<exists>k p. ag_threads s k = Some p \<and> in_hand p \<and> phase_job p = j)"
  using assms unfolding jobs_ok_def by blast+

lemma jobs_ok_new: "jobs_ok new_agent"
  by (rule jobs_okI) (simp_all add: new_agent_def)

text \<open>The fields a step leaves alone do not matter.\<close>

lemma jobs_ok_frame [simp]:
  "jobs_ok (s\<lparr>ag_hooks := w\<rparr>) = jobs_ok s" "jobs_ok (s\<lparr>ag_contact := c\<rparr>) = jobs_ok s" "jobs_ok (s\<lparr>ag_stopping := b\<rparr>) = jobs_ok s"
  by (simp_all add: jobs_ok_def)

section \<open>Its preservation\<close>

lemma advance_frame [simp]:
  "ag_running (advance k p es s) = ag_running s" "ag_started (advance k p es s) = ag_started s"
  "ag_threads (advance k p es s) = (ag_threads s)(k := p)" "ag_next (advance k p es s) = ag_next s"
  "ag_log (advance k p es s) = ag_log s @ es" "ag_hooks (advance k p es s) = ag_hooks s"
  "ag_contact (advance k p es s) = ag_contact s" "ag_stopping (advance k p es s) = ag_stopping s"
  by (simp_all add: advance_def)

text \<open>A goroutine moves on within its job.\<close>

lemma jobs_ok_advance:
  assumes ok: "jobs_ok s" and k: "ag_threads s k = Some p" and b: "begun p" "begun p'"
    and same: "phase_job p' = phase_job p" "in_hand p' = in_hand p"
    and evs: "\<And>j. job_trace j es = (if j = phase_job p then es' else [])"
    and stg: "\<And>st. phase_stage p st \<Longrightarrow> \<exists>st'. protocol st es' = Some st' \<and> phase_stage p' st'"
  shows "jobs_ok (advance k (Some p') es s)"
proof (rule jobs_okI)
  fix l q assume q: "ag_threads (advance k (Some p') es s) l = Some q" "begun q"
  show "phase_job q \<in> ag_started (advance k (Some p') es s)"
    using q jobs_okD(2) [OF ok] k b(1) same by (auto split: if_splits)
  show "\<exists>st. protocol Fresh (job_trace (phase_job q) (ag_log (advance k (Some p') es s))) = Some st \<and> phase_stage q st"
  proof (cases "l = k")
    case True
    with q have "q = p'" by simp
    moreover obtain st where "protocol Fresh (job_trace (phase_job p) (ag_log s)) = Some st" "phase_stage p st"
      using jobs_okD(3) [OF ok k b(1)] by blast
    ultimately show ?thesis using stg [of st] same evs by (auto simp: protocol_append)
  next
    case False
    with q have l: "ag_threads s l = Some q" by simp
    with jobs_okD(4) [OF ok l k q(2) b(1)] False have "phase_job q \<noteq> phase_job p" by blast
    with jobs_okD(3) [OF ok l q(2)] evs show ?thesis by simp
  qed
next
  fix l m q r
  assume "ag_threads (advance k (Some p') es s) l = Some q" "ag_threads (advance k (Some p') es s) m = Some r"
    "begun q" "begun r" "phase_job q = phase_job r"
  then show "l = m"
    using jobs_okD(4) [OF ok, of l _ m] jobs_okD(4) [OF ok k, of m] jobs_okD(4) [OF ok k, of l] b(1) same
    by (auto split: if_splits)
next
  fix j assume "j \<in> ag_started (advance k (Some p') es s)"
  then have j: "j \<in> ag_started s" by simp
  show "(\<exists>l q. ag_threads (advance k (Some p') es s) l = Some q \<and> begun q \<and> phase_job q = j)
      \<or> protocol Fresh (job_trace j (ag_log (advance k (Some p') es s))) = Some Over"
  proof (cases "j = phase_job p")
    case True
    then show ?thesis using b(2) same by (intro disjI1 exI [of _ k] exI [of _ p']) simp
  next
    case False
    from jobs_okD(5) [OF ok j] show ?thesis
    proof
      assume "\<exists>l q. ag_threads s l = Some q \<and> begun q \<and> phase_job q = j"
      then obtain l q where "ag_threads s l = Some q" "begun q" "phase_job q = j" by blast
      moreover from this False k have "l \<noteq> k" by auto
      ultimately show ?thesis by (intro disjI1 exI [of _ l] exI [of _ q]) simp
    next
      assume "protocol Fresh (job_trace j (ag_log s)) = Some Over"
      with False evs show ?thesis by simp
    qed
  qed
next
  fix j assume "j \<notin> ag_started (advance k (Some p') es s)"
  with jobs_okD(2) [OF ok k b(1)] jobs_okD(6) [OF ok] evs show "job_trace j (ag_log (advance k (Some p') es s)) = []"
    by auto
next
  fix j
  have "(\<exists>l q. ag_threads (advance k (Some p') es s) l = Some q \<and> in_hand q \<and> phase_job q = j)
      \<longleftrightarrow> (\<exists>l q. ag_threads s l = Some q \<and> in_hand q \<and> phase_job q = j)" (is "?L = ?R")
  proof
    assume ?L
    then obtain l q where "ag_threads (advance k (Some p') es s) l = Some q" "in_hand q" "phase_job q = j" by blast
    then show ?R using k same by (cases "l = k") auto
  next
    assume ?R
    then obtain l q where q: "ag_threads s l = Some q" "in_hand q" "phase_job q = j" by blast
    show ?L
    proof (cases "l = k")
      case True
      with q k same show ?thesis by (intro exI [of _ k] exI [of _ p']) auto
    next
      case False
      with q show ?thesis by (intro exI [of _ l] exI [of _ q]) simp
    qed
  qed
  with jobs_okD(7) [OF ok, of j]
  show "(ag_running (advance k (Some p') es s) j \<noteq> None)
    = (\<exists>l q. ag_threads (advance k (Some p') es s) l = Some q \<and> in_hand q \<and> phase_job q = j)" by simp
qed (use jobs_okD(1) [OF ok] k in auto)

text \<open>A goroutine that has not begun a job goes away.\<close>

lemma jobs_ok_drop:
  assumes ok: "jobs_ok s" and k: "ag_threads s k = Some p" and b: "\<not> begun p"
  shows "jobs_ok (advance k None [] s)"
proof (rule jobs_okI)
  have other: "begun q \<Longrightarrow> ag_threads s l = Some q \<Longrightarrow> l \<noteq> k" for l q using k b by auto
  show "j \<in> ag_started (advance k None [] s) \<Longrightarrow>
      (\<exists>l q. ag_threads (advance k None [] s) l = Some q \<and> begun q \<and> phase_job q = j)
      \<or> protocol Fresh (job_trace j (ag_log (advance k None [] s))) = Some Over" for j
    using jobs_okD(5) [OF ok, of j] other by (auto 4 3)
  show "(ag_running (advance k None [] s) j \<noteq> None)
      = (\<exists>l q. ag_threads (advance k None [] s) l = Some q \<and> in_hand q \<and> phase_job q = j)" for j
    using jobs_okD(7) [OF ok, of j] other in_hand_begun by (auto 4 3)
  show "l = m" if "ag_threads (advance k None [] s) l = Some q" "ag_threads (advance k None [] s) m = Some r"
    "begun q" "begun r" "phase_job q = phase_job r" for l m q r
    using that jobs_okD(4) [OF ok, of l q m r] by (simp split: if_splits)
  show "\<exists>st. protocol Fresh (job_trace (phase_job q) (ag_log (advance k None [] s))) = Some st \<and> phase_stage q st"
    if "ag_threads (advance k None [] s) l = Some q" "begun q" for l q
    using that jobs_okD(3) [OF ok, of l q] by (simp split: if_splits)
qed (use jobs_okD(1,2,6) [OF ok] in \<open>auto split: if_splits\<close>)

text \<open>A goroutine is done with its job.\<close>

lemma jobs_ok_finish:
  assumes ok: "jobs_ok s" and k: "ag_threads s k = Some p" and b: "begun p"
    and evs: "\<And>j. job_trace j es = (if j = phase_job p then es' else [])"
    and stg: "\<And>st. phase_stage p st \<Longrightarrow> protocol st es' = Some Over"
    and run': "rm = (if in_hand p then (ag_running s)(phase_job p := None) else ag_running s)"
  shows "jobs_ok ((advance k None es s)\<lparr>ag_running := rm\<rparr>)" (is "jobs_ok ?s'")
proof (rule jobs_okI)
  have other: "phase_job q \<noteq> phase_job p" if "ag_threads s l = Some q" "begun q" "l \<noteq> k" for l q
    using jobs_okD(4) [OF ok that(1) k that(2) b] that(3) by blast
  note sub = jobs_okD [OF ok]
  show "\<exists>st. protocol Fresh (job_trace (phase_job q) (ag_log ?s')) = Some st \<and> phase_stage q st"
    if "ag_threads ?s' l = Some q" "begun q" for l q
    using that sub(3) [of l q] other [of l q] evs by (auto split: if_splits)
  show "l = m" if "ag_threads ?s' l = Some q" "ag_threads ?s' m = Some r" "begun q" "begun r" "phase_job q = phase_job r" for l m q r
    using that sub(4) [of l q m r] by (auto split: if_splits)
  show "(\<exists>l q. ag_threads ?s' l = Some q \<and> begun q \<and> phase_job q = j) \<or> protocol Fresh (job_trace j (ag_log ?s')) = Some Over"
    if "j \<in> ag_started ?s'" for j
  proof (cases "j = phase_job p")
    case True
    obtain st where "protocol Fresh (job_trace (phase_job p) (ag_log s)) = Some st" "phase_stage p st" using sub(3) [OF k b] by blast
    with stg [of st] evs True show ?thesis by (simp add: protocol_append)
  next
    case False
    from that have "j \<in> ag_started s" by simp
    from sub(5) [OF this] show ?thesis
    proof
      assume "\<exists>l q. ag_threads s l = Some q \<and> begun q \<and> phase_job q = j"
      then obtain l q where "ag_threads s l = Some q" "begun q" "phase_job q = j" by blast
      moreover from this False k have "l \<noteq> k" by auto
      ultimately show ?thesis by (intro disjI1 exI [of _ l] exI [of _ q]) simp
    qed (use False evs in simp)
  qed
  show "job_trace j (ag_log ?s') = []" if "j \<notin> ag_started ?s'" for j
    using that sub(2) [OF k b] sub(6) evs by auto
  show "(ag_running ?s' j \<noteq> None) = (\<exists>l q. ag_threads ?s' l = Some q \<and> in_hand q \<and> phase_job q = j)" for j
  proof
    assume r: "ag_running ?s' j \<noteq> None"
    then have "ag_running s j \<noteq> None" and np: "\<not> (in_hand p \<and> j = phase_job p)" by (auto simp: run' split: if_splits)
    with sub(7) [of j] obtain l q where q: "ag_threads s l = Some q" "in_hand q" "phase_job q = j" by blast
    with np k have "l \<noteq> k" by auto
    with q show "\<exists>l q. ag_threads ?s' l = Some q \<and> in_hand q \<and> phase_job q = j" by (intro exI [of _ l] exI [of _ q]) simp
  next
    assume "\<exists>l q. ag_threads ?s' l = Some q \<and> in_hand q \<and> phase_job q = j"
    then obtain l q where q: "ag_threads s l = Some q" "l \<noteq> k" "in_hand q" "phase_job q = j" by (auto split: if_splits)
    with other [OF q(1) in_hand_begun [OF q(3)] q(2)] sub(7) [of j] show "ag_running ?s' j \<noteq> None" by (auto simp: run')
  qed
qed (use jobs_okD(1,2) [OF ok] in \<open>auto split: if_splits\<close>)

text \<open>A goroutine begins a job that never was begun.\<close>

lemma jobs_ok_begin:
  assumes ok: "jobs_ok s" and k: "ag_threads s k = Some p" and b: "\<not> begun p" "begun p'"
    and new: "phase_job p' \<notin> ag_started s" and fresh: "phase_stage p' Fresh"
    and run': "rm = (if in_hand p' then (ag_running s)(phase_job p' \<mapsto> False) else ag_running s)"
  shows "jobs_ok ((advance k (Some p') [] s)\<lparr>ag_started := insert (phase_job p') (ag_started s), ag_running := rm\<rparr>)"
    (is "jobs_ok ?s'")
proof (rule jobs_okI)
  note sub = jobs_okD [OF ok]
  have other: "phase_job q \<noteq> phase_job p'" if "ag_threads s l = Some q" "begun q" for l q using sub(2) [OF that] new by auto
  have notk: "begun q \<Longrightarrow> ag_threads s l = Some q \<Longrightarrow> l \<noteq> k" for l q using k b by auto
  show "phase_job q \<in> ag_started ?s'" if "ag_threads ?s' l = Some q" "begun q" for l q
    using that sub(2) [of l q] by (auto split: if_splits)
  show "\<exists>st. protocol Fresh (job_trace (phase_job q) (ag_log ?s')) = Some st \<and> phase_stage q st"
    if "ag_threads ?s' l = Some q" "begun q" for l q
    using that sub(3) [of l q] fresh sub(6) [OF new] by (auto split: if_splits)
  show "l = m" if "ag_threads ?s' l = Some q" "ag_threads ?s' m = Some r" "begun q" "begun r" "phase_job q = phase_job r" for l m q r
    using that sub(4) [of l q m r] other by (auto split: if_splits)
  show "(\<exists>l q. ag_threads ?s' l = Some q \<and> begun q \<and> phase_job q = j) \<or> protocol Fresh (job_trace j (ag_log ?s')) = Some Over"
    if "j \<in> ag_started ?s'" for j
  proof (cases "j = phase_job p'")
    case True
    with b show ?thesis by (intro disjI1 exI [of _ k] exI [of _ p']) simp
  next
    case False
    with that have "j \<in> ag_started s" by simp
    from sub(5) [OF this] show ?thesis
    proof
      assume "\<exists>l q. ag_threads s l = Some q \<and> begun q \<and> phase_job q = j"
      then obtain l q where "ag_threads s l = Some q" "begun q" "phase_job q = j" by blast
      with notk show ?thesis by (intro disjI1 exI [of _ l] exI [of _ q]) auto
    qed simp
  qed
  show "(ag_running ?s' j \<noteq> None) = (\<exists>l q. ag_threads ?s' l = Some q \<and> in_hand q \<and> phase_job q = j)" for j
  proof (cases "in_hand p' \<and> j = phase_job p'")
    case True
    then have "\<exists>l q. ag_threads ?s' l = Some q \<and> in_hand q \<and> phase_job q = j" by (intro exI [of _ k] exI [of _ p']) simp
    with True show ?thesis by (simp add: run')
  next
    case False
    then have "ag_running ?s' j = ag_running s j" by (auto simp: run')
    moreover have "(\<exists>l q. ag_threads ?s' l = Some q \<and> in_hand q \<and> phase_job q = j)
        \<longleftrightarrow> (\<exists>l q. ag_threads s l = Some q \<and> in_hand q \<and> phase_job q = j)"
      using False notk in_hand_begun by (auto 4 4 split: if_splits)
    ultimately show ?thesis using sub(7) [of j] by simp
  qed
qed (use jobs_okD(1,6) [OF ok] k in auto)

text \<open>A poll adds goroutines that have not begun, and cancels jobs in hand.\<close>

lemma cancel_running_frame [simp]:
  "ag_threads (cancel_running j s) = ag_threads s" "ag_started (cancel_running j s) = ag_started s"
  "ag_log (cancel_running j s) = ag_log s" "ag_next (cancel_running j s) = ag_next s"
  "ag_hooks (cancel_running j s) = ag_hooks s" "ag_running (cancel_running j s) i = None \<longleftrightarrow> ag_running s i = None"
  by (auto simp: cancel_running_def)

lemma jobs_ok_cancel: "jobs_ok s \<Longrightarrow> jobs_ok (cancel_running j s)"
  by (simp add: jobs_ok_def)

lemma jobs_ok_spawn:
  assumes ok: "jobs_ok s" and b: "\<not> begun p"
  shows "jobs_ok (spawn p s)"
proof (rule jobs_okI)
  note sub = jobs_okD [OF ok]
  have none: "ag_threads s (ag_next s) = None" using sub(1) by blast
  have old: "ag_threads (spawn p s) l = Some q \<and> begun q \<longleftrightarrow> ag_threads s l = Some q \<and> begun q" for l q
    using none b by (auto simp: spawn_def)
  have old': "ag_threads (spawn p s) l = Some q \<and> in_hand q \<longleftrightarrow> ag_threads s l = Some q \<and> in_hand q" for l q
    using old [of l q] in_hand_begun by blast
  have rest: "ag_started (spawn p s) = ag_started s" "ag_log (spawn p s) = ag_log s" "ag_running (spawn p s) = ag_running s"
    by (simp_all add: spawn_def)
  show "phase_job q \<in> ag_started (spawn p s)" if "ag_threads (spawn p s) l = Some q" "begun q" for l q
    using that old sub(2) [of l q] rest by blast
  show "\<exists>st. protocol Fresh (job_trace (phase_job q) (ag_log (spawn p s))) = Some st \<and> phase_stage q st"
    if "ag_threads (spawn p s) l = Some q" "begun q" for l q
    using that old sub(3) [of l q] rest by metis
  show "l = m" if "ag_threads (spawn p s) l = Some q" "ag_threads (spawn p s) m = Some r" "begun q" "begun r" "phase_job q = phase_job r"
    for l m q r using that old sub(4) [of l q m r] by blast
  show "(\<exists>l q. ag_threads (spawn p s) l = Some q \<and> begun q \<and> phase_job q = j) \<or> protocol Fresh (job_trace j (ag_log (spawn p s))) = Some Over"
    if "j \<in> ag_started (spawn p s)" for j
    using that old sub(5) [of j] rest by metis
  show "job_trace j (ag_log (spawn p s)) = []" if "j \<notin> ag_started (spawn p s)" for j using that sub(6) rest by simp
  show "(ag_running (spawn p s) j \<noteq> None) = (\<exists>l q. ag_threads (spawn p s) l = Some q \<and> in_hand q \<and> phase_job q = j)" for j
    using old' sub(7) [of j] rest by metis
qed (use jobs_okD(1) [OF ok] in \<open>auto simp: spawn_def\<close>)

lemma jobs_ok_fold: "(\<And>x s. jobs_ok s \<Longrightarrow> jobs_ok (f x s)) \<Longrightarrow> jobs_ok s \<Longrightarrow> jobs_ok (fold f xs s)"
  by (induction xs arbitrary: s) auto

lemma jobs_ok_poll: "jobs_ok s \<Longrightarrow> jobs_ok (handle_poll resp s)"
  unfolding handle_poll_def by (intro jobs_ok_fold jobs_ok_spawn jobs_ok_cancel) auto

lemma running_unchanged:
  "(advance k p es s)\<lparr>ag_started := x, ag_running := ag_running s\<rparr> = (advance k p es s)\<lparr>ag_started := x\<rparr>"
  by (cases s) (simp add: advance_def)

lemma running_unchanged': "(advance k p es s)\<lparr>ag_running := ag_running s\<rparr> = advance k p es s"
  by (cases s) (simp add: advance_def)

lemma jobs_ok_step:
  assumes "agent_step specs s l s'" and ok: "jobs_ok s"
  shows "jobs_ok s'"
  using assms(1)
proof (cases rule: agent_step.cases)
  case (ag_poll resp)
  with jobs_ok_poll [OF ok] show ?thesis by simp
next
  case ag_stop
  with ok show ?thesis by simp
next
  case (ag_duplicate k a)
  with jobs_ok_drop [OF ok ag_duplicate(3)] show ?thesis by simp
next
  case (ag_begin k a)
  from jobs_ok_begin [OF ok ag_begin(3), of "Acquiring a"] ag_begin(5) show ?thesis unfolding ag_begin(2) by simp
next
  case (ag_duplicate_killed k j)
  with jobs_ok_drop [OF ok ag_duplicate_killed(3)] show ?thesis by simp
next
  case (ag_begin_killed k j)
  from jobs_ok_begin [OF ok ag_begin_killed(3), of "PreKilledReport j"] ag_begin_killed(4)
  show ?thesis unfolding ag_begin_killed(2) by (simp add: running_unchanged)
next
  case (ag_report_killed k j answers acc acts)
  have "jobs_ok ((advance k None [(j, EvTerminal prekilled_report acc)] s)\<lparr>ag_running := ag_running s\<rparr>)"
    by (rule jobs_ok_finish [OF ok ag_report_killed(3), where es' = "[EvTerminal prekilled_report acc]"]) (auto simp: prekilled_report_def)
  then show ?thesis unfolding ag_report_killed(2) running_unchanged' .
next
  case (ag_acquire k a outcome r w t)
  from jobs_ok_advance [where es = "[]" and es' = "[]", OF ok ag_acquire(3), of "Starting a t"] show ?thesis
    unfolding ag_acquire(2) by simp
next
  case (ag_refuse k a outcome r w e p)
  from jobs_ok_advance [where es = "[]" and es' = "[]", OF ok ag_refuse(3), of p] show ?thesis
    unfolding ag_refuse(2) by (simp add: ag_refuse(6) acquire_cancelled_report_def Let_def)
next
  case (ag_give_up k a jr why answers acc acts p)
  have "jobs_ok (advance k (Some p) [(as_job a, EvTerminal jr acc)] s)"
    by (rule jobs_ok_advance [OF ok ag_give_up(3), where es' = "[EvTerminal jr acc]"])
       (use ag_give_up(5) in \<open>auto split: option.splits\<close>)
  then show ?thesis unfolding ag_give_up(2) .
next
  case (ag_fault_after k a why answers acc acts)
  have "jobs_ok (advance k (Some (Leaving a)) [(as_job a, EvFault (as_device a) why acc)] s)"
    by (rule jobs_ok_advance [OF ok ag_fault_after(3), where es' = "[EvFault (as_device a) why acc]"]) auto
  then show ?thesis unfolding ag_fault_after(2) .
next
  case (ag_starting k a t answer)
  have "jobs_ok (advance k (Some (Running a t)) [(as_job a, EvStart (accepted_answer answer))] s)"
    by (rule jobs_ok_advance [OF ok ag_starting(3), where es' = "[EvStart (accepted_answer answer)]"]) auto
  then show ?thesis unfolding ag_starting(2) .
next
  case (ag_running k a t l res dial_err)
  have "jobs_ok (advance k (Some (Verifying a t (job_outcome res))) [(as_job a, EvRan (job_spec_of a) res)] s)"
    by (rule jobs_ok_advance [OF ok ag_running(3), where es' = "[EvRan (job_spec_of a) res]"]) auto
  then show ?thesis unfolding ag_running(2) .
next
  case (ag_verifying k a t jr budget dir sys v scripts p)
  have "jobs_ok (advance k (Some p) [(as_job a, EvVerified (v_ok v))] s)"
    by (rule jobs_ok_advance [OF ok ag_verifying(3), where es' = "[EvVerified (v_ok v)]"])
       (use ag_verifying(5) in \<open>auto split: if_splits\<close>)
  then show ?thesis unfolding ag_verifying(2) .
next
  case (ag_faulting k a t why jr answers acc acts)
  have "jobs_ok (advance k (Some (Ending a t jr)) [(as_job a, EvFault (as_device a) why acc)] s)"
    by (rule jobs_ok_advance [OF ok ag_faulting(3), where es' = "[EvFault (as_device a) why acc]"]) auto
  then show ?thesis unfolding ag_faulting(2) .
next
  case (ag_ending k a t jr answers acc acts)
  have "jobs_ok (advance k (Some (HandingBack a t)) [(as_job a, EvTerminal jr acc)] s)"
    by (rule jobs_ok_advance [OF ok ag_ending(3), where es' = "[EvTerminal jr acc]"]) auto
  then show ?thesis unfolding ag_ending(2) .
next
  case (ag_handing_back k a t)
  from jobs_ok_advance [where es = "[]" and es' = "[]", OF ok ag_handing_back(3), of "Leaving a"] show ?thesis
    unfolding ag_handing_back(2) by simp
next
  case (ag_leaving k a)
  from jobs_ok_finish [where es = "[]" and es' = "[]", OF ok ag_leaving(3)] show ?thesis
    unfolding ag_leaving(2) by simp
next
  case (ag_timer l w)
  with ok show ?thesis by simp
next
  case (ag_observe j1 j2 now inst)
  with ok show ?thesis by simp
next
  case (ag_reregister now c later okk)
  with ok show ?thesis by simp
qed

interpretation agent_jobs: invariant_system "agent_step specs" jobs_ok for specs
  by unfold_locales (rule jobs_ok_step)

section \<open>The agent's devices\<close>

text \<open>The ownership a goroutine holds until it has handed its device back.\<close>

fun phase_token :: "phase \<Rightarrow> nat option" where
  "phase_token (Starting a t) = t"
| "phase_token (Running a t) = t"
| "phase_token (Verifying a t jr) = t"
| "phase_token (Faulting a t why jr) = t"
| "phase_token (Ending a t jr) = t"
| "phase_token (HandingBack a t) = t"
| "phase_token p = None"

definition tokens_ok :: "agent \<Rightarrow> bool" where
  "tokens_ok s \<longleftrightarrow>
     (\<forall>k p t. ag_threads s k = Some p \<longrightarrow> phase_token p = Some t \<longrightarrow>
        (\<exists>me. hw_owners (ag_hooks s) t = Some me \<and> ho_job me = phase_job p))
     \<and> (\<forall>k l p q t. ag_threads s k = Some p \<longrightarrow> ag_threads s l = Some q \<longrightarrow>
          phase_token p = Some t \<longrightarrow> phase_token q = Some t \<longrightarrow> k = l)
     \<and> (\<forall>t me. hw_owners (ag_hooks s) t = Some me \<longrightarrow>
          (\<exists>k p. ag_threads s k = Some p \<and> phase_token p = Some t))
     \<and> (\<forall>t \<ge> hw_next (ag_hooks s). hw_owners (ag_hooks s) t = None)
     \<and> (\<forall>k \<ge> ag_next s. ag_threads s k = None)"

text \<open>The steps of the hooks that a step of the agent makes.\<close>

fun hook_labels_of :: "agent_label \<Rightarrow> hook_label list" where
  "hook_labels_of (AAcquire k (Some t) d j) = [HAcquired t d j]"
| "hook_labels_of (ARefuse k d j) = [HRefused d j]"
| "hook_labels_of (AHandBack k (Some t)) = [HReleased t]"
| "hook_labels_of (ATimer l) = [l]"
| "hook_labels_of l = []"

definition hook_labels :: "agent_label list \<Rightarrow> hook_label list" where
  "hook_labels ls = concat (map hook_labels_of ls)"

lemma fold_cancel_frame [simp]:
  "ag_threads (fold cancel_running js s) = ag_threads s" "ag_next (fold cancel_running js s) = ag_next s"
  "ag_hooks (fold cancel_running js s) = ag_hooks s"
  by (induction js arbitrary: s) simp_all

lemma fold_spawn_frame [simp]: "ag_hooks (fold (\<lambda>a. spawn (f a)) as s) = ag_hooks s"
  by (induction as arbitrary: s) (simp_all add: spawn_def)

lemma handle_poll_hooks [simp]: "ag_hooks (handle_poll resp s) = ag_hooks s"
  by (simp add: handle_poll_def)

lemma world_acquire_unconfigured:
  "\<not> hook_configured (specs d) \<Longrightarrow> world_acquire specs d j sub outcome w = (no_acquire, w)"
  by (simp add: world_acquire_def)

lemma agent_step_hooks:
  assumes "agent_step specs s l s'" and tok: "tokens_ok s"
  shows "run (hook_step specs) (ag_hooks s) (hook_labels_of l) (ag_hooks s')"
  using assms(1)
proof (cases rule: agent_step.cases)
  case (ag_acquire k a outcome r w t)
  show ?thesis
  proof (cases "hook_configured (specs (as_device a))")
    case True
    from run_single [where stp = "hook_step specs", OF hk_acquire [OF True ag_acquire(4,5)]] True ag_acquire show ?thesis by simp
  next
    case False
    with ag_acquire world_acquire_unconfigured [of specs "as_device a"] show ?thesis by (simp add: run_Nil_iff)
  qed
next
  case (ag_refuse k a outcome r w e p)
  have conf: "hook_configured (specs (as_device a))"
    using ag_refuse(4,5) by (auto simp: world_acquire_def no_acquire_def split: if_splits)
  have "aq_err r \<noteq> None" using ag_refuse(5) by simp
  from run_single [where stp = "hook_step specs", OF hk_refuse [OF conf ag_refuse(4) this]] ag_refuse show ?thesis by simp
next
  case (ag_handing_back k a t)
  show ?thesis
  proof (cases t)
    case None
    with ag_handing_back show ?thesis by (simp add: run_Nil_iff hand_back_def)
  next
    case (Some n)
    with tok ag_handing_back(3) obtain me where me: "hw_owners (ag_hooks s) n = Some me"
      unfolding tokens_ok_def by fastforce
    from run_single [where stp = "hook_step specs", OF hk_release [OF me]] ag_handing_back Some me show ?thesis
      by (simp add: hand_back_def)
  qed
next
  case (ag_timer l w)
  from run_single [where stp = "hook_step specs", OF ag_timer(3)] ag_timer show ?thesis by simp
qed (simp_all add: run_Nil_iff)

lemma tokens_okI:
  assumes "\<And>k p t. ag_threads s k = Some p \<Longrightarrow> phase_token p = Some t \<Longrightarrow>
      \<exists>me. hw_owners (ag_hooks s) t = Some me \<and> ho_job me = phase_job p"
    "\<And>k l p q t. ag_threads s k = Some p \<Longrightarrow> ag_threads s l = Some q \<Longrightarrow> phase_token p = Some t \<Longrightarrow> phase_token q = Some t \<Longrightarrow> k = l"
    "\<And>t me. hw_owners (ag_hooks s) t = Some me \<Longrightarrow> \<exists>k p. ag_threads s k = Some p \<and> phase_token p = Some t"
    "\<And>t. hw_next (ag_hooks s) \<le> t \<Longrightarrow> hw_owners (ag_hooks s) t = None"
    "\<And>k. ag_next s \<le> k \<Longrightarrow> ag_threads s k = None"
  shows "tokens_ok s"
  unfolding tokens_ok_def using assms by (intro conjI allI impI) blast+

lemma tokens_okD:
  assumes "tokens_ok s"
  shows "ag_threads s k = Some p \<Longrightarrow> phase_token p = Some t \<Longrightarrow>
      \<exists>me. hw_owners (ag_hooks s) t = Some me \<and> ho_job me = phase_job p"
    "ag_threads s k = Some p \<Longrightarrow> ag_threads s l = Some q \<Longrightarrow> phase_token p = Some t \<Longrightarrow> phase_token q = Some t \<Longrightarrow> k = l"
    "hw_owners (ag_hooks s) t = Some me \<Longrightarrow> \<exists>k p. ag_threads s k = Some p \<and> phase_token p = Some t"
    "hw_next (ag_hooks s) \<le> t \<Longrightarrow> hw_owners (ag_hooks s) t = None"
    "ag_next s \<le> k \<Longrightarrow> ag_threads s k = None"
  using assms unfolding tokens_ok_def by blast+

lemma tokens_ok_new: "tokens_ok new_agent"
  by (rule tokens_okI) (simp_all add: new_agent_def hooks_start_def)

text \<open>A goroutine moves on with the ownership it has; the fields of the state besides do not matter.\<close>

lemma tokens_ok_move:
  assumes ok: "tokens_ok s" and k: "ag_threads s k = Some p"
    and p': "case p' of None \<Rightarrow> phase_token p = None | Some q \<Rightarrow> phase_token q = phase_token p \<and> phase_job q = phase_job p"
    and s': "ag_threads s' = (ag_threads s)(k := p')" "ag_next s' = ag_next s"
      "hw_owners (ag_hooks s') = hw_owners (ag_hooks s)" "hw_next (ag_hooks s') = hw_next (ag_hooks s)"
  shows "tokens_ok s'"
proof (rule tokens_okI)
  note sub = tokens_okD [OF ok]
  have old: "\<exists>q'. ag_threads s l = Some q' \<and> phase_token q' = phase_token q \<and> phase_job q' = phase_job q"
    if "ag_threads s' l = Some q" for l q
    using that p' k s'(1) by (cases "l = k") auto
  have new: "\<exists>q'. ag_threads s' l = Some q' \<and> phase_token q' = phase_token q"
    if "ag_threads s l = Some q" "phase_token q = Some t" for l q t
    using that p' k s'(1) by (cases "l = k") (auto split: option.splits)
  show "\<exists>me. hw_owners (ag_hooks s') t = Some me \<and> ho_job me = phase_job q"
    if "ag_threads s' l = Some q" "phase_token q = Some t" for l q t
    using old [OF that(1)] that(2) sub(1) s'(3) by metis
  show "l = m" if "ag_threads s' l = Some q" "ag_threads s' m = Some r" "phase_token q = Some t" "phase_token r = Some t" for l m q r t
    using old [OF that(1)] old [OF that(2)] that(3,4) sub(2) by metis
  show "\<exists>l q. ag_threads s' l = Some q \<and> phase_token q = Some t" if "hw_owners (ag_hooks s') t = Some me" for t me
    using sub(3) that s'(3) new by metis
  show "ag_threads s' l = None" if "ag_next s' \<le> l" for l
    using sub(5) [of l] that k s' by (cases "l = k") auto
qed (use tokens_okD(4) [OF ok] s' in simp)

lemma tokens_ok_move':
  assumes "tokens_ok s" and "ag_threads s k = Some p"
    and "ag_threads s' = (ag_threads s)(k := ag_threads s' k)"
    and "case ag_threads s' k of None \<Rightarrow> phase_token p = None | Some q \<Rightarrow> phase_token q = phase_token p \<and> phase_job q = phase_job p"
    and "ag_next s' = ag_next s" "hw_owners (ag_hooks s') = hw_owners (ag_hooks s)" "hw_next (ag_hooks s') = hw_next (ag_hooks s)"
  shows "tokens_ok s'"
  by (rule tokens_ok_move [OF assms(1,2,4,3,5,6,7)])

lemma tokens_ok_same:
  assumes "tokens_ok s" and "ag_threads s' = ag_threads s" "ag_next s' = ag_next s"
      "hw_owners (ag_hooks s') = hw_owners (ag_hooks s)" "hw_next (ag_hooks s') = hw_next (ag_hooks s)"
  shows "tokens_ok s'"
  using assms by (simp add: tokens_ok_def)

lemma tokens_ok_spawn:
  assumes ok: "tokens_ok s" and p: "phase_token p = None"
  shows "tokens_ok (spawn p s)"
proof (rule tokens_okI)
  note sub = tokens_okD [OF ok]
  have none: "ag_threads s (ag_next s) = None" using sub(5) by blast
  have old: "ag_threads (spawn p s) l = Some q \<and> phase_token q = Some t \<longleftrightarrow> ag_threads s l = Some q \<and> phase_token q = Some t" for l q t
    using none p by (auto simp: spawn_def)
  have h: "ag_hooks (spawn p s) = ag_hooks s" by (simp add: spawn_def)
  show "\<exists>me. hw_owners (ag_hooks (spawn p s)) t = Some me \<and> ho_job me = phase_job q"
    if "ag_threads (spawn p s) l = Some q" "phase_token q = Some t" for l q t using that old sub(1) h by metis
  show "l = m" if "ag_threads (spawn p s) l = Some q" "ag_threads (spawn p s) m = Some r" "phase_token q = Some t" "phase_token r = Some t"
    for l m q r t using that old sub(2) by metis
  show "\<exists>l q. ag_threads (spawn p s) l = Some q \<and> phase_token q = Some t" if "hw_owners (ag_hooks (spawn p s)) t = Some me" for t me
    using that old sub(3) h by metis
qed (use tokens_okD(4,5) [OF ok] in \<open>auto simp: spawn_def\<close>)

lemma tokens_ok_poll: "tokens_ok s \<Longrightarrow> tokens_ok (handle_poll resp s)"
proof -
  assume ok: "tokens_ok s"
  have cancel: "tokens_ok (fold cancel_running js s)" for js
    by (rule tokens_ok_same [OF ok]) simp_all
  have "tokens_ok (fold (\<lambda>a. spawn (if as_job a \<in> X then PreKilled (as_job a) else Spawned a)) as u)" if "tokens_ok u" for as u X
    using that
  proof (induction as arbitrary: u)
    case (Cons a as)
    from Cons.IH [OF tokens_ok_spawn [OF Cons.prems]] show ?case by simp
  qed simp
  with cancel show ?thesis by (simp add: handle_poll_def)
qed

lemma timer_step_owners:
  assumes "hook_step specs w l w'" and "timer_label l"
  shows "hw_owners w' = hw_owners w" "hw_next w' = hw_next w"
  using assms
  by (auto elim!: hook_step.cases simp: timer_label_def world_fire_def world_drain_def split: prod.splits option.splits)

lemma world_acquire_next:
  "world_acquire specs d job sub outcome w = (r, w') \<Longrightarrow> hook_configured (specs d) \<Longrightarrow> aq_err r = None \<Longrightarrow>
     hw_owners w' (hw_next w) \<noteq> None \<and> ho_job (the (hw_owners w' (hw_next w))) = job \<and> hw_next w' = hw_next w + 1
     \<and> (\<forall>k. k \<noteq> hw_next w \<longrightarrow> hw_owners w' k = hw_owners w k)"
  "world_acquire specs d job sub outcome w = (r, w') \<Longrightarrow> aq_err r \<noteq> None \<Longrightarrow>
     hw_owners w' = hw_owners w \<and> hw_next w' = hw_next w"
  by (auto simp: world_acquire_def Let_def no_acquire_def split: if_splits prod.splits)

lemma world_release_owners:
  "hw_owners (world_release k me w) = (hw_owners w)(k := None)" "hw_next (world_release k me w) = hw_next w"
  by (auto simp: world_release_def Let_def split: prod.splits)

lemma tokens_ok_acquire:
  assumes ok: "tokens_ok s" and k: "ag_threads s k = Some (Acquiring a)" and conf: "hook_configured (specs (as_device a))"
    and w: "world_acquire specs (as_device a) (as_job a) sub outcome (ag_hooks s) = (r, w)" "aq_err r = None"
  shows "tokens_ok ((advance k (Some (Starting a (Some (hw_next (ag_hooks s))))) [] s)\<lparr>ag_hooks := w\<rparr>)" (is "tokens_ok ?s'")
proof (rule tokens_okI)
  note sub = tokens_okD [OF ok]
  note e = world_acquire_next(1) [OF w(1) conf w(2)]
  let ?t = "hw_next (ag_hooks s)"
  have no: "phase_token q \<noteq> Some ?t" if "ag_threads s l = Some q" for l q
    using sub(1) [OF that] sub(4) [of ?t] by fastforce
  show "\<exists>me. hw_owners (ag_hooks ?s') t = Some me \<and> ho_job me = phase_job q"
    if "ag_threads ?s' l = Some q" "phase_token q = Some t" for l q t
  proof (cases "l = k")
    case True
    with that e show ?thesis by auto
  next
    case False
    with that have q: "ag_threads s l = Some q" by simp
    then have "t \<noteq> ?t" using no that(2) by blast
    with sub(1) [OF q that(2)] e show ?thesis by simp
  qed
  show "l = m" if "ag_threads ?s' l = Some q" "ag_threads ?s' m = Some u" "phase_token q = Some t" "phase_token u = Some t" for l m q u t
    using that no sub(2) [of l q m u t] by (auto split: if_splits)
  show "\<exists>l q. ag_threads ?s' l = Some q \<and> phase_token q = Some t" if o: "hw_owners (ag_hooks ?s') t = Some me" for t me
  proof (cases "t = ?t")
    case True
    then show ?thesis by (intro exI [of _ k] exI [of _ "Starting a (Some ?t)"]) simp
  next
    case False
    with o e have "hw_owners (ag_hooks s) t = Some me" by simp
    from sub(3) [OF this] obtain l q where q: "ag_threads s l = Some q" "phase_token q = Some t" by blast
    with k have "l \<noteq> k" by auto
    with q show ?thesis by (intro exI [of _ l] exI [of _ q]) simp
  qed
qed (use tokens_okD(4,5) [OF ok] world_acquire_next(1) [OF w(1) conf w(2)] k in auto)

lemma tokens_ok_hand_back:
  assumes ok: "tokens_ok s" and k: "ag_threads s k = Some (HandingBack a t)"
  shows "tokens_ok ((advance k (Some (Leaving a)) [] s)\<lparr>ag_hooks := hand_back t (ag_hooks s)\<rparr>)" (is "tokens_ok ?s'")
proof (cases t)
  case None
  with k show ?thesis by (intro tokens_ok_move [OF ok k, of "Some (Leaving a)"]) (simp_all add: hand_back_def)
next
  case (Some n)
  note sub = tokens_okD [OF ok]
  from sub(1) [OF k] Some obtain me where me: "hw_owners (ag_hooks s) n = Some me" by auto
  then have h: "hw_owners (ag_hooks ?s') = (hw_owners (ag_hooks s))(n := None)" "hw_next (ag_hooks ?s') = hw_next (ag_hooks s)"
    by (simp_all add: hand_back_def Some world_release_owners)
  have mine: "l = k" if "ag_threads s l = Some q" "phase_token q = Some n" for l q
    using sub(2) [OF that(1) k that(2)] Some by simp
  have old: "ag_threads ?s' l = Some q \<and> phase_token q = Some x \<longleftrightarrow> ag_threads s l = Some q \<and> phase_token q = Some x \<and> x \<noteq> n" for l q x
    using k Some mine [of l q] by auto
  show ?thesis
  proof (rule tokens_okI)
    show "\<exists>me. hw_owners (ag_hooks ?s') x = Some me \<and> ho_job me = phase_job q"
      if "ag_threads ?s' l = Some q" "phase_token q = Some x" for l q x
      using old [of l q x] that sub(1) [of l q x] h by auto
    show "l = m" if "ag_threads ?s' l = Some q" "ag_threads ?s' m = Some u" "phase_token q = Some x" "phase_token u = Some x" for l m q u x
      using old [of l q x] old [of m u x] that sub(2) [of l q m u x] by blast
    show "\<exists>l q. ag_threads ?s' l = Some q \<and> phase_token q = Some x" if o: "hw_owners (ag_hooks ?s') x = Some me" for x me
      using o h sub(3) [of x me] old by (metis fun_upd_apply option.distinct(1))
  qed (use sub(4,5) h k in auto)
qed

lemma tokens_ok_step:
  assumes stp: "agent_step specs s l s'" and ok: "tokens_ok s"
  shows "tokens_ok s'"
  using stp
proof (cases rule: agent_step.cases)
  case (ag_poll resp)
  with tokens_ok_poll [OF ok] show ?thesis by simp
next
  case (ag_acquire k a outcome r w t)
  show ?thesis
  proof (cases "hook_configured (specs (as_device a))")
    case True
    from tokens_ok_acquire [OF ok ag_acquire(3) True ag_acquire(4,5)] True show ?thesis
      unfolding ag_acquire(2,6) by simp
  next
    case False
    with ag_acquire(4) have "w = ag_hooks s" by (simp add: world_acquire_unconfigured)
    with False ag_acquire show ?thesis
      by (intro tokens_ok_move [OF ok ag_acquire(3), of "Some (Starting a None)"]) simp_all
  qed
next
  case (ag_refuse k a outcome r w e p)
  have "aq_err r \<noteq> None" using ag_refuse(5) by simp
  note same = world_acquire_next(2) [OF ag_refuse(4) this]
  show ?thesis
    by (rule tokens_ok_move [OF ok ag_refuse(3), of "Some p"]) (use ag_refuse same in \<open>auto simp: Let_def\<close>)
next
  case (ag_handing_back k a t)
  with tokens_ok_hand_back [OF ok ag_handing_back(3)] show ?thesis by simp
next
  case (ag_timer l w)
  with timer_step_owners [OF ag_timer(3,4)] show ?thesis by (intro tokens_ok_same [OF ok]) simp_all
next
  case (ag_give_up k a jr why answers acc acts p)
  show ?thesis by (rule tokens_ok_move [OF ok ag_give_up(3), of "Some p"]) (use ag_give_up in \<open>auto split: option.splits\<close>)
next
  case (ag_verifying k a t jr budget dir sys v scripts p)
  show ?thesis by (rule tokens_ok_move [OF ok ag_verifying(3), of "Some p"]) (use ag_verifying in \<open>auto split: if_splits\<close>)
qed ((erule tokens_ok_move' [OF ok] | rule tokens_ok_same [OF ok]); simp)+

interpretation agent_tokens: invariant_system "agent_step specs" tokens_ok for specs
  by unfold_locales (rule tokens_ok_step)

end
