(* ===== verification/Hook_Claims.thy ===== *)
theory Hook_Claims
  imports Hooks
begin

text \<open>
  The properties of the lifecycle hooks of a device: no release under a running job, acquire and
  release in alternation, and no release lost.
\<close>

text \<open>The job that acquired a device last, from the labels of a run.\<close>

fun latest_holder :: "string \<Rightarrow> hook_label list \<Rightarrow> nat option \<Rightarrow> nat option" where
  "latest_holder d [] acc = acc"
| "latest_holder d (HAcquired k d' job # ls) acc = latest_holder d ls (if d' = d then Some k else acc)"
| "latest_holder d (l # ls) acc = latest_holder d ls acc"

lemma latest_holder_snoc:
  "latest_holder d (ls @ [l]) acc =
     (case l of HAcquired k d' job \<Rightarrow> if d' = d then Some k else latest_holder d ls acc | _ \<Rightarrow> latest_holder d ls acc)"
  by (induction d ls acc rule: latest_holder.induct) (auto split: hook_label.splits)

text \<open>Unless it has handed the device back, the latest holder owns the device's epoch; and a held
  device has had a holder.\<close>

definition holds_now :: "hook_world \<Rightarrow> string \<Rightarrow> nat \<Rightarrow> bool" where
  "holds_now w d k \<longleftrightarrow> (k, hs_epoch (state_of w d)) \<in> owners_of w d"

definition holder_ok :: "string \<Rightarrow> hook_label list \<Rightarrow> hook_world \<Rightarrow> bool" where
  "holder_ok d ls w \<longleftrightarrow>
     (\<forall>k. latest_holder d ls None = Some k \<longrightarrow> holds_now w d k \<or> HReleased k \<in> set ls)
     \<and> (hs_held (state_of w d) \<longrightarrow> latest_holder d ls None \<noteq> None)"

lemma holds_now_cong:
  "hw_owners w = hw_owners w' \<Longrightarrow> hs_epoch (state_of w d) = hs_epoch (state_of w' d) \<Longrightarrow> holds_now w d k = holds_now w' d k"
  by (simp add: holds_now_def owners_of_def)

lemma holder_ok_step:
  assumes ok: "hooks_ok specs w" and h: "holder_ok d ls w" and stp: "hook_step specs w l w'"
  shows "holder_ok d (ls @ [l]) w'"
  using stp
proof (cases rule: hook_step.cases)
  case (hk_acquire d2 job sub outcome r)
  note e = world_acquire_effect [OF hk_acquire(3) hk_acquire(2)]
  show ?thesis
  proof (cases "d2 = d")
    case True
    with e(1) [OF hk_acquire(4)] hk_acquire(1) show ?thesis
      by (simp add: holder_ok_def latest_holder_snoc holds_now_def)
  next
    case False
    have "hw_owners w' k = hw_owners w k" if "(k, x) \<in> owners_of w d" for k x
    proof -
      have "k \<noteq> hw_next w" using that hooks_okD(3) [OF ok, of "hw_next w"] by (auto simp: owners_of_def)
      with e(3) [OF False [symmetric]] hk_acquire(4) show ?thesis by blast
    qed
    then have "holds_now w d k \<Longrightarrow> holds_now w' d k" for k
      using e(3) [OF False [symmetric]] unfolding holds_now_def by (auto simp: owners_of_def)
    with h False e(3) [OF False [symmetric]] hk_acquire(1) show ?thesis
      by (auto simp: holder_ok_def latest_holder_snoc)
  qed
next
  case (hk_refuse d2 job sub outcome r)
  note e = world_acquire_effect [OF hk_refuse(3) hk_refuse(2)]
  have "holds_now w' d k = holds_now w d k" for k
    by (rule holds_now_cong) (use e(2) [OF hk_refuse(4)] e(3) [of d] in \<open>cases "d = d2"; simp\<close>)+
  moreover have "hs_held (state_of w' d) \<Longrightarrow> hs_held (state_of w d)"
    using e(2) [OF hk_refuse(4)] e(3) [of d] by (cases "d = d2") auto
  ultimately show ?thesis using h hk_refuse(1) by (auto simp: holder_ok_def latest_holder_snoc)
next
  case (hk_release k me)
  obtain st armed where sr: "schedule_release (ho_job me) (ho_submitter me) (ho_epoch me) (state_of w (ho_device me)) = (st, armed)"
    by (meson surj_pair)
  have st: "hs_epoch st = hs_epoch (state_of w (ho_device me))" "hs_held st = hs_held (state_of w (ho_device me))"
    using sr by (auto simp: schedule_release_def split: if_splits)
  have "hw_owners w' = (hw_owners w)(k := None)" "hs_epoch (state_of w' d) = hs_epoch (state_of w d)"
    "hs_held (state_of w' d) = hs_held (state_of w d)"
    using hk_release(2) st by (auto simp: world_release_def Let_def sr)
  then have "holds_now w d j \<Longrightarrow> j \<noteq> k \<Longrightarrow> holds_now w' d j" "hs_held (state_of w' d) = hs_held (state_of w d)" for j
    by (auto simp: holds_now_def owners_of_def)
  with h hk_release(1) show ?thesis by (auto simp: holder_ok_def latest_holder_snoc)
next
  case (hk_elapse d2 g)
  have "holds_now w' d k = holds_now w d k" for k by (rule holds_now_cong) (simp_all add: hk_elapse)
  with h hk_elapse show ?thesis by (auto simp: holder_ok_def latest_holder_snoc)
next
  case (hk_fire d2 g outcome)
  have "hs_epoch (state_of w' d) = hs_epoch (state_of w d)" "hw_owners w' = hw_owners w"
    "hs_held (state_of w' d) \<Longrightarrow> hs_held (state_of w d)"
    by (auto simp: hk_fire world_fire_def fire_release_def Let_def split: prod.splits if_splits)
  moreover from this(1,2) have "holds_now w' d k = holds_now w d k" for k by (intro holds_now_cong) simp_all
  ultimately show ?thesis using h hk_fire(1) by (auto simp: holder_ok_def latest_holder_snoc)
next
  case (hk_drain d2)
  have "hs_epoch (state_of w' d) = hs_epoch (state_of w d)" "hw_owners w' = hw_owners w"
    "hs_held (state_of w' d) = hs_held (state_of w d)"
    by (auto simp: hk_drain world_drain_def drain_device_def split: option.splits if_splits)
  moreover from this(1,2) have "holds_now w' d k = holds_now w d k" for k by (intro holds_now_cong) simp_all
  ultimately show ?thesis using h hk_drain(1) by (auto simp: holder_ok_def latest_holder_snoc)
qed

lemma holder_ok_run: "run (hook_step specs) hooks_start ls w \<Longrightarrow> holder_ok d ls w"
proof (induction ls arbitrary: w rule: rev_induct)
  case Nil
  then show ?case by (simp add: run_Nil_iff holder_ok_def hooks_start_def state_of_def fresh_hook_state_def)
next
  case (snoc l ls)
  then obtain u where u: "run (hook_step specs) hooks_start ls u" "hook_step specs u l w" by (auto simp: run_snoc_iff)
  show ?case
    by (rule holder_ok_step [OF hook_system.run_inv [OF u(1) hooks_ok_start] snoc.IH [OF u(1)] u(2)])
qed

text \<open>Whenever a release timer, or the drain at shutdown, really runs the release hook of a device,
  the job that acquired the device last has handed it back.\<close>

lemma release_spares_owner:
  assumes "run (hook_step specs) hooks_start ls w" and "hook_step specs w (HFired d g) w'"
    and "hw_calls w' \<noteq> hw_calls w"
  shows "\<exists>k. latest_holder d ls None = Some k \<and> HReleased k \<in> set ls"
proof -
  note ok = hook_system.run_inv [OF assms(1) hooks_ok_start]
  from assms(2) obtain outcome where g: "(d, g) \<in> hw_flying w" "w' = world_fire specs d g outcome w"
    by (cases rule: hook_step.cases) auto
  then have cur: "hs_gen (state_of w d) \<in> gens_of (hw_flying w) d"
    using assms(3) by (auto simp: world_fire_def fire_release_def Let_def gens_of_def split: prod.splits if_splits)
  note dev = hooks_okD(1) [OF ok, of d, unfolded device_ok_def]
  from dev_okD(8) [OF dev] dev_okD(9) [OF dev] cur
  have "hs_held (state_of w d)" "\<not> holds_now w d k" for k by (auto simp: holds_now_def)
  with holder_ok_run [OF assms(1), of d] show ?thesis by (auto simp: holder_ok_def)
qed

text \<open>An ownership that was given up stays given up.\<close>

lemma released_ownership:
  assumes "run (hook_step specs) w ls w'" and "hw_owners w k = None" and "k < hw_next w"
  shows "hw_owners w' k = None \<and> k < hw_next w'"
  using assms
proof (induction rule: run.induct)
  case (run_cons s l s' ls s'')
  from run_cons(1) have "hw_owners s' k = None \<and> k < hw_next s'"
  proof (cases rule: hook_step.cases)
    case (hk_acquire d job sub outcome r)
    with run_cons.prems show ?thesis by (auto simp: world_acquire_def Let_def no_acquire_def split: if_splits prod.splits)
  next
    case (hk_refuse d job sub outcome r)
    with run_cons.prems show ?thesis by (auto simp: world_acquire_def Let_def no_acquire_def split: if_splits prod.splits)
  qed (use run_cons.prems in \<open>auto simp: world_release_def world_fire_def world_drain_def Let_def split: prod.splits option.splits\<close>)
  then show ?case using run_cons.IH by simp
qed simp

lemma released_owner_gone:
  assumes "run (hook_step specs) hooks_start ls w" and "HReleased k \<in> set ls"
  shows "hw_owners w k = None"
proof -
  from split_list [OF assms(2)] obtain xs ys where ls: "ls = xs @ HReleased k # ys" by blast
  from assms(1) obtain u v where v: "run (hook_step specs) hooks_start xs v" "hook_step specs v (HReleased k) u"
    and u: "run (hook_step specs) u ys w"
    unfolding ls run_append_iff run_Cons_iff by blast
  from v(2) obtain me where me: "hw_owners v k = Some me" "u = world_release k me v" by (cases rule: hook_step.cases) auto
  have "k < hw_next v" using hooks_okD(3) [OF hook_system.run_inv [OF v(1) hooks_ok_start], of k] me(1) by (cases "k < hw_next v") auto
  with me have "hw_owners u k = None \<and> k < hw_next u" by (auto simp: world_release_def Let_def split: prod.splits)
  with released_ownership [OF u] show ?thesis by blast
qed

section \<open>A run\<close>

text \<open>A job takes a device, ends, and its release timer elapses.\<close>

definition ex_hooks :: "string \<Rightarrow> hook_spec" where
  "ex_hooks d = \<lparr>hk_on_acquire = ''stop'', hk_on_release = ''start'', hk_timeout = 60, hk_linger = 1\<rparr>"

definition ex_owner :: hook_owner where
  "ex_owner = \<lparr>ho_device = ''h:g'', ho_job = ''j'', ho_submitter = ''u'', ho_epoch = 1\<rparr>"

definition ex_held :: hook_world where
  "ex_held = snd (world_acquire ex_hooks ''h:g'' ''j'' ''u'' (zero_result, '''') hooks_start)"

definition ex_idle :: hook_world where
  "ex_idle = world_release 0 ex_owner ex_held"

definition ex_elapsed :: hook_world where
  "ex_elapsed = ex_idle\<lparr>hw_armed := hw_armed ex_idle - {(''h:g'', 2)}, hw_flying := insert (''h:g'', 2) (hw_flying ex_idle)\<rparr>"

lemma ex_configured: "hook_configured (ex_hooks d)"
  by (simp add: hook_configured_def ex_hooks_def)

lemmas ex_acquire_eval = world_acquire_def acquire_device_def Let_def ex_configured own_device_def hook_verdict_def
  zero_result_def no_acquire_def hooks_start_def state_of_def fresh_hook_state_def stop_timer_def put_state_def

lemma ex_held_facts:
  "world_acquire ex_hooks ''h:g'' ''j'' ''u'' (zero_result, '''') hooks_start
     = (\<lparr>aq_ran = True, aq_output = '''', aq_err = None, aq_epoch = 1\<rparr>, ex_held)"
  "hw_states ex_held = [''h:g'' \<mapsto> \<lparr>hs_held = True, hs_timer = None, hs_gen = 1, hs_epoch = 1, hs_job = '''', hs_submitter = ''''\<rparr>]"
  "hw_owners ex_held = [0 \<mapsto> ex_owner]" "hw_armed ex_held = {}" "hw_flying ex_held = {}"
  "hw_calls ex_held = [\<lparr>hc_event = ''acquire'', hc_device = ''h:g'', hc_job = ''j'', hc_submitter = ''u'', hc_ok = True\<rparr>]"
  by (simp_all add: ex_held_def ex_acquire_eval ex_hooks_def ex_owner_def hook_configured_def)

lemma ex_idle_facts:
  "hw_states ex_idle = [''h:g'' \<mapsto> \<lparr>hs_held = True, hs_timer = Some 2, hs_gen = 2, hs_epoch = 1, hs_job = ''j'', hs_submitter = ''u''\<rparr>]"
  "hw_owners ex_idle = Map.empty" "hw_armed ex_idle = {(''h:g'', 2)}" "hw_flying ex_idle = {}"
  "hw_calls ex_idle = hw_calls ex_held"
  by (simp_all add: ex_idle_def world_release_def schedule_release_def Let_def ex_held_facts ex_owner_def state_of_def
      stop_timer_def put_state_def)

lemma ex_idle_run: "run (hook_step ex_hooks) hooks_start [HAcquired 0 ''h:g'' ''j'', HReleased 0] ex_idle"
proof -
  have 1: "hook_step ex_hooks hooks_start (HAcquired 0 ''h:g'' ''j'') ex_held"
    using hk_acquire [OF ex_configured ex_held_facts(1)] by (simp add: hooks_start_def)
  have 2: "hook_step ex_hooks ex_held (HReleased 0) ex_idle"
    unfolding ex_idle_def by (rule hk_release) (simp add: ex_held_facts)
  show ?thesis by (intro run_cons [where stp = "hook_step ex_hooks", OF 1] run_cons [where stp = "hook_step ex_hooks", OF 2] run_nil)
qed

lemma ex_elapsed_run: "run (hook_step ex_hooks) hooks_start ([HAcquired 0 ''h:g'' ''j'', HReleased 0] @ [HElapsed ''h:g'' 2]) ex_elapsed"
  unfolding run_snoc_iff ex_elapsed_def using ex_idle_run hk_elapse [of "''h:g''" 2 ex_idle ex_hooks] by (auto simp: ex_idle_facts)

section \<open>The properties\<close>

text \<open>
  C26. Acquire and release hooks alternate. With both hooks configured, the hooks a worker runs for
  a device are an acquisition, then a release, then an acquisition, and so on, failed
  acquisitions aside, however its jobs overlap; and the worker's record that the device is held
  says which of the two came last.
\<close>
theorem hooks_alternate:
  assumes "run (hook_step specs) hooks_start ls w"
    and "hk_on_acquire (specs d) \<noteq> ''''" and "hk_on_release (specs d) \<noteq> ''''"
  shows "held_after d False (hw_calls w) = Some (hs_held (state_of w d))"
  using hooks_okD(2) [OF hook_system.run_inv [OF assms(1) hooks_ok_start], of d] assms(2,3) by (simp add: calls_ok_def)

theorem hooks_alternate_witness:
  "held_after ''h:g'' False (hw_calls ex_elapsed) = Some (hs_held (state_of ex_elapsed ''h:g''))"
  by (rule hooks_alternate [OF ex_elapsed_run]) (simp_all add: ex_hooks_def)

text \<open>
  No release is lost. When no job owns a held device any more, draining it leaves exactly one
  callback of the device's present generation under way; running it releases the device with its
  hook called once and in the name of the job that scheduled the release, and every other callback of the device does nothing.
\<close>
theorem drain_releases:
  assumes "run (hook_step specs) hooks_start ls w"
    and "hs_held (state_of w d)" and "owners_of w d = {}" and "hk_on_release (specs d) \<noteq> ''''"
  shows "\<exists>g. (d, g) \<in> hw_flying (world_drain d w)
    \<and> (\<forall>outcome. \<not> hs_held (state_of (world_fire specs d g outcome (world_drain d w)) d)
         \<and> (\<exists>ok. hw_calls (world_fire specs d g outcome (world_drain d w)) = hw_calls w
              @ [\<lparr>hc_event = ''release'', hc_device = d, hc_job = hs_job (state_of w d),
                  hc_submitter = hs_submitter (state_of w d), hc_ok = ok\<rparr>]))
    \<and> (\<forall>h outcome. h \<noteq> g \<longrightarrow> hw_calls (world_fire specs d h outcome (world_drain d w)) = hw_calls w
         \<and> state_of (world_fire specs d h outcome (world_drain d w)) d = state_of (world_drain d w) d)"
proof -
  note dev = hooks_okD(1) [OF hook_system.run_inv [OF assms(1) hooks_ok_start], of d, unfolded device_ok_def]
  let ?st = "state_of w d" and ?w1 = "world_drain d w"
  have way: "hs_gen ?st \<in> gens_of (hw_armed w) d \<or> hs_gen ?st \<in> gens_of (hw_flying w) d"
    using dev_okD(11) [OF dev assms(2)] assms(3) by simp
  have drained: "(d, hs_gen (state_of ?w1 d)) \<in> hw_flying ?w1"
  proof (cases "hs_timer ?st")
    case None
    then have "hs_gen ?st \<notin> gens_of (hw_armed w) d" using dev_okD(4) [OF dev] by fastforce
    with way None show ?thesis by (simp add: world_drain_def drain_device_def gens_of_def)
  next
    case (Some t)
    then show ?thesis by (simp add: world_drain_def drain_device_def)
  qed
  have same: "hw_calls ?w1 = hw_calls w" "hs_job (state_of ?w1 d) = hs_job ?st" "hs_submitter (state_of ?w1 d) = hs_submitter ?st"
    by (auto simp: world_drain_def drain_device_def split: option.splits if_splits)
  show ?thesis
    by (intro exI [of _ "hs_gen (state_of ?w1 d)"] conjI allI impI)
       (use drained same assms(4) in \<open>simp_all add: world_fire_def fire_release_def Let_def\<close>)
qed

theorem drain_releases_witness:
  "\<exists>g. (''h:g'', g) \<in> hw_flying (world_drain ''h:g'' ex_idle)
    \<and> \<not> hs_held (state_of (world_fire ex_hooks ''h:g'' g (zero_result, '''') (world_drain ''h:g'' ex_idle)) ''h:g'')"
proof -
  have "hs_held (state_of ex_idle ''h:g'')" "owners_of ex_idle ''h:g'' = {}" "hk_on_release (ex_hooks ''h:g'') \<noteq> ''''"
    by (simp_all add: state_of_def ex_idle_facts owners_of_def ex_hooks_def)
  from drain_releases [OF ex_idle_run this] show ?thesis by blast
qed

end
