(* ===== verification/Agent_Claims.thy ===== *)
theory Agent_Claims
  imports Agent Hook_Claims
begin

text \<open>
  The properties of the worker process: the protocol of every job, the order of quarantine and
  release, kills, the device's hooks under the jobs, and the bounds of the reports.
\<close>

section \<open>What a typed trace looks like\<close>

definition is_run :: "job_event \<Rightarrow> bool" where
  "is_run e \<longleftrightarrow> (case e of EvRan spec res \<Rightarrow> True | _ \<Rightarrow> False)"

definition is_terminal :: "job_event \<Rightarrow> bool" where
  "is_terminal e \<longleftrightarrow> (case e of EvTerminal jr ok \<Rightarrow> True | _ \<Rightarrow> False)"

fun trace_shape :: "stage \<Rightarrow> job_event list \<Rightarrow> bool" where
  "trace_shape Fresh tr = (tr = [])"
| "trace_shape Begun tr = (\<exists>b. tr = [EvStart b])"
| "trace_shape (Ran res) tr = (\<exists>b spec. tr = [EvStart b, EvRan spec res])"
| "trace_shape (Clean res) tr = (\<exists>b spec. tr = [EvStart b, EvRan spec res, EvVerified True])"
| "trace_shape (Dirty res) tr = (\<exists>b spec. tr = [EvStart b, EvRan spec res, EvVerified False])"
| "trace_shape (Quarantined res) tr =
     (\<exists>b spec d why f. tr = [EvStart b, EvRan spec res, EvVerified False, EvFault d why f])"
| "trace_shape (Refused jr) tr = (\<exists>ok. tr = [EvTerminal jr ok] \<and> jr_state jr = JobFailed)"
| "trace_shape Over tr =
     ((\<exists>b spec res ok. tr = [EvStart b, EvRan spec res, EvVerified True, EvTerminal (job_outcome res) ok])
      \<or> (\<exists>b spec res d why f ok.
            tr = [EvStart b, EvRan spec res, EvVerified False, EvFault d why f, EvTerminal (job_outcome res) ok])
      \<or> (\<exists>jr ok. tr = [EvTerminal jr ok] \<and> jr_state jr = JobKilled)
      \<or> (\<exists>jr ok d why f. tr = [EvTerminal jr ok, EvFault d why f] \<and> jr_state jr = JobFailed \<and> jr_reason jr = Some why))"

lemma protocol_step_shape:
  assumes "trace_shape st tr" and "protocol_step st e = Some st'"
  shows "trace_shape st' (tr @ [e])"
  using assms(2,1) by (induction st e rule: protocol_step.induct) (auto split: if_splits)

lemma protocol_shape: "protocol Fresh tr = Some st \<Longrightarrow> trace_shape st tr"
proof (induction tr arbitrary: st rule: rev_induct)
  case (snoc e tr)
  then obtain st0 where "protocol Fresh tr = Some st0" "protocol_step st0 e = Some st"
    by (auto simp: protocol_append split: bind_splits)
  with snoc.IH protocol_step_shape show ?case by blast
qed simp

lemma shape_counts:
  "trace_shape st tr \<Longrightarrow> length (filter is_run tr) \<le> 1
     \<and> length (filter is_terminal tr) = (case st of Refused jr \<Rightarrow> 1 | Over \<Rightarrow> 1 | _ \<Rightarrow> 0)"
  by (cases st) (auto simp: is_run_def is_terminal_def)

lemma agent_jobs_ok: "run (agent_step specs) new_agent ls s \<Longrightarrow> jobs_ok s"
  by (rule agent_jobs.run_inv [OF _ jobs_ok_new])

lemma agent_trace:
  assumes "run (agent_step specs) new_agent ls s"
  shows "\<exists>st. protocol Fresh (job_trace j (ag_log s)) = Some st"
proof (cases "j \<in> ag_started s")
  case True
  with jobs_okD(3,5) [OF agent_jobs_ok [OF assms]] show ?thesis by blast
next
  case False
  with jobs_okD(6) [OF agent_jobs_ok [OF assms]] show ?thesis by simp
qed

section \<open>Two runs\<close>

text \<open>A job that runs and whose device fails verification, on a device without hooks.\<close>

definition ex_job :: assignment where
  "ex_job = \<lparr>as_job = ''j'', as_device = ''h:g'', as_command = [''true''], as_cwd = '''', as_env = Map.empty,
     as_max_runtime = 0, as_idle_timeout = 0, as_submitter = ''u'', as_kind = ''job'', as_stdio = ''''\<rparr>"

definition ex_launch :: launch where
  "ex_launch = \<lparr>la_pipe_err = None, la_start_err = None, la_started = 0,
     la_course = Exited WaitClean \<lparr>ta_alive = False, ta_polls = [], ta_last = False\<rparr>, la_sweep = (\<lambda>j. no_sweep)\<rparr>"

definition plain :: "string \<Rightarrow> hook_spec" where
  "plain d = no_hooks"

definition ex_result :: exec_result where
  "ex_result = run_job ex_job None ex_launch"

definition ex_begun :: agent where
  "ex_begun = new_agent\<lparr>ag_threads := [0 \<mapsto> Acquiring ex_job], ag_next := 1, ag_started := {''j''}, ag_running := [''j'' \<mapsto> False]\<rparr>"

definition ex_at :: "hook_world \<Rightarrow> phase \<Rightarrow> job_event list \<Rightarrow> agent" where
  "ex_at w p es = ex_begun\<lparr>ag_threads := [0 \<mapsto> p], ag_hooks := w, ag_log := map (Pair ''j'') es\<rparr>"

lemma ex_job_id [simp]: "as_job ex_job = ''j''" "as_device ex_job = ''h:g''"
  by (simp_all add: ex_job_def)

lemma ex_begun_run: "run (agent_step specs) new_agent [APoll \<lparr>pr_assignments = [ex_job], pr_kills = []\<rparr>, ABegin 0] ex_begun"
proof -
  let ?r = "\<lparr>pr_assignments = [ex_job], pr_kills = []\<rparr>"
  let ?p = "new_agent\<lparr>ag_threads := [0 \<mapsto> Spawned ex_job], ag_next := 1\<rparr>"
  have 1: "agent_step specs new_agent (APoll ?r) ?p"
    using ag_poll [of specs new_agent ?r] by (simp add: handle_poll_def spawn_def new_agent_def)
  have 2: "agent_step specs ?p (ABegin 0) ex_begun"
    using ag_begin [of ?p 0 ex_job specs] by (simp add: new_agent_def advance_def ex_begun_def)
  show ?thesis
    by (intro run_cons [where stp = "agent_step specs", OF 1] run_cons [where stp = "agent_step specs", OF 2] run_nil)
qed

lemma ex_advance [simp]: "advance 0 (Some q) (map (Pair ''j'') ds) (ex_at w p es) = ex_at w q (es @ ds)"
  by (simp add: ex_at_def advance_def ex_begun_def new_agent_def)

lemma ex_step:
  assumes "agent_step specs (ex_at w p es) l (advance 0 (Some q) (map (Pair ''j'') ds) (ex_at w p es))"
  shows "agent_step specs (ex_at w p es) l (ex_at w q (es @ ds))"
  using assms by simp

lemma ex_trace [simp]: "job_trace ''j'' (map (Pair ''j'') es) = es"
  by (induction es) simp_all

lemma ex_at_fields [simp]:
  "ag_threads (ex_at w p es) = [0 \<mapsto> p]" "ag_hooks (ex_at w p es) = w" "job_trace ''j'' (ag_log (ex_at w p es)) = es"
  by (simp_all add: ex_at_def)

definition ex_bad_pass :: "verify_result \<times> string list" where
  "ex_bad_pass = run_verify 0 (DirError ''EACCES'') (\<lambda>n. undefined)"

definition ex_before :: "job_event list" where
  "ex_before = [EvStart True, EvRan (job_spec_of ex_job) ex_result, EvVerified False,
     EvFault ''h:g'' (v_reason (fst ex_bad_pass)) True]"

definition ex_after :: "job_event list" where
  "ex_after = ex_before @ [EvTerminal (job_outcome ex_result) True]"

text \<open>From the acquired device to its hand-back; the hooks do not matter.\<close>

lemma ex_course:
  "run (agent_step specs) (ex_at w (Starting ex_job tk) []) [AWork 0, ARun 0, AWork 0, AWork 0, AWork 0]
     (ex_at w (HandingBack ex_job tk) ex_after)"
proof -
  let ?stp = "agent_step specs" and ?jr = "job_outcome ex_result" and ?why = "v_reason (fst ex_bad_pass)"
  have 1: "?stp (ex_at w (Starting ex_job tk) []) (AWork 0) (ex_at w (Running ex_job tk) ([] @ [EvStart True]))"
    using ag_starting [of "ex_at w (Starting ex_job tk) []" 0 ex_job tk specs "Answered 200"]
    by (intro ex_step) (simp add: accepted_answer_def)
  have 2: "?stp (ex_at w (Running ex_job tk) es) (ARun 0) (ex_at w (Verifying ex_job tk ?jr) (es @ [EvRan (job_spec_of ex_job) ex_result]))" for es
    using ag_running [of "ex_at w (Running ex_job tk) es" 0 ex_job tk ex_launch ex_result None specs]
    by (intro ex_step) (simp add: course_possible_def ex_launch_def ex_result_def)
  have 3: "?stp (ex_at w (Verifying ex_job tk ?jr) es) (AWork 0) (ex_at w (Faulting ex_job tk ?why ?jr) (es @ [EvVerified False]))" for es
    using ag_verifying [of "ex_at w (Verifying ex_job tk ?jr) es" 0 ex_job tk ?jr 0 "DirError ''EACCES''" "\<lambda>n. undefined"
        "fst ex_bad_pass" "snd ex_bad_pass" "Faulting ex_job tk ?why ?jr" specs]
    by (intro ex_step) (simp add: ex_bad_pass_def run_verify_def)
  have 4: "?stp (ex_at w (Faulting ex_job tk ?why ?jr) es) (AWork 0) (ex_at w (Ending ex_job tk ?jr) (es @ [EvFault ''h:g'' ?why True]))" for es
    using ag_faulting [of "ex_at w (Faulting ex_job tk ?why ?jr) es" 0 ex_job tk ?why ?jr "[Answered 204]" True "[Attempt (Answered 204)]" specs]
    by (intro ex_step) (simp add: report_fault_def report_attempts_def numeral_eq_Suc next_answer_def fault_answer_def Let_def)
  have 5: "?stp (ex_at w (Ending ex_job tk ?jr) es) (AWork 0) (ex_at w (HandingBack ex_job tk) (es @ [EvTerminal ?jr True]))" for es
    using ag_ending [of "ex_at w (Ending ex_job tk ?jr) es" 0 ex_job tk ?jr "[Answered 200]" True "[Attempt (Answered 200)]" specs]
    by (intro ex_step) (simp add: report_terminal_def report_attempts_def numeral_eq_Suc next_answer_def accepted_answer_def Let_def)
  have "run ?stp (ex_at w (Starting ex_job tk) []) [AWork 0, ARun 0, AWork 0, AWork 0, AWork 0]
      (ex_at w (HandingBack ex_job tk) ((((([] @ [EvStart True]) @ [EvRan (job_spec_of ex_job) ex_result]) @ [EvVerified False])
         @ [EvFault ''h:g'' ?why True]) @ [EvTerminal ?jr True]))"
    by (intro run_cons [where stp = ?stp, OF 1] run_cons [where stp = ?stp, OF 2]
        run_cons [where stp = ?stp, OF 3] run_cons [where stp = ?stp, OF 4] run_cons [where stp = ?stp, OF 5] run_nil)
  then show ?thesis by (simp add: ex_after_def ex_before_def)
qed

definition ex_freed :: agent where
  "ex_freed = ex_at hooks_start (HandingBack ex_job None) ex_after"

lemma ex_freed_run: "\<exists>ls. run (agent_step plain) new_agent ls ex_freed"
proof -
  have "agent_step plain ex_begun (AAcquire 0 None ''h:g'' ''j'') (ex_at hooks_start (Starting ex_job None) [])"
    using ag_acquire [of ex_begun 0 ex_job plain "undefined" no_acquire "ag_hooks ex_begun" None]
    by (simp add: ex_begun_def world_acquire_def plain_def no_hooks_def hook_configured_def no_acquire_def advance_def ex_at_def new_agent_def)
  from run_append [OF ex_begun_run run_cons [where stp = "agent_step plain", OF this ex_course]]
  show ?thesis unfolding ex_freed_def by blast
qed

text \<open>The same job on a device with hooks: it hands the device back and its release timer elapses.\<close>

definition ex_lingering :: agent where
  "ex_lingering = ex_at ex_elapsed (Leaving ex_job) ex_after"

definition ex_lingering_labels :: "agent_label list" where
  "ex_lingering_labels = [APoll \<lparr>pr_assignments = [ex_job], pr_kills = []\<rparr>, ABegin 0] @ AAcquire 0 (Some 0) ''h:g'' ''j''
     # [AWork 0, ARun 0, AWork 0, AWork 0, AWork 0] @ [AHandBack 0 (Some 0), ATimer (HElapsed ''h:g'' 2)]"

lemma ex_lingering_run: "run (agent_step ex_hooks) new_agent ex_lingering_labels ex_lingering"
proof -
  let ?stp = "agent_step ex_hooks"
  have a: "?stp ex_begun (AAcquire 0 (Some 0) ''h:g'' ''j'') (ex_at ex_held (Starting ex_job (Some 0)) [])"
    using ag_acquire [of ex_begun 0 ex_job ex_hooks "(zero_result, '''')" _ ex_held "Some 0"] ex_held_facts(1)
    by (simp add: ex_begun_def ex_configured advance_def ex_at_def new_agent_def ex_job_def hooks_start_def)
  have b: "?stp (ex_at ex_held (HandingBack ex_job (Some 0)) ex_after) (AHandBack 0 (Some 0)) (ex_at ex_idle (Leaving ex_job) ex_after)"
    using ag_handing_back [of "ex_at ex_held (HandingBack ex_job (Some 0)) ex_after" 0 ex_job "Some 0" ex_hooks]
    by (simp add: hand_back_def ex_held_facts ex_idle_def advance_def ex_at_def ex_begun_def new_agent_def)
  have c: "?stp (ex_at ex_idle (Leaving ex_job) ex_after) (ATimer (HElapsed ''h:g'' 2)) ex_lingering"
    using ag_timer [of ex_hooks "ex_at ex_idle (Leaving ex_job) ex_after" "HElapsed ''h:g'' 2" ex_elapsed]
      hk_elapse [of "''h:g''" 2 ex_idle ex_hooks]
    by (simp add: ex_idle_facts ex_elapsed_def timer_label_def ex_lingering_def ex_at_def ex_begun_def new_agent_def)
  show ?thesis unfolding ex_lingering_labels_def
    by (intro run_append [OF ex_begun_run] run_cons [where stp = ?stp, OF a] run_append [OF ex_course]
        run_cons [where stp = ?stp, OF b] run_cons [where stp = ?stp, OF c] run_nil)
qed

text \<open>A job whose acquire hook fails, on a device with hooks.\<close>

definition ex_bad_hook :: hook_outcome where
  "ex_bad_hook = (zero_result\<lparr>r_exit := 1\<rparr>, '''')"

definition ex_refusal :: "acquire_result \<times> hook_world" where
  "ex_refusal = world_acquire ex_hooks ''h:g'' ''j'' ''u'' ex_bad_hook hooks_start"

definition ex_why :: string where
  "ex_why = acquire_failed_reason (fst ex_refusal) (the (aq_err (fst ex_refusal)))"

definition ex_refused_report :: job_report where
  "ex_refused_report = \<lparr>jr_state = JobFailed, jr_exit = None, jr_reason = Some ex_why\<rparr>"

definition ex_refused :: agent where
  "ex_refused = ex_at (snd ex_refusal) (Leaving ex_job) [EvTerminal ex_refused_report True, EvFault ''h:g'' ex_why True]"

lemma ex_refusal_err: "aq_err (fst ex_refusal) = Some (the (aq_err (fst ex_refusal)))"
  by (simp add: ex_refusal_def ex_bad_hook_def ex_acquire_eval ex_hooks_def hook_configured_def)

lemma ex_refused_run: "\<exists>ls. run (agent_step ex_hooks) new_agent ls ex_refused"
proof -
  let ?stp = "agent_step ex_hooks" and ?s = "ex_at (snd ex_refusal)"
  have 0: "?stp ex_begun (ARefuse 0 ''h:g'' ''j'') (?s (GivingUp ex_job ex_refused_report (Some ex_why)) [])"
    using ag_refuse [of ex_begun 0 ex_job ex_hooks ex_bad_hook "fst ex_refusal" "snd ex_refusal", OF _ _ ex_refusal_err refl]
    by (simp add: ex_begun_def ex_refusal_def [symmetric] new_agent_def job_cancelled_def advance_def Let_def
        ex_refused_report_def ex_why_def ex_at_def) (simp add: ex_refusal_def ex_job_def)
  have 1: "?stp (?s (GivingUp ex_job ex_refused_report (Some ex_why)) []) (AWork 0)
      (?s (FaultAfter ex_job ex_why) ([] @ [EvTerminal ex_refused_report True]))"
    using ag_give_up [of "?s (GivingUp ex_job ex_refused_report (Some ex_why)) []" 0 ex_job ex_refused_report "Some ex_why"
        "[Answered 200]" True "[Attempt (Answered 200)]" "FaultAfter ex_job ex_why" ex_hooks]
    by (intro ex_step) (simp add: report_terminal_def report_attempts_def numeral_eq_Suc next_answer_def accepted_answer_def Let_def)
  have 2: "?stp (?s (FaultAfter ex_job ex_why) es) (AWork 0) (?s (Leaving ex_job) (es @ [EvFault ''h:g'' ex_why True]))" for es
    using ag_fault_after [of "?s (FaultAfter ex_job ex_why) es" 0 ex_job ex_why
        "[Answered 204]" True "[Attempt (Answered 204)]" ex_hooks]
    by (intro ex_step) (simp add: report_fault_def report_attempts_def numeral_eq_Suc next_answer_def fault_answer_def Let_def)
  have "run ?stp ex_begun [ARefuse 0 ''h:g'' ''j'', AWork 0, AWork 0]
      (?s (Leaving ex_job) (([] @ [EvTerminal ex_refused_report True]) @ [EvFault ''h:g'' ex_why True]))"
    by (intro run_cons [where stp = ?stp, OF 0] run_cons [where stp = ?stp, OF 1] run_cons [where stp = ?stp, OF 2] run_nil)
  from run_append [OF ex_begun_run this] show ?thesis unfolding ex_refused_def by auto
qed

section \<open>The properties\<close>

text \<open>
  C20. Every job follows its protocol. Whatever the polls deliver, twice or with a kill, and
  however the goroutines, timers and the shutdown interleave, what a worker does for a job is a
  word of the protocol: the command runs at most once, one terminal report is made at most
  once, nothing happens for a job that was not begun, and a begun job that no goroutine has in
  hand any more has completed the protocol, with exactly one terminal report.
\<close>
theorem job_protocol:
  assumes "run (agent_step specs) new_agent ls s"
  shows "\<exists>st. protocol Fresh (job_trace j (ag_log s)) = Some st
    \<and> length (filter is_run (job_trace j (ag_log s))) \<le> 1
    \<and> length (filter is_terminal (job_trace j (ag_log s))) \<le> 1
    \<and> (j \<notin> ag_started s \<longrightarrow> job_trace j (ag_log s) = [])
    \<and> (j \<in> ag_started s \<and> (\<forall>k p. ag_threads s k = Some p \<longrightarrow> begun p \<longrightarrow> phase_job p \<noteq> j) \<longrightarrow>
         st = Over \<and> length (filter is_terminal (job_trace j (ag_log s))) = 1)"
proof -
  obtain st where st: "protocol Fresh (job_trace j (ag_log s)) = Some st" using agent_trace [OF assms] by blast
  note c = shape_counts [OF protocol_shape [OF st]]
  note ok = agent_jobs_ok [OF assms]
  have "st = Over" if "j \<in> ag_started s" "\<forall>k p. ag_threads s k = Some p \<longrightarrow> begun p \<longrightarrow> phase_job p \<noteq> j"
    using jobs_okD(5) [OF ok that(1)] that(2) st by auto
  moreover have "length (filter is_terminal (job_trace j (ag_log s))) \<le> 1" using c by (cases st) auto
  ultimately show ?thesis using st c jobs_okD(6) [OF ok, of j] by (intro exI [of _ st]) auto
qed

theorem job_protocol_witness:
  "\<exists>st. protocol Fresh (job_trace ''j'' (ag_log ex_freed)) = Some st \<and> length (filter is_run (job_trace ''j'' (ag_log ex_freed))) = 1"
proof -
  obtain ls where r: "run (agent_step plain) new_agent ls ex_freed" using ex_freed_run by blast
  obtain st where "protocol Fresh (job_trace ''j'' (ag_log ex_freed)) = Some st" using job_protocol [OF r, of "''j''"] by blast
  moreover have "length (filter is_run (job_trace ''j'' (ag_log ex_freed))) = 1"
    by (simp add: ex_freed_def is_run_def ex_before_def ex_after_def)
  ultimately show ?thesis by blast
qed

text \<open>
  C21. The device is quarantined before it looks free. When a job that has run is reported
  terminal, the device was verified before that, a verify failure was reported as a fault before
  that, and what is reported is the outcome of the run: a device is never offered to the next
  job between the end of a job and the verdict on its device.
\<close>
theorem quarantined_before_freed:
  assumes "run (agent_step specs) new_agent ls s"
    and "job_trace j (ag_log s) = xs @ EvTerminal jr ok # ys" and "EvRan spec res \<in> set xs"
  shows "jr = job_outcome res \<and> (\<exists>v. EvVerified v \<in> set xs)
    \<and> (EvVerified False \<in> set xs \<longrightarrow> (\<exists>d why f. EvFault d why f \<in> set xs)) \<and> ys = []"
proof -
  obtain st where st: "protocol Fresh (job_trace j (ag_log s)) = Some st" using agent_trace [OF assms(1)] by blast
  from protocol_shape [OF st] show ?thesis
    unfolding assms(2) by (cases st) (use assms(3) in \<open>auto simp: append_eq_Cons_conv Cons_eq_append_conv\<close>)
qed

theorem quarantined_before_freed_witness:
  "\<exists>d why f. EvFault d why f \<in> set ex_before"
proof -
  obtain ls where r: "run (agent_step plain) new_agent ls ex_freed" using ex_freed_run by blast
  have t: "job_trace ''j'' (ag_log ex_freed) = ex_before @ EvTerminal (job_outcome ex_result) True # []"
    by (simp add: ex_freed_def ex_after_def)
  have ran: "EvRan (job_spec_of ex_job) ex_result \<in> set ex_before" by (simp add: ex_before_def)
  have "EvVerified False \<in> set ex_before" by (simp add: ex_before_def)
  with quarantined_before_freed [OF r t ran] show ?thesis by blast
qed

text \<open>
  C25. A job whose acquire hook failed is the exception. Its fault report comes after its terminal
  report, so the controller frees the device before it learns that the hook could not make it
  usable: every fault reported for a job that has not run is preceded by that job's terminal
  report.
\<close>
theorem refused_job_frees_device_first:
  assumes "run (agent_step specs) new_agent ls s"
    and "job_trace j (ag_log s) = xs @ EvFault d why f # ys" and "\<forall>e \<in> set xs. \<not> is_run e"
  shows "\<exists>jr ok. EvTerminal jr ok \<in> set xs \<and> jr_state jr = JobFailed \<and> jr_reason jr = Some why"
proof -
  obtain st where st: "protocol Fresh (job_trace j (ag_log s)) = Some st" using agent_trace [OF assms(1)] by blast
  from protocol_shape [OF st] show ?thesis
    unfolding assms(2) by (cases st) (use assms(3) in \<open>auto simp: append_eq_Cons_conv Cons_eq_append_conv is_run_def\<close>)
qed

theorem refused_job_frees_device_first_witness:
  "\<exists>jr ok. EvTerminal jr ok \<in> set [EvTerminal ex_refused_report True] \<and> jr_state jr = JobFailed"
proof -
  obtain ls where r: "run (agent_step ex_hooks) new_agent ls ex_refused" using ex_refused_run by blast
  have t: "job_trace ''j'' (ag_log ex_refused) = [EvTerminal ex_refused_report True] @ EvFault ''h:g'' ex_why True # []"
    by (simp add: ex_refused_def)
  have "\<forall>e \<in> set [EvTerminal ex_refused_report True]. \<not> is_run e" by (simp add: is_run_def)
  from refused_job_frees_device_first [OF r t this] show ?thesis by blast
qed

section \<open>Hooks under the jobs\<close>

lemma agent_run_hooks:
  "run (agent_step specs) s ls s' \<Longrightarrow> tokens_ok s \<Longrightarrow> run (hook_step specs) (ag_hooks s) (hook_labels ls) (ag_hooks s') \<and> tokens_ok s'"
proof (induction rule: run.induct)
  case (run_cons s l s' ls s'')
  from run_append [OF agent_step_hooks [OF run_cons(1) run_cons.prems]] run_cons.IH tokens_ok_step [OF run_cons(1) run_cons.prems]
  show ?case by (auto simp: hook_labels_def)
qed (simp add: hook_labels_def run_Nil_iff)

lemma agent_hooks:
  assumes "run (agent_step specs) new_agent ls s"
  shows "run (hook_step specs) hooks_start (hook_labels ls) (ag_hooks s)" and "tokens_ok s"
  using agent_run_hooks [OF assms tokens_ok_new] by (simp_all add: new_agent_def)

text \<open>
  C22. The release hook never runs under a job. When a release timer, or the drain at shutdown,
  really runs the release hook of a device, no goroutine whose job acquired the device last
  is between its acquire hook and the hand-back of the device: under every interleaving of jobs
  that overlap or end late, kills, timers that elapse while they are being stopped, and drains.
\<close>
theorem no_release_under_job:
  assumes "run (agent_step specs) new_agent ls s"
    and "agent_step specs s (ATimer (HFired d g)) s'" and "hw_calls (ag_hooks s') \<noteq> hw_calls (ag_hooks s)"
  shows "\<not> (\<exists>k p t. ag_threads s k = Some p \<and> phase_token p = Some t \<and> latest_holder d (hook_labels ls) None = Some t)"
proof (intro notI, elim exE conjE)
  fix k p t
  assume p: "ag_threads s k = Some p" "phase_token p = Some t" and t: "latest_holder d (hook_labels ls) None = Some t"
  note h = agent_hooks [OF assms(1)]
  have "hook_step specs (ag_hooks s) (HFired d g) (ag_hooks s')"
    using assms(2) by (cases rule: agent_step.cases) auto
  from release_spares_owner [OF h(1) this assms(3)] t have "HReleased t \<in> set (hook_labels ls)" by auto
  from released_owner_gone [OF h(1) this] tokens_okD(1) [OF h(2) p] show False by simp
qed

theorem no_release_under_job_witness:
  "\<not> (\<exists>k p t. ag_threads ex_lingering k = Some p \<and> phase_token p = Some t \<and> latest_holder ''h:g'' (hook_labels ex_lingering_labels) None = Some t)
    \<and> latest_holder ''h:g'' (hook_labels ex_lingering_labels) None = Some 0"
proof -
  let ?w = "world_fire ex_hooks ''h:g'' 2 (zero_result, []) ex_elapsed"
  have "hook_step ex_hooks (ag_hooks ex_lingering) (HFired ''h:g'' 2) ?w"
    unfolding ex_lingering_def ex_at_fields by (rule hk_fire) (simp add: ex_elapsed_def)
  then have "agent_step ex_hooks ex_lingering (ATimer (HFired ''h:g'' 2)) (ex_lingering\<lparr>ag_hooks := ?w\<rparr>)"
    by (rule ag_timer) (simp add: timer_label_def)
  moreover have "hw_calls ?w \<noteq> hw_calls ex_elapsed"
    by (simp add: world_fire_def fire_release_def Let_def ex_elapsed_def ex_idle_facts state_of_def ex_hooks_def)
  ultimately show ?thesis
    using no_release_under_job [OF ex_lingering_run] by (auto simp: ex_lingering_def ex_lingering_labels_def hook_labels_def)
qed

section \<open>Kills and reports\<close>

lemma fold_cancel_running: "ag_running (fold cancel_running js s) j
    = (if j \<in> set js \<and> ag_running s j \<noteq> None then Some True else ag_running s j)"
  by (induction js arbitrary: s) (auto simp: cancel_running_def)

lemma fold_spawn_running: "ag_running (fold (\<lambda>a. spawn (f a)) as s) = ag_running s"
  by (induction as arbitrary: s) (simp_all add: spawn_def)

lemma handle_poll_running:
  "ag_running (handle_poll resp s) j = (if j \<in> set (pr_kills resp) \<and> ag_running s j \<noteq> None then Some True else ag_running s j)"
  by (simp add: handle_poll_def fold_spawn_running fold_cancel_running)

definition killed_or_over :: "string \<Rightarrow> agent \<Rightarrow> bool" where
  "killed_or_over j s \<longleftrightarrow> j \<in> ag_started s \<and> (ag_running s j = Some True \<or> ag_running s j = None)"

lemma handle_poll_started: "ag_started (handle_poll resp s) = ag_started s"
proof -
  have "ag_started (fold (\<lambda>a. spawn (f a)) as u) = ag_started u" for f :: "assignment \<Rightarrow> phase" and as u
    by (induction as arbitrary: u) (simp_all add: spawn_def)
  moreover have "ag_started (fold cancel_running js u) = ag_started u" for js u
    by (induction js arbitrary: u) (simp_all add: cancel_running_def)
  ultimately show ?thesis by (simp add: handle_poll_def)
qed

lemma killed_or_over_step:
  assumes "agent_step specs s l s'" and "killed_or_over j s"
  shows "killed_or_over j s'"
  using assms by (cases rule: agent_step.cases)
    (auto simp: killed_or_over_def handle_poll_running handle_poll_started)

lemma killed_or_over_run: "run (agent_step specs) s ls s' \<Longrightarrow> killed_or_over j s \<Longrightarrow> killed_or_over j s'"
  by (induction rule: run.induct) (blast dest: killed_or_over_step)+

text \<open>
  C23. A kill reaches the job and stays. A job the worker supervises when a poll answers with its
  kill is cancelled at once; in every later state it is either still cancelled or no longer
  supervised, it is never begun again, and as long as it is supervised its command may be
  interrupted whatever its limits are.
\<close>
theorem kill_sticks:
  assumes "run (agent_step specs) new_agent ls s" and "j \<in> set (pr_kills resp)" and "ag_running s j \<noteq> None"
    and "run (agent_step specs) (handle_poll resp s) ls' s'"
  shows "(ag_running s' j = Some True \<or> ag_running s' j = None) \<and> j \<in> ag_started s'
    \<and> (ag_running s' j \<noteq> None \<longrightarrow> (\<forall>a l. as_job a = j \<longrightarrow> course_possible s' a l))"
proof -
  note ok = agent_jobs_ok [OF assms(1)]
  from jobs_okD(7) [OF ok, of j] assms(3) obtain k p where p: "ag_threads s k = Some p" "in_hand p" "phase_job p = j" by blast
  from jobs_okD(2) [OF ok p(1) in_hand_begun [OF p(2)]] p(3) have "j \<in> ag_started s" by simp
  then have "killed_or_over j (handle_poll resp s)"
    using assms(2,3) by (simp add: killed_or_over_def handle_poll_running handle_poll_started)
  from killed_or_over_run [OF assms(4) this] show ?thesis
    by (auto simp: killed_or_over_def course_possible_def job_cancelled_def split: supervision.splits)
qed

theorem kill_sticks_witness:
  "ag_running (handle_poll \<lparr>pr_assignments = [], pr_kills = [''j'']\<rparr> ex_begun) ''j'' = Some True"
proof -
  have r: "ag_running ex_begun ''j'' = Some False" by (simp add: ex_begun_def)
  have "run (agent_step plain) (handle_poll \<lparr>pr_assignments = [], pr_kills = [''j'']\<rparr> ex_begun) []
      (handle_poll \<lparr>pr_assignments = [], pr_kills = [''j'']\<rparr> ex_begun)" by (rule run_nil)
  from kill_sticks [OF ex_begun_run _ _ this, of "''j''"] r show ?thesis by (simp add: handle_poll_running)
qed

text \<open>
  A report is tried five times and no longer than 28 seconds. Whatever the controller answers,
  the reports of a terminal state and of a fault make between one and five attempts of at most
  five seconds each and pause for at most three seconds in all; the terminal report counts as
  delivered exactly when an attempt was accepted.
\<close>
theorem reports_bounded:
  "1 \<le> length (attempts_of (snd (report_terminal answers))) \<and> length (attempts_of (snd (report_terminal answers))) \<le> 5
    \<and> longest (snd (report_terminal answers)) \<le> 28 * go_second
    \<and> 1 \<le> length (attempts_of (snd (report_fault answers))) \<and> length (attempts_of (snd (report_fault answers))) \<le> 5
    \<and> longest (snd (report_fault answers)) \<le> 28 * go_second
    \<and> fst (report_terminal answers) = list_ex accepted_answer (attempts_of (snd (report_terminal answers)))"
proof -
  have pos: "0 \<le> first_backoff" by (simp add: first_backoff_def)
  note t = terminal_loop_bounds [OF pos, of 5 answers] and f = fault_loop_bounds [OF pos, of 5 answers]
  have "1 \<le> length (attempts_of (snd (terminal_loop 5 first_backoff answers)))"
    "1 \<le> length (attempts_of (snd (fault_loop 5 first_backoff answers)))"
    by (auto simp: numeral_eq_Suc Let_def case_prod_beta)
  with t f show ?thesis
    by (auto simp: report_terminal_def report_fault_def report_attempts_def longest_def attempt_timeout_def
        first_backoff_def list_ex_iff terminal_loop_accepted)
qed

section \<open>What a success means\<close>

definition exited_clean :: "wait_status \<Rightarrow> bool" where
  "exited_clean st \<longleftrightarrow> (case st of WaitClean \<Rightarrow> True | WaitExited code \<Rightarrow> code = 0 | _ \<Rightarrow> False)"

definition res_success :: "exec_result \<Rightarrow> bool" where
  "res_success res \<longleftrightarrow> \<not> r_killed res \<and> r_err res = None \<and> r_exit res = 0"





definition ended_by_itself :: "job_spec \<Rightarrow> time \<Rightarrow> supervision \<Rightarrow> bool" where
  "ended_by_itself spec started sv \<longleftrightarrow>
     (case sv of
        Exited st t \<Rightarrow> exited_clean st \<and> \<not> ta_alive t
      | Cancelled c t ticks \<Rightarrow> \<not> ta_alive t
          \<and> (case first_answer (take spin_limit (cn_spins c)) of
               Some st \<Rightarrow> exited_clean st
             | None \<Rightarrow> \<not> cn_delivered c \<and> watchdog spec started ticks = None \<and> exited_clean (fst (terminate c))))"


lemma failed_no_success [simp]: "\<not> res_success (failed_result e)"
  by (simp add: res_success_def failed_result_def zero_result_def)


lemma watchdog_stdin [simp]: "watchdog_tick (spec\<lparr>js_stdin := b\<rparr>) = watchdog_tick spec"
  by (simp add: watchdog_tick_def fun_eq_iff)

lemma ended_stdin [simp]: "ended_by_itself (spec\<lparr>js_stdin := b\<rparr>) started sv = ended_by_itself spec started sv"
proof -
  have "watchdog_trip (spec\<lparr>js_stdin := b\<rparr>) started ticks = watchdog_trip spec started ticks" for ticks
    by (induction spec started ticks rule: watchdog_trip.induct) (simp split: option.splits)+
  then show ?thesis by (simp add: ended_by_itself_def watchdog_def cong: supervision.case_cong option.case_cong)
qed



section \<open>Registering again\<close>

text \<open>
  A worker with a job in hand never registers again, and so never has the controller reap it.
  Whenever it attempts a registration after lost contact, no goroutine is between the begin of
  its job and its end; what there may be are assignments that have not begun and jobs killed
  before they did. When the attempt succeeds, no registration is owed any more.
\<close>
theorem reregisters_idle:
  assumes "run (agent_step specs) new_agent ls s" and "agent_step specs s (AReregister ok) s'"
  shows "\<not> (\<exists>k p. ag_threads s k = Some p \<and> in_hand p)
    \<and> ag_threads s' = ag_threads s \<and> (ok = (ct_due (ag_contact s') = None))"
  using assms(2)
proof (cases rule: agent_step.cases)
  case (ag_reregister now c later)
  have "\<not> in_hand p" if "ag_threads s k = Some p" for k p
    using jobs_okD(7) [OF agent_jobs_ok [OF assms(1)], of "phase_job p"] that ag_reregister(3)
    by (auto simp: supervised_jobs_def)
  with ag_reregister show ?thesis by (auto simp: contact_registered_def contact_attempting_def)
qed

definition ex_moved :: agent where
  "ex_moved = new_agent\<lparr>ag_contact := contact_observe 0 0 0 ''b'' (contact_observe 0 0 0 ''a'' new_contact)\<rparr>"

theorem reregisters_idle_witness:
  "\<not> (\<exists>k p. ag_threads ex_moved k = Some p \<and> in_hand p) \<and> contact_due 0 (ag_contact ex_moved)"
proof -
  let ?stp = "agent_step plain"
  let ?u = "new_agent\<lparr>ag_contact := contact_observe 0 0 0 ''a'' new_contact\<rparr>"
  have 1: "?stp new_agent AContact ?u"
    using ag_observe [of plain new_agent 0 0 0 "''a''"] by (simp add: new_agent_def)
  have 2: "?stp ?u AContact ex_moved"
    using ag_observe [of plain ?u 0 0 0 "''b''"] by (simp add: ex_moved_def)
  have due: "contact_due 0 (ag_contact ex_moved)"
    by (simp add: ex_moved_def contact_due_def contact_observe_due contact_observe_instance contact_observe_last
        must_reregister_def contact_lost_def new_contact_def time_sub_def reregister_after_silence_def)
  have "?stp ex_moved (AReregister True) (ex_moved\<lparr>ag_contact := contact_registered (contact_attempting 0 (ag_contact ex_moved))\<rparr>)"
    using ag_reregister [of 0 ex_moved _ 0 plain True] due by (simp add: supervised_jobs_def ex_moved_def new_agent_def)
  from reregisters_idle [OF _ this] due show ?thesis
    using run_cons [where stp = ?stp, OF 1 run_cons [where stp = ?stp, OF 2 run_nil]] by blast
qed

end
