(* ===== verification/Log_Sink.thy ===== *)
theory Log_Sink
  imports RC_Prelude
begin

text \<open>
  The batching of a job's output (\<open>logSink\<close> in \<open>src/internal/worker/worker.go\<close>). \<open>Write\<close> is called by
  the one goroutine that copies the job's output, so writes follow one another; a \<open>Flush\<close> runs on
  the writer, on the timer or at the end of the job, and \<open>sendMu\<close> lets one at a time take the
  buffer and send it. Taking the buffer is atomic under \<open>mu\<close>; the request in between is not.
\<close>

definition flush_size :: nat where
  "flush_size = 65536"

datatype flusher = ByWriter | ByTimer | AtEnd

text \<open>
  The buffer, whether the timer is set, the flush that holds \<open>sendMu\<close> with the chunk it took, the
  chunks handed to the network in order, and whether the writer waits for its own flush.
\<close>

record sink =
  sk_buf :: string
  sk_timer :: bool
  sk_sending :: "(flusher \<times> string) option"
  sk_sent :: "string list"
  sk_waiting :: bool

definition new_sink :: sink where
  "new_sink = \<lparr>sk_buf = [], sk_timer = False, sk_sending = None, sk_sent = [], sk_waiting = False\<rparr>"

definition sink_write :: "string \<Rightarrow> sink \<Rightarrow> sink" where
  "sink_write p s =
     (let buf = sk_buf s @ p
      in s\<lparr>sk_buf := buf, sk_timer := True, sk_waiting := (flush_size \<le> length buf)\<rparr>)"

text \<open>\<open>Flush\<close> up to the request; with an empty buffer it is over.\<close>

definition sink_take :: "flusher \<Rightarrow> sink \<Rightarrow> sink" where
  "sink_take who s =
     (if sk_buf s = [] then s\<lparr>sk_timer := False, sk_waiting := (if who = ByWriter then False else sk_waiting s)\<rparr>
      else s\<lparr>sk_timer := False, sk_buf := [], sk_sending := Some (who, sk_buf s)\<rparr>)"

definition sink_done :: "flusher \<Rightarrow> string \<Rightarrow> sink \<Rightarrow> sink" where
  "sink_done who chunk s =
     s\<lparr>sk_sending := None, sk_sent := sk_sent s @ [chunk], sk_waiting := (if who = ByWriter then False else sk_waiting s)\<rparr>"

datatype sink_label = SkWrite string | SkTake flusher | SkDone

inductive sink_step :: "sink \<Rightarrow> sink_label \<Rightarrow> sink \<Rightarrow> bool" where
  sk_write: "\<not> sk_waiting s \<Longrightarrow> sink_step s (SkWrite p) (sink_write p s)"
| sk_take: "sk_sending s = None \<Longrightarrow> (who = ByWriter \<Longrightarrow> sk_waiting s) \<Longrightarrow> sink_step s (SkTake who) (sink_take who s)"
| sk_done: "sk_sending s = Some (who, chunk) \<Longrightarrow> sink_step s SkDone (sink_done who chunk s)"

inductive_cases sink_stepE: "sink_step s l s'"

fun written :: "sink_label list \<Rightarrow> string" where
  "written [] = []"
| "written (SkWrite p # ls) = p @ written ls"
| "written (l # ls) = written ls"

lemma written_append [simp]: "written (ls @ ms) = written ls @ written ms"
  by (induction ls rule: written.induct) auto

definition in_hand :: "sink \<Rightarrow> string" where
  "in_hand s = concat (sk_sent s) @ (case sk_sending s of None \<Rightarrow> [] | Some (who, chunk) \<Rightarrow> chunk) @ sk_buf s"

lemma sink_step_order: "sink_step s l s' \<Longrightarrow> in_hand s' = in_hand s @ written [l]"
  by (erule sink_stepE) (auto simp: in_hand_def sink_write_def sink_take_def sink_done_def Let_def)

lemma sink_run_order: "run sink_step s ls s' \<Longrightarrow> in_hand s' = in_hand s @ written ls"
proof (induction rule: run.induct)
  case (run_cons s l s' ls s'')
  from sink_step_order [OF run_cons(1)] run_cons(3) show ?case by (cases l) auto
qed simp

text \<open>With writes of at most \<open>m\<close> bytes, the buffer and every chunk stay below the flush size and \<open>m\<close>.\<close>

definition sink_ok :: "nat \<Rightarrow> sink \<Rightarrow> bool" where
  "sink_ok m s \<longleftrightarrow>
     (\<not> sk_waiting s \<longrightarrow> length (sk_buf s) < flush_size)
     \<and> length (sk_buf s) < flush_size + m
     \<and> (\<forall>who chunk. sk_sending s = Some (who, chunk) \<longrightarrow> chunk \<noteq> [] \<and> length chunk < flush_size + m)
     \<and> (\<forall>chunk \<in> set (sk_sent s). chunk \<noteq> [] \<and> length chunk < flush_size + m)
     \<and> (\<forall>chunk. sk_sending s = Some (ByWriter, chunk) \<longrightarrow> sk_waiting s \<and> sk_buf s = [])"

lemma sink_ok_new: "sink_ok m new_sink"
  by (simp add: sink_ok_def new_sink_def flush_size_def)

lemma sink_ok_step:
  assumes "sink_step s l s'" and ok: "sink_ok m s" and "\<And>p. l = SkWrite p \<Longrightarrow> length p \<le> m"
  shows "sink_ok m s'"
  using assms(1)
proof (cases rule: sink_step.cases)
  case (sk_write p)
  with ok assms(3) [of p] show ?thesis by (auto simp: sink_ok_def sink_write_def Let_def)
next
  case (sk_take who)
  with ok show ?thesis by (auto simp: sink_ok_def sink_take_def flush_size_def)
next
  case (sk_done who chunk)
  with ok show ?thesis by (auto simp: sink_ok_def sink_done_def flush_size_def)
qed

lemma sink_ok_run:
  "run sink_step s ls s' \<Longrightarrow> sink_ok m s \<Longrightarrow> (\<forall>p. SkWrite p \<in> set ls \<longrightarrow> length p \<le> m) \<Longrightarrow> sink_ok m s'"
proof (induction rule: run.induct)
  case (run_cons s l s' ls s'')
  then have "sink_ok m s'" by (auto intro: sink_ok_step [OF run_cons(1)])
  with run_cons show ?case by simp
qed simp

text \<open>When the writer waits, its flush can always be carried through.\<close>

lemma writer_released:
  assumes "sk_waiting s" and "sk_sending s = None"
  shows "\<exists>ls s'. run sink_step s ls s' \<and> \<not> sk_waiting s' \<and> length ls \<le> 2"
proof (cases "sk_buf s = []")
  case True
  have "sink_step s (SkTake ByWriter) (sink_take ByWriter s)" using assms by (intro sk_take) auto
  from run_single [where stp = sink_step, OF this] True show ?thesis
    by (intro exI [of _ "[SkTake ByWriter]"] exI [of _ "sink_take ByWriter s"]) (simp add: sink_take_def)
next
  case False
  have 1: "sink_step s (SkTake ByWriter) (sink_take ByWriter s)" using assms by (intro sk_take) auto
  have 2: "sink_step (sink_take ByWriter s) SkDone (sink_done ByWriter (sk_buf s) (sink_take ByWriter s))"
    using False by (intro sk_done) (simp add: sink_take_def)
  show ?thesis
    by (intro exI [of _ "[SkTake ByWriter, SkDone]"] exI [of _ "sink_done ByWriter (sk_buf s) (sink_take ByWriter s)"] conjI
        run_cons [where stp = sink_step, OF 1] run_cons [where stp = sink_step, OF 2] run_nil)
       (simp_all add: sink_done_def)
qed

end
