(* ===== verification/Worker_Claims.thy ===== *)
theory Worker_Claims
  imports Log_Sink Reporting Reconnect Worker_Config Worker_API
begin

text \<open>
  The properties of the parts of the worker, and of what the controller makes of what they send:
  the verdict of a verify pass, the reason of a watchdog, the log chunks, the sheets, the debt of
  a registration, the configuration.
\<close>

section \<open>Reasons the controller reads\<close>

lemma watchdog_trip_reason:
  "watchdog_trip spec started ticks = Some why \<Longrightarrow> is_watchdog_reason why"
  by (induction spec started ticks rule: watchdog_trip.induct)
     (auto simp: watchdog_tick_def is_watchdog_reason_def watchdog_reasons_def split: option.splits if_splits)

lemma finish_reason_plain: "\<not> is_watchdog_reason (r_reason (finish_result st))"
  by (cases st) (simp_all add: zero_result_def failed_result_def is_watchdog_reason_def watchdog_reasons_def)

lemma finish_clean_reason_plain: "\<not> is_watchdog_reason (r_reason (fst (finish_clean st t)))"
  using finish_reason_plain [of st]
  by (auto simp: finish_clean_def reap_stragglers_def is_watchdog_reason_def watchdog_reasons_def)

lemma cancelled_reason_plain: "\<not> is_watchdog_reason (r_reason (fst (cancelled_result c t None)))"
  using finish_reason_plain
  by (auto simp: cancelled_result_def Let_def is_watchdog_reason_def watchdog_reasons_def split: prod.splits)

text \<open>
  The controller recognises a watchdog's kill. The reason a supervised run ends with carries one of
  the prefixes by which the controller announces a watchdog trip exactly when the watchdog ended
  it: no exit, signal, straggler or ordinary cancellation is taken for one.
\<close>
theorem watchdog_recognised:
  "is_watchdog_reason (r_reason (fst (run_supervised sw spec started sv)))
    \<longleftrightarrow> (\<exists>c t ticks. sv = Cancelled c t ticks \<and> first_answer (take spin_limit (cn_spins c)) = None
          \<and> watchdog spec started ticks \<noteq> None)"
proof (cases sv)
  case (Exited st t)
  then show ?thesis by (simp add: run_supervised_fields finish_clean_reason_plain)
next
  case (Cancelled c t ticks)
  show ?thesis
  proof (cases "watchdog spec started ticks")
    case None
    then show ?thesis
      by (simp add: Cancelled run_supervised_fields finish_clean_reason_plain cancelled_reason_plain split: option.splits)
  next
    case (Some why)
    then have "is_watchdog_reason why" by (auto simp: watchdog_def split: if_splits dest: watchdog_trip_reason)
    with Some show ?thesis
      by (auto simp: Cancelled run_supervised_fields finish_clean_reason_plain cancelled_result_trip split: option.splits)
  qed
qed

lemma fail_once_reason: "v_reason (fail_once why r) = (if v_ok r then why else v_reason r)"
  by (simp add: fail_once_def)

lemma verify_loop_reason:
  "(\<not> v_ok r \<longrightarrow> has_prefix verify_reason_prefix (v_reason r)) \<Longrightarrow>
     (\<not> v_ok (fst (verify_loop budget sys names r)) \<longrightarrow> has_prefix verify_reason_prefix (v_reason (fst (verify_loop budget sys names r))))"
proof (induction names arbitrary: r)
  case (Cons n ns)
  have budget: "has_prefix verify_reason_prefix (budget_exceeded_reason budget)"
    by (simp add: verify_reason_prefix_def budget_exceeded_reason_def verify_prefix_def)
  have script: "has_prefix verify_reason_prefix (failure_reason n (sys n))"
    by (simp add: verify_reason_prefix_def failure_reason_def verify_prefix_def Let_def)
  have stat: "has_prefix verify_reason_prefix (verify_prefix @ x)" for x
    by (simp add: verify_reason_prefix_def verify_prefix_def)
  have once: "\<not> v_ok (fail_once why r) \<longrightarrow> has_prefix verify_reason_prefix (v_reason (fail_once why r))"
    if "has_prefix verify_reason_prefix why" for why
    using that Cons.prems by (simp add: fail_once_reason)
  show ?case
    using Cons.IH [OF Cons.prems] Cons.IH [OF once [OF stat]] Cons.IH [OF once [OF script]] once [OF budget]
    by (auto simp: Let_def case_prod_beta split: sum.splits)
qed simp

lemma files_fine:
  "list_all (\<lambda>(n, is_dir). is_dir \<or> P n) entries \<longleftrightarrow> (\<forall>n. (n, False) \<in> set entries \<longrightarrow> P n)"
  by (induction entries) auto

text \<open>
  The verdict of a verify pass. A pass succeeds exactly when there is no verify directory, or
  every file in it was reached within the budget, could be examined, and is either not
  executable or exited with status 0 by itself; and when it fails, the controller announces the
  fault as a failed verification.
\<close>
theorem verify_verdict:
  "(v_ok (fst (run_verify budget dir sys)) \<longleftrightarrow>
      dir = DirMissing \<or> (\<exists>entries. dir = DirEntries entries \<and> list_all (\<lambda>(n, is_dir). is_dir \<or> script_fine (sys n)) entries))
    \<and> (v_ok (fst (run_verify budget dir sys)) \<or> has_prefix verify_reason_prefix (v_reason (fst (run_verify budget dir sys))))"
proof
  show "v_ok (fst (run_verify budget dir sys)) \<or> has_prefix verify_reason_prefix (v_reason (fst (run_verify budget dir sys)))"
  proof (cases dir)
    case (DirEntries entries)
    with verify_loop_reason [of verify_passed budget sys "script_names entries"] show ?thesis
      by (auto simp: run_verify_def verify_passed_def)
  qed (simp_all add: run_verify_def verify_passed_def verify_reason_prefix_def verify_prefix_def)
qed (simp add: run_verify_ok files_fine)

section \<open>A job's log\<close>

definition append_all :: "string \<Rightarrow> string list \<Rightarrow> server \<Rightarrow> server" where
  "append_all job chunks sv = fold (\<lambda>c sv. fst (handle_append_logs job c sv)) chunks sv"

lemma append_all_log:
  assumes "safe_id job" and "\<forall>c \<in> set chunks. length c \<le> max_log_chunk" and "log_read job (sv_logs sv) = Some old"
  shows "log_read job (sv_logs (append_all job chunks sv)) = Some (old @ concat chunks)"
  using assms(2,3)
proof (induction chunks arbitrary: sv old)
  case (Cons c cs)
  have "log_read job (sv_logs (fst (handle_append_logs job c sv))) = Some (old @ c)"
    using Cons.prems assms(1)
    by (auto simp: handle_append_logs_def log_append_def log_path_def log_read_def log_content_def split: option.splits)
  from Cons.IH [OF _ this] Cons.prems(1) show ?case by (simp add: append_all_def)
qed (simp add: append_all_def)

lemma append_chunk_accepted:
  "safe_id job \<Longrightarrow> length c \<le> max_log_chunk \<Longrightarrow> snd (handle_append_logs job c sv) = Reply 200 ()"
  by (simp add: handle_append_logs_def log_append_def log_path_def)

text \<open>
  C27. A job's output reaches its log whole and in order. However the flushes on size, on the timer and
  at the end interleave with the writes, once the sink is empty the chunks it sent, appended by
  the controller in that order, are exactly what was written; every chunk is small enough for
  the controller to accept, when no write exceeds the 32 KiB of the copying buffer.
\<close>
theorem log_sink_complete:
  assumes "run sink_step new_sink ls s" and "sk_buf s = []" and "sk_sending s = None"
    and "list_all (\<lambda>l. case l of SkWrite p \<Rightarrow> length p \<le> 32768 | _ \<Rightarrow> True) ls"
    and "safe_id job" and "log_read job (sv_logs sv) = Some old"
  shows "log_read job (sv_logs (append_all job (sk_sent s) sv)) = Some (old @ written ls)
    \<and> list_all (\<lambda>c. snd (handle_append_logs job c sv) = Reply 200 ()) (sk_sent s)"
proof -
  have "sink_ok 32768 s"
    by (rule sink_ok_run [OF assms(1) sink_ok_new]) (use assms(4) in \<open>auto simp: list_all_iff\<close>)
  then have small: "length c \<le> max_log_chunk" if "c \<in> set (sk_sent s)" for c
    using that by (force simp: sink_ok_def flush_size_def)
  have "concat (sk_sent s) = written ls"
    using sink_run_order [OF assms(1)] assms(2,3) by (simp add: in_hand_def new_sink_def)
  with append_all_log [OF assms(5) _ assms(6), of "sk_sent s"] append_chunk_accepted [OF assms(5)] small
  show ?thesis by (simp add: list_all_iff)
qed

theorem log_sink_complete_witness:
  "\<exists>(sv :: server) (s :: sink). log_read ''j'' (sv_logs (append_all ''j'' (sk_sent s) sv)) = Some ''ab'' \<and> sk_sent s = [''ab'']"
proof -
  define s1 where "s1 = sink_write ''a'' new_sink"
  define s2 where "s2 = sink_write ''b'' s1"
  define s3 where "s3 = sink_take AtEnd s2"
  define s4 where "s4 = sink_done AtEnd ''ab'' s3"
  note defs = s1_def s2_def s3_def s4_def sink_write_def sink_take_def sink_done_def new_sink_def flush_size_def
  have "sink_step new_sink (SkWrite ''a'') s1" unfolding s1_def by (rule sk_write) (simp add: new_sink_def)
  moreover have "sink_step s1 (SkWrite ''b'') s2" unfolding s2_def by (rule sk_write) (simp add: defs)
  moreover have "sink_step s2 (SkTake AtEnd) s3" unfolding s3_def by (rule sk_take) (simp_all add: defs)
  moreover have "sink_step s3 SkDone s4" unfolding s4_def by (rule sk_done) (simp add: defs)
  ultimately have r: "run sink_step new_sink [SkWrite ''a'', SkWrite ''b'', SkTake AtEnd, SkDone] s4"
    by (simp add: run_Cons_iff run_Nil_iff) blast
  let ?sv = "\<lparr>sv_db = empty_db, sv_logs = \<lparr>ls_files = Map.empty, ls_listeners = Map.empty\<rparr>, sv_notifier = None,
      sv_events = new_broadcaster, sv_waiters = Map.empty\<rparr>"
  have "safe_id ''j''" by (simp add: safe_id_def safe_char_def less_eq_char_def)
  then have "log_read ''j'' (sv_logs ?sv) = Some []" by (simp add: log_read_def log_path_def)
  from log_sink_complete [OF r _ _ _ \<open>safe_id ''j''\<close> this]
  have "log_read ''j'' (sv_logs (append_all ''j'' (sk_sent s4) ?sv)) = Some ''ab''" by (simp add: defs)
  moreover have "sk_sent s4 = [''ab'']" by (simp add: defs)
  ultimately show ?thesis by blast
qed

section \<open>Contact, sheets, configuration\<close>

text \<open>
  A lost contact is paid for. When an exchange shows that contact was lost for five minutes,
  or that another controller answers, the worker owes a registration: it falls due within thirty
  seconds at a fixed time, and no later exchange moves or cancels it; only an attempt does.
\<close>
lemma reregister_owed:
  assumes "must_reregister now inst t" and "ct_due t = None" and "jitter_draw j1" and "jitter_draw j2"
  shows "\<exists>d. now \<le> d \<and> d < now + reregister_jitter
    \<and> (\<forall>xs later. contact_due later (observe_all xs (contact_observe j1 j2 now inst t)) = (d \<le> later))"
proof -
  have "\<exists>d. now \<le> d \<and> d < now + reregister_jitter \<and> ct_due (contact_observe j1 j2 now inst t) = Some d"
    using assms by (auto simp: contact_observe_due jitter_draw_def)
  with observe_all_keeps_debt show ?thesis by (fastforce simp: contact_due_def)
qed

lemma reregister_owed_witness:
  "\<exists>d. d < 30 * go_second \<and> (\<forall>xs later. contact_due later (observe_all xs
      (contact_observe 0 5 0 ''b'' \<lparr>ct_last = Some 0, ct_instance = ''a'', ct_due = None\<rparr>)) = (d \<le> later))"
proof -
  have "must_reregister 0 ''b'' \<lparr>ct_last = Some 0, ct_instance = ''a'', ct_due = None\<rparr>" by (simp add: must_reregister_def)
  moreover have "jitter_draw 0" "jitter_draw 5" by (simp_all add: jitter_draw_def reregister_jitter_def)
  ultimately show ?thesis using reregister_owed [of 0 "''b''" "\<lparr>ct_last = Some 0, ct_instance = ''a'', ct_due = None\<rparr>" 0 5]
    by (fastforce simp: reregister_jitter_def)
qed

text \<open>The entries of the sheets of a payload.\<close>

definition sheet_entries :: "(string \<rightharpoonup> string) \<Rightarrow> string list \<Rightarrow> string entries" where
  "sheet_entries m names = concat (map (\<lambda>n. case m n of None \<Rightarrow> [] | Some body \<Rightarrow> [(n, body)]) names)"

lemma small_device_sheets:
  "\<forall>(n, body) \<in> set es. length body \<le> max_sheet_bytes \<Longrightarrow> oversized_device_sheet es = ''''"
  by (induction es) auto

lemma read_sheet_small: "read_sheet_file f = Inr body \<Longrightarrow> length body \<le> max_sheet_bytes"
  using truncate_sheet_length by (auto simp: read_sheet_file_def max_sheet_def split: file_read.splits)

text \<open>
  No sheet of a payload is over the controller's cap before it is sent (what JSON makes of it is in
  \<open>Enrolment_Claims\<close>); and a sheet that was cut is the file up to the start of a character, and the marker.
\<close>
lemma sheets_accepted:
  "oversized_sheet (fst (sheet_payload host devs ds)) (sheet_entries (snd (sheet_payload host devs ds)) names) = ''''
    \<and> (truncate_sheet body = body
       \<or> (\<exists>k. truncate_sheet body = take k body @ sheet_marker \<and> (k = 0 \<or> rune_start (body ! k))))"
proof
  have "oversized_device_sheet (sheet_entries (snd (sheet_payload host devs ds)) names) = ''''"
    by (rule small_device_sheets)
       (auto simp: sheet_entries_def sheet_payload_def split: option.splits if_splits sum.splits dest: read_sheet_small)
  then show "oversized_sheet (fst (sheet_payload host devs ds)) (sheet_entries (snd (sheet_payload host devs ds)) names) = ''''"
    by (auto simp: oversized_sheet_def sheet_payload_def split: option.splits sum.splits dest: read_sheet_small)
  show "truncate_sheet body = body
       \<or> (\<exists>k. truncate_sheet body = take k body @ sheet_marker \<and> (k = 0 \<or> rune_start (body ! k)))"
    using back_to_rune_start [of body "max_sheet - length sheet_marker"] by (auto simp: truncate_sheet_def)
qed

lemma check_device_defaults: "check_device (device_defaults t l d) = check_device d"
  by (simp add: check_device_def device_defaults_def)

lemma load_config_Inr:
  assumes "load_config file token manual hostname = Inr c"
  shows "\<exists>b. c = with_defaults b \<and> wc_controller_url b \<noteq> '''' \<and> wc_devices b \<noteq> [] \<and> check_devices (wc_devices b) = None
    \<and> (env_requires_manual_clear manual \<longrightarrow> wc_manual_clear b) \<and> (wc_manual_clear file \<longrightarrow> wc_manual_clear b)"
  using assms by (auto simp: load_config_def Let_def split: option.splits if_splits)

text \<open>
  A configuration that loads is complete. Every interval, timeout and budget of it is positive,
  filling in the defaults again changes nothing, no device is unnamed or has a ceiling that
  would be sent as none, every device with a hook has a time limit for it, and manual clearing is
  required when the file or the environment says so, an unreadable value of it included.
\<close>
lemma loaded_config_complete:
  assumes "load_config file token manual hostname = Inr c"
  shows "with_defaults c = c \<and> wc_controller_url c \<noteq> '''' \<and> wc_devices c \<noteq> []
    \<and> 0 < wc_heartbeat_interval c \<and> 0 < wc_poll_wait c \<and> 0 < wc_probe_interval c \<and> 0 < wc_probe_timeout c
    \<and> 0 < wc_verify_timeout c \<and> 0 < wc_verify_budget c
    \<and> (\<forall>d \<in> set (wc_devices c). dc_name d \<noteq> '''' \<and> \<not> (0 < dc_max_runtime d \<and> dc_max_runtime d < go_second))
    \<and> (\<forall>dev. hook_configured (resolve_hooks c dev) \<longrightarrow> 0 < hk_timeout (resolve_hooks c dev) \<and> 0 < hk_linger (resolve_hooks c dev))
    \<and> (wc_manual_clear file \<or> env_requires_manual_clear manual \<longrightarrow> wc_manual_clear c)"
proof -
  from load_config_Inr [OF assms] obtain b where c: "c = with_defaults b" and b: "wc_controller_url b \<noteq> ''''" "wc_devices b \<noteq> []"
    "check_devices (wc_devices b) = None" "wc_manual_clear file \<or> env_requires_manual_clear manual \<longrightarrow> wc_manual_clear b" by blast
  have dev: "dc_name d \<noteq> '''' \<and> \<not> (0 < dc_max_runtime d \<and> dc_max_runtime d < go_second)" if "d \<in> set (wc_devices c)" for d
  proof -
    have "check_device d = None"
      using that b(3) unfolding c by (auto simp: with_defaults_def Let_def check_devices_None check_device_defaults)
    then show ?thesis by (auto simp: check_device_def split: if_splits)
  qed
  have same: "wc_controller_url c = wc_controller_url b" "wc_manual_clear c = wc_manual_clear b" "(wc_devices c = []) = (wc_devices b = [])"
    by (simp_all add: c with_defaults_def Let_def)
  show ?thesis
    using b(1,2,4) dev same resolve_hooks_timeout [of c] with_defaults_bounds(1-6) [of b] with_defaults_idem [of b] by (simp add: c)
qed

definition ex_file :: worker_config where
  "ex_file = \<lparr>wc_controller_url = ''u'', wc_token = '''', wc_host = ''h'',
     wc_devices = [\<lparr>dc_name = ''g'', dc_max_runtime = 0, dc_on_acquire = ''stop'', dc_on_release = '''',
       dc_hook_timeout = 0, dc_release_linger = 0, dc_labels = Map.empty\<rparr>],
     wc_heartbeat_interval = 0, wc_poll_wait = 0, wc_hook_timeout = 0, wc_release_linger = 0,
     wc_probe_dir = '''', wc_probe_interval = 0, wc_probe_timeout = 0, wc_verify_dir = '''', wc_verify_timeout = 0,
     wc_verify_budget = 0, wc_sheet_dir = '''', wc_manual_clear = False\<rparr>"

lemma loaded_config_complete_witness:
  "\<exists>c. load_config ex_file ''t'' ''yes'' None = Inr c \<and> wc_manual_clear c \<and> 0 < wc_verify_budget c"
proof -
  have "trim_space ''stop'' = ''stop''" "trim_space ''yes'' = ''yes''" by code_simp+
  then have manual: "env_requires_manual_clear ''yes''" and "check_devices (wc_devices ex_file) = None"
    by (simp_all add: env_requires_manual_clear_def parse_bool_def ex_file_def check_device_def)
  then have "\<exists>c. load_config ex_file ''t'' ''yes'' None = Inr c"
    by (simp add: load_config_def Let_def) (simp add: ex_file_def)
  then obtain c where c: "load_config ex_file ''t'' ''yes'' None = Inr c" by blast
  from loaded_config_complete [OF c] manual c show ?thesis by blast
qed

end
