(* ===== verification/Probe.thy ===== *)
theory Probe
  imports Verify "HOL-Library.AList"
begin

text \<open>
  What a worker finds out about its devices (\<open>src/internal/worker/probe.go\<close>, and \<open>labelsPayload\<close>,
  \<open>declaredLabelsPayload\<close> in \<open>worker.go\<close>): one pass over the built-in facts, \<open>nvidia-smi\<close> and the
  drop-in probes, which devices it could not confirm, and what is sent of it. A Go map of facts
  is the list of its entries; runs of programs, files and the JSON decoder are answers of the
  system. What only decides whether a line is logged is left out.
\<close>

type_synonym facts = "(string \<times> string) list"

section \<open>Parsing what the sources say\<close>

text \<open>A decoded JSON value: a number keeps its text, an object or an array is \<open>JNested\<close>.\<close>

datatype json_value = JString string | JNumber string | JBool bool | JNull | JNested

fun scalar_text :: "json_value \<Rightarrow> string option" where
  "scalar_text (JString t) = Some t"
| "scalar_text (JNumber t) = Some t"
| "scalar_text (JBool b) = Some (if b then ''true'' else ''false'')"
| "scalar_text JNull = None"
| "scalar_text JNested = None"

text \<open>The decoder's answer: an error, or the entries of the object and whether data follows it.\<close>

type_synonym json_decoder = "string \<Rightarrow> string + (string \<times> json_value) list \<times> bool"

definition parse_probe_output :: "json_decoder \<Rightarrow> string \<Rightarrow> string + facts" where
  "parse_probe_output decode data =
     (case decode data of
        Inl e \<Rightarrow> Inl (''parse output: '' @ e)
      | Inr (raw, trailing) \<Rightarrow>
          if trailing then Inl ''parse output: trailing data after the JSON object''
          else Inr (concat (map (\<lambda>(k, v). case scalar_text v of Some t \<Rightarrow> [(k, t)] | None \<Rightarrow> []) raw)))"

definition stderr_note :: "bounded_buffer \<Rightarrow> string" where
  "stderr_note b =
     (let s = trim_space (bb_buf b)
      in if s = '''' then ''''
         else
           (let s1 = (if 200 < length s then take 200 s @ ''...(truncated)'' else s)
            in ''; stderr: '' @ (if bb_truncated b then s1 @ '' (stderr itself was truncated)'' else s1)))"

text \<open>\<open>runProbe\<close> after the run: its result and the captured streams.\<close>

definition run_probe :: "json_decoder \<Rightarrow> exec_result \<Rightarrow> bounded_buffer \<Rightarrow> bounded_buffer \<Rightarrow> string + facts" where
  "run_probe decode res out err =
     (case r_err res of
        Some e \<Rightarrow> Inl (''run: '' @ e)
      | None \<Rightarrow>
          if r_killed res then Inl (''killed: '' @ (if r_reason res = '''' then ''killed'' else r_reason res) @ stderr_note err)
          else if r_exit res \<noteq> 0 then Inl (''exited '' @ itoa (r_exit res) @ stderr_note err)
          else if bb_truncated out then Inl (''stdout exceeded '' @ itoa (int max_probe_output) @ '' bytes; probe misbehaving'')
          else parse_probe_output decode (bb_buf out))"

text \<open>\<open>nvidiaLabels\<close>: the program is missing, or was run. The result says whether it was found and
  whether it was found broken.\<close>

datatype smi_answer = SmiMissing | SmiRun exec_result bounded_buffer

definition smi_prefix :: string where
  "smi_prefix = ''gpu''"

definition smi_line :: "nat \<Rightarrow> string \<Rightarrow> facts" where
  "smi_line i raw =
     (let line = trim_space raw; fields = map trim_space (split_on (CHR '','') line)
      in if line = '''' \<or> length fields \<noteq> 4 then []
         else
           (let p = smi_prefix @ itoa (int i)
            in [(p @ ''.vendor'', ''nvidia''), (p @ ''.model'', fields ! 0), (p @ ''.vram'', fields ! 1 @ ''M''),
                (p @ ''.vram_free'', fields ! 2 @ ''M''), (p @ ''.driver'', fields ! 3)]))"

definition nvidia_labels :: "smi_answer \<Rightarrow> facts \<times> bool \<times> bool" where
  "nvidia_labels a =
     (case a of
        SmiMissing \<Rightarrow> ([], False, False)
      | SmiRun res out \<Rightarrow>
          if r_err res \<noteq> None \<or> r_killed res \<or> r_exit res \<noteq> 0 \<or> bb_truncated out then ([], True, True)
          else (concat (map (\<lambda>(i, l). smi_line i l) (List.enumerate 0 (split_on (CHR 0x0A) (trim_space (bb_buf out))))), True, False))"

definition nvidia_scoped :: "string list \<Rightarrow> string list" where
  "nvidia_scoped names =
     filter (\<lambda>n. has_prefix smi_prefix n \<and> drop (length smi_prefix) n \<noteq> [] \<and> list_all is_digit (drop (length smi_prefix) n)) names"

section \<open>Where a key belongs\<close>

datatype key_kind = KeyHost | KeyDevice string string | KeyInvalid

definition classify_key :: "string list \<Rightarrow> string \<Rightarrow> key_kind" where
  "classify_key names key =
     (if key = '''' then KeyInvalid
      else if CHR ''.'' \<notin> set key then KeyHost
      else
        (let dev = takeWhile (\<lambda>c. c \<noteq> CHR ''.'') key; label = tl (dropWhile (\<lambda>c. c \<noteq> CHR ''.'') key)
         in if dev = '''' \<or> label = '''' then KeyInvalid
            else if dev \<in> set names then KeyDevice dev label
            else KeyInvalid))"

record probe_result =
  pb_host :: facts
  pb_device :: "(string \<times> facts) list"
  pb_unconfirmed :: "string set"

definition device_facts_of :: "string \<Rightarrow> probe_result \<Rightarrow> facts" where
  "device_facts_of d res = (case map_of (pb_device res) d of None \<Rightarrow> [] | Some m \<Rightarrow> m)"

fun merge_probe_facts :: "string list \<Rightarrow> facts \<Rightarrow> probe_result \<Rightarrow> probe_result \<times> string set" where
  "merge_probe_facts names [] res = (res, {})"
| "merge_probe_facts names ((k, v) # facts) res =
     (case classify_key names k of
        KeyHost \<Rightarrow> merge_probe_facts names facts (res\<lparr>pb_host := AList.update k v (pb_host res)\<rparr>)
      | KeyDevice dev label \<Rightarrow>
          (let (res', named) = merge_probe_facts names facts
                 (res\<lparr>pb_device := AList.update dev (AList.update label v (device_facts_of dev res)) (pb_device res)\<rparr>)
           in (res', insert dev named))
      | KeyInvalid \<Rightarrow> merge_probe_facts names facts res)"

section \<open>One pass\<close>

text \<open>
  What a worker keeps between passes: which devices each source named when it last succeeded,
  and whether the first pass saw \<open>nvidia-smi\<close>.
\<close>

record probe_memory =
  pm_sources :: "(string \<times> string set) list"
  pm_checked :: bool
  pm_seen :: bool

definition new_probe_memory :: probe_memory where
  "new_probe_memory = \<lparr>pm_sources = [], pm_checked = False, pm_seen = False\<rparr>"

definition scope_of :: "probe_memory \<Rightarrow> string \<Rightarrow> string set" where
  "scope_of mem source = (case map_of (pm_sources mem) source of None \<Rightarrow> {} | Some ds \<Rightarrow> ds)"

text \<open>The state of a pass: the result so far and the memory it rebuilds.\<close>

type_synonym pass = "probe_result \<times> (string \<times> string set) list"

definition merge_source :: "string list \<Rightarrow> string \<Rightarrow> facts \<Rightarrow> pass \<Rightarrow> pass" where
  "merge_source names source facts p =
     (let (res, named) = merge_probe_facts names facts (fst p) in (res, AList.update source named (snd p)))"

definition unconfirm :: "string \<Rightarrow> string set \<Rightarrow> pass \<Rightarrow> pass" where
  "unconfirm source ds p =
     ((fst p)\<lparr>pb_unconfirmed := pb_unconfirmed (fst p) \<union> ds\<rparr>, AList.update source ds (snd p))"

definition drop_in_failed :: "probe_memory \<Rightarrow> string \<Rightarrow> pass \<Rightarrow> pass" where
  "drop_in_failed mem path p = unconfirm path (scope_of mem path) p"

text \<open>What the system answers about one drop-in: whether the budget is used up before it, its mode
  or the error of looking, and what running it gives.\<close>

record probe_script =
  ps_late :: bool
  ps_stat :: "string + 32 word"
  ps_facts :: "string + facts"

fun probe_loop :: "string list \<Rightarrow> (string \<Rightarrow> string) \<Rightarrow> probe_memory \<Rightarrow> (string \<Rightarrow> probe_script) \<Rightarrow> string list \<Rightarrow> pass \<Rightarrow> pass" where
  "probe_loop names path mem sys [] p = p"
| "probe_loop names path mem sys (n # ns) p =
     (let s = sys n
      in if ps_late s then fold (\<lambda>m. drop_in_failed mem (path m)) (n # ns) p
         else
           (case ps_stat s of
              Inl e \<Rightarrow> probe_loop names path mem sys ns (drop_in_failed mem (path n) p)
            | Inr mode \<Rightarrow>
                if \<not> executable_mode mode then probe_loop names path mem sys ns p
                else
                  (case ps_facts s of
                     Inl e \<Rightarrow> probe_loop names path mem sys ns (drop_in_failed mem (path n) p)
                   | Inr facts \<Rightarrow> probe_loop names path mem sys ns (merge_source names (path n) facts p))))"

record probe_env =
  pe_builtin :: facts
  pe_smi :: smi_answer
  pe_dir :: dir_read
  pe_script :: "string \<Rightarrow> probe_script"

definition builtin_source :: string where
  "builtin_source = ''builtin''"

definition nvidia_source :: string where
  "nvidia_source = ''nvidia-smi''"

text \<open>The built-in part of the pass.\<close>

definition gather_builtin :: "string list \<Rightarrow> probe_env \<Rightarrow> probe_memory \<Rightarrow> pass \<times> bool" where
  "gather_builtin names env mem =
     (let p0 = (\<lparr>pb_host = [], pb_device = map (\<lambda>d. (d, [])) (remdups names), pb_unconfirmed = {}\<rparr>, []);
          p1 = merge_source names builtin_source (pe_builtin env) p0;
          (facts, found, broken) = nvidia_labels (pe_smi env);
          p2 = (if found \<and> \<not> broken then merge_source names nvidia_source facts p1 else p1);
          seen = (if pm_checked mem then pm_seen mem else found);
          scope = (if scope_of mem nvidia_source = {} then set (nvidia_scoped names) else scope_of mem nvidia_source)
      in (if broken \<or> (\<not> found \<and> seen) then unconfirm nvidia_source scope p2 else p2, seen))"

definition gather_labels :: "string list \<Rightarrow> (string \<Rightarrow> string) \<Rightarrow> probe_env \<Rightarrow> probe_memory \<Rightarrow> probe_result \<times> probe_memory" where
  "gather_labels names path env mem =
     (let (p, seen) = gather_builtin names env mem;
          q = (case pe_dir env of
                 DirMissing \<Rightarrow> p
               | DirError e \<Rightarrow> fold (drop_in_failed mem) (filter (\<lambda>s. s \<notin> set (map fst (snd p))) (map fst (pm_sources mem))) p
               | DirEntries entries \<Rightarrow> probe_loop names path mem (pe_script env) (script_names entries) p)
      in (fst q, \<lparr>pm_sources = snd q, pm_checked = True, pm_seen = seen\<rparr>))"

section \<open>What is sent\<close>

definition labels_payload :: "probe_result \<Rightarrow> (string \<times> facts) list option" where
  "labels_payload res =
     (if pb_host res = [] \<and> list_all (\<lambda>(d, m). m = []) (pb_device res) then None
      else Some ((if pb_host res = [] then [] else [('''', pb_host res)])
             @ filter (\<lambda>(d, m). m \<noteq> [] \<or> d \<notin> pb_unconfirmed res) (pb_device res)))"

definition declared_labels_payload :: "(string \<times> facts) list \<Rightarrow> (string \<times> facts) list" where
  "declared_labels_payload devices = fold (\<lambda>(d, m). AList.update d m) devices []"

section \<open>Which devices a pass leaves unconfirmed\<close>

text \<open>The drop-ins of a pass that failed: those the budget cut off, that could not be examined, or whose
  run gave no facts.\<close>

fun failed_scripts :: "(string \<Rightarrow> probe_script) \<Rightarrow> string list \<Rightarrow> string list" where
  "failed_scripts sys [] = []"
| "failed_scripts sys (n # ns) =
     (if ps_late (sys n) then n # ns
      else
        (case ps_stat (sys n) of
           Inl e \<Rightarrow> n # failed_scripts sys ns
         | Inr mode \<Rightarrow>
             if executable_mode mode \<and> (\<exists>e. ps_facts (sys n) = Inl e) then n # failed_scripts sys ns
             else failed_scripts sys ns))"

definition smi_failed :: "probe_env \<Rightarrow> probe_memory \<Rightarrow> bool" where
  "smi_failed env mem \<longleftrightarrow>
     (let (facts, found, broken) = nvidia_labels (pe_smi env) in broken \<or> (\<not> found \<and> pm_checked mem \<and> pm_seen mem))"

definition smi_scope :: "string list \<Rightarrow> probe_memory \<Rightarrow> string set" where
  "smi_scope names mem = (if scope_of mem nvidia_source = {} then set (nvidia_scoped names) else scope_of mem nvidia_source)"

text \<open>The sources the built-in part of a pass has dealt with.\<close>

definition builtin_sources :: "probe_env \<Rightarrow> probe_memory \<Rightarrow> string set" where
  "builtin_sources env mem =
     (let (facts, found, broken) = nvidia_labels (pe_smi env)
      in insert builtin_source (if (found \<and> \<not> broken) \<or> smi_failed env mem then {nvidia_source} else {}))"

definition failed_sources :: "(string \<Rightarrow> string) \<Rightarrow> probe_env \<Rightarrow> probe_memory \<Rightarrow> string set" where
  "failed_sources path env mem =
     (case pe_dir env of
        DirMissing \<Rightarrow> {}
      | DirError e \<Rightarrow> set (map fst (pm_sources mem)) - builtin_sources env mem
      | DirEntries entries \<Rightarrow> path ` set (failed_scripts (pe_script env) (script_names entries)))"

lemma merge_probe_facts_unconfirmed [simp]:
  "pb_unconfirmed (fst (merge_probe_facts names facts res)) = pb_unconfirmed res"
  by (induction names facts res rule: merge_probe_facts.induct) (auto split: key_kind.splits simp: Let_def case_prod_beta)

lemma merge_source_frame [simp]:
  "pb_unconfirmed (fst (merge_source names source facts p)) = pb_unconfirmed (fst p)"
  "map_of (snd (merge_source names source facts p)) s =
     (if s = source then Some (snd (merge_probe_facts names facts (fst p))) else map_of (snd p) s)"
  by (simp_all add: merge_source_def case_prod_beta update_conv')

lemma unconfirm_frame [simp]:
  "pb_unconfirmed (fst (unconfirm source ds p)) = pb_unconfirmed (fst p) \<union> ds"
  "map_of (snd (unconfirm source ds p)) s = (if s = source then Some ds else map_of (snd p) s)"
  by (simp_all add: unconfirm_def update_conv')

lemma fold_drop_in_failed:
  "pb_unconfirmed (fst (fold (\<lambda>m. drop_in_failed mem (f m)) ms p)) = pb_unconfirmed (fst p) \<union> (\<Union>m \<in> set ms. scope_of mem (f m))"
  "map_of (snd (fold (\<lambda>m. drop_in_failed mem (f m)) ms p)) s = (if s \<in> f ` set ms then Some (scope_of mem s) else map_of (snd p) s)"
  by (induction ms arbitrary: p) (auto simp: drop_in_failed_def)

lemma probe_loop_unconfirmed:
  "pb_unconfirmed (fst (probe_loop names path mem sys ns p))
     = pb_unconfirmed (fst p) \<union> (\<Union>n \<in> set (failed_scripts sys ns). scope_of mem (path n))"
proof (induction names path mem sys ns p rule: probe_loop.induct)
  case (2 names path mem sys n ns p)
  show ?case
  proof (cases "ps_late (sys n)")
    case True
    have "probe_loop names path mem sys (n # ns) p = fold (\<lambda>m. drop_in_failed mem (path m)) (n # ns) p"
      using True by (simp add: Let_def)
    then show ?thesis using True by (simp only: fold_drop_in_failed failed_scripts.simps if_True)
  next
    case False
    with 2 show ?thesis by (auto simp: Let_def drop_in_failed_def split: sum.splits)
  qed
qed simp

lemma probe_loop_other:
  "s \<notin> path ` set ns \<Longrightarrow> map_of (snd (probe_loop names path mem sys ns p)) s = map_of (snd p) s"
proof (induction names path mem sys ns p rule: probe_loop.induct)
  case (2 names path mem sys n ns p)
  show ?case
  proof (cases "ps_late (sys n)")
    case True
    have "probe_loop names path mem sys (n # ns) p = fold (\<lambda>m. drop_in_failed mem (path m)) (n # ns) p"
      using True by (simp add: Let_def)
    then show ?thesis using 2(5) by (simp only: fold_drop_in_failed if_False)
  next
    case False
    with 2 show ?thesis by (auto simp: Let_def drop_in_failed_def split: sum.splits)
  qed
qed simp

lemma failed_scripts_subset: "set (failed_scripts sys ns) \<subseteq> set ns"
  by (induction ns) (auto split: sum.splits)

lemma probe_loop_remembers:
  assumes "inj_on path (set ns)" and "distinct ns" and "n \<in> set (failed_scripts sys ns)"
  shows "map_of (snd (probe_loop names path mem sys ns p)) (path n) = Some (scope_of mem (path n))"
  using assms
proof (induction names path mem sys ns p rule: probe_loop.induct)
  case (2 names path mem sys m ns p)
  show ?case
  proof (cases "ps_late (sys m)")
    case True
    have "probe_loop names path mem sys (m # ns) p = fold (\<lambda>m. drop_in_failed mem (path m)) (m # ns) p"
      using True by (simp add: Let_def)
    then show ?thesis using True 2(7) by (auto simp only: fold_drop_in_failed failed_scripts.simps if_True image_eqI)
  next
    case late: False
    show ?thesis
    proof (cases "n = m")
      case True
      with 2(5,6) have "path n \<notin> path ` set ns" by (auto simp: inj_on_def)
      note other = probe_loop_other [OF this [unfolded True]]
      have nn: "n \<notin> set (failed_scripts sys ns)" using 2(6) True failed_scripts_subset by fastforce
      from late True 2(7) nn show ?thesis
        by (auto simp: Let_def other drop_in_failed_def split: sum.splits if_splits)
    next
      case False
      with 2 late show ?thesis by (auto simp: Let_def split: sum.splits if_splits)
    qed
  qed
qed simp

section \<open>A whole pass\<close>

lemma gather_builtin_unconfirmed:
  "pb_unconfirmed (fst (fst (gather_builtin names env mem))) = (if smi_failed env mem then smi_scope names mem else {})"
  by (auto simp: gather_builtin_def smi_failed_def smi_scope_def Let_def split: prod.splits)

lemma gather_builtin_sources:
  "set (map fst (snd (fst (gather_builtin names env mem)))) = builtin_sources env mem"
proof -
  have "map_of (snd (fst (gather_builtin names env mem))) s \<noteq> None \<longleftrightarrow> s \<in> builtin_sources env mem" for s
    by (auto simp: gather_builtin_def builtin_sources_def smi_failed_def Let_def split: prod.splits if_splits simp del: not_None_eq)
  then show ?thesis by (fastforce simp: map_of_eq_None_iff)
qed

lemma gather_unconfirmed:
  "pb_unconfirmed (fst (gather_labels names path env mem))
     = (if smi_failed env mem then smi_scope names mem else {}) \<union> (\<Union>s \<in> failed_sources path env mem. scope_of mem s)"
proof (cases "pe_dir env")
  case (DirError e)
  let ?p = "fst (gather_builtin names env mem)"
  have "pb_unconfirmed (fst (gather_labels names path env mem))
      = pb_unconfirmed (fst ?p) \<union> (\<Union>s \<in> set (filter (\<lambda>s. s \<notin> set (map fst (snd ?p))) (map fst (pm_sources mem))). scope_of mem s)"
    using fold_drop_in_failed(1) [of mem "\<lambda>s. s"] by (simp add: gather_labels_def DirError case_prod_beta Let_def)
  moreover have "set (filter (\<lambda>s. s \<notin> set (map fst (snd ?p))) (map fst (pm_sources mem))) = failed_sources path env mem"
    unfolding gather_builtin_sources by (auto simp: failed_sources_def DirError)
  ultimately show ?thesis by (simp only: gather_builtin_unconfirmed)
qed (simp_all add: gather_labels_def failed_sources_def probe_loop_unconfirmed gather_builtin_unconfirmed case_prod_beta Let_def)

text \<open>The devices of a result are the declared ones.\<close>

lemma merge_probe_facts_devices:
  "map fst (pb_device res) = remdups names \<Longrightarrow> map fst (pb_device (fst (merge_probe_facts names facts res))) = remdups names"
proof (induction names facts res rule: merge_probe_facts.induct)
  case (2 names k v facts res)
  show ?case
  proof (cases "classify_key names k")
    case KeyHost
    with 2 show ?thesis by simp
  next
    case KeyInvalid
    with 2 show ?thesis by simp
  next
    case (KeyDevice dev label)
    then have "dev \<in> set names" by (auto simp: classify_key_def Let_def split: if_splits)
    then have "dev \<in> set (map fst (pb_device res))" unfolding 2(4) by simp
    then have "map fst (AList.update dev m (pb_device res)) = remdups names" for m
      using 2(4) by (simp add: update_keys)
    with 2(2) KeyDevice show ?thesis by (simp add: Let_def case_prod_beta)
  qed
qed simp

lemma merge_source_devices:
  "map fst (pb_device (fst p)) = remdups names \<Longrightarrow> map fst (pb_device (fst (merge_source names source facts p))) = remdups names"
  by (simp add: merge_source_def case_prod_beta merge_probe_facts_devices)

lemma unconfirm_devices [simp]: "pb_device (fst (unconfirm source ds p)) = pb_device (fst p)"
  by (simp add: unconfirm_def)

lemma fold_drop_in_failed_devices [simp]: "pb_device (fst (fold (\<lambda>m. drop_in_failed mem (f m)) ms p)) = pb_device (fst p)"
  by (induction ms arbitrary: p) (simp_all add: drop_in_failed_def)

lemma probe_loop_devices:
  "map fst (pb_device (fst p)) = remdups names \<Longrightarrow>
     map fst (pb_device (fst (probe_loop names path mem sys ns p))) = remdups names"
proof (induction names path mem sys ns p rule: probe_loop.induct)
  case (2 names path mem sys n ns p)
  show ?case
  proof (cases "ps_late (sys n)")
    case True
    have "probe_loop names path mem sys (n # ns) p = fold (\<lambda>m. drop_in_failed mem (path m)) (n # ns) p"
      using True by (simp add: Let_def)
    then show ?thesis using 2(5) by (simp only: fold_drop_in_failed_devices)
  next
    case False
    with 2 show ?thesis by (auto simp: Let_def drop_in_failed_def merge_source_devices split: sum.splits)
  qed
qed simp

lemma gather_devices: "map fst (pb_device (fst (gather_labels names path env mem))) = remdups names"
proof -
  have b: "map fst (pb_device (fst (fst (gather_builtin names env mem)))) = remdups names"
    by (auto simp: gather_builtin_def Let_def comp_def intro!: merge_source_devices split: prod.splits)
  then show ?thesis
    using fold_drop_in_failed_devices [of mem "\<lambda>s. s"]
    by (auto simp: gather_labels_def case_prod_beta probe_loop_devices Let_def split: dir_read.splits)
qed

lemma map_of_filter_entries:
  "distinct (map fst xs) \<Longrightarrow> map_of (filter (\<lambda>(k, v). P k v) xs) d
     = (case map_of xs d of None \<Rightarrow> None | Some v \<Rightarrow> if P d v then Some v else None)"
proof (induction xs)
  case (Cons x xs)
  obtain k v where x: "x = (k, v)" by (cases x) auto
  have "map_of xs k = None" using Cons.prems x by (simp add: map_of_eq_None_iff)
  with Cons x show ?case by auto
qed simp

lemma payload_entry:
  assumes "map fst (pb_device res) = remdups names" and "d \<in> set names" and "d \<noteq> ''''" and "labels_payload res = Some m"
  shows "map_of m d = (if device_facts_of d res = [] \<and> d \<in> pb_unconfirmed res then None else Some (device_facts_of d res))"
proof -
  have dist: "distinct (map fst (pb_device res))" unfolding assms(1) by simp
  have "d \<in> set (map fst (pb_device res))" unfolding assms(1) using assms(2) by simp
  then have "map_of (pb_device res) d \<noteq> None" by (simp only: map_of_eq_None_iff) simp
  then obtain fs where fs: "map_of (pb_device res) d = Some fs" by blast
  have "map_of (filter (\<lambda>(d, m). m \<noteq> [] \<or> d \<notin> pb_unconfirmed res) (pb_device res)) d
      = (if fs \<noteq> [] \<or> d \<notin> pb_unconfirmed res then Some fs else None)"
    by (simp add: map_of_filter_entries [OF dist] fs)
  moreover have "map_of m d = map_of (filter (\<lambda>(d, m). m \<noteq> [] \<or> d \<notin> pb_unconfirmed res) (pb_device res)) d"
    using assms(3,4) by (auto simp: labels_payload_def split: if_splits)
  ultimately show ?thesis using fs by (simp add: device_facts_of_def)
qed

end
