(* ===== verification/Probe_Claims.thy ===== *)
theory Probe_Claims
  imports Probe Worker_API
begin

text \<open>
  The properties of the probes: what a pass sends for a device, and what becomes of the labels the
  controller has while a source is out.
\<close>

section \<open>Outages over many passes\<close>

fun probe_passes :: "string list \<Rightarrow> (string \<Rightarrow> string) \<Rightarrow> probe_env list \<Rightarrow> probe_memory \<Rightarrow> probe_result list" where
  "probe_passes names path [] mem = []"
| "probe_passes names path (env # envs) mem =
     (let (res, mem') = gather_labels names path env mem in res # probe_passes names path envs mem')"

text \<open>A drop-in is out in a pass: the directory could not be read, or the drop-in is there and failed.\<close>

definition script_out :: "string \<Rightarrow> probe_env \<Rightarrow> bool" where
  "script_out n env \<longleftrightarrow>
     (case pe_dir env of
        DirMissing \<Rightarrow> False
      | DirError e \<Rightarrow> True
      | DirEntries es \<Rightarrow> distinct (map fst es) \<and> n \<in> set (failed_scripts (pe_script env) (script_names es)))"

lemma distinct_script_names: "distinct (map fst es) \<Longrightarrow> distinct (script_names es)"
  by (simp add: script_names_def distinct_map_filter)

lemma out_unconfirmed:
  assumes "script_out n env" and "d \<in> scope_of mem (path n)" and "path n \<notin> {builtin_source, nvidia_source}"
  shows "d \<in> pb_unconfirmed (fst (gather_labels names path env mem))"
proof -
  have "path n \<in> set (map fst (pm_sources mem))"
    using assms(2) by (auto simp: scope_of_def split: option.splits dest: map_of_SomeD intro: rev_image_eqI)
  moreover have "path n \<notin> builtin_sources env mem"
    using assms(3) by (auto simp: builtin_sources_def split: prod.splits)
  ultimately have "path n \<in> failed_sources path env mem"
    using assms(1) by (auto simp: script_out_def failed_sources_def split: dir_read.splits)
  with assms(2) show ?thesis by (auto simp: gather_unconfirmed)
qed

lemma out_remembered:
  assumes "script_out n env" and "d \<in> scope_of mem (path n)" and "path n \<notin> {builtin_source, nvidia_source}" and "inj path"
  shows "scope_of (snd (gather_labels names path env mem)) (path n) = scope_of mem (path n)"
proof (cases "pe_dir env")
  case DirMissing
  with assms(1) show ?thesis by (simp add: script_out_def)
next
  case (DirError e)
  have known: "path n \<in> set (map fst (pm_sources mem))"
    using assms(2) by (auto simp: scope_of_def split: option.splits dest: map_of_SomeD intro: rev_image_eqI)
  have "path n \<notin> set (map fst (snd (fst (gather_builtin names env mem))))"
    unfolding gather_builtin_sources using assms(3) by (auto simp: builtin_sources_def split: prod.splits)
  with known fold_drop_in_failed(2) [of mem "\<lambda>s. s"] show ?thesis
    by (simp add: gather_labels_def DirError case_prod_beta Let_def scope_of_def)
next
  case (DirEntries es)
  with assms(1) have "distinct (script_names es)" "n \<in> set (failed_scripts (pe_script env) (script_names es))"
    by (simp_all add: script_out_def distinct_script_names)
  from probe_loop_remembers [OF inj_on_subset [OF assms(4)] this] show ?thesis
    by (simp add: gather_labels_def DirEntries case_prod_beta Let_def scope_of_def)
qed

lemma preserved_labels:
  assumes "map fst (pb_device res) = remdups names" and "d \<in> set names" and "d \<noteq> ''''"
    and "d \<in> pb_unconfirmed res" and "device_facts_of d res = []"
  shows "apply_source dev d source (labels_payload res) now s = Inr s"
  using payload_entry [OF assms(1-3)] assms(4,5) by (simp add: apply_source_def split: option.splits)

text \<open>
  An outage of a probe does not wipe labels. As long as a drop-in that named a device when it
  last worked is out, whether its run fails, the budget cuts it off or the directory cannot be
  read, however many passes that lasts, no pass confirms the device; and when no other source has facts
  for it, what the pass sends makes the controller leave the labels it has detected for it as they are.
\<close>
theorem probe_outage_preserves:
  assumes "list_all (script_out n) envs" and "d \<in> scope_of mem (path n)"
    and "path n \<notin> {builtin_source, nvidia_source}" and "inj path" and "d \<in> set names" and "d \<noteq> ''''"
  shows "list_all (\<lambda>res. d \<in> pb_unconfirmed res
      \<and> (device_facts_of d res = [] \<longrightarrow> apply_source dev d SourceDetected (labels_payload res) now s = Inr s))
    (probe_passes names path envs mem)"
  using assms(1,2)
proof (induction envs arbitrary: mem)
  case (Cons env envs)
  from Cons.prems have o: "script_out n env" by simp
  note u = out_unconfirmed [where path = path and n = n and names = names, OF o Cons.prems(2) assms(3)]
  have "d \<in> scope_of (snd (gather_labels names path env mem)) (path n)"
    using out_remembered [where path = path and n = n, OF o Cons.prems(2) assms(3,4)] Cons.prems(2) by simp
  from Cons.IH [OF _ this] Cons.prems(1) u preserved_labels [OF gather_devices assms(5,6) u]
  show ?case by (simp add: case_prod_beta)
qed simp

definition ex_memory :: probe_memory where
  "ex_memory = \<lparr>pm_sources = [(''d/p'', {''g''})], pm_checked = True, pm_seen = False\<rparr>"

definition ex_outage :: probe_env where
  "ex_outage = \<lparr>pe_builtin = [(''cpus'', ''4'')], pe_smi = SmiMissing, pe_dir = DirEntries [(''p'', False)],
     pe_script = (\<lambda>n. \<lparr>ps_late = True, ps_stat = Inl '''', ps_facts = Inl ''''\<rparr>)\<rparr>"

theorem probe_outage_preserves_witness:
  "list_all (\<lambda>res. ''g'' \<in> pb_unconfirmed res) (probe_passes [''g''] (\<lambda>n. ''d/'' @ n) [ex_outage, ex_outage] ex_memory)
    \<and> length (probe_passes [''g''] (\<lambda>n. ''d/'' @ n) [ex_outage, ex_outage] ex_memory) = 2"
proof -
  have "list_all (script_out ''p'') [ex_outage, ex_outage]"
    by (simp add: script_out_def ex_outage_def script_names_def)
  moreover have "''g'' \<in> scope_of ex_memory (''d/'' @ ''p'')" by (simp add: scope_of_def ex_memory_def)
  moreover have "''d/'' @ ''p'' \<notin> {builtin_source, nvidia_source}" by (simp add: builtin_source_def nvidia_source_def)
  moreover have "inj (\<lambda>n. ''d/'' @ n)" by (simp add: inj_def)
  ultimately have "list_all (\<lambda>res. ''g'' \<in> pb_unconfirmed res
      \<and> (device_facts_of ''g'' res = [] \<longrightarrow> apply_source ''h:g'' ''g'' SourceDetected (labels_payload res) 0 empty_db = Inr empty_db))
    (probe_passes [''g''] (\<lambda>n. ''d/'' @ n) [ex_outage, ex_outage] ex_memory)"
    by (intro probe_outage_preserves) simp_all
  then show ?thesis by (auto simp: list_all_iff case_prod_beta)
qed

section \<open>What a pass sends\<close>

text \<open>A source that failed in a pass and is understood to speak for the device.\<close>

definition speaks_for :: "string list \<Rightarrow> (string \<Rightarrow> string) \<Rightarrow> probe_env \<Rightarrow> probe_memory \<Rightarrow> string \<Rightarrow> bool" where
  "speaks_for names path env mem d \<longleftrightarrow>
     (smi_failed env mem \<and> d \<in> smi_scope names mem) \<or> d \<in> \<Union> (scope_of mem ` failed_sources path env mem)"

text \<open>
  A broken probe freezes only its own devices. What a pass sends says nothing about a declared
  device exactly when no source gave facts for it and a source that failed speaks for it: \<open>nvidia-smi\<close> broken,
  or gone after the worker saw it at its start, for the devices it can name, or a drop-in for the devices it
  named when it last worked. Every other device gets exactly the facts gathered for it, an empty set
  included, which clears its labels.
\<close>
theorem payload_exact:
  assumes "labels_payload (fst (gather_labels names path env mem)) = Some m" and "d \<in> set names" and "d \<noteq> ''''"
  shows "map_of m d =
    (if device_facts_of d (fst (gather_labels names path env mem)) = [] \<and> speaks_for names path env mem d then None
     else Some (device_facts_of d (fst (gather_labels names path env mem))))"
proof -
  have "d \<in> pb_unconfirmed (fst (gather_labels names path env mem)) \<longleftrightarrow> speaks_for names path env mem d"
    by (auto simp: gather_unconfirmed speaks_for_def)
  with payload_entry [OF gather_devices assms(2,3,1)] show ?thesis by simp
qed

theorem payload_exact_witness:
  "\<exists>m. labels_payload (fst (gather_labels [''g'', ''f''] (\<lambda>n. ''d/'' @ n) ex_outage ex_memory)) = Some m
    \<and> map_of m ''g'' = None \<and> map_of m ''f'' = Some []"
proof -
  let ?r = "fst (gather_labels [''g'', ''f''] (\<lambda>n. ''d/'' @ n) ex_outage ex_memory)"
  have r: "?r = \<lparr>pb_host = [(''cpus'', ''4'')], pb_device = [(''g'', []), (''f'', [])], pb_unconfirmed = {''g''}\<rparr>"
    by (simp add: gather_labels_def gather_builtin_def Let_def ex_outage_def ex_memory_def nvidia_labels_def script_names_def
        merge_source_def classify_key_def drop_in_failed_def unconfirm_def scope_of_def builtin_source_def nvidia_source_def)
  then have p: "labels_payload ?r = Some [('''', [(''cpus'', ''4'')]), (''f'', [])]" by (simp add: labels_payload_def)
  have g: "speaks_for [''g'', ''f''] (\<lambda>n. ''d/'' @ n) ex_outage ex_memory ''g''"
    and f: "\<not> speaks_for [''g'', ''f''] (\<lambda>n. ''d/'' @ n) ex_outage ex_memory ''f''"
    by (simp_all add: speaks_for_def smi_failed_def failed_sources_def ex_outage_def ex_memory_def nvidia_labels_def script_names_def scope_of_def)
  have "map_of [('''', [(''cpus'', ''4'')]), (''f'', [])] ''g'' = (None :: facts option)"
    using payload_exact [OF p, of "''g''"] by (simp only: g r device_facts_of_def) simp
  moreover have "map_of [('''', [(''cpus'', ''4'')]), (''f'', [])] ''f'' = Some ([] :: facts)"
    using payload_exact [OF p, of "''f''"] by (simp only: f r device_facts_of_def) simp
  ultimately show ?thesis using p by blast
qed

end
