(* ===== verification/Processes.thy ===== *)
theory Processes
  imports Exec Model
begin

text \<open>
  What the worker learns from \<open>/proc\<close>: the walk over the live processes (\<open>pty.go\<close>), the proof a
  registration carries (\<open>recovery.go\<close>), the sweep for a job's escapees (\<open>sweep.go\<close>) and the
  boot identifier (\<open>bootid.go\<close>). A reading of \<open>/proc\<close> is an argument; a procedure that walks it
  several times gets one reading per walk.
\<close>

section \<open>Fields of a line\<close>

text \<open>\<open>strings.Fields\<close>: cut at every run of white space.\<close>

fun next_word :: "string \<Rightarrow> string \<times> string" where
  "next_word [] = ([], [])"
| "next_word (c # cs) =
     (if list_ex (\<lambda>e. has_prefix e (c # cs)) space_encodings then ([], c # cs)
      else (let (w, rest) = next_word cs in (c # w, rest)))"

lemma next_word_split: "fst (next_word s) @ snd (next_word s) = s"
  by (induction s) (auto simp: case_prod_beta)

lemma next_word_progress:
  "s \<noteq> [] \<Longrightarrow> starts_clean space_encodings s \<Longrightarrow> length (snd (next_word s)) < length s"
proof (cases s)
  case (Cons c cs)
  assume clean: "starts_clean space_encodings s"
  have "[] \<notin> set space_encodings" by (simp add: space_encodings_def)
  with clean have "\<not> list_ex (\<lambda>e. has_prefix e s) space_encodings"
    by (auto simp: starts_clean_def list_ex_iff)
  moreover have "length (snd (next_word cs)) \<le> length cs"
    using arg_cong [OF next_word_split [of cs], of length] by simp
  ultimately show ?thesis using Cons by (simp add: case_prod_beta)
qed simp

function go_fields :: "string \<Rightarrow> string list" where
  "go_fields s =
     (let t = trim_front space_encodings s
      in if t = [] then [] else fst (next_word t) # go_fields (snd (next_word t)))"
  by pat_completeness auto
termination
proof (relation "measure length", goal_cases)
  case (2 s t)
  have "starts_clean space_encodings t" unfolding 2(1) by (rule trim_front_result_clean)
  from next_word_progress [OF 2(2) this] have "length (snd (next_word t)) < length t" .
  moreover from trim_front_suffix [of s space_encodings] have "length t \<le> length s"
    unfolding 2(1) by (metis length_append le_add2)
  ultimately show ?case by simp
qed simp

declare go_fields.simps [simp del]

section \<open>One process\<close>

record proc_stat =
  pt_pid :: int
  pt_state :: char
  pt_ppid :: int
  pt_pgid :: int
  pt_sid :: int

text \<open>The bytes before the first opening and after the last closing parenthesis of a stat line.\<close>

definition before_open :: "string \<Rightarrow> string" where
  "before_open s = takeWhile (\<lambda>c. c \<noteq> CHR ''('') s"

definition after_close :: "string \<Rightarrow> string" where
  "after_close s = rev (takeWhile (\<lambda>c. c \<noteq> CHR '')'') (rev s))"

definition parse_proc_stat :: "string \<Rightarrow> proc_stat option" where
  "parse_proc_stat s =
     (let i = length s - length (after_close s) - 1
      in if CHR ''('' \<notin> set s \<or> CHR '')'' \<notin> set s \<or> i < length (before_open s) \<or> length s \<le> i + 2 then None
         else
           (case go_fields (drop (i + 2) s) of
              st # f1 # f2 # f3 # rest \<Rightarrow>
                (case (go_atoi (trim_space (before_open s)), go_atoi f1, go_atoi f2, go_atoi f3) of
                   (Some pid, Some ppid, Some pgrp, Some sess) \<Rightarrow>
                     if st = '''' then None
                     else Some \<lparr>pt_pid = pid, pt_state = hd st, pt_ppid = ppid, pt_pgid = pgrp, pt_sid = sess\<rparr>
                 | _ \<Rightarrow> None)
            | _ \<Rightarrow> None))"

text \<open>One reading of \<open>/proc\<close>: the names of its entries, unless it cannot be listed; of each process its
  stat file and its environment.\<close>

datatype environ_read = EnvGone | EnvDenied string | EnvData string

record proc_fs =
  pf_names :: "string list option"
  pf_stat :: "int \<Rightarrow> string option"
  pf_environ :: "int \<Rightarrow> environ_read"

definition read_proc_stat :: "proc_fs \<Rightarrow> int \<Rightarrow> proc_stat option" where
  "read_proc_stat fs pid = Option.bind (pf_stat fs pid) parse_proc_stat"

section \<open>The walk\<close>

text \<open>\<open>scanLiveProcs\<close>: the predicate may keep notes, which are passed along.\<close>

fun scan_procs :: "bool \<Rightarrow> proc_fs \<Rightarrow> (proc_stat \<Rightarrow> 'n \<Rightarrow> bool \<times> 'n) \<Rightarrow> string list \<Rightarrow> 'n \<Rightarrow> int list \<times> 'n" where
  "scan_procs stop fs want [] notes = ([], notes)"
| "scan_procs stop fs want (name # names) notes =
     (case go_atoi name of
        None \<Rightarrow> scan_procs stop fs want names notes
      | Some pid \<Rightarrow>
          (case read_proc_stat fs pid of
             None \<Rightarrow> scan_procs stop fs want names notes
           | Some st \<Rightarrow>
               if pt_state st = CHR ''Z'' then scan_procs stop fs want names notes
               else
                 (let (hit, notes') = want st notes
                  in if \<not> hit then scan_procs stop fs want names notes'
                     else if stop then ([pid], notes')
                     else (let (pids, notes'') = scan_procs stop fs want names notes' in (pid # pids, notes'')))))"

definition scan_live_procs :: "bool \<Rightarrow> proc_fs \<Rightarrow> (proc_stat \<Rightarrow> 'n \<Rightarrow> bool \<times> 'n) \<Rightarrow> 'n \<Rightarrow> (int list \<times> 'n) option" where
  "scan_live_procs stop fs want notes =
     (case pf_names fs of None \<Rightarrow> None | Some names \<Rightarrow> Some (scan_procs stop fs want names notes))"

text \<open>Whether a matching process exists and whether the walk was possible; all matching processes.\<close>

definition live_proc_exists :: "proc_fs \<Rightarrow> (proc_stat \<Rightarrow> 'n \<Rightarrow> bool \<times> 'n) \<Rightarrow> 'n \<Rightarrow> bool \<times> bool \<times> 'n" where
  "live_proc_exists fs want notes =
     (case scan_live_procs True fs want notes of
        None \<Rightarrow> (False, False, notes) | Some (pids, notes') \<Rightarrow> (pids \<noteq> [], True, notes'))"

definition live_proc_pids :: "proc_fs \<Rightarrow> (proc_stat \<Rightarrow> 'n \<Rightarrow> bool \<times> 'n) \<Rightarrow> 'n \<Rightarrow> int list \<times> bool \<times> 'n" where
  "live_proc_pids fs want notes =
     (case scan_live_procs False fs want notes of
        None \<Rightarrow> ([], False, notes) | Some (pids, notes') \<Rightarrow> (pids, True, notes'))"

definition group_alive :: "bool \<Rightarrow> proc_fs \<Rightarrow> int \<Rightarrow> bool" where
  "group_alive answers fs pgid =
     (if \<not> answers then False
      else (let (live, scanned, u) = live_proc_exists fs (\<lambda>st u. (pt_pgid st = pgid, u)) () in live \<or> \<not> scanned))"

text \<open>The groups of a session, in the order of their first process; zombies count.\<close>

definition session_groups :: "proc_fs \<Rightarrow> int \<Rightarrow> int list" where
  "session_groups fs sid =
     (case pf_names fs of
        None \<Rightarrow> []
      | Some names \<Rightarrow>
          rev (remdups (rev (concat (map (\<lambda>name.
            case Option.bind (go_atoi name) (read_proc_stat fs) of
              None \<Rightarrow> [] | Some st \<Rightarrow> if pt_sid st = sid then [pt_pgid st] else []) names)))))"

definition session_alive :: "proc_fs \<Rightarrow> int \<Rightarrow> bool" where
  "session_alive fs sid = fst (live_proc_exists fs (\<lambda>st u. (pt_sid st = sid, u)) ())"

section \<open>The marker of a job\<close>

definition job_env_prefix :: string where
  "job_env_prefix = ''RC_JOB_ID=''"

fun marker_in :: "string list \<Rightarrow> string" where
  "marker_in [] = ''''"
| "marker_in (entry # entries) =
     (if has_prefix job_env_prefix entry \<and> drop (length job_env_prefix) entry \<noteq> ''''
      then drop (length job_env_prefix) entry else marker_in entries)"

text \<open>\<open>jobEnvID\<close>: an error, or the value, which is empty when there is none.\<close>

definition job_env_id :: "environ_read \<Rightarrow> string + string" where
  "job_env_id r =
     (case r of EnvGone \<Rightarrow> Inr '''' | EnvDenied e \<Rightarrow> Inl e | EnvData bytes \<Rightarrow> Inr (marker_in (split_on (CHR 0x00) bytes)))"

section \<open>The proof of a registration\<close>

definition isolated_namespace :: "proc_fs \<Rightarrow> int \<Rightarrow> bool" where
  "isolated_namespace fs self =
     (if self \<noteq> 1 then False
      else (let (other, scanned, u) = live_proc_exists fs (\<lambda>st u. (pt_pid st \<noteq> self, u)) () in scanned \<and> \<not> other))"

text \<open>The predicate notes that a process could not be inspected.\<close>

definition survivor_check :: "proc_fs \<Rightarrow> int \<Rightarrow> proc_stat \<Rightarrow> bool \<Rightarrow> bool \<times> bool" where
  "survivor_check fs self st blind =
     (if pt_pid st = self then (False, blind)
      else (case job_env_id (pf_environ fs (pt_pid st)) of Inl e \<Rightarrow> (False, True) | Inr v \<Rightarrow> (v \<noteq> '''', blind)))"

definition survivors_from_previous_run :: "proc_fs \<Rightarrow> int \<Rightarrow> bool \<times> bool" where
  "survivors_from_previous_run fs self =
     (let (live, scanned, blind) = live_proc_exists fs (survivor_check fs self) False
      in if \<not> scanned then (False, False)
         else if live then (True, True)
         else if blind then (False, False)
         else (True, False))"

definition recovery_proof_for :: "bool \<Rightarrow> proc_fs \<Rightarrow> proc_fs \<Rightarrow> int \<Rightarrow> recovery_proof" where
  "recovery_proof_for manual_clear fs1 fs2 self =
     (if manual_clear then zero_proof
      else if isolated_namespace fs1 self then zero_proof\<lparr>rp_isolated := True\<rparr>
      else (let (checked, found) = survivors_from_previous_run fs2 self
            in zero_proof\<lparr>rp_survivors_checked := checked, rp_survivors_found := found\<rparr>))"

section \<open>The sweep\<close>

text \<open>The walk up the parents; the processes of the argument are those already seen.\<close>

partial_function (option) ancestor_walk :: "proc_fs \<Rightarrow> int \<Rightarrow> int list \<Rightarrow> int list option" where
  "ancestor_walk fs pid seen =
     (if pid \<le> 0 then Some seen
      else
        (case read_proc_stat fs pid of
           None \<Rightarrow> Some seen
         | Some st \<Rightarrow>
             if pt_ppid st \<le> 0 \<or> pt_ppid st \<in> set seen then Some seen
             else ancestor_walk fs (pt_ppid st) (pt_ppid st # seen)))"

definition ancestor_set :: "proc_fs \<Rightarrow> int \<Rightarrow> int list option" where
  "ancestor_set fs self = ancestor_walk fs self [self]"

definition survivor_of :: "proc_fs \<Rightarrow> string \<Rightarrow> int list \<Rightarrow> proc_stat \<Rightarrow> bool \<Rightarrow> bool \<times> bool" where
  "survivor_of fs job protected st blind =
     (if pt_pid st \<in> set protected then (False, blind)
      else (case job_env_id (pf_environ fs (pt_pid st)) of Inl e \<Rightarrow> (False, True) | Inr v \<Rightarrow> (v = job, blind)))"

text \<open>The pids, whether something could not be inspected, whether the walk was possible.\<close>

definition job_survivor_pids :: "proc_fs \<Rightarrow> string \<Rightarrow> int list \<Rightarrow> int list \<times> bool \<times> bool" where
  "job_survivor_pids fs job protected =
     (let (pids, scanned, blind) = live_proc_pids fs (survivor_of fs job protected) False in (pids, blind, scanned))"

text \<open>
  One phase: a walk, the signals to what was not signalled yet, and again until the walk finds
  nothing or the deadline has passed at the last reading. The result is what remains and the
  signals sent.
\<close>

fun sweep_phase :: "string \<Rightarrow> int list \<Rightarrow> proc_fs list \<Rightarrow> proc_fs \<Rightarrow> int list \<Rightarrow> int list \<times> int list" where
  "sweep_phase job protected [] final signalled =
     (let (pids, blind, scanned) = job_survivor_pids final job protected
      in if scanned \<and> pids = [] then ([], []) else (pids, filter (\<lambda>p. p \<notin> set signalled) (remdups pids)))"
| "sweep_phase job protected (fs # rounds) final signalled =
     (let (pids, blind, scanned) = job_survivor_pids fs job protected
      in if scanned \<and> pids = [] then ([], [])
         else
           (let fresh = filter (\<lambda>p. p \<notin> set signalled) (remdups pids);
                (remaining, sent) = sweep_phase job protected rounds final (fresh @ signalled)
            in (remaining, fresh @ sent)))"

record sweep_course =
  sc_tree :: proc_fs
  sc_first :: proc_fs
  sc_term :: "proc_fs list"
  sc_term_end :: proc_fs
  sc_kill :: "proc_fs list"
  sc_kill_end :: proc_fs

definition sweep_job_survivors :: "string \<Rightarrow> int list \<Rightarrow> sweep_course \<Rightarrow> sweep_report \<times> (signal \<times> int) list" where
  "sweep_job_survivors job protected c =
     (if job = '''' then (no_sweep, [])
      else
        (let (found, blind, scanned) = job_survivor_pids (sc_first c) job protected;
             rep = \<lparr>sw_scanned = scanned, sw_found = found, sw_remaining = [], sw_blind = blind\<rparr>
         in if \<not> scanned \<or> found = [] then (rep, [])
            else
              (let (remaining, termed) = sweep_phase job protected (sc_term c) (sc_term_end c) []
               in if remaining = [] then (rep, map (Pair SigTerm) termed)
                  else
                    (let (left, killed) = sweep_phase job protected (sc_kill c) (sc_kill_end c) []
                     in (rep\<lparr>sw_remaining := left\<rparr>, map (Pair SigTerm) termed @ map (Pair SigKill) killed)))))"

definition sweep_survivors :: "string \<Rightarrow> int \<Rightarrow> sweep_course \<Rightarrow> (sweep_report \<times> (signal \<times> int) list) option" where
  "sweep_survivors job self c =
     (if job = '''' then Some (no_sweep, [])
      else map_option (\<lambda>protected. sweep_job_survivors job protected c) (ancestor_set (sc_tree c) self))"

definition sweep_clean :: "sweep_report \<Rightarrow> bool" where
  "sweep_clean r \<longleftrightarrow> sw_scanned r \<and> \<not> sw_blind r \<and> sw_remaining r = []"

section \<open>The boot identifier\<close>

fun btime_line :: "string list \<Rightarrow> string" where
  "btime_line [] = ''''"
| "btime_line (l # ls) = (if has_prefix ''btime '' l then ''btime-'' @ trim_space (drop 6 l) else btime_line ls)"

text \<open>The kernel's identifier, else the boot time of \<open>/proc/stat\<close>, whose lines are the second argument.\<close>

definition boot_id :: "string option \<Rightarrow> string list option \<Rightarrow> string" where
  "boot_id uuid stat_lines =
     (case uuid of Some b \<Rightarrow> trim_space b | None \<Rightarrow> (case stat_lines of None \<Rightarrow> '''' | Some ls \<Rightarrow> btime_line ls))"

end
