(* ===== verification/Process_Claims.thy ===== *)
theory Process_Claims
  imports Processes
begin

text \<open>
  The properties of the walks over \<open>/proc\<close>: what a registration's proof means, whom the sweep for a
  job's escapees can signal, and that a process cannot disguise itself by its name.
\<close>

section \<open>The walk as a filter\<close>

text \<open>The live processes of a reading: listed, readable and no zombies, each with the pid of its name.\<close>

definition live_list :: "proc_fs \<Rightarrow> string list \<Rightarrow> (int \<times> proc_stat) list" where
  "live_list fs names = concat (map (\<lambda>name.
     case go_atoi name of None \<Rightarrow> []
     | Some pid \<Rightarrow> (case read_proc_stat fs pid of None \<Rightarrow> [] | Some st \<Rightarrow> if pt_state st = CHR ''Z'' then [] else [(pid, st)])) names)"

lemma scan_all:
  assumes "\<And>st n. want st n = (hit st, n \<or> note st)"
  shows "scan_procs False fs want names n
    = (map fst (filter (hit \<circ> snd) (live_list fs names)), n \<or> list_ex (note \<circ> snd) (live_list fs names))"
  by (induction names arbitrary: n) (auto simp: live_list_def assms Let_def case_prod_beta split: option.splits)

lemma scan_first:
  assumes "\<And>st n. want st n = (hit st, n \<or> note st)"
  shows "fst (scan_procs True fs want names n) = [] \<longleftrightarrow> list_all (Not \<circ> hit \<circ> snd) (live_list fs names)"
    and "fst (scan_procs True fs want names n) = [] \<Longrightarrow>
      snd (scan_procs True fs want names n) = (n \<or> list_ex (note \<circ> snd) (live_list fs names))"
  by (induction names arbitrary: n) (auto simp: live_list_def assms Let_def case_prod_beta split: option.splits if_splits)

lemma survivor_check_form:
  "survivor_check fs self st n
     = (pt_pid st \<noteq> self \<and> (\<exists>v. job_env_id (pf_environ fs (pt_pid st)) = Inr v \<and> v \<noteq> ''''),
        n \<or> (pt_pid st \<noteq> self \<and> (\<exists>e. job_env_id (pf_environ fs (pt_pid st)) = Inl e)))"
  by (auto simp: survivor_check_def split: sum.splits)

lemma survivor_of_form:
  "survivor_of fs job protected st n
     = (pt_pid st \<notin> set protected \<and> job_env_id (pf_environ fs (pt_pid st)) = Inr job,
        n \<or> (pt_pid st \<notin> set protected \<and> (\<exists>e. job_env_id (pf_environ fs (pt_pid st)) = Inl e)))"
  by (auto simp: survivor_of_def split: sum.splits)

section \<open>The proof of a registration\<close>

text \<open>A live process is the worker itself, or its environment was read and has no marker.\<close>

definition no_leftover :: "proc_fs \<Rightarrow> int \<Rightarrow> int \<times> proc_stat \<Rightarrow> bool" where
  "no_leftover fs self p \<longleftrightarrow> pt_pid (snd p) = self \<or> job_env_id (pf_environ fs (pt_pid (snd p))) = Inr ''''"

lemma survivors_exact:
  "survivors_from_previous_run fs self = (True, False)
     \<longleftrightarrow> (\<exists>names. pf_names fs = Some names \<and> list_all (no_leftover fs self) (live_list fs names))"
proof (cases "pf_names fs")
  case None
  then show ?thesis by (simp add: survivors_from_previous_run_def live_proc_exists_def scan_live_procs_def)
next
  case (Some names)
  let ?r = "scan_procs True fs (survivor_check fs self) names False"
  note first = scan_first [where want = "survivor_check fs self", OF survivor_check_form, of fs names False]
  have "survivors_from_previous_run fs self = (True, False) \<longleftrightarrow> fst ?r = [] \<and> \<not> snd ?r"
    by (auto simp: survivors_from_previous_run_def live_proc_exists_def scan_live_procs_def Some case_prod_beta Let_def)
  also have "\<dots> \<longleftrightarrow> list_all (no_leftover fs self) (live_list fs names)"
  proof -
    let ?hit = "\<lambda>st. pt_pid st \<noteq> self \<and> (\<exists>v. job_env_id (pf_environ fs (pt_pid st)) = Inr v \<and> v \<noteq> '''')"
    let ?note = "\<lambda>st. pt_pid st \<noteq> self \<and> (\<exists>e. job_env_id (pf_environ fs (pt_pid st)) = Inl e)"
    have pw: "no_leftover fs self p = ((Not \<circ> ?hit \<circ> snd) p \<and> \<not> (?note \<circ> snd) p)" for p
      by (cases "job_env_id (pf_environ fs (pt_pid (snd p)))") (auto simp: no_leftover_def)
    have "list_all (no_leftover fs self) xs = (list_all (Not \<circ> ?hit \<circ> snd) xs \<and> \<not> list_ex (?note \<circ> snd) xs)" for xs
      unfolding list_all_iff list_ex_iff pw by blast
    with first show ?thesis by (simp cong: conj_cong)
  qed
  finally show ?thesis by (simp add: Some)
qed



section \<open>The ancestors of the worker\<close>

definition parent_in :: "proc_fs \<Rightarrow> (int \<times> int) set" where
  "parent_in fs = {(x, y). 0 < x \<and> 0 < y \<and> (\<exists>st. read_proc_stat fs x = Some st \<and> pt_ppid st = y)}"

definition closed_but :: "proc_fs \<Rightarrow> int \<Rightarrow> int list \<Rightarrow> bool" where
  "closed_but fs pid seen \<longleftrightarrow> (\<forall>x y. (x, y) \<in> parent_in fs \<longrightarrow> x \<in> set seen \<longrightarrow> x \<noteq> pid \<longrightarrow> y \<in> set seen)"

lemma ancestor_walk_closed:
  assumes "ancestor_walk fs pid seen = Some r" and "pid \<in> set seen" and "closed_but fs pid seen"
  shows "set seen \<subseteq> set r \<and> parent_in fs `` set r \<subseteq> set r"
  using assms
proof (induction rule: ancestor_walk.raw_induct [rotated, consumes 1, case_names 1])
  case (1 walk fs pid seen r)
  show ?case
  proof (cases "pid \<le> 0 \<or> read_proc_stat fs pid = None")
    case True
    with 1(2) have r: "r = seen" by (auto split: if_splits)
    have "y \<in> set seen" if "(x, y) \<in> parent_in fs" "x \<in> set seen" for x y
    proof (cases "x = pid")
      case True
      with that(1) \<open>pid \<le> 0 \<or> read_proc_stat fs pid = None\<close> show ?thesis by (auto simp: parent_in_def)
    next
      case False
      with 1(4) that show ?thesis by (auto simp: closed_but_def)
    qed
    then show ?thesis unfolding r by auto
  next
    case False
    then obtain st where st: "0 < pid" "read_proc_stat fs pid = Some st" by fastforce
    have par: "(pid, y) \<in> parent_in fs \<longleftrightarrow> y = pt_ppid st \<and> 0 < y" for y using st by (auto simp: parent_in_def)
    show ?thesis
    proof (cases "pt_ppid st \<le> 0 \<or> pt_ppid st \<in> set seen")
      case True
      with 1(2) st have r: "r = seen" by (auto split: if_splits)
      have "y \<in> set seen" if "(x, y) \<in> parent_in fs" "x \<in> set seen" for x y
      proof (cases "x = pid")
        case True
        with that(1) par \<open>pt_ppid st \<le> 0 \<or> pt_ppid st \<in> set seen\<close> show ?thesis by auto
      next
        case False
        with 1(4) that show ?thesis by (auto simp: closed_but_def)
      qed
      then show ?thesis unfolding r by auto
    next
      case False
      with 1(2) st have w: "walk fs (pt_ppid st) (pt_ppid st # seen) = Some r" by (auto split: if_splits)
      have "closed_but fs (pt_ppid st) (pt_ppid st # seen)"
        using 1(4) par unfolding closed_but_def by (metis list.set_intros(1,2) set_ConsD)
      from 1(1) [OF w _ this] show ?thesis by auto
    qed
  qed
qed

lemma ancestor_set_closed:
  assumes "ancestor_set fs self = Some r" and "(self, p) \<in> (parent_in fs)\<^sup>*"
  shows "p \<in> set r"
proof -
  have "self \<in> set r" "parent_in fs `` set r \<subseteq> set r"
    using ancestor_walk_closed [of fs self "[self]" r] assms(1) by (auto simp: ancestor_set_def closed_but_def)
  with assms(2) show ?thesis by (induction rule: rtrancl_induct) auto
qed

lemma ancestor_walk_total:
  assumes "finite {p. read_proc_stat fs p \<noteq> None}"
  shows "\<exists>r. ancestor_walk fs pid seen = Some r"
proof (induction "card ({p. read_proc_stat fs p \<noteq> None} - set seen)" arbitrary: pid seen rule: less_induct)
  case less
  let ?R = "{p. read_proc_stat fs p \<noteq> None}"
  show ?case
  proof (cases "read_proc_stat fs pid")
    case None
    then show ?thesis by (subst ancestor_walk.simps) simp
  next
    case (Some st)
    have "\<exists>r. ancestor_walk fs (pt_ppid st) (pt_ppid st # seen) = Some r" if "pt_ppid st \<notin> set seen"
    proof (cases "read_proc_stat fs (pt_ppid st) = None")
      case True
      then show ?thesis by (subst ancestor_walk.simps) simp
    next
      case False
      with that have "?R - set (pt_ppid st # seen) \<subset> ?R - set seen" by auto
      then have "card (?R - set (pt_ppid st # seen)) < card (?R - set seen)"
        using assms by (intro psubset_card_mono) auto
      from less [OF this] show ?thesis .
    qed
    with Some show ?thesis by (subst ancestor_walk.simps) simp
  qed
qed

section \<open>Whom the sweep can signal\<close>

definition course_readings :: "sweep_course \<Rightarrow> proc_fs set" where
  "course_readings c = {sc_first c, sc_term_end c, sc_kill_end c} \<union> set (sc_term c) \<union> set (sc_kill c)"

text \<open>A live process, listed under its pid, that carries the job's marker and is not protected.\<close>

definition escapee :: "proc_fs \<Rightarrow> string \<Rightarrow> int list \<Rightarrow> int \<Rightarrow> bool" where
  "escapee fs job protected pid \<longleftrightarrow>
     (\<exists>st. read_proc_stat fs pid = Some st \<and> pt_state st \<noteq> CHR ''Z'' \<and> pt_pid st \<notin> set protected
        \<and> job_env_id (pf_environ fs (pt_pid st)) = Inr job)"

lemma job_survivor_pids_form:
  "pf_names fs = Some names \<Longrightarrow> job_survivor_pids fs job protected
     = (map fst (filter (\<lambda>p. pt_pid (snd p) \<notin> set protected \<and> job_env_id (pf_environ fs (pt_pid (snd p))) = Inr job) (live_list fs names)),
        list_ex (\<lambda>p. pt_pid (snd p) \<notin> set protected \<and> (\<exists>e. job_env_id (pf_environ fs (pt_pid (snd p))) = Inl e)) (live_list fs names), True)"
  "pf_names fs = None \<Longrightarrow> job_survivor_pids fs job protected = ([], False, False)"
  using scan_all [where want = "survivor_of fs job protected", OF survivor_of_form, of fs names False]
  by (simp_all add: job_survivor_pids_def live_proc_pids_def scan_live_procs_def comp_def)

lemma live_list_mem:
  "(pid, st) \<in> set (live_list fs names) \<Longrightarrow> read_proc_stat fs pid = Some st \<and> pt_state st \<noteq> CHR ''Z''"
  by (auto simp: live_list_def split: option.splits if_splits)

lemma survivor_pids_escapees:
  "pid \<in> set (fst (job_survivor_pids fs job protected)) \<Longrightarrow> escapee fs job protected pid"
  by (cases "pf_names fs") (auto simp: job_survivor_pids_form escapee_def dest!: live_list_mem)

lemma sweep_phase_signals:
  assumes "pid \<in> set (snd (sweep_phase job protected rounds final signalled))"
  shows "\<exists>fs \<in> insert final (set rounds). escapee fs job protected pid"
  using assms
proof (induction rounds arbitrary: signalled)
  case Nil
  then have "pid \<in> set (fst (job_survivor_pids final job protected))"
    by (auto simp: case_prod_beta Let_def split: if_splits)
  from survivor_pids_escapees [OF this] show ?case by simp
next
  case (Cons fs rounds)
  let ?pids = "fst (job_survivor_pids fs job protected)"
  let ?fresh = "filter (\<lambda>p. p \<notin> set signalled) (remdups ?pids)"
  from Cons.prems have "pid \<in> set ?pids \<or> pid \<in> set (snd (sweep_phase job protected rounds final (?fresh @ signalled)))"
    by (auto simp: case_prod_beta Let_def split: if_splits)
  then show ?case
  proof
    assume "pid \<in> set ?pids"
    from survivor_pids_escapees [OF this] show ?thesis by auto
  next
    assume "pid \<in> set (snd (sweep_phase job protected rounds final (?fresh @ signalled)))"
    from Cons.IH [OF this] show ?thesis by auto
  qed
qed

text \<open>The kernel lists a process under the pid its stat file gives.\<close>

definition pids_agree :: "proc_fs \<Rightarrow> bool" where
  "pids_agree fs \<longleftrightarrow> (\<forall>pid st. read_proc_stat fs pid = Some st \<longrightarrow> pt_pid st = pid)"

text \<open>
  C32. The sweep signals nothing but the job's own escapees. Whatever the process table does between the
  walks, every process the sweep of a job signals was, at one of the walks, a live process
  whose environment carries exactly this job's marker; and it is neither the worker nor an ancestor of it,
  even when the worker itself was started from inside that job.
\<close>
theorem sweep_spares_others:
  assumes "sweep_survivors job self c = Some (rep, sent)" and "(sig, pid) \<in> set sent"
    and "\<forall>fs \<in> course_readings c. pids_agree fs"
  shows "job \<noteq> '''' \<and> (self, pid) \<notin> (parent_in (sc_tree c))\<^sup>*
    \<and> (\<exists>fs \<in> course_readings c. job_env_id (pf_environ fs pid) = Inr job
         \<and> (\<exists>st. read_proc_stat fs pid = Some st \<and> pt_state st \<noteq> CHR ''Z''))"
proof -
  from assms(1,2) have job: "job \<noteq> ''''" by (auto simp: sweep_survivors_def)
  with assms(1) obtain protected where anc: "ancestor_set (sc_tree c) self = Some protected"
    and s: "sweep_job_survivors job protected c = (rep, sent)" by (auto simp: sweep_survivors_def)
  have "pid \<in> set (snd (sweep_phase job protected (sc_term c) (sc_term_end c) []))
      \<or> pid \<in> set (snd (sweep_phase job protected (sc_kill c) (sc_kill_end c) []))"
    using s assms(2) job by (auto simp: sweep_job_survivors_def case_prod_beta Let_def split: if_splits)
  then have "\<exists>fs \<in> course_readings c. escapee fs job protected pid"
    by (auto simp: course_readings_def dest!: sweep_phase_signals)
  then obtain fs st where fs: "fs \<in> course_readings c" "read_proc_stat fs pid = Some st" "pt_state st \<noteq> CHR ''Z''"
    "pt_pid st \<notin> set protected" "job_env_id (pf_environ fs (pt_pid st)) = Inr job" unfolding escapee_def by blast
  with assms(3) have "pt_pid st = pid" by (auto simp: pids_agree_def)
  with ancestor_set_closed [OF anc] fs job show ?thesis by blast
qed

definition ex_table :: proc_fs where
  "ex_table = \<lparr>pf_names = Some [''self'', ''5''], pf_stat = (\<lambda>p. if p = 5 then Some ''5 (tail) S 1 5 5 0 -1'' else None),
     pf_environ = (\<lambda>p. EnvData (''A=b'' @ [CHR 0x00] @ ''RC_JOB_ID=j'' @ [CHR 0x00]))\<rparr>"

definition ex_empty :: proc_fs where
  "ex_empty = \<lparr>pf_names = Some [], pf_stat = (\<lambda>p. None), pf_environ = (\<lambda>p. EnvGone)\<rparr>"

definition ex_sweep :: sweep_course where
  "ex_sweep = \<lparr>sc_tree = ex_empty, sc_first = ex_table, sc_term = [ex_table], sc_term_end = ex_empty,
     sc_kill = [], sc_kill_end = ex_empty\<rparr>"

lemma ex_table_stat: "read_proc_stat ex_table p
    = (if p = 5 then Some \<lparr>pt_pid = 5, pt_state = CHR ''S'', pt_ppid = 1, pt_pgid = 5, pt_sid = 5\<rparr> else None)"
proof -
  have "parse_proc_stat ''5 (tail) S 1 5 5 0 -1'' = Some \<lparr>pt_pid = 5, pt_state = CHR ''S'', pt_ppid = 1, pt_pgid = 5, pt_sid = 5\<rparr>"
    by code_simp
  then show ?thesis by (simp add: read_proc_stat_def ex_table_def)
qed

lemma ex_empty_stat: "read_proc_stat ex_empty p = None"
  by (simp add: read_proc_stat_def ex_empty_def)

theorem sweep_spares_others_witness:
  "\<exists>rep sent. sweep_survivors ''j'' 3 ex_sweep = Some (rep, sent) \<and> (SigTerm, 5) \<in> set sent \<and> (3, 5) \<notin> (parent_in ex_empty)\<^sup>*"
proof -
  have anc: "ancestor_set ex_empty 3 = Some [3]"
    by (simp add: ancestor_set_def ancestor_walk.simps ex_empty_stat)
  have atoi: "go_atoi ''self'' = None" "go_atoi ''5'' = Some 5" by code_simp+
  have env: "job_env_id (pf_environ ex_table 5) = Inr ''j''" unfolding ex_table_def by code_simp
  have "job_survivor_pids ex_table ''j'' [3] = ([5], False, True)"
    by (subst job_survivor_pids_form(1) [of _ "[''self'', ''5'']"])
       (simp_all add: live_list_def atoi ex_table_stat env, simp add: ex_table_def)
  moreover have "job_survivor_pids ex_empty ''j'' [3] = ([], False, True)"
    by (subst job_survivor_pids_form(1) [of _ "[]"]) (simp_all add: live_list_def, simp add: ex_empty_def)
  ultimately have r: "sweep_survivors ''j'' 3 ex_sweep
      = Some (\<lparr>sw_scanned = True, sw_found = [5], sw_remaining = [], sw_blind = False\<rparr>, [(SigTerm, 5)])"
    by (simp add: sweep_survivors_def ex_sweep_def anc sweep_job_survivors_def)
  have "pids_agree ex_table" "pids_agree ex_empty" by (simp_all add: pids_agree_def ex_table_stat ex_empty_stat)
  then have "\<forall>fs \<in> course_readings ex_sweep. pids_agree fs" by (auto simp: course_readings_def ex_sweep_def)
  from sweep_spares_others [OF r _ this, of SigTerm 5] r show ?thesis by (auto simp: ex_sweep_def)
qed

section \<open>A process cannot disguise itself\<close>

text \<open>A printable character of ASCII other than the space.\<close>

definition plain :: "char \<Rightarrow> bool" where
  "plain c \<longleftrightarrow> (let n = of_char c :: nat in 33 \<le> n \<and> n \<le> 126)"

lemma space_encodings_plain: "e \<in> set space_encodings \<Longrightarrow> e \<noteq> [] \<and> \<not> plain (hd e)"
  by (auto simp: space_encodings_def plain_def Let_def)

lemma no_space_prefix: "plain c \<Longrightarrow> e \<in> set space_encodings \<Longrightarrow> \<not> has_prefix e (c # cs)"
  using space_encodings_plain [of e] by (cases e) auto

lemma next_word_plain:
  "list_all plain w \<Longrightarrow> next_word (w @ CHR '' '' # r) = (w, CHR '' '' # r)"
proof (induction w)
  case Nil
  have "[CHR '' ''] \<in> set space_encodings" by (simp add: space_encodings_def)
  then have "list_ex (\<lambda>e. has_prefix e (CHR '' '' # r)) space_encodings" by (force simp: list_ex_iff)
  then show ?case by simp
next
  case (Cons c w)
  then have "\<not> list_ex (\<lambda>e. has_prefix e (c # w @ CHR '' '' # r)) space_encodings"
    by (auto simp: list_ex_iff no_space_prefix)
  with Cons show ?case by simp
qed

lemma trim_front_plain: "plain c \<Longrightarrow> trim_front space_encodings (c # cs) = c # cs"
  by (rule trim_front_clean) (auto simp: starts_clean_def no_space_prefix)

lemma trim_front_space: "trim_front space_encodings (CHR '' '' # r) = trim_front space_encodings r"
proof -
  have "List.find (\<lambda>e. e \<noteq> [] \<and> has_prefix e (CHR '' '' # r)) space_encodings = Some [CHR '' '']"
    by (simp add: space_encodings_def)
  then show ?thesis by (subst trim_front.simps) simp
qed

lemma go_fields_word:
  assumes "list_all plain w" and "w \<noteq> []"
  shows "go_fields (w @ CHR '' '' # r) = w # go_fields r"
proof -
  obtain c cs where w: "w = c # cs" "plain c" using assms by (cases w) auto
  then have t: "trim_front space_encodings (w @ CHR '' '' # r) = w @ CHR '' '' # r" by (simp add: trim_front_plain)
  have "go_fields (CHR '' '' # r) = go_fields r"
    by (subst (1 2) go_fields.simps) (simp add: trim_front_space)
  then show ?thesis
    by (subst go_fields.simps) (simp add: t next_word_plain [OF assms(1)] assms(2) Let_def)
qed

text \<open>Decimal numbers are read back.\<close>

lemma dec_digit_char: "0 \<le> n \<Longrightarrow> dec_digit (digit_char n) = Some (nat (n mod 10))"
proof -
  have "k < 10 \<Longrightarrow> dec_digit (''0123456789'' ! k) = Some k" for k :: nat
    by (auto simp: dec_digit_def less_Suc_eq numeral_eq_Suc)
  then show ?thesis by (simp add: digit_char_def)
qed

lemma digits_value_append:
  "digits_value (xs @ ys) acc = Option.bind (digits_value xs acc) (digits_value ys)"
  by (induction xs acc rule: digits_value.induct) (auto split: option.splits)

lemma digits_value_nat_text: "0 \<le> n \<Longrightarrow> digits_value (nat_text n) 0 = Some (nat n)"
proof (induction n rule: nat_text.induct)
  case (1 n)
  show ?case
  proof (cases "n < 10")
    case True
    with 1(2) show ?thesis by (subst nat_text.simps) (simp add: dec_digit_char)
  next
    case False
    with 1 have "digits_value (nat_text (n div 10)) 0 = Some (nat (n div 10))" by simp
    moreover have "10 * nat (n div 10) + nat (n mod 10) = nat n"
      using 1(2) by (simp add: nat_add_distrib [symmetric] nat_mult_distrib [symmetric] flip: nat_numeral)
    ultimately show ?thesis
      using False 1(2) by (subst nat_text.simps) (simp add: digits_value_append dec_digit_char)
  qed
qed

lemma digit_plain: "is_digit c \<Longrightarrow> plain c \<and> c \<noteq> CHR ''+'' \<and> c \<noteq> CHR ''-'' \<and> c \<noteq> CHR ''('' \<and> c \<noteq> CHR '')''"
  by (auto simp: is_digit_def plain_def Let_def)

lemma itoa_plain: "0 \<le> n \<Longrightarrow> list_all plain (itoa n) \<and> itoa n \<noteq> [] \<and> CHR ''('' \<notin> set (itoa n) \<and> CHR '')'' \<notin> set (itoa n)"
  using nat_text_digits [of n] digit_plain by (fastforce simp: itoa_def list_all_iff)

lemma go_atoi_itoa:
  assumes "0 \<le> n" and "n < 2 ^ 63"
  shows "go_atoi (itoa n) = Some n"
proof -
  obtain c cs where t: "nat_text n = c # cs" "is_digit c" using nat_text_digits [of n] by (cases "nat_text n") auto
  then have "cut_sign (nat_text n) = (False, nat_text n)" using digit_plain by auto
  with assms t(1) digits_value_nat_text [OF assms(1)] show ?thesis by (simp add: go_atoi_def itoa_def)
qed

lemma rev_encodings_plain: "e \<in> set (map rev space_encodings) \<Longrightarrow> e \<noteq> [] \<and> \<not> plain (hd e)"
  by (auto simp: space_encodings_def plain_def Let_def)

lemma trim_space_word:
  assumes "list_all plain w" and "w \<noteq> []"
  shows "trim_space (w @ '' '') = w"
proof -
  obtain c cs where w: "w = c # cs" "plain c" using assms by (cases w) auto
  have f: "trim_front space_encodings (w @ '' '') = w @ '' ''" using w by (simp add: trim_front_plain)
  obtain d ds where r: "rev w = d # ds" using assms(2) by (cases "rev w") auto
  have "plain d" using assms(1) r by (metis list.set_intros(1) list_all_iff set_rev)
  then have "starts_clean (map rev space_encodings) (d # ds)"
    unfolding starts_clean_def using rev_encodings_plain by (metis has_prefix.elims(2) list.sel(1) list.inject)
  then have c: "trim_front (map rev space_encodings) (d # ds) = d # ds" by (rule trim_front_clean)
  have "List.find (\<lambda>e. e \<noteq> [] \<and> has_prefix e (CHR '' '' # d # ds)) (map rev space_encodings) = Some [CHR '' '']"
    by (simp add: space_encodings_def)
  then have "trim_front (map rev space_encodings) (CHR '' '' # d # ds) = d # ds"
    by (subst trim_front.simps) (simp add: c)
  then have "trim_front (map rev space_encodings) (rev (w @ '' '')) = rev w" by (simp add: r)
  then show ?thesis by (simp add: trim_space_def f)
qed

text \<open>The stat line the kernel writes; \<open>comm\<close> is whatever name the process gave itself.\<close>

definition stat_line :: "proc_stat \<Rightarrow> string \<Rightarrow> string \<Rightarrow> string" where
  "stat_line st comm rest =
     itoa (pt_pid st) @ '' ('' @ comm @ '') '' @ [pt_state st] @ '' '' @ itoa (pt_ppid st) @ '' '' @ itoa (pt_pgid st) @ '' ''
       @ itoa (pt_sid st) @ '' '' @ rest"

definition stat_fits :: "proc_stat \<Rightarrow> bool" where
  "stat_fits st \<longleftrightarrow> plain (pt_state st) \<and> pt_state st \<noteq> CHR '')''
     \<and> (\<forall>n \<in> {pt_pid st, pt_ppid st, pt_pgid st, pt_sid st}. 0 \<le> n \<and> n < 2 ^ 63)"

lemma parse_proc_stat_pieces:
  assumes s: "s = (b @ CHR ''('' # m) @ CHR '')'' # CHR '' '' # r" and b: "CHR ''('' \<notin> set b" and r: "CHR '')'' \<notin> set r" "r \<noteq> []"
    and f: "go_fields r = st # f1 # f2 # f3 # fs" "st \<noteq> []"
    and n: "go_atoi (trim_space b) = Some pid" "go_atoi f1 = Some ppid" "go_atoi f2 = Some pgid" "go_atoi f3 = Some sid"
  shows "parse_proc_stat s = Some \<lparr>pt_pid = pid, pt_state = hd st, pt_ppid = ppid, pt_pgid = pgid, pt_sid = sid\<rparr>"
proof -
  have "takeWhile (\<lambda>c. c \<noteq> CHR '')'') (rev (CHR '' '' # r) @ CHR '')'' # x) = rev (CHR '' '' # r)" for x
    using r by (subst takeWhile_append2) auto
  then have ac: "after_close s = CHR '' '' # r" unfolding after_close_def s by simp
  have bo: "before_open s = b" unfolding before_open_def s append_assoc append_Cons using b by (subst takeWhile_append2) auto
  have i: "length s - length (after_close s) - 1 = length (b @ CHR ''('' # m)" unfolding ac by (simp add: s)
  have skip: "drop (length p + 2) (p @ x # y # q) = q" for p q :: string and x y by simp
  have dr: "drop (length (b @ CHR ''('' # m) + 2) s = r" unfolding s by (rule skip)
  have ok: "\<not> (CHR ''('' \<notin> set s \<or> CHR '')'' \<notin> set s \<or> length (b @ CHR ''('' # m) < length b \<or> length s \<le> length (b @ CHR ''('' # m) + 2)"
    using r(2) by (simp add: s)
  show ?thesis unfolding parse_proc_stat_def Let_def i dr bo using ok f n by simp
qed

text \<open>
  A process cannot disguise itself by its name. Whatever bytes a process puts into its command name,
  parentheses and spaces and the look of further fields included, the stat line the kernel writes for it is
  read back with the true pid, state, parent, group and session, so it can neither leave the group a
  kill is aimed at, nor look like a zombie, nor pass for another process.
\<close>
theorem stat_round_trip:
  assumes "stat_fits st" and "CHR '')'' \<notin> set rest"
  shows "parse_proc_stat (stat_line st comm rest) = Some st"
proof -
  let ?pid = "itoa (pt_pid st)"
  let ?tail = "itoa (pt_ppid st) @ CHR '' '' # itoa (pt_pgid st) @ CHR '' '' # itoa (pt_sid st) @ CHR '' '' # rest"
  let ?r = "[pt_state st] @ CHR '' '' # ?tail"
  note ranges = assms(1) [unfolded stat_fits_def]
  have pos: "0 \<le> pt_pid st" "0 \<le> pt_ppid st" "0 \<le> pt_pgid st" "0 \<le> pt_sid st" using ranges by auto
  note plains = itoa_plain [OF pos(1)] itoa_plain [OF pos(2)] itoa_plain [OF pos(3)] itoa_plain [OF pos(4)]
  have at: "go_atoi (itoa (pt_ppid st)) = Some (pt_ppid st)" "go_atoi (itoa (pt_pgid st)) = Some (pt_pgid st)"
    "go_atoi (itoa (pt_sid st)) = Some (pt_sid st)"
    using ranges by (auto intro!: go_atoi_itoa)
  have f: "go_fields ?r = [pt_state st] # itoa (pt_ppid st) # itoa (pt_pgid st) # itoa (pt_sid st) # go_fields rest"
    using plains ranges by (subst go_fields_word, simp, simp)+ simp
  have "parse_proc_stat (stat_line st comm rest)
      = Some \<lparr>pt_pid = pt_pid st, pt_state = hd [pt_state st], pt_ppid = pt_ppid st, pt_pgid = pt_pgid st, pt_sid = pt_sid st\<rparr>"
  proof (rule parse_proc_stat_pieces)
    show "stat_line st comm rest = ((?pid @ '' '') @ CHR ''('' # comm) @ CHR '')'' # CHR '' '' # ?r" by (simp add: stat_line_def)
    show "go_atoi (trim_space (?pid @ '' '')) = Some (pt_pid st)"
      using plains(1) ranges by (simp add: trim_space_word go_atoi_itoa)
    show "CHR '')'' \<notin> set ?r" using plains ranges assms(2) by auto
    show "go_fields ?r = [pt_state st] # itoa (pt_ppid st) # itoa (pt_pgid st) # itoa (pt_sid st) # go_fields rest" by (rule f)
  qed (use plains(1) in \<open>auto intro: at\<close>)
  then show ?thesis by simp
qed

theorem stat_round_trip_witness:
  "parse_proc_stat (stat_line \<lparr>pt_pid = 7, pt_state = CHR ''S'', pt_ppid = 1, pt_pgid = 7, pt_sid = 5\<rparr> ''a) Z 0 0 (b'' ''0 -1'')
    = Some \<lparr>pt_pid = 7, pt_state = CHR ''S'', pt_ppid = 1, pt_pgid = 7, pt_sid = 5\<rparr>"
  by (rule stat_round_trip) (simp_all add: stat_fits_def plain_def Let_def)

section \<open>Two blind spots\<close>

text \<open>A process whose stat file cannot be read counts as gone, so a process table that hides the others' files
  is taken for one without survivors.\<close>

lemma hidden_processes_unseen:
  assumes "pf_names fs = Some names" and "\<And>p. p \<noteq> self \<Longrightarrow> pf_stat fs p = None" and "pids_agree fs"
  shows "survivors_from_previous_run fs self = (True, False)"
proof -
  have "no_leftover fs self p" if "p \<in> set (live_list fs names)" for p
  proof -
    obtain pid st where p: "p = (pid, st)" by (cases p)
    with that live_list_mem have "read_proc_stat fs pid = Some st" by blast
    moreover from this have "pid = self" using assms(2) [of pid] by (cases "pid = self") (auto simp: read_proc_stat_def)
    ultimately show ?thesis using assms(3) p by (auto simp: no_leftover_def pids_agree_def)
  qed
  with assms(1) show ?thesis by (simp add: survivors_exact list_all_iff)
qed

text \<open>A sweep that found survivors and then cannot list the processes any more reports that nothing remains
  and counts as clean, without having sent a signal.\<close>

lemma unlisted_sweep_clean:
  assumes "job_survivor_pids (sc_first c) job protected = (found, False, True)" and "job \<noteq> ''''"
    and "sc_term c = []" and "pf_names (sc_term_end c) = None"
  shows "\<exists>rep. sweep_job_survivors job protected c = (rep, []) \<and> sweep_clean rep \<and> sw_found rep = found"
  using assms by (auto simp: sweep_job_survivors_def sweep_clean_def job_survivor_pids_form Let_def)

end
