(* ===== verification/Paths.thy ===== *)
theory Paths
  imports Go_Strings "HOL-Library.Sublist"
begin

text \<open>
  The functions of Go's \<open>path\<close> and \<open>path/filepath\<close> (which agree on Unix) and the file
  operations of \<open>os\<close> that the copy commands use. A file system is the list of its entries, each
  under the components of its physical path; the directory at the root has the empty path. The
  kernel's path walk follows at most 40 symbolic links. Permissions, limits on lengths and
  failures of the device are left out.
\<close>

section \<open>Paths as text\<close>

abbreviation slash :: char where
  "slash \<equiv> CHR ''/''"

abbreviation dot_dot :: string where
  "dot_dot \<equiv> ''..''"

definition is_abs :: "string \<Rightarrow> bool" where
  "is_abs p \<longleftrightarrow> has_prefix ''/'' p"

text \<open>\<open>Clean\<close>, component by component; the components kept so far are reversed.\<close>

fun clean_parts :: "bool \<Rightarrow> string list \<Rightarrow> string list \<Rightarrow> string list" where
  "clean_parts rooted kept [] = rev kept"
| "clean_parts rooted kept (c # cs) =
     (if c = '''' \<or> c = ''.'' then clean_parts rooted kept cs
      else if c = dot_dot
        then (case kept of
                [] \<Rightarrow> clean_parts rooted (if rooted then [] else [dot_dot]) cs
              | k # ks \<Rightarrow> clean_parts rooted (if k = dot_dot then dot_dot # kept else ks) cs)
      else clean_parts rooted (c # kept) cs)"

definition path_parts :: "string \<Rightarrow> string list" where
  "path_parts p = clean_parts (is_abs p) [] (split_on slash p)"

definition abs_text :: "string list \<Rightarrow> string" where
  "abs_text cs = slash # join_with slash cs"

definition path_clean :: "string \<Rightarrow> string" where
  "path_clean p =
     (if is_abs p then abs_text (path_parts p)
      else if path_parts p = [] then ''.'' else join_with slash (path_parts p))"

definition path_join :: "string list \<Rightarrow> string" where
  "path_join ps =
     (case dropWhile (\<lambda>p. p = []) ps of [] \<Rightarrow> '''' | qs \<Rightarrow> path_clean (join_with slash qs))"

text \<open>\<open>path.Split\<close>: cut after the last slash.\<close>

definition path_split :: "string \<Rightarrow> string \<times> string" where
  "path_split p =
     (let name = rev (takeWhile (\<lambda>c. c \<noteq> slash) (rev p))
      in (take (length p - length name) p, name))"

definition trim_suffix :: "string \<Rightarrow> string \<Rightarrow> string" where
  "trim_suffix suf s =
     (if has_prefix (rev suf) (rev s) then take (length s - length suf) s else s)"

definition trim_prefix :: "string \<Rightarrow> string \<Rightarrow> string" where
  "trim_prefix pre s = (if has_prefix pre s then drop (length pre) s else s)"

definition path_base :: "string \<Rightarrow> string" where
  "path_base p =
     (let q = rev (dropWhile (\<lambda>c. c = slash) (rev p))
      in if p = [] then ''.'' else if q = [] then ''/'' else snd (path_split q))"

definition path_dir :: "string \<Rightarrow> string" where
  "path_dir p = path_clean (fst (path_split p))"

definition file_abs :: "string \<Rightarrow> string \<Rightarrow> string" where
  "file_abs cwd p = (if is_abs p then path_clean p else path_join [cwd, p])"

text \<open>\<open>filepath.Rel\<close>. \<open>None\<close> is its error.\<close>

fun strip_common :: "string list \<Rightarrow> string list \<Rightarrow> string list \<times> string list" where
  "strip_common (b # bs) (t # ts) = (if b = t then strip_common bs ts else (b # bs, t # ts))"
| "strip_common bs ts = (bs, ts)"

definition file_rel :: "string \<Rightarrow> string \<Rightarrow> string option" where
  "file_rel base targ =
     (if path_clean base = path_clean targ then Some ''.''
      else if is_abs base \<noteq> is_abs targ then None
      else
        (let (b, t) = strip_common (path_parts base)
               (if path_clean targ = ''.'' then [''.''] else path_parts targ)
         in if b \<noteq> [] \<and> t \<noteq> [] \<and> hd b = dot_dot then None
            else Some (join_with slash (replicate (length b) dot_dot @ t))))"

section \<open>Files\<close>

datatype fnode = DirNode int | FileNode string int | LinkNode string

type_synonym files = "(string list \<times> fnode) list"

datatype errno = ENOENT | ENOTDIR | EISDIR | EEXIST | ELOOP | ENOTEMPTY

definition node_at :: "files \<Rightarrow> string list \<Rightarrow> fnode option" where
  "node_at f p = (if p = [] then Some (DirNode 493) else map_of f p)"

definition put_node :: "string list \<Rightarrow> fnode \<Rightarrow> files \<Rightarrow> files" where
  "put_node p n f = (p, n) # filter (\<lambda>e. fst e \<noteq> p) f"

definition drop_node :: "string list \<Rightarrow> files \<Rightarrow> files" where
  "drop_node p f = filter (\<lambda>e. fst e \<noteq> p) f"

fun is_dir_node :: "fnode option \<Rightarrow> bool" where
  "is_dir_node (Some (DirNode m)) = True"
| "is_dir_node _ = False"

text \<open>The kernel's walk from a directory along components: the physical path it ends at, where
  there may be nothing yet. \<open>n\<close> links may still be followed.\<close>

function walk :: "files \<Rightarrow> bool \<Rightarrow> nat \<Rightarrow> string list \<Rightarrow> string list \<Rightarrow> errno + string list" where
  "walk f follow n cur [] = Inr cur"
| "walk f follow n cur (c # cs) =
     (if \<not> is_dir_node (node_at f cur) then Inl ENOTDIR
      else if c = '''' \<or> c = ''.'' then walk f follow n cur cs
      else if c = dot_dot then walk f follow n (butlast cur) cs
      else
        (case node_at f (cur @ [c]) of
           None \<Rightarrow> if cs = [] then Inr (cur @ [c]) else Inl ENOENT
         | Some (LinkNode t) \<Rightarrow>
             if cs = [] \<and> \<not> follow then Inr (cur @ [c])
             else (case n of
                     0 \<Rightarrow> Inl ELOOP
                   | Suc m \<Rightarrow> walk f follow m (if is_abs t then [] else cur) (split_on slash t @ cs))
         | Some _ \<Rightarrow> walk f follow n (cur @ [c]) cs))"
  by pat_completeness auto
termination by (relation "measures [\<lambda>(f, fol, n, cur, cs). n, \<lambda>(f, fol, n, cur, cs). length cs]") auto

definition max_links :: nat where
  "max_links = 40"

definition resolve :: "files \<Rightarrow> bool \<Rightarrow> string \<Rightarrow> errno + string list" where
  "resolve f follow p = walk f follow max_links [] (split_on slash p)"

definition os_stat :: "files \<Rightarrow> string \<Rightarrow> errno + fnode" where
  "os_stat f p =
     (case resolve f True p of
        Inl e \<Rightarrow> Inl e
      | Inr q \<Rightarrow> (case node_at f q of None \<Rightarrow> Inl ENOENT | Some n \<Rightarrow> Inr n))"

definition os_lstat :: "files \<Rightarrow> string \<Rightarrow> errno + fnode" where
  "os_lstat f p =
     (case resolve f False p of
        Inl e \<Rightarrow> Inl e
      | Inr q \<Rightarrow> (case node_at f q of None \<Rightarrow> Inl ENOENT | Some n \<Rightarrow> Inr n))"

text \<open>Each operation returns its error, if any, and the files it leaves. A process creates with
  the mode less the bits of its \<open>umask\<close>.\<close>

type_synonym effect = "errno option \<times> files"

definition create_mode :: "int \<Rightarrow> int \<Rightarrow> int" where
  "create_mode umask m = and m (not umask)"

definition os_mkdir :: "int \<Rightarrow> files \<Rightarrow> string \<Rightarrow> int \<Rightarrow> effect" where
  "os_mkdir umask f p m =
     (case resolve f False p of
        Inl e \<Rightarrow> (Some e, f)
      | Inr q \<Rightarrow>
          (case node_at f q of
             Some _ \<Rightarrow> (Some EEXIST, f)
           | None \<Rightarrow> (None, put_node q (DirNode (create_mode umask m)) f)))"

text \<open>\<open>os.MkdirAll\<close> of a clean absolute path, given by its components.\<close>

function mkdir_all :: "int \<Rightarrow> files \<Rightarrow> string list \<Rightarrow> int \<Rightarrow> effect" where
  "mkdir_all umask f cs m =
     (case os_stat f (abs_text cs) of
        Inr n \<Rightarrow> if is_dir_node (Some n) then (None, f) else (Some ENOTDIR, f)
      | Inl _ \<Rightarrow>
          if cs = [] then os_mkdir umask f (abs_text cs) m
          else
            (case mkdir_all umask f (butlast cs) m of
               (Some e, g) \<Rightarrow> (Some e, g)
             | (None, g) \<Rightarrow>
                 (case os_mkdir umask g (abs_text cs) m of
                    (None, h) \<Rightarrow> (None, h)
                  | (Some e, h) \<Rightarrow>
                      (case os_lstat h (abs_text cs) of
                         Inr n \<Rightarrow> if is_dir_node (Some n) then (None, h) else (Some e, h)
                       | Inl _ \<Rightarrow> (Some e, h)))))"
  by pat_completeness auto
termination by (relation "measure (\<lambda>(u, f, cs, m). length cs)") auto

declare mkdir_all.simps [simp del]

definition os_remove :: "files \<Rightarrow> string \<Rightarrow> effect" where
  "os_remove f p =
     (case resolve f False p of
        Inl e \<Rightarrow> (Some e, f)
      | Inr q \<Rightarrow>
          (case node_at f q of
             None \<Rightarrow> (Some ENOENT, f)
           | Some (DirNode m) \<Rightarrow>
               if q = [] \<or> list_ex (\<lambda>e. fst e \<noteq> [] \<and> butlast (fst e) = q) f then (Some ENOTEMPTY, f)
               else (None, drop_node q f)
           | Some _ \<Rightarrow> (None, drop_node q f)))"

definition os_symlink :: "files \<Rightarrow> string \<Rightarrow> string \<Rightarrow> effect" where
  "os_symlink f target p =
     (if target = [] then (Some ENOENT, f)
      else
        (case resolve f False p of
           Inl e \<Rightarrow> (Some e, f)
         | Inr q \<Rightarrow>
             (case node_at f q of
                Some _ \<Rightarrow> (Some EEXIST, f)
              | None \<Rightarrow> (None, put_node q (LinkNode target) f))))"

text \<open>Open for writing with \<open>O_CREATE|O_TRUNC\<close>, then write \<open>body\<close>; a link is followed, a
  dangling one creates its target.\<close>

definition os_write :: "int \<Rightarrow> files \<Rightarrow> string \<Rightarrow> int \<Rightarrow> string \<Rightarrow> effect" where
  "os_write umask f p m body =
     (case resolve f True p of
        Inl e \<Rightarrow> (Some e, f)
      | Inr q \<Rightarrow>
          (case node_at f q of
             None \<Rightarrow> (None, put_node q (FileNode body (create_mode umask m)) f)
           | Some (FileNode _ m0) \<Rightarrow> (None, put_node q (FileNode body m0) f)
           | Some _ \<Rightarrow> (Some EISDIR, f)))"

definition os_chmod :: "files \<Rightarrow> string \<Rightarrow> int \<Rightarrow> effect" where
  "os_chmod f p m =
     (case resolve f True p of
        Inl e \<Rightarrow> (Some e, f)
      | Inr q \<Rightarrow>
          (case node_at f q of
             None \<Rightarrow> (Some ENOENT, f)
           | Some (FileNode body _) \<Rightarrow> (None, put_node q (FileNode body m) f)
           | Some (DirNode _) \<Rightarrow> (None, if q = [] then f else put_node q (DirNode m) f)
           | Some (LinkNode t) \<Rightarrow> (Some ELOOP, f)))"

section \<open>Facts\<close>

text \<open>Components that name an entry of a directory.\<close>

definition plain :: "string \<Rightarrow> bool" where
  "plain c \<longleftrightarrow> c \<noteq> '''' \<and> c \<noteq> ''.'' \<and> c \<noteq> dot_dot \<and> slash \<notin> set c"

abbreviation plain_all :: "string list \<Rightarrow> bool" where
  "plain_all cs \<equiv> list_all plain cs"

lemma is_abs_abs_text [simp]: "is_abs (abs_text cs)"
  by (simp add: is_abs_def abs_text_def)

lemma clean_parts_plain:
  assumes "plain_all kept" and "\<forall>c \<in> set cs. slash \<notin> set c"
  shows "plain_all (clean_parts True kept cs)"
  using assms
proof (induction "True" kept cs rule: clean_parts.induct)
  case (2 kept c cs)
  then show ?case by (cases kept) (auto simp: plain_def)
qed (simp add: list_all_iff)

lemma path_parts_plain: "is_abs p \<Longrightarrow> plain_all (path_parts p)"
  unfolding path_parts_def using clean_parts_plain[of "[]" "split_on slash p"] split_on_parts by auto

lemma clean_parts_id:
  "plain_all cs \<Longrightarrow> clean_parts rooted kept cs = rev kept @ cs"
  by (induction cs arbitrary: kept) (auto simp: plain_def)

lemma split_abs_text:
  assumes "plain_all cs"
  shows "split_on slash (abs_text cs) = '''' # (if cs = [] then [''''] else cs)"
proof (cases "cs = []")
  case False
  then have "split_on slash (join_with slash cs) = cs"
    using assms by (intro split_on_join) (auto simp: list_all_iff plain_def)
  with False show ?thesis by (simp add: abs_text_def)
qed (simp add: abs_text_def)

lemma path_parts_abs [simp]: "plain_all cs \<Longrightarrow> path_parts (abs_text cs) = cs"
  by (simp add: path_parts_def split_abs_text clean_parts_id)

lemma path_clean_abs: "is_abs p \<Longrightarrow> path_clean p = abs_text (path_parts p)"
  by (simp add: path_clean_def)

lemma is_abs_append: "is_abs p \<Longrightarrow> is_abs (p @ q)"
  by (auto simp: is_abs_def has_prefix_iff)

lemma path_join_abs:
  assumes "is_abs p"
  obtains cs where "path_join [p, q] = abs_text cs" "plain_all cs"
proof -
  have "p \<noteq> []" using assms by (auto simp: is_abs_def)
  then have "path_join [p, q] = path_clean (p @ [slash] @ q)" by (simp add: path_join_def)
  moreover have "is_abs (p @ [slash] @ q)" using assms by (rule is_abs_append)
  ultimately show ?thesis using that path_clean_abs path_parts_plain by metis
qed

lemma file_abs_text:
  assumes "is_abs cwd"
  obtains cs where "file_abs cwd p = abs_text cs" "plain_all cs"
proof (cases "is_abs p")
  case True
  then show ?thesis using that path_clean_abs path_parts_plain by (simp add: file_abs_def)
next
  case False
  obtain cs where "path_join [cwd, p] = abs_text cs" "plain_all cs" using assms by (rule path_join_abs)
  with False that show ?thesis by (simp add: file_abs_def)
qed

lemma strip_common_eq:
  "strip_common bs ts = (b, t) \<Longrightarrow> \<exists>pre. bs = pre @ b \<and> ts = pre @ t"
proof (induction bs ts rule: strip_common.induct)
  case (1 x bs y ts)
  then show ?case by (cases "x = y") (auto intro: exI[of _ "y # _"])
qed auto

lemma join_Cons: "join_with d (w # ws) = w @ (if ws = [] then [] else d # join_with d ws)"
  by (cases ws) auto

lemma file_rel_inside:
  assumes "plain_all bs" and "plain_all ts" and "file_rel (abs_text bs) (abs_text ts) = Some rel"
    and "rel \<noteq> dot_dot" and "\<not> has_prefix ''../'' rel"
  shows "prefix bs ts"
proof -
  obtain b t where bt: "strip_common bs ts = (b, t)" by (cases "strip_common bs ts")
  then obtain pre where pre: "bs = pre @ b" "ts = pre @ t" using strip_common_eq by blast
  have clean: "path_clean (abs_text xs) = abs_text xs" if "plain_all xs" for xs
    using that by (simp add: path_clean_abs)
  show ?thesis
  proof (cases "bs = ts")
    case False
    have inj: "abs_text bs \<noteq> abs_text ts" using False assms(1,2) path_parts_abs by metis
    have "abs_text ts \<noteq> ''.''" by (simp add: abs_text_def)
    then have "rel = join_with slash (replicate (length b) dot_dot @ t)"
      using assms(1-3) bt inj by (auto simp: file_rel_def clean split: if_splits)
    then have "b = []"
      using assms(4,5) by (cases b) (auto simp: join_Cons split: if_splits)
    with pre show ?thesis by simp
  qed simp
qed

lemma abs_text_snoc: "cs \<noteq> [] \<Longrightarrow> abs_text (cs @ [c]) = abs_text cs @ slash # c"
  by (induction cs) (auto simp: abs_text_def join_Cons)

lemma path_split_at: "slash \<notin> set c \<Longrightarrow> path_split (p @ slash # c) = (p @ [slash], c)"
proof -
  assume "slash \<notin> set c"
  then have "takeWhile (\<lambda>c. c \<noteq> slash) (rev c @ slash # rev p) = rev c"
    by (subst takeWhile_append2) auto
  then show ?thesis by (simp add: path_split_def)
qed

lemma split_on_snoc: "split_on d (p @ [d]) = split_on d p @ [[]]"
  by (induction p) (auto split: list.splits)

lemma clean_parts_snoc: "clean_parts rooted kept (cs @ ['''']) = clean_parts rooted kept cs"
  by (induction rooted kept cs rule: clean_parts.induct) (auto split: list.splits)

lemma path_dir_abs:
  assumes "plain_all cs"
  shows "path_dir (abs_text cs) = abs_text (butlast cs)"
proof (cases cs rule: rev_cases)
  case Nil
  then show ?thesis by (simp add: path_dir_def path_split_def abs_text_def path_clean_def is_abs_def path_parts_def)
next
  case (snoc bs c)
  have c: "slash \<notin> set c" and bs: "plain_all bs" using assms snoc by (auto simp: plain_def)
  obtain p where p: "abs_text cs = p @ slash # c" "p = (if bs = [] then [] else abs_text bs)"
    using snoc abs_text_snoc[of bs c] by (cases "bs = []") (auto simp: abs_text_def)
  have rooted: "is_abs (p @ [slash])" by (auto simp: p(2) is_abs_def abs_text_def)
  then have "path_parts (p @ [slash]) = bs"
    using p(2) bs by (auto simp: path_parts_def split_on_snoc clean_parts_snoc split_abs_text clean_parts_id)
  then show ?thesis
    using snoc p path_split_at[OF c] rooted by (simp add: path_dir_def path_clean_abs)
qed

text \<open>One step of a walk.\<close>

lemma walk_dir: "walk f fol n cur (c # cs) = Inr q \<Longrightarrow> is_dir_node (node_at f cur)"
  by (simp split: if_splits)

lemma walk_skip:
  "is_dir_node (node_at f cur) \<Longrightarrow> c = '''' \<or> c = ''.'' \<Longrightarrow> walk f fol n cur (c # cs) = walk f fol n cur cs"
  by simp

lemma walk_missing:
  assumes "is_dir_node (node_at f cur)" and "c \<notin> {'''', ''.'', dot_dot}" and "node_at f (cur @ [c]) = None"
  shows "walk f fol n cur (c # cs) = (if cs = [] then Inr (cur @ [c]) else Inl ENOENT)"
  using assms by simp

lemma walk_into:
  assumes "is_dir_node (node_at f cur)" and "c \<notin> {'''', ''.'', dot_dot}" and "node_at f (cur @ [c]) = Some nd"
    and "\<forall>t. nd \<noteq> LinkNode t"
  shows "walk f fol n cur (c # cs) = walk f fol n (cur @ [c]) cs"
  using assms by (cases nd) simp_all

lemma walk_link:
  assumes "is_dir_node (node_at f cur)" and "c \<notin> {'''', ''.'', dot_dot}"
    and "node_at f (cur @ [c]) = Some (LinkNode t)"
  shows "walk f fol n cur (c # cs) =
           (if cs = [] \<and> \<not> fol then Inr (cur @ [c])
            else (case n of
                    0 \<Rightarrow> Inl ELOOP
                  | Suc m \<Rightarrow> walk f fol m (if is_abs t then [] else cur) (split_on slash t @ cs)))"
  using assms by simp

lemma root_is_dir [simp]: "is_dir_node (node_at f [])"
  by (simp add: node_at_def)

lemma resolve_abs:
  assumes "plain_all cs"
  shows "resolve f fol (abs_text cs) = walk f fol max_links [] cs"
proof -
  have "resolve f fol (abs_text cs) = walk f fol max_links [] (if cs = [] then [''''] else cs)"
    unfolding resolve_def split_abs_text[OF assms] by (rule walk_skip) simp_all
  then show ?thesis by (cases "cs = []") simp_all
qed

declare walk.simps(2) [simp del]

end
