(* ===== verification/Client.thy ===== *)
theory Client
  imports Client_API
begin

text \<open>
  The HTTP client every command uses (\<open>src/internal/client/client.go\<close>): the request each method
  sends, in the types of the handlers of \<open>Client_API\<close>, what it makes of the answer, and the two
  polling loops. An answer is a failed round trip, or a status with the body decoded into what
  the method reads and the error code the body carries.
\<close>

section \<open>Answers and errors\<close>

datatype 'a answer = NoAnswer | Response nat "'a option" string

fun answer_of :: "'a reply \<Rightarrow> 'a answer" where
  "answer_of (Reply st v) = Response st (Some v) ''''"
| "answer_of (ReplyErr st e) = Response st None e"

datatype client_error =
    TransportFailed
  | Undecodable
  | ErrNoDevice
  | ErrNotCancellable
  | APIError nat string
  | SubSecondLimit
  | LogsNotStored
  | ContextEnded
  | GaveUp nat "job_state option"
  | WaitTimedOut "job_state option"

text \<open>What every method with a body does: \<open>do\<close>, the status check, \<open>apiError\<close>, the decode.\<close>

definition read_answer :: "nat \<Rightarrow> 'a answer \<Rightarrow> client_error + 'a" where
  "read_answer ok a =
     (case a of
        NoAnswer \<Rightarrow> Inl TransportFailed
      | Response st v e \<Rightarrow>
          if st \<noteq> ok then Inl (APIError st e)
          else (case v of None \<Rightarrow> Inl Undecodable | Some x \<Rightarrow> Inr x))"

definition client_state :: "state_response answer \<Rightarrow> client_error + state_response" where
  "client_state = read_answer 200"

definition client_explain :: "explain_response answer \<Rightarrow> client_error + explain_response" where
  "client_explain = read_answer 200"

definition client_describe :: "describe_response answer \<Rightarrow> client_error + describe_response" where
  "client_describe = read_answer 200"

definition client_job_view :: "(job_row \<times> nat) answer \<Rightarrow> client_error + job_row \<times> nat" where
  "client_job_view = read_answer 200"

definition client_job :: "(job_row \<times> nat) answer \<Rightarrow> client_error + job_row" where
  "client_job a = map_sum id fst (client_job_view a)"

section \<open>Listing jobs\<close>

record jobs_options =
  jo_limit :: int
  jo_device :: string
  jo_submitter :: string
  jo_state :: string

definition jobs_query :: "jobs_options \<Rightarrow> list_query" where
  "jobs_query o' =
     \<lparr>lq_limit = (if jo_limit o' \<noteq> 0 then Some (itoa (jo_limit o')) else None), lq_state = jo_state o',
      lq_device = jo_device o', lq_submitter = jo_submitter o'\<rparr>"

definition client_jobs :: "job_row list answer \<Rightarrow> client_error + job_row list" where
  "client_jobs = read_answer 200"

section \<open>Submitting and holding\<close>

record submit_options =
  so_device_id :: string
  so_selector :: string
  so_command :: "string list"
  so_cwd :: string
  so_env :: "(string \<times> string) list"
  so_submitter :: string
  so_idempotency_key :: string
  so_priority :: int
  so_max_runtime :: duration
  so_idle_timeout :: duration
  so_no_wait :: bool
  so_kind :: string
  so_reason :: string
  so_stdio :: string

definition sub_second :: "duration \<Rightarrow> bool" where
  "sub_second d \<longleftrightarrow> 0 < d \<and> d < go_second"

definition submit_payload :: "submit_options \<Rightarrow> client_error + submit_request" where
  "submit_payload o' =
     (if sub_second (so_max_runtime o') then Inl SubSecondLimit
      else if sub_second (so_idle_timeout o') then Inl SubSecondLimit
      else Inr
        \<lparr>sb_device_id = so_device_id o', sb_selector = so_selector o', sb_command = so_command o',
         sb_cwd = so_cwd o', sb_env = so_env o', sb_submitter = so_submitter o',
         sb_idempotency_key = so_idempotency_key o', sb_priority = so_priority o',
         sb_max_runtime_seconds = whole_seconds (so_max_runtime o'),
         sb_idle_timeout_seconds = whole_seconds (so_idle_timeout o'), sb_no_wait = so_no_wait o',
         sb_kind = so_kind o', sb_reason = so_reason o', sb_stdio = so_stdio o'\<rparr>)"

definition submit_result :: "job_row answer \<Rightarrow> client_error + job_row" where
  "submit_result a =
     (case a of
        NoAnswer \<Rightarrow> Inl TransportFailed
      | Response st v e \<Rightarrow> if st = 409 then Inl ErrNoDevice else read_answer 201 a)"

text \<open>A submission against whatever answers the request.\<close>

definition client_submit :: "(submit_request \<Rightarrow> job_row answer) \<Rightarrow> submit_options \<Rightarrow> client_error + job_row" where
  "client_submit post o' =
     (case submit_payload o' of Inl e \<Rightarrow> Inl e | Inr req \<Rightarrow> submit_result (post req))"

record hold_options =
  ho_device_id :: string
  ho_selector :: string
  ho_submitter :: string
  ho_reason :: string
  ho_ttl :: duration

definition hold_submission :: "hold_options \<Rightarrow> submit_options" where
  "hold_submission h =
     \<lparr>so_device_id = ho_device_id h, so_selector = ho_selector h, so_command = [], so_cwd = '''', so_env = [],
      so_submitter = ho_submitter h, so_idempotency_key = '''', so_priority = 0, so_max_runtime = ho_ttl h,
      so_idle_timeout = 0, so_no_wait = False, so_kind = LeaseKindHold, so_reason = ho_reason h,
      so_stdio = StdioLogs\<rparr>"

definition client_hold :: "(submit_request \<Rightarrow> job_row answer) \<Rightarrow> hold_options \<Rightarrow> client_error + job_row" where
  "client_hold post h = client_submit post (hold_submission h)"

section \<open>Killing, clearing, retiring, logs\<close>

text \<open>\<open>None\<close> is success.\<close>

definition kill_result :: "unit answer \<Rightarrow> client_error option" where
  "kill_result a =
     (case a of
        NoAnswer \<Rightarrow> Some TransportFailed
      | Response st v e \<Rightarrow>
          if st = 200 then None
          else if st = 409 then Some ErrNotCancellable
          else Some (APIError st e))"

definition clear_result :: "unit answer \<Rightarrow> client_error option" where
  "clear_result a =
     (case a of
        NoAnswer \<Rightarrow> Some TransportFailed
      | Response st v e \<Rightarrow> if st \<noteq> 200 then Some (APIError st e) else None)"

definition retire_result :: "string answer \<Rightarrow> client_error + string" where
  "retire_result a =
     (case a of
        NoAnswer \<Rightarrow> Inl TransportFailed
      | Response st v e \<Rightarrow>
          if st \<noteq> 200 then Inl (APIError st e) else Inr (case v of None \<Rightarrow> '''' | Some note \<Rightarrow> note))"

text \<open>What is copied to the output, and the error; the body of a log stream may break off.\<close>

datatype log_body = LogBody string bool

definition copy_logs :: "log_body answer \<Rightarrow> string \<times> client_error option" where
  "copy_logs a =
     (case read_answer 200 a of
        Inl e \<Rightarrow> ('''', Some e)
      | Inr (LogBody s whole) \<Rightarrow> (s, if whole then None else Some TransportFailed))"

definition client_logs ::
  "(job_row \<times> nat) answer \<Rightarrow> (bool \<Rightarrow> log_body answer) \<Rightarrow> bool \<Rightarrow> string \<times> client_error option" where
  "client_logs view fetch follow =
     (case client_job view of
        Inl e \<Rightarrow> ('''', Some e)
      | Inr j \<Rightarrow> if stdio_attached (j_stdio j) then ('''', Some LogsNotStored) else copy_logs (fetch follow))"

section \<open>Waiting for a job to leave the queue\<close>

abbreviation max_scheduled_poll_failures :: nat where
  "max_scheduled_poll_failures \<equiv> 16"

text \<open>One turn of a loop: the answer to its poll, whether the caller's context had ended when
  the poll had failed, and whether the wait after it ended by the end of a context.\<close>

record poll =
  po_answer :: "(job_row \<times> nat) answer"
  po_ended :: bool
  po_woken :: bool

text \<open>The outcome, \<open>None\<close> while more turns are to come, and the positions shown.\<close>

fun wait_scheduled :: "int \<Rightarrow> nat \<Rightarrow> poll list \<Rightarrow> (client_error + job_row) option \<times> int list" where
  "wait_scheduled shown failures [] = (None, [])"
| "wait_scheduled shown failures (p # ps) =
     (case client_job_view (po_answer p) of
        Inl e \<Rightarrow>
          if po_ended p then (Some (Inl ContextEnded), [])
          else if Suc failures > max_scheduled_poll_failures
            then (Some (Inl (GaveUp (Suc failures) None)), [])
          else if po_woken p then (Some (Inl ContextEnded), [])
          else wait_scheduled shown (Suc failures) ps
      | Inr (j, pos) \<Rightarrow>
          if j_state j \<noteq> JobQueued then (Some (Inr j), [])
          else
            (let note = (if int pos \<noteq> shown then [int pos] else [])
             in if po_woken p then (Some (Inl ContextEnded), note)
                else apsnd (\<lambda>rest. note @ rest) (wait_scheduled (int pos) 0 ps)))"

definition client_wait_scheduled :: "poll list \<Rightarrow> (client_error + job_row) option \<times> int list" where
  "client_wait_scheduled = wait_scheduled (- 1) 0"

section \<open>Waiting for a job to end\<close>

abbreviation max_poll_failures :: nat where
  "max_poll_failures \<equiv> 5"

text \<open>Here the wait after a poll ends by the caller's context or by the bound on the whole call.\<close>

datatype wake = TimerFired | CallerEnded | BoundElapsed

record final_poll =
  fp_answer :: "(job_row \<times> nat) answer"
  fp_ended :: bool
  fp_wake :: wake

fun wait_terminal :: "job_state option \<Rightarrow> nat \<Rightarrow> final_poll list \<Rightarrow> (client_error + job_row) option" where
  "wait_terminal seen failures [] = None"
| "wait_terminal seen failures (p # ps) =
     (let go = (\<lambda>st n.
            case fp_wake p of
              CallerEnded \<Rightarrow> Some (Inl ContextEnded)
            | BoundElapsed \<Rightarrow> Some (Inl (WaitTimedOut st))
            | TimerFired \<Rightarrow> wait_terminal st n ps)
      in case client_job (fp_answer p) of
           Inr j \<Rightarrow> if terminal (j_state j) then Some (Inr j) else go (Some (j_state j)) 0
         | Inl e \<Rightarrow>
             if fp_ended p then Some (Inl ContextEnded)
             else if Suc failures > max_poll_failures then Some (Inl (GaveUp (Suc failures) seen))
             else go seen (Suc failures))"

definition client_wait_terminal :: "final_poll list \<Rightarrow> (client_error + job_row) option" where
  "client_wait_terminal = wait_terminal None 0"

end
