(* ===== verification/Copy.thy ===== *)
theory Copy
  imports Paths Client
begin

text \<open>
  \<open>rc cp\<close> (\<open>src/internal/client/cp.go\<close>, \<open>src/internal/cli/cp.go\<close>): which argument is remote,
  where the two sides of a copy land, the lease a copy takes, the archive written from a local
  tree, and the extraction of an archive that a device sent, over the files of \<open>Paths\<close>.
\<close>

section \<open>Arguments\<close>

datatype cp_arg_error = NotADevicePath | NamesNoPath

text \<open>Before and after the last colon.\<close>

definition last_colon :: "string \<Rightarrow> (string \<times> string) option" where
  "last_colon s =
     (if CHR '':'' \<notin> set s then None
      else (let after = rev (takeWhile (\<lambda>c. c \<noteq> CHR '':'') (rev s))
            in Some (take (length s - length after - 1) s, after)))"

definition parse_cp_arg :: "string \<Rightarrow> cp_arg_error + bool \<times> string \<times> string" where
  "parse_cp_arg arg =
     (case last_colon arg of
        None \<Rightarrow> Inr (False, '''', arg)
      | Some (front, after) \<Rightarrow>
          (case cut_at '':'' front of
             None \<Rightarrow>
               if after \<noteq> '''' \<and> has_prefix ''/'' after then Inl NotADevicePath else Inr (False, '''', arg)
           | Some (host, name) \<Rightarrow>
               if host = '''' \<or> name = '''' \<or> CHR '':'' \<in> set name then Inr (False, '''', arg)
               else if after = '''' then Inl NamesNoPath
               else Inr (True, front, after)))"

record copy_options =
  co_device_id :: string
  co_local :: string
  co_remote :: string
  co_submitter :: string

datatype cp_request = RequestTo copy_options | RequestFrom copy_options

datatype cp_error = BadCpArg cp_arg_error | BothRemote | NoneRemote

definition cp_command :: "string \<Rightarrow> string \<Rightarrow> string \<Rightarrow> cp_error + cp_request" where
  "cp_command submitter src dst =
     (case parse_cp_arg src of
        Inl e \<Rightarrow> Inl (BadCpArg e)
      | Inr (src_remote, src_device, src_path) \<Rightarrow>
          (case parse_cp_arg dst of
             Inl e \<Rightarrow> Inl (BadCpArg e)
           | Inr (dst_remote, dst_device, dst_path) \<Rightarrow>
               if src_remote \<and> dst_remote then Inl BothRemote
               else if \<not> src_remote \<and> \<not> dst_remote then Inl NoneRemote
               else if dst_remote
                 then Inr (RequestTo \<lparr>co_device_id = dst_device, co_local = src_path, co_remote = dst_path,
                                       co_submitter = submitter\<rparr>)
               else Inr (RequestFrom \<lparr>co_device_id = src_device, co_local = dst_path, co_remote = src_path,
                                       co_submitter = submitter\<rparr>)))"

section \<open>Where a copy lands\<close>

definition ends_in_slash :: "string \<Rightarrow> bool" where
  "ends_in_slash p \<longleftrightarrow> has_prefix ''/'' (rev p)"

definition untail :: "string \<Rightarrow> string" where
  "untail p = trim_suffix ''/'' p"

definition or_dot :: "string \<Rightarrow> string" where
  "or_dot p = (if p = '''' then ''.'' else p)"

text \<open>The far directory and the name of the top entry there.\<close>

definition copy_to_target :: "copy_options \<Rightarrow> string \<times> string" where
  "copy_to_target o' =
     (let (dir, name) = path_split (untail (co_remote o'));
          (dir', name') = (if ends_in_slash (co_remote o') \<or> name = ''''
                           then (untail (co_remote o'), path_base (co_local o')) else (dir, name))
      in (or_dot dir', name'))"

definition copy_to_command :: "copy_options \<Rightarrow> string list" where
  "copy_to_command o' =
     [''/bin/sh'', ''-c'', ''mkdir -p \"$0\" && exec tar -xf - -C \"$0\"'', untail (fst (copy_to_target o'))]"

text \<open>What is asked of the far side; \<open>None\<close> when the path names no file.\<close>

definition copy_from_command :: "copy_options \<Rightarrow> string list option" where
  "copy_from_command o' =
     (let (dir, name) = path_split (untail (co_remote o'))
      in if name = '''' then None
         else Some [''/bin/sh'', ''-c'', ''exec tar -cf - -C \"$0\" -- \"$1\"'', untail (or_dot dir), name])"

text \<open>The local directory an archive is extracted into, and the new name of its top entry.\<close>

definition copy_from_target :: "bool \<Rightarrow> copy_options \<Rightarrow> string \<times> string" where
  "copy_from_target local_is_dir o' =
     (let (dest, rename) =
            (if local_is_dir \<or> ends_in_slash (co_local o') then (untail (co_local o'), '''')
             else (path_dir (co_local o'), path_base (co_local o')))
      in (or_dot dest, rename))"

section \<open>The lease of a copy\<close>

datatype copy_error =
    CopyClient client_error
  | HeldByAnother
  | HeldByYou
  | NoSuchDevice
  | NamesNoFile
  | LocalUnreadable
  | SendFailed
  | ReceiveFailed
  | CopyJobEnded job_state string

fun check_holder :: "copy_options \<Rightarrow> bool \<Rightarrow> device_view list \<Rightarrow> copy_error option" where
  "check_holder o' found [] = (if found then None else Some NoSuchDevice)"
| "check_holder o' found (d # ds) =
     (if d_id (dv_device d) \<noteq> co_device_id o' then check_holder o' found ds
      else if dv_holder d \<noteq> '''' \<and> dv_holder d \<noteq> co_submitter o' then Some HeldByAnother
      else if dv_holder d = co_submitter o' then Some HeldByYou
      else check_holder o' True ds)"

definition copy_submission :: "copy_options \<Rightarrow> string \<Rightarrow> string list \<Rightarrow> submit_options" where
  "copy_submission o' key command =
     \<lparr>so_device_id = co_device_id o', so_selector = '''', so_command = command, so_cwd = '''', so_env = [],
      so_submitter = co_submitter o', so_idempotency_key = key, so_priority = 0, so_max_runtime = 0,
      so_idle_timeout = 0, so_no_wait = True, so_kind = '''', so_reason = '''', so_stdio = StdioPipe\<rparr>"

definition submit_copy_job ::
  "state_response answer \<Rightarrow> (submit_request \<Rightarrow> job_row answer) \<Rightarrow> string \<Rightarrow> copy_options \<Rightarrow> string list
     \<Rightarrow> copy_error + job_row" where
  "submit_copy_job state post key o' command =
     (case client_state state of
        Inl e \<Rightarrow> Inl (CopyClient e)
      | Inr st \<Rightarrow>
          (case check_holder o' False (st_devices st) of
             Some e \<Rightarrow> Inl e
           | None \<Rightarrow>
               (case client_submit post (copy_submission o' key command) of
                  Inl ErrNoDevice \<Rightarrow> Inl HeldByAnother
                | Inl e \<Rightarrow> Inl (CopyClient e)
                | Inr j \<Rightarrow> Inr j)))"

text \<open>The end of the far job. Its log holds the complaint of \<open>tar\<close>, when there is one.\<close>

definition await_copy :: "client_error + job_row \<Rightarrow> log_body answer \<Rightarrow> copy_error option" where
  "await_copy waited logs =
     (case waited of
        Inl e \<Rightarrow> Some (CopyClient e)
      | Inr final \<Rightarrow>
          if j_state final = JobSucceeded then None
          else
            (let (text, err) = copy_logs logs;
                 reason = (if err = None \<and> text \<noteq> '''' then trim_space text else j_kill_reason final)
             in Some (CopyJobEnded (j_state final)
                        (if reason = '''' then ''no further detail available'' else reason))))"

section \<open>The archive of a local tree\<close>

text \<open>What \<open>Lstat\<close> and \<open>ReadDir\<close> say of a local path, directories with their entries in name
  order; a file carries its mode. A device or a fifo has its mode only; a socket, which ends
  the walk with an error, is left out.\<close>

datatype src_tree =
    SrcFile int string
  | SrcLink string
  | SrcDir int "(string \<times> src_tree) list"
  | SrcOther int

datatype tar_type = TypeReg | TypeDir | TypeSymlink | TypeOther

record tar_header =
  hd_name :: string
  hd_type :: tar_type
  hd_mode :: int
  hd_link :: string
  hd_uid :: int
  hd_gid :: int

definition tar_entry :: "string \<Rightarrow> src_tree \<Rightarrow> tar_header \<times> string" where
  "tar_entry name t =
     (case t of
        SrcFile m body \<Rightarrow>
          (\<lparr>hd_name = name, hd_type = TypeReg, hd_mode = m, hd_link = '''', hd_uid = 0, hd_gid = 0\<rparr>, body)
      | SrcLink target \<Rightarrow>
          (\<lparr>hd_name = name, hd_type = TypeSymlink, hd_mode = 511, hd_link = target, hd_uid = 0, hd_gid = 0\<rparr>, '''')
      | SrcDir m es \<Rightarrow>
          (\<lparr>hd_name = name @ ''/'', hd_type = TypeDir, hd_mode = m, hd_link = '''', hd_uid = 0, hd_gid = 0\<rparr>, '''')
      | SrcOther m \<Rightarrow>
          (\<lparr>hd_name = name, hd_type = TypeOther, hd_mode = m, hd_link = '''', hd_uid = 0, hd_gid = 0\<rparr>, ''''))"

text \<open>The walk, from the components below the source.\<close>

fun walk_tree :: "string \<Rightarrow> string list \<Rightarrow> src_tree \<Rightarrow> (tar_header \<times> string) list"
  and walk_entries :: "string \<Rightarrow> string list \<Rightarrow> (string \<times> src_tree) list \<Rightarrow> (tar_header \<times> string) list" where
  "walk_tree as_name rel t =
     tar_entry (if rel = [] then as_name else path_join [as_name, join_with slash rel]) t #
     (case t of SrcDir m es \<Rightarrow> walk_entries as_name rel es | _ \<Rightarrow> [])"
| "walk_entries as_name rel [] = []"
| "walk_entries as_name rel (e # es) =
     (case e of (n, t) \<Rightarrow> walk_tree as_name (rel @ [n]) t @ walk_entries as_name rel es)"

definition write_tar_stream :: "string \<Rightarrow> src_tree \<Rightarrow> (tar_header \<times> string) list" where
  "write_tar_stream as_name t = walk_tree as_name [] t"

section \<open>Extraction\<close>

datatype extract_error = AbsoluteName | EscapesRoot | LinkOut | FileError errno | BadArchive

definition safe_join :: "string \<Rightarrow> string \<Rightarrow> extract_error + string" where
  "safe_join dst name =
     (if is_abs name then Inl AbsoluteName
      else
        (let target = path_join [dst, name]
         in case file_rel dst target of
              None \<Rightarrow> Inl EscapesRoot
            | Some rel \<Rightarrow>
                if rel = dot_dot \<or> has_prefix ''../'' rel then Inl EscapesRoot else Inr target))"

text \<open>The name an entry gets: with \<open>rename\<close>, its first component is replaced.\<close>

definition entry_name :: "string \<Rightarrow> string \<Rightarrow> string" where
  "entry_name rename name =
     (if rename = '''' then name
      else
        (case cut_at ''/'' (trim_prefix ''./'' (path_clean name)) of
           None \<Rightarrow> rename
         | Some (first, rest) \<Rightarrow> rename @ ''/'' @ rest))"

definition file_perm :: "int \<Rightarrow> int" where
  "file_perm m = m mod 512"

text \<open>What the reader of the archive gives: an entry, with as much of its body as there is and
  whether that is all of it, or an error. The end of the list is the end of the archive.\<close>

datatype tar_read = TarEntry tar_header string bool | TarBroken

type_synonym extraction = "extract_error option \<times> files"

definition then_do :: "effect \<Rightarrow> (files \<Rightarrow> extraction) \<Rightarrow> extraction" where
  "then_do r k = (case r of (Some e, f) \<Rightarrow> (Some (FileError e), f) | (None, f) \<Rightarrow> k f)"

definition extract_link :: "int \<Rightarrow> string \<Rightarrow> string \<Rightarrow> files \<Rightarrow> extraction" where
  "extract_link umask target link f =
     (case safe_join (path_dir target) link of
        Inl e \<Rightarrow> (Some LinkOut, f)
      | Inr t \<Rightarrow>
          then_do (mkdir_all umask f (path_parts (path_dir target)) 493) (\<lambda>g.
            then_do (os_symlink (snd (os_remove g target)) link target) (\<lambda>h. (None, h))))"

definition extract_file :: "int \<Rightarrow> string \<Rightarrow> int \<Rightarrow> string \<Rightarrow> bool \<Rightarrow> files \<Rightarrow> extraction" where
  "extract_file umask target m body whole f =
     then_do (mkdir_all umask f (path_parts (path_dir target)) 493) (\<lambda>g.
       then_do (os_write umask g target (file_perm m) body) (\<lambda>h.
         if \<not> whole then (Some BadArchive, h)
         else then_do (os_chmod h target (file_perm m)) (\<lambda>k. (None, k))))"

definition extract_entry :: "int \<Rightarrow> string \<Rightarrow> string \<Rightarrow> tar_header \<Rightarrow> string \<Rightarrow> bool \<Rightarrow> files \<Rightarrow> extraction" where
  "extract_entry umask dst rename hdr body whole f =
     (case safe_join dst (entry_name rename (hd_name hdr)) of
        Inl e \<Rightarrow> (Some e, f)
      | Inr target \<Rightarrow>
          (case hd_type hdr of
             TypeDir \<Rightarrow>
               then_do (mkdir_all umask f (path_parts target) (file_perm (hd_mode hdr))) (\<lambda>g. (None, g))
           | TypeSymlink \<Rightarrow> extract_link umask target (hd_link hdr) f
           | TypeReg \<Rightarrow> extract_file umask target (hd_mode hdr) body whole f
           | TypeOther \<Rightarrow> (None, f)))"

fun extract_entries :: "int \<Rightarrow> string \<Rightarrow> string \<Rightarrow> tar_read list \<Rightarrow> files \<Rightarrow> extraction" where
  "extract_entries umask dst rename [] f = (None, f)"
| "extract_entries umask dst rename (TarBroken # es) f = (Some BadArchive, f)"
| "extract_entries umask dst rename (TarEntry hdr body whole # es) f =
     (case extract_entry umask dst rename hdr body whole f of
        (Some e, g) \<Rightarrow> (Some e, g)
      | (None, g) \<Rightarrow> extract_entries umask dst rename es g)"

definition extract_tar :: "int \<Rightarrow> string \<Rightarrow> string \<Rightarrow> string \<Rightarrow> tar_read list \<Rightarrow> files \<Rightarrow> extraction" where
  "extract_tar umask cwd dest rename es f =
     (let dst = file_abs cwd dest
      in then_do (mkdir_all umask f (path_parts dst) 493) (\<lambda>g. extract_entries umask dst rename es g))"

section \<open>The two directions\<close>

text \<open>What happens around a copy: the local side, the controller's answers, the two streams of
  the relay and the wait for the far job.\<close>

record copy_env =
  ce_local :: "src_tree option"
  ce_local_is_dir :: bool
  ce_cwd :: string
  ce_umask :: int
  ce_state :: "state_response answer"
  ce_post :: "submit_request \<Rightarrow> job_row answer"
  ce_key :: string
  ce_attach :: "client_error option"
  ce_sent :: bool
  ce_archive :: "tar_read list"
  ce_waited :: "client_error + job_row"
  ce_logs :: "log_body answer"

text \<open>The archive \<open>CopyTo\<close> sends, when it gets to send one, and its error.\<close>

definition copy_to :: "copy_env \<Rightarrow> copy_options \<Rightarrow> (tar_header \<times> string) list \<times> copy_error option" where
  "copy_to w o' =
     (case ce_local w of
        None \<Rightarrow> ([], Some LocalUnreadable)
      | Some t \<Rightarrow>
          (case submit_copy_job (ce_state w) (ce_post w) (ce_key w) o' (copy_to_command o') of
             Inl e \<Rightarrow> ([], Some e)
           | Inr j \<Rightarrow>
               (case ce_attach w of
                  Some e \<Rightarrow> ([], Some (CopyClient e))
                | None \<Rightarrow>
                    (write_tar_stream (snd (copy_to_target o')) t,
                     if \<not> ce_sent w then Some SendFailed else await_copy (ce_waited w) (ce_logs w)))))"

definition copy_from :: "copy_env \<Rightarrow> copy_options \<Rightarrow> files \<Rightarrow> files \<times> copy_error option" where
  "copy_from w o' f =
     (case copy_from_command o' of
        None \<Rightarrow> (f, Some NamesNoFile)
      | Some command \<Rightarrow>
          (case submit_copy_job (ce_state w) (ce_post w) (ce_key w) o' command of
             Inl e \<Rightarrow> (f, Some e)
           | Inr j \<Rightarrow>
               (case ce_attach w of
                  Some e \<Rightarrow> (f, Some (CopyClient e))
                | None \<Rightarrow>
                    (let (dest, rename) = copy_from_target (ce_local_is_dir w) o'
                     in case extract_tar (ce_umask w) (ce_cwd w) dest rename (ce_archive w) f of
                          (Some e, g) \<Rightarrow> (g, Some ReceiveFailed)
                        | (None, g) \<Rightarrow> (g, await_copy (ce_waited w) (ce_logs w))))))"

end
