(* ===== verification/Copy_Claims.thy ===== *)
theory Copy_Claims
  imports Copy Server_Claims
begin

text \<open>
  Properties of \<open>rc cp\<close>: which archives an extraction keeps inside its destination and which it
  does not, which argument is remote, whose device a copy may take, and what it reports of a
  failure.
\<close>

section \<open>Walks that stay below a directory\<close>













section \<open>What the file operations change\<close>



















section \<open>Extraction\<close>








text \<open>A home directory with a destination, and archives off a device.\<close>

definition ex_home :: files where
  "ex_home = [([''home''], DirNode 493), ([''home'', ''me''], DirNode 493),
     ([''home'', ''me'', ''dst''], DirNode 493), ([''home'', ''me'', ''.bashrc''], FileNode ''alias'' 420)]"

definition ex_entry :: "string \<Rightarrow> tar_type \<Rightarrow> string \<Rightarrow> string \<Rightarrow> tar_read" where
  "ex_entry name ty link body =
     TarEntry \<lparr>hd_name = name, hd_type = ty, hd_mode = 420, hd_link = link, hd_uid = 0, hd_gid = 0\<rparr> body True"






text \<open>
  The check of an archive's links is on the cleaned text of the target, and the kernel does
  not clean: \<open>x -> .\<close> and then \<open>y -> x/..\<close> both pass, \<open>y\<close> leads to the parent of the destination,
  and the entry \<open>y/.bashrc\<close> overwrites a file there. A link in the place of an empty destination
  does the same without any \<open>..\<close>.
\<close>

theorem link_check_lexical:
  "node_at (snd (extract_tar 18 ''/home/me'' ''dst'' ''''
      [ex_entry ''x'' TypeSymlink ''.'' '''', ex_entry ''y'' TypeSymlink ''x/..'' '''',
       ex_entry ''y/.bashrc'' TypeReg '''' ''evil''] ex_home)) [''home'', ''me'', ''.bashrc'']
     = Some (FileNode ''evil'' 420)
   \<and> node_at (snd (extract_tar 18 ''/home/me'' ''dst'' ''''
      [ex_entry ''.'' TypeSymlink ''other'' '''',
       ex_entry ''new'' TypeReg '''' ''evil''] (put_node [''home'', ''me'', ''other''] (DirNode 493) ex_home)))
       [''home'', ''me'', ''other'', ''new''] = Some (FileNode ''evil'' 420)"
  by code_simp

section \<open>Arguments, targets, errors\<close>

lemma last_colon_at:
  assumes "CHR '':'' \<notin> set after"
  shows "last_colon (front @ CHR '':'' # after) = Some (front, after)"
proof -
  have "takeWhile (\<lambda>c. c \<noteq> CHR '':'') (rev (front @ CHR '':'' # after)) = rev after"
    using assms by (simp add: takeWhile_append2 del: takeWhile.simps) (subst takeWhile_append2, auto)
  then show ?thesis by (simp add: last_colon_def)
qed

lemma last_colon_Some:
  "last_colon s = Some (front, after) \<longleftrightarrow> s = front @ '':'' @ after \<and> CHR '':'' \<notin> set after"
proof
  assume l: "last_colon s = Some (front, after)"
  then have "CHR '':'' \<in> set s" by (simp add: last_colon_def split: if_splits)
  then obtain f a where s: "s = f @ CHR '':'' # a" "CHR '':'' \<notin> set a"
    using split_list_last by metis
  then show "s = front @ '':'' @ after \<and> CHR '':'' \<notin> set after"
    using l last_colon_at[OF s(2), of f] by simp
next
  assume "s = front @ '':'' @ after \<and> CHR '':'' \<notin> set after"
  then show "last_colon s = Some (front, after)" using last_colon_at[of after front] by simp
qed

lemma cut_colon:
  "cut_at '':'' s = Some (h, n) \<longleftrightarrow> s = h @ '':'' @ n \<and> CHR '':'' \<notin> set h"
proof -
  have "CHR '':'' \<notin> set h" if "cut_at '':'' s = Some (h, n)" for h
    using that by (induction s arbitrary: h) (auto split: if_splits)
  then show ?thesis using cut_Some[of "'':''" s h n] cut_first[of "CHR '':''" h "[]" n] by auto
qed

text \<open>
  An argument of \<open>rc cp\<close> is remote exactly when it is \<open>host:name:path\<close>: two colons, neither
  half of the device nor the path empty. Anything else stays on this machine or is refused.
\<close>

theorem remote_argument_exact:
  "parse_cp_arg arg = Inr (True, device, path) \<longleftrightarrow>
     (\<exists>host name. device = host @ '':'' @ name \<and> arg = device @ '':'' @ path \<and> host \<noteq> '''' \<and> name \<noteq> ''''
        \<and> path \<noteq> '''' \<and> CHR '':'' \<notin> set host \<and> CHR '':'' \<notin> set name \<and> CHR '':'' \<notin> set path)"
proof
  assume r: "parse_cp_arg arg = Inr (True, device, path)"
  then obtain host name where "last_colon arg = Some (device, path)" "cut_at '':'' device = Some (host, name)"
      "host \<noteq> ''''" "name \<noteq> ''''" "CHR '':'' \<notin> set name" "path \<noteq> ''''"
    by (auto simp: parse_cp_arg_def split: option.splits if_splits prod.splits)
  then show "\<exists>host name. device = host @ '':'' @ name \<and> arg = device @ '':'' @ path \<and> host \<noteq> '''' \<and> name \<noteq> ''''
        \<and> path \<noteq> '''' \<and> CHR '':'' \<notin> set host \<and> CHR '':'' \<notin> set name \<and> CHR '':'' \<notin> set path"
    unfolding last_colon_Some cut_colon by blast
next
  assume "\<exists>host name. device = host @ '':'' @ name \<and> arg = device @ '':'' @ path \<and> host \<noteq> '''' \<and> name \<noteq> ''''
        \<and> path \<noteq> '''' \<and> CHR '':'' \<notin> set host \<and> CHR '':'' \<notin> set name \<and> CHR '':'' \<notin> set path"
  then obtain host name where e: "host \<noteq> ''''" "name \<noteq> ''''" "path \<noteq> ''''" "CHR '':'' \<notin> set name"
      "last_colon arg = Some (device, path)" "cut_at '':'' device = Some (host, name)"
    unfolding last_colon_Some cut_colon by blast
  then show "parse_cp_arg arg = Inr (True, device, path)" by (simp add: parse_cp_arg_def)
qed

text \<open>Whom a copy asks for a lease: the device is in the fleet and nobody holds it, the submitter
  included; the submission names it, does not queue and is attached.\<close>

lemma check_holder_None:
  "check_holder o' found ds = None \<longleftrightarrow>
     (found \<or> (\<exists>d \<in> set ds. d_id (dv_device d) = co_device_id o'))
     \<and> (\<forall>d \<in> set ds. d_id (dv_device d) = co_device_id o' \<longrightarrow> dv_holder d = '''' \<and> co_submitter o' \<noteq> '''')"
  by (induction o' found ds rule: check_holder.induct) auto

lemma copy_takes_free_device:
  assumes "submit_copy_job (Response 200 (Some st) e) post key o' command = Inr j"
  shows "list_ex (\<lambda>d. d_id (dv_device d) = co_device_id o') (st_devices st)"
    and "list_all (\<lambda>d. d_id (dv_device d) \<noteq> co_device_id o' \<or> dv_holder d = '''') (st_devices st)"
    and "submit_payload (copy_submission o' key command) = Inr req \<Longrightarrow>
           sb_device_id req = co_device_id o' \<and> sb_no_wait req \<and> sb_stdio req = StdioPipe"
  using assms check_holder_None[of o' False "st_devices st"]
  by (auto simp: submit_copy_job_def client_state_def read_answer_def list_ex_iff list_all_iff
      submit_payload_def copy_submission_def sub_second_def split: option.splits)

text \<open>
  What a failed copy reports. A copy's job is attached, and the controller serves no log of an
  attached job, so against it the reason is the kill reason of the job row or the text that there
  is no further detail: the complaint of \<open>tar\<close>, which the worker uploads to the job's log, never
  reaches the user.
\<close>

theorem copy_reason_without_log:
  assumes "get_job job (sv_db sv) = Inr j" and "j_stdio j = StdioPipe"
  shows "await_copy (Inr final) (answer_of (map_reply body (snd (handle_stream_logs job None sv)))) =
    (if j_state final = JobSucceeded then None
     else Some (CopyJobEnded (j_state final)
       (if j_kill_reason final = '''' then ''no further detail available'' else j_kill_reason final)))"
  using assms
  by (simp add: handle_stream_logs_def stdio_attached_def await_copy_def copy_logs_def read_answer_def)

definition ex_copy_sv :: server where
  "ex_copy_sv = ex_server\<lparr>sv_db := ex_fleet\<lparr>jobs := [(ex_job ''j7'' ''h:0'' '''' JobFailed ''w'' 0)\<lparr>j_stdio := StdioPipe\<rparr>]\<rparr>\<rparr>"

theorem copy_reason_without_log_witness:
  "\<exists>j. get_job ''j7'' (sv_db ex_copy_sv) = Inr j \<and> j_state j = JobFailed \<and>
     await_copy (Inr j) (answer_of (map_reply (\<lambda>l. LogBody ''tar: disk full'' True) (snd (handle_stream_logs ''j7'' None ex_copy_sv))))
       = Some (CopyJobEnded JobFailed ''no further detail available'')"
proof -
  let ?j = "(ex_job ''j7'' ''h:0'' '''' JobFailed ''w'' 0)\<lparr>j_stdio := StdioPipe\<rparr>"
  have j: "get_job ''j7'' (sv_db ex_copy_sv) = Inr ?j" "j_stdio ?j = StdioPipe" "j_state ?j = JobFailed"
      "j_kill_reason ?j = ''''"
    by (simp_all add: get_job_def ex_copy_sv_def ex_job_def)
  show ?thesis using copy_reason_without_log[OF j(1,2), of ?j] j by (intro exI[of _ ?j]) simp
qed

text \<open>
  The directory of a file at the top of the far file system is \<open>/\<close>, which loses its slash on the
  way to the command: \<open>mkdir\<close> and \<open>tar\<close> get an empty name. A copy into \<open>/\<close> itself goes to the
  working directory of the job instead, and one fetched into \<open>/\<close> to that of the command.
\<close>

lemma copy_at_top:
  assumes "slash \<notin> set name" and "name \<noteq> ''''"
  shows "co_remote o' = ''/'' @ name \<Longrightarrow> List.last (copy_to_command o') = ''''"
    and "co_remote o' = ''/'' @ name \<Longrightarrow> copy_from_command o' = Some [''/bin/sh'', ''-c'', ''exec tar -cf - -C \"$0\" -- \"$1\"'', '''', name]"
    and "co_remote o' = ''/'' \<Longrightarrow> fst (copy_to_target o') = ''.''"
    and "co_local o' = ''/'' \<Longrightarrow> copy_from_target True o' = (''.'', '''')"
proof -
  have split: "path_split (slash # name) = (''/'', name)" using path_split_at[OF assms(1), of "[]"] by simp
  obtain c cs where rev: "rev name = c # cs" "c \<noteq> slash" using assms by (cases "rev name") auto
  have keep: "untail (slash # name) = slash # name"
    using rev by (simp add: untail_def trim_suffix_def)
  have no_slash: "\<not> ends_in_slash (slash # name)" using rev by (simp add: ends_in_slash_def)
  have top: "untail ''/'' = ''''" by code_simp
  show "co_remote o' = ''/'' @ name \<Longrightarrow> List.last (copy_to_command o') = ''''"
    using assms by (simp add: copy_to_command_def copy_to_target_def keep split no_slash or_dot_def top)
  show "co_remote o' = ''/'' @ name \<Longrightarrow>
      copy_from_command o' = Some [''/bin/sh'', ''-c'', ''exec tar -cf - -C \"$0\" -- \"$1\"'', '''', name]"
    using assms by (simp add: copy_from_command_def keep split or_dot_def top)
  show "co_remote o' = ''/'' \<Longrightarrow> fst (copy_to_target o') = ''.''"
    by (simp add: copy_to_target_def top path_split_def or_dot_def ends_in_slash_def)
  show "co_local o' = ''/'' \<Longrightarrow> copy_from_target True o' = (''.'', '''')"
    by (simp add: copy_from_target_def top or_dot_def)
qed

end
