(* ===== verification/Commands.thy ===== *)
theory Commands
  imports Client Paths
begin

text \<open>
  The commands that take and give back devices (\<open>src/internal/cli\<close>: \<open>userconfig.go\<close>, \<open>run.go\<close>,
  \<open>hold.go\<close>, \<open>kill.go\<close>, \<open>logs.go\<close>, \<open>clear.go\<close>, \<open>retire.go\<close>) and the exit status \<open>cmd/rc/main.go\<close>
  makes of their result. A command is a function from its flags and from what it meets, the
  answers of the controller and the signals, to what it does, in order, and its result;
  the result is \<open>None\<close> while it still waits.
\<close>

section \<open>Who runs a command, and where the controller is\<close>

record user_config =
  uc_controller :: string
  uc_token :: string
  uc_submitter :: string

definition no_user_config :: user_config where
  "no_user_config = \<lparr>uc_controller = '''', uc_token = '''', uc_submitter = ''''\<rparr>"

text \<open>The environment: variables (empty when unset), the directory for configuration, the host.\<close>

record shell =
  sh_getenv :: "string \<Rightarrow> string"
  sh_config_dir :: "string option"
  sh_hostname :: string

definition user_config_path :: "shell \<Rightarrow> string option" where
  "user_config_path sh =
     (let v = trim_space (sh_getenv sh ''RC_CONFIG'')
      in if v \<noteq> '''' then Some v
         else map_option (\<lambda>dir. path_join [dir, ''rc'', ''config.yaml'']) (sh_config_dir sh))"

text \<open>Reading the file: it may be missing, unreadable, malformed, or hold the three fields.\<close>

datatype config_file = ConfigMissing | ConfigUnreadable | ConfigMalformed | ConfigRead user_config

definition load_user_config :: "shell \<Rightarrow> (string \<Rightarrow> config_file) \<Rightarrow> bool \<times> user_config" where
  "load_user_config sh read_file =
     (case user_config_path sh of
        None \<Rightarrow> (False, no_user_config)
      | Some path \<Rightarrow>
          (case read_file path of
             ConfigMissing \<Rightarrow> (True, no_user_config)
           | ConfigUnreadable \<Rightarrow> (False, no_user_config)
           | ConfigMalformed \<Rightarrow> (False, no_user_config)
           | ConfigRead c \<Rightarrow>
               (True, \<lparr>uc_controller = trim_space (uc_controller c), uc_token = trim_space (uc_token c),
                       uc_submitter = trim_space (uc_submitter c)\<rparr>)))"

text \<open>One field; a configuration that cannot be used counts as empty, with a warning.\<close>

definition user_config_value :: "shell \<Rightarrow> (string \<Rightarrow> config_file) \<Rightarrow> (user_config \<Rightarrow> string) \<Rightarrow> string" where
  "user_config_value sh read_file pick =
     (case load_user_config sh read_file of (ok, c) \<Rightarrow> if ok then pick c else '''')"

definition default_submitter :: "shell \<Rightarrow> (string \<Rightarrow> config_file) \<Rightarrow> string" where
  "default_submitter sh read_file =
     (let s = trim_space (sh_getenv sh ''RC_SUBMITTER'');
          c = user_config_value sh read_file uc_submitter;
          user = sh_getenv sh ''USER'';
          session = sh_getenv sh ''CLAUDE_SESSION_ID''
      in if s \<noteq> '''' then s
         else if c \<noteq> '''' then c
         else if session \<noteq> '''' then user @ ''@'' @ sh_hostname sh @ ''/'' @ session
         else user @ ''@'' @ sh_hostname sh)"

definition controller_url :: "shell \<Rightarrow> (string \<Rightarrow> config_file) \<Rightarrow> string" where
  "controller_url sh read_file =
     (let v = sh_getenv sh ''RC_CONTROLLER''; c = user_config_value sh read_file uc_controller
      in if v \<noteq> '''' then v else if c \<noteq> '''' then c else ''http://localhost:8080'')"

definition controller_token :: "shell \<Rightarrow> (string \<Rightarrow> config_file) \<Rightarrow> string" where
  "controller_token sh read_file =
     (let v = sh_getenv sh ''RC_TOKEN''
      in if v \<noteq> '''' then v else user_config_value sh read_file uc_token)"

section \<open>Results and exit status\<close>

datatype cmd_error =
    Usage string
  | CmdClient client_error
  | Busy
  | GaveUpWaiting client_error
  | LostTrack string client_error
  | NeverStarted string job_state string
  | AlreadyOver string job_state
  | JobEnded string job_state string
  | AttachFailed
  | NotConfirmed

datatype cmd_result = CmdOk | CmdExit int | CmdFailed cmd_error

abbreviation sigint_exit_code :: int where
  "sigint_exit_code \<equiv> 130"

text \<open>\<open>main\<close>: the parent sees the low eight bits of the code given to \<open>os.Exit\<close>.\<close>

definition exit_status :: "cmd_result \<Rightarrow> int" where
  "exit_status r = (case r of CmdOk \<Rightarrow> 0 | CmdExit c \<Rightarrow> c mod 256 | CmdFailed e \<Rightarrow> 1)"

definition safe_exit_code :: "int \<Rightarrow> int" where
  "safe_exit_code code = (if code \<noteq> 0 \<and> code mod 256 = 0 then 1 else code)"

text \<open>The requests a command makes and the notes it prints.\<close>

datatype cmd_step =
    DoSubmit submit_request
  | DoExplain string
  | DoWaitScheduled string
  | DoKill string string
  | DoLookUp string
  | DoStream string
  | DoAttach string
  | DoWaitTerminal string
  | NoteQueued int
  | NoteJobOn string string
  | NoteDetached string
  | NoteStreamEnded
  | NoteReason string
  | NoteCannotCancel
  | NoteKillRequested
  | NoteStartedAnyway
  | NoteCancelled
  | NoteStillRunning
  | NoteFinishedFirst
  | NoteHoldGranted string time
  | NoteReleased
  | NoteCannotRelease
  | NoteHoldEnded string job_state

definition or_no_detail :: "string \<Rightarrow> string" where
  "or_no_detail s = (if s = '''' then ''no further detail available'' else s)"

section \<open>Cancelling a queued job\<close>

text \<open>What the controller says of a kill, and of the job looked up after it.\<close>

record cancel_world =
  cw_kill :: "unit answer"
  cw_job :: "(job_row \<times> nat) answer"

definition report_cancelled_queued_job :: "cancel_world \<Rightarrow> string \<Rightarrow> cmd_step list" where
  "report_cancelled_queued_job w job =
     DoLookUp job #
     (case client_job (cw_job w) of
        Inl e \<Rightarrow> [NoteKillRequested]
      | Inr current \<Rightarrow>
          if j_state current = JobAssigned \<or> j_state current = JobRunning
          then [NoteStartedAnyway] else [NoteCancelled])"

definition report_uncancellable_queued_job :: "cancel_world \<Rightarrow> string \<Rightarrow> cmd_step list" where
  "report_uncancellable_queued_job w job =
     DoLookUp job #
     (case client_job (cw_job w) of
        Inl e \<Rightarrow> [NoteFinishedFirst]
      | Inr current \<Rightarrow>
          if j_state current = JobAssigned \<or> j_state current = JobRunning
          then [NoteStillRunning] else [NoteFinishedFirst])"

definition cancel_queued_job :: "cancel_world \<Rightarrow> string \<Rightarrow> string \<Rightarrow> cmd_step list" where
  "cancel_queued_job w submitter job =
     DoKill job submitter #
     (case kill_result (cw_kill w) of
        None \<Rightarrow> report_cancelled_queued_job w job
      | Some e \<Rightarrow>
          if e = ErrNotCancellable then report_uncancellable_queued_job w job else [NoteCannotCancel])"

section \<open>Running a job\<close>

record run_flags =
  rf_device :: string
  rf_selector :: string
  rf_explain :: bool
  rf_cwd :: string
  rf_as :: string
  rf_priority :: int
  rf_max_runtime :: duration
  rf_idle_timeout :: duration
  rf_timeout :: duration
  rf_no_wait :: bool
  rf_tty :: bool
  rf_args :: "string list"

text \<open>What a run meets: the answers, the polls of its two waits, and at each point where the code
  asks, whether a signal had ended its context or \<open>--timeout\<close> the wait.\<close>

record run_world =
  rw_default_submitter :: string
  rw_key :: string
  rw_explain :: "explain_response answer"
  rw_post :: "submit_request \<Rightarrow> job_row answer"
  rw_polls :: "poll list"
  rw_interrupted_queued :: bool
  rw_timed_out :: bool
  rw_cancel :: cancel_world
  rw_stream_error :: bool
  rw_interrupted_stream :: bool
  rw_final :: "final_poll list"
  rw_interrupted_final :: bool

definition default_tty_command :: "string list" where
  "default_tty_command = [''/bin/sh'', ''-c'', ''exec $(command -v bash || command -v sh) -i'']"

definition submitter_of :: "string \<Rightarrow> string \<Rightarrow> string" where
  "submitter_of as fallback = (if as = '''' then fallback else as)"

definition run_submission :: "run_flags \<Rightarrow> run_world \<Rightarrow> submit_options" where
  "run_submission fl w =
     \<lparr>so_device_id = rf_device fl, so_selector = rf_selector fl,
      so_command = (if rf_tty fl \<and> rf_args fl = [] then default_tty_command else rf_args fl),
      so_cwd = rf_cwd fl, so_env = [], so_submitter = submitter_of (rf_as fl) (rw_default_submitter w),
      so_idempotency_key = rw_key w, so_priority = rf_priority fl, so_max_runtime = rf_max_runtime fl,
      so_idle_timeout = rf_idle_timeout fl, so_no_wait = rf_no_wait fl, so_kind = '''', so_reason = '''',
      so_stdio = (if rf_tty fl then StdioTTY else StdioLogs)\<rparr>"

text \<open>The wait in the queue: the steps, and the job that left it or the result of the command.\<close>

definition never_started :: "job_row \<Rightarrow> bool" where
  "never_started j \<longleftrightarrow> terminal (j_state j) \<and> j_started_at j = None"

definition run_queued :: "run_flags \<Rightarrow> run_world \<Rightarrow> job_row \<Rightarrow> cmd_step list \<times> (cmd_result option + job_row)" where
  "run_queued fl w job =
     (if j_state job \<noteq> JobQueued then ([], Inr job)
      else
        (let (outcome, shown) = client_wait_scheduled (rw_polls w);
             steps = DoWaitScheduled (j_id job) # map NoteQueued shown;
             cancel = cancel_queued_job (rw_cancel w) (submitter_of (rf_as fl) (rw_default_submitter w)) (j_id job)
         in case outcome of
              None \<Rightarrow> (steps, Inl None)
            | Some (Inr j) \<Rightarrow>
                if never_started j
                then (steps, Inl (Some (CmdFailed (NeverStarted (j_id j) (j_state j) (or_no_detail (j_kill_reason j))))))
                else (steps, Inr j)
            | Some (Inl e) \<Rightarrow>
                if rw_interrupted_queued w then (steps @ cancel, Inl (Some (CmdExit sigint_exit_code)))
                else if 0 < rf_timeout fl \<and> rw_timed_out w
                  then (steps @ cancel, Inl (Some (CmdFailed (GaveUpWaiting e))))
                else (steps, Inl (Some (CmdFailed (LostTrack (j_id job) e))))))"

definition run_verdict :: "job_row \<Rightarrow> cmd_step list \<times> cmd_result" where
  "run_verdict final =
     (case j_exit_code final of
        Some c \<Rightarrow>
          if c \<noteq> 0
          then (if j_kill_reason final \<noteq> '''' then [NoteReason (j_kill_reason final)] else [],
                CmdExit (safe_exit_code c))
          else if j_state final \<noteq> JobSucceeded
            then ([], CmdFailed (JobEnded (j_id final) (j_state final) (or_no_detail (j_kill_reason final))))
          else ([], CmdOk)
      | None \<Rightarrow>
          if j_state final \<noteq> JobSucceeded
            then ([], CmdFailed (JobEnded (j_id final) (j_state final) (or_no_detail (j_kill_reason final))))
          else ([], CmdOk))"

definition run_follow :: "run_flags \<Rightarrow> run_world \<Rightarrow> job_row \<Rightarrow> cmd_step list \<times> cmd_result option" where
  "run_follow fl w job =
     (let on = [NoteJobOn (j_id job) (j_device_id job), if rf_tty fl then DoAttach (j_id job) else DoStream (j_id job)];
          detached = (\<lambda>steps. (steps @ [NoteDetached (j_id job)], Some (CmdExit sigint_exit_code)))
      in if rw_interrupted_stream w then detached on
         else
           (let steps = on @ (if rw_stream_error w then [NoteStreamEnded] else []) @ [DoWaitTerminal (j_id job)]
            in case client_wait_terminal (rw_final w) of
                 None \<Rightarrow> (steps, None)
               | Some r \<Rightarrow>
                   if rw_interrupted_final w then detached steps
                   else
                     (case r of
                        Inl e \<Rightarrow> (steps, Some (CmdFailed (CmdClient e)))
                      | Inr final \<Rightarrow>
                          (let (notes, res) = run_verdict final in (steps @ notes, Some res)))))"

definition run_submit :: "run_flags \<Rightarrow> run_world \<Rightarrow> cmd_step list \<times> cmd_result option" where
  "run_submit fl w =
     (let sent = (case submit_payload (run_submission fl w) of Inl e \<Rightarrow> [] | Inr req \<Rightarrow> [DoSubmit req])
      in case client_submit (rw_post w) (run_submission fl w) of
           Inl e \<Rightarrow> (sent, Some (CmdFailed (if e = ErrNoDevice then Busy else CmdClient e)))
         | Inr job \<Rightarrow>
             (case run_queued fl w job of
                (steps, Inl res) \<Rightarrow> (sent @ steps, res)
              | (steps, Inr j) \<Rightarrow>
                  (let (more_steps, res) = run_follow fl w j in (sent @ steps @ more_steps, res))))"

definition run_cmd :: "run_flags \<Rightarrow> run_world \<Rightarrow> cmd_step list \<times> cmd_result option" where
  "run_cmd fl w =
     (if \<not> rf_explain fl \<and> \<not> rf_tty fl \<and> rf_args fl = [] then ([], Some (CmdFailed (Usage ''args'')))
      else if rf_device fl \<noteq> '''' \<and> rf_selector fl \<noteq> '''' then ([], Some (CmdFailed (Usage ''device and selector'')))
      else if rf_explain fl then
        (if rf_selector fl = '''' then ([], Some (CmdFailed (Usage ''explain'')))
         else
           ([DoExplain (rf_selector fl)],
            Some (case client_explain (rw_explain w) of Inl e \<Rightarrow> CmdFailed (CmdClient e) | Inr r \<Rightarrow> CmdOk)))
      else if rf_device fl = '''' \<and> rf_selector fl = '''' then ([], Some (CmdFailed (Usage ''device'')))
      else run_submit fl w)"

section \<open>Holding a device\<close>

record hold_flags =
  hf_device :: string
  hf_selector :: string
  hf_ttl :: duration
  hf_reason :: string
  hf_as :: string

record hold_world =
  hw_default_submitter :: string
  hw_post :: "submit_request \<Rightarrow> job_row answer"
  hw_polls :: "poll list"
  hw_interrupted_queued :: bool
  hw_cancel :: cancel_world
  hw_now :: time
  hw_final :: "final_poll list"
  hw_interrupted_granted :: bool
  hw_release :: "unit answer"

definition hold_queued :: "hold_flags \<Rightarrow> hold_world \<Rightarrow> job_row \<Rightarrow> cmd_step list \<times> (cmd_result option + job_row)" where
  "hold_queued fl w job =
     (if j_state job \<noteq> JobQueued then ([], Inr job)
      else
        (let (outcome, shown) = client_wait_scheduled (hw_polls w);
             steps = DoWaitScheduled (j_id job) # map NoteQueued shown
         in case outcome of
              None \<Rightarrow> (steps, Inl None)
            | Some (Inr j) \<Rightarrow>
                if never_started j
                then (steps, Inl (Some (CmdFailed (NeverStarted (j_id j) (j_state j) (or_no_detail (j_kill_reason j))))))
                else (steps, Inr j)
            | Some (Inl e) \<Rightarrow>
                if hw_interrupted_queued w
                then (steps @ cancel_queued_job (hw_cancel w) (submitter_of (hf_as fl) (hw_default_submitter w)) (j_id job),
                      Inl (Some (CmdExit sigint_exit_code)))
                else (steps, Inl (Some (CmdFailed (LostTrack (j_id job) e))))))"

definition hold_granted :: "hold_flags \<Rightarrow> hold_world \<Rightarrow> job_row \<Rightarrow> cmd_step list \<times> cmd_result option" where
  "hold_granted fl w job =
     (let expires = (case j_started_at job of None \<Rightarrow> hw_now w | Some t \<Rightarrow> from_unix t) + hf_ttl fl;
          steps = [NoteHoldGranted (j_device_id job) expires, DoWaitTerminal (j_id job)]
      in case client_wait_terminal (hw_final w) of
           None \<Rightarrow> (steps, None)
         | Some r \<Rightarrow>
             if hw_interrupted_granted w
             then (steps @ [DoKill (j_id job) (submitter_of (hf_as fl) (hw_default_submitter w)),
                            if kill_result (hw_release w) = None then NoteReleased else NoteCannotRelease],
                   Some (CmdExit sigint_exit_code))
             else
               (case r of
                  Inl e \<Rightarrow> (steps, Some (CmdFailed (CmdClient e)))
                | Inr final \<Rightarrow> (steps @ [NoteHoldEnded (j_kill_reason final) (j_state final)], Some CmdOk)))"

definition hold_cmd :: "hold_flags \<Rightarrow> hold_world \<Rightarrow> cmd_step list \<times> cmd_result option" where
  "hold_cmd fl w =
     (if hf_device fl \<noteq> '''' \<and> hf_selector fl \<noteq> '''' then ([], Some (CmdFailed (Usage ''device and selector'')))
      else if hf_device fl = '''' \<and> hf_selector fl = '''' then ([], Some (CmdFailed (Usage ''device'')))
      else if trim_space (hf_reason fl) = '''' then ([], Some (CmdFailed (Usage ''reason'')))
      else if hf_ttl fl \<le> 0 then ([], Some (CmdFailed (Usage ''ttl'')))
      else
        (let h = \<lparr>ho_device_id = hf_device fl, ho_selector = hf_selector fl,
                  ho_submitter = submitter_of (hf_as fl) (hw_default_submitter w),
                  ho_reason = hf_reason fl, ho_ttl = hf_ttl fl\<rparr>;
             sent = (case submit_payload (hold_submission h) of Inl e \<Rightarrow> [] | Inr req \<Rightarrow> [DoSubmit req])
         in case client_hold (hw_post w) h of
              Inl e \<Rightarrow> (sent, Some (CmdFailed (CmdClient e)))
            | Inr job \<Rightarrow>
                (case hold_queued fl w job of
                   (steps, Inl res) \<Rightarrow> (sent @ steps, res)
                 | (steps, Inr j) \<Rightarrow>
                     if terminal (j_state j)
                     then (sent @ steps, Some (CmdFailed (AlreadyOver (j_id j) (j_state j))))
                     else (let (more_steps, res) = hold_granted fl w j in (sent @ steps @ more_steps, res)))))"

section \<open>The short commands\<close>

definition done_or :: "client_error option \<Rightarrow> cmd_result" where
  "done_or e = (case e of None \<Rightarrow> CmdOk | Some err \<Rightarrow> CmdFailed (CmdClient err))"

definition kill_cmd :: "string \<Rightarrow> string \<Rightarrow> string \<Rightarrow> unit answer \<Rightarrow> cmd_step list \<times> cmd_result" where
  "kill_cmd as fallback job a = ([DoKill job (submitter_of as fallback)], done_or (kill_result a))"

definition release_cmd :: "string \<Rightarrow> string \<Rightarrow> string \<Rightarrow> unit answer \<Rightarrow> cmd_step list \<times> cmd_result" where
  "release_cmd as fallback job a =
     ([DoKill job (submitter_of as fallback)] @ (if kill_result a = None then [NoteReleased] else []),
      done_or (kill_result a))"

definition clear_cmd :: "unit answer \<Rightarrow> cmd_result" where
  "clear_cmd a = done_or (clear_result a)"

text \<open>What is printed as a note, and the result.\<close>

definition retire_cmd :: "bool \<Rightarrow> string answer \<Rightarrow> string \<times> cmd_result" where
  "retire_cmd yes a =
     (if \<not> yes then ('''', CmdFailed NotConfirmed)
      else
        (case retire_result a of
           Inl e \<Rightarrow> ('''', CmdFailed (CmdClient e))
         | Inr note \<Rightarrow> (note, CmdOk)))"

text \<open>The output, and the result; \<open>ended\<close> is whether a signal had come.\<close>

definition attach_cmd :: "log_body answer \<Rightarrow> bool \<Rightarrow> string \<times> cmd_result" where
  "attach_cmd a ended =
     (case copy_logs a of
        (out, None) \<Rightarrow> (out, CmdOk)
      | (out, Some e) \<Rightarrow> (out, if ended then CmdExit sigint_exit_code else CmdFailed (CmdClient e)))"

definition logs_cmd ::
  "(job_row \<times> nat) answer \<Rightarrow> (bool \<Rightarrow> log_body answer) \<Rightarrow> bool \<Rightarrow> bool \<Rightarrow> string \<times> cmd_result" where
  "logs_cmd view fetch follow ended =
     (case client_logs view fetch follow of
        (out, None) \<Rightarrow> (out, CmdOk)
      | (out, Some e) \<Rightarrow>
          (out, if follow \<and> ended then CmdExit sigint_exit_code else CmdFailed (CmdClient e)))"

end
