(* ===== verification/Command_Claims.thy ===== *)
theory Command_Claims
  imports Commands Server_Claims
begin

text \<open>
  Properties of the client library and of \<open>rc run\<close>: how patient a wait in the queue is, when a run
  kills its job, what its exit status says, and what a submission means at the controller.
\<close>

section \<open>The two waits\<close>

definition still_queued :: "poll \<Rightarrow> bool" where
  "still_queued p =
     (case client_job_view (po_answer p) of Inl e \<Rightarrow> True | Inr (j, pos) \<Rightarrow> j_state j = JobQueued)"

definition poll_failed :: "poll \<Rightarrow> bool" where
  "poll_failed p = (case client_job_view (po_answer p) of Inl e \<Rightarrow> True | Inr v \<Rightarrow> False)"

definition undisturbed :: "poll \<Rightarrow> bool" where
  "undisturbed p \<longleftrightarrow> \<not> po_ended p \<and> \<not> po_woken p"

lemma wait_scheduled_left:
  "fst (wait_scheduled shown n ps) = Some (Inr j) \<Longrightarrow> j_state j \<noteq> JobQueued"
proof (induction ps arbitrary: shown n)
  case (Cons p ps)
  show ?case
  proof (cases "client_job_view (po_answer p)")
    case (Inl e)
    with Cons show ?thesis by (auto split: if_splits)
  next
    case (Inr v)
    obtain j' pos where "v = (j', pos)" by (cases v)
    with Inr Cons show ?thesis by (auto simp: Let_def split: if_splits)
  qed
qed simp

lemma wait_scheduled_stopped:
  "fst (wait_scheduled shown n ps) = Some (Inl e) \<Longrightarrow>
     \<exists>pre rest. ps = pre @ rest \<and> list_all still_queued pre \<and> fst (wait_scheduled shown n pre) = Some (Inl e)"
proof (induction ps arbitrary: shown n)
  case (Cons p ps)
  show ?case
  proof (cases "client_job_view (po_answer p)")
    case (Inl err)
    then have q: "still_queued p" by (simp add: still_queued_def)
    show ?thesis
    proof (cases "po_ended p \<or> Suc n > max_scheduled_poll_failures \<or> po_woken p")
      case True
      then have "fst (wait_scheduled shown n [p]) = Some (Inl e)" using Cons(2) Inl by (auto split: if_splits)
      with q show ?thesis by (intro exI[of _ "[p]"] exI[of _ ps]) auto
    next
      case False
      then obtain pre rest where "ps = pre @ rest" "list_all still_queued pre"
          "fst (wait_scheduled shown (Suc n) pre) = Some (Inl e)"
        using Cons.IH[of shown "Suc n"] Cons(2) Inl by auto
      with q False Inl show ?thesis by (intro exI[of _ "p # pre"] exI[of _ rest]) auto
    qed
  next
    case (Inr v)
    obtain j pos where v: "v = (j, pos)" by (cases v)
    show ?thesis
    proof (cases "j_state j \<noteq> JobQueued \<or> po_woken p")
      case True
      then have "fst (wait_scheduled shown n [p]) = Some (Inl e)" "still_queued p"
        using Cons(2) Inr v by (auto simp: still_queued_def Let_def split: if_splits)
      then show ?thesis by (intro exI[of _ "[p]"] exI[of _ ps]) auto
    next
      case False
      then obtain pre rest where "ps = pre @ rest" "list_all still_queued pre"
          "fst (wait_scheduled (int pos) 0 pre) = Some (Inl e)"
        using Cons.IH[of "int pos" 0] Cons(2) Inr v by (auto simp: Let_def)
      moreover have "still_queued p" using False Inr v by (simp add: still_queued_def)
      ultimately show ?thesis
        using False Inr v by (intro exI[of _ "p # pre"] exI[of _ rest]) (auto simp: Let_def)
    qed
  qed
qed simp

lemma sublist_tail: "\<not> sublist xs (ys @ zs) \<Longrightarrow> \<not> sublist xs zs"
  by (auto simp: sublist_def) (metis append.assoc)

lemma wait_scheduled_finds:
  assumes "list_all undisturbed ps" and "list_all still_queued ps"
    and "n \<le> max_scheduled_poll_failures"
    and "\<not> sublist (replicate (Suc max_scheduled_poll_failures) True) (replicate n True @ map poll_failed ps)"
    and "client_job_view (po_answer q) = Inr (j, pos)" and "j_state j \<noteq> JobQueued"
  shows "fst (wait_scheduled shown n (ps @ q # rest)) = Some (Inr j)"
  using assms(1-4)
proof (induction ps arbitrary: shown n)
  case Nil
  then show ?case using assms(5,6) by simp
next
  case (Cons p ps)
  have calm: "\<not> po_ended p" "\<not> po_woken p" using Cons(2) by (auto simp: undisturbed_def)
  show ?case
  proof (cases "client_job_view (po_answer p)")
    case (Inl e)
    have more_failures: "replicate n True @ map poll_failed (p # ps) = replicate (Suc n) True @ map poll_failed ps"
      using Inl by (simp add: poll_failed_def replicate_append_same)
    have "Suc n \<le> max_scheduled_poll_failures"
    proof (rule ccontr)
      assume "\<not> ?thesis"
      then have "Suc n = Suc max_scheduled_poll_failures" using Cons(4) by simp
      then show False using Cons(5) more_failures by (metis sublist_append_rightI)
    qed
    moreover have "\<not> sublist (replicate (Suc max_scheduled_poll_failures) True)
        (replicate (Suc n) True @ map poll_failed ps)"
      using Cons(5) unfolding more_failures .
    ultimately have "fst (wait_scheduled shown (Suc n) (ps @ q # rest)) = Some (Inr j)"
      using Cons.IH[of "Suc n" shown] Cons(2,3) by simp
    then show ?thesis using Inl calm \<open>Suc n \<le> max_scheduled_poll_failures\<close> by simp
  next
    case (Inr v)
    obtain j' pos' where v: "v = (j', pos')" by (cases v)
    have "j_state j' = JobQueued" using Cons(3) Inr v by (simp add: still_queued_def)
    moreover have "\<not> sublist (replicate (Suc max_scheduled_poll_failures) True) (map poll_failed ps)"
      using Cons(5) sublist_tail[of _ "replicate n True @ [poll_failed p]"] by simp
    ultimately show ?thesis using Cons.IH[of 0 "int pos'"] Cons(2,3) Inr v calm by (simp add: Let_def)
  qed
qed

text \<open>
  C35. A wait in the queue outlasts every outage of at most 16 polls in a row, any number of times:
  it returns the job as the first poll shows it off the queue, whatever failed before.
\<close>

theorem queue_wait_patient:
  assumes "list_all undisturbed ps" and "list_all still_queued ps"
    and "\<not> sublist (replicate 17 True) (map poll_failed ps)"
    and "client_job_view (po_answer q) = Inr (j, pos)" and "j_state j \<noteq> JobQueued"
  shows "fst (client_wait_scheduled (ps @ q # rest)) = Some (Inr j)"
  using wait_scheduled_finds[of ps 0 q j pos "- 1" rest] assms by (simp add: client_wait_scheduled_def)

definition ex_poll :: "(job_row \<times> nat) answer \<Rightarrow> poll" where
  "ex_poll a = \<lparr>po_answer = a, po_ended = False, po_woken = False\<rparr>"

definition ex_queued_view :: "(job_row \<times> nat) answer" where
  "ex_queued_view = Response 200 (Some (ex_job ''j2'' ''h:0'' '''' JobQueued '''' 0, 1)) ''''"

definition ex_running_view :: "(job_row \<times> nat) answer" where
  "ex_running_view = Response 200 (Some (ex_job ''j2'' ''h:0'' '''' JobRunning ''w'' 0, 0)) ''''"

definition ex_outage :: "poll list" where
  "ex_outage = replicate 16 (ex_poll NoAnswer) @ ex_poll ex_queued_view # replicate 16 (ex_poll NoAnswer)"

lemma ex_outage_fine:
  "list_all undisturbed ex_outage" "list_all still_queued ex_outage"
  "\<not> sublist (replicate 17 True) (map poll_failed ex_outage)"
  "client_job_view (po_answer (ex_poll ex_running_view)) = Inr (ex_job ''j2'' ''h:0'' '''' JobRunning ''w'' 0, 0)"
  "j_state (ex_job ''j2'' ''h:0'' '''' JobRunning ''w'' 0) \<noteq> JobQueued"
proof -
  have views: "client_job_view NoAnswer = Inl TransportFailed"
      "client_job_view ex_queued_view = Inr (ex_job ''j2'' ''h:0'' '''' JobQueued '''' 0, 1)"
      "client_job_view ex_running_view = Inr (ex_job ''j2'' ''h:0'' '''' JobRunning ''w'' 0, 0)"
    by (simp_all add: client_job_view_def read_answer_def ex_queued_view_def ex_running_view_def)
  show "list_all undisturbed ex_outage"
    by (simp add: ex_outage_def undisturbed_def ex_poll_def list_all_iff)
  show "list_all still_queued ex_outage"
    by (simp add: ex_outage_def still_queued_def ex_poll_def list_all_iff views ex_job_def)
  have "map poll_failed ex_outage = replicate 16 True @ False # replicate 16 True"
    by (simp add: ex_outage_def poll_failed_def ex_poll_def views map_replicate)
  moreover have "\<not> sublist (replicate 17 True) (replicate 16 True @ False # replicate 16 True)" by code_simp
  ultimately show "\<not> sublist (replicate 17 True) (map poll_failed ex_outage)" by simp
qed (simp_all add: ex_poll_def ex_running_view_def client_job_view_def read_answer_def ex_job_def)

theorem queue_wait_patient_witness:
  "fst (client_wait_scheduled (ex_outage @ [ex_poll ex_running_view]))
     = Some (Inr (ex_job ''j2'' ''h:0'' '''' JobRunning ''w'' 0))"
  using queue_wait_patient[OF ex_outage_fine, of "[]"] by simp

text \<open>A wait for the end that returns a job returns one that ended.\<close>

lemma wait_terminal_ends:
  "wait_terminal seen n ps = Some (Inr j) \<Longrightarrow> terminal (j_state j)"
  by (induction seen n ps rule: wait_terminal.induct) (auto simp: Let_def split: sum.splits if_splits wake.splits)

section \<open>What a run does to its job\<close>

lemma follow_no_kill: "DoKill job who \<notin> set (fst (run_follow fl w j))"
  by (auto simp: run_follow_def run_verdict_def Let_def split: option.splits sum.splits)

lemma queued_kill:
  assumes "DoKill job who \<in> set (fst (run_queued fl w j))"
  shows "j_state j = JobQueued \<and> (\<exists>e. fst (client_wait_scheduled (rw_polls w)) = Some (Inl e))
    \<and> (rw_interrupted_queued w \<or> 0 < rf_timeout fl \<and> rw_timed_out w) \<and> job = j_id j"
proof -
  obtain r shown where ws: "client_wait_scheduled (rw_polls w) = (r, shown)" by fastforce
  show ?thesis
    using assms ws
    by (auto simp: run_queued_def Let_def cancel_queued_job_def report_cancelled_queued_job_def
        report_uncancellable_queued_job_def split: if_splits option.splits sum.splits)
qed

text \<open>A submission ends the command, or the wait in the queue does, or the job is followed.\<close>

lemma run_submit_cases:
  obtains (refused) e where "client_submit (rw_post w) (run_submission fl w) = Inl e"
      "snd (run_submit fl w) = Some (CmdFailed (if e = ErrNoDevice then Busy else CmdClient e))"
      "\<forall>job who. DoKill job who \<notin> set (fst (run_submit fl w))"
  | (ended) j steps res where "client_submit (rw_post w) (run_submission fl w) = Inr j"
      "run_queued fl w j = (steps, Inl res)" "snd (run_submit fl w) = res"
      "\<forall>job who. DoKill job who \<in> set (fst (run_submit fl w)) \<longleftrightarrow> DoKill job who \<in> set steps"
  | (followed) j steps j' where "client_submit (rw_post w) (run_submission fl w) = Inr j"
      "run_queued fl w j = (steps, Inr j')" "snd (run_submit fl w) = snd (run_follow fl w j')"
      "\<forall>job who. DoKill job who \<in> set (fst (run_submit fl w)) \<longleftrightarrow> DoKill job who \<in> set steps"
proof -
  define sent where "sent = (case submit_payload (run_submission fl w) of Inl e \<Rightarrow> [] | Inr req \<Rightarrow> [DoSubmit req])"
  have quiet: "DoKill job who \<notin> set sent" for job who by (simp add: sent_def split: sum.splits)
  note def = run_submit_def[of fl w, folded sent_def, unfolded Let_def]
  show thesis
  proof (cases "client_submit (rw_post w) (run_submission fl w)")
    case (Inl e)
    then show thesis using refused quiet def by simp
  next
    case (Inr j)
    obtain steps r where q: "run_queued fl w j = (steps, r)" by fastforce
    show thesis
    proof (cases r)
      case (Inl res)
      then show thesis using ended[OF Inr] q Inr quiet def by simp
    next
      case (Inr j')
      obtain more_steps res where "run_follow fl w j' = (more_steps, res)" by fastforce
      then show thesis
        using followed[OF \<open>client_submit _ _ = Inr j\<close>, of steps j'] q Inr \<open>client_submit _ _ = Inr j\<close> quiet def
          follow_no_kill[of _ _ fl w j'] by simp
    qed
  qed
qed

text \<open>
  C33. \<open>rc run\<close> asks for its job to be killed only while the job waits: it was queued when it was
  submitted, every poll the wait got through showed it queued or failed, and the wait was ended by
  a signal or by the \<open>--timeout\<close> of the caller. In particular a wait that gives up on its own
  kills nothing, and neither does anything after the job has left the queue.
\<close>

theorem run_kill_justified:
  assumes "run_cmd fl w = (steps, res)" and "DoKill job who \<in> set steps"
  shows "\<exists>j e pre rest. client_submit (rw_post w) (run_submission fl w) = Inr j \<and> job = j_id j
    \<and> j_state j = JobQueued \<and> rw_polls w = pre @ rest \<and> list_all still_queued pre
    \<and> fst (client_wait_scheduled pre) = Some (Inl e)
    \<and> (rw_interrupted_queued w \<or> 0 < rf_timeout fl \<and> rw_timed_out w)"
proof -
  have "DoKill job who \<in> set (fst (run_submit fl w))"
    using assms by (auto simp: run_cmd_def split: if_splits)
  then obtain j where j: "client_submit (rw_post w) (run_submission fl w) = Inr j"
      "DoKill job who \<in> set (fst (run_queued fl w j))"
    by (cases rule: run_submit_cases[of w fl]) auto
  obtain e where "fst (client_wait_scheduled (rw_polls w)) = Some (Inl e)" using queued_kill[OF j(2)] by blast
  then obtain pre rest where "rw_polls w = pre @ rest" "list_all still_queued pre"
      "fst (client_wait_scheduled pre) = Some (Inl e)"
    using wait_scheduled_stopped[of "- 1" 0 "rw_polls w" e] unfolding client_wait_scheduled_def by blast
  with j(1) queued_kill[OF j(2)] show ?thesis by blast
qed

lemma safe_exit_code_nonzero: "c \<noteq> 0 \<Longrightarrow> safe_exit_code c mod 256 \<noteq> 0"
  by (simp add: safe_exit_code_def)

lemma run_verdict_success:
  "exit_status (snd (run_verdict final)) = 0 \<Longrightarrow>
     j_state final = JobSucceeded \<and> (j_exit_code final = None \<or> j_exit_code final = Some 0)"
  using safe_exit_code_nonzero by (auto simp: run_verdict_def exit_status_def split: option.splits if_splits)

lemma run_queued_result: "run_queued fl w j = (steps, Inl (Some r)) \<Longrightarrow> exit_status r \<noteq> 0"
  by (auto simp: run_queued_def Let_def exit_status_def split: if_splits option.splits sum.splits prod.splits)

text \<open>
  C34. The exit status of \<open>rc run\<close> is zero only when the job was read back as succeeded and with no
  exit code other than zero; in particular no exit code of a job is mapped to zero by the eight
  bits the parent sees.
\<close>

theorem run_success_truthful:
  assumes "run_cmd fl w = (steps, Some r)" and "exit_status r = 0" and "\<not> rf_explain fl"
  shows "\<exists>final. client_wait_terminal (rw_final w) = Some (Inr final) \<and> j_state final = JobSucceeded
    \<and> (j_exit_code final = None \<or> j_exit_code final = Some 0)"
proof -
  have "snd (run_submit fl w) = Some r"
    using assms by (auto simp: run_cmd_def exit_status_def split: if_splits)
  then obtain j where "snd (run_follow fl w j) = Some r"
    using assms(2) run_queued_result
    by (cases rule: run_submit_cases[of w fl]) (auto simp: exit_status_def)
  then obtain final where "client_wait_terminal (rw_final w) = Some (Inr final)" "snd (run_verdict final) = r"
    using assms(2)
    by (auto simp: run_follow_def Let_def exit_status_def split: if_splits option.splits sum.splits prod.splits)
  then show ?thesis using run_verdict_success[of final] assms(2) by blast
qed

text \<open>A signal that lands as the last wait returns the finished job is reported as a detachment:
  the user reads that the job is still running.\<close>

lemma detached_from_finished_job:
  assumes "rw_interrupted_final w" and "\<not> rw_interrupted_stream w"
    and "client_wait_terminal (rw_final w) = Some (Inr final)"
  shows "NoteDetached (j_id j) \<in> set (fst (run_follow fl w j))"
  using assms by (simp add: run_follow_def Let_def)

section \<open>Examples of runs\<close>

definition ex_run_flags :: run_flags where
  "ex_run_flags = \<lparr>rf_device = ''h:0'', rf_selector = '''', rf_explain = False, rf_cwd = '''', rf_as = ''ann'',
     rf_priority = 0, rf_max_runtime = 0, rf_idle_timeout = 0, rf_timeout = 0, rf_no_wait = False,
     rf_tty = False, rf_args = [''train'']\<rparr>"

definition ex_run_world :: "job_state \<Rightarrow> poll list \<Rightarrow> run_world" where
  "ex_run_world st ps = \<lparr>rw_default_submitter = ''ann@h'', rw_key = ''k'', rw_explain = NoAnswer,
     rw_post = (\<lambda>req. Response 201 (Some (ex_job ''j2'' ''h:0'' '''' st '''' 0)) ''''), rw_polls = ps,
     rw_interrupted_queued = True, rw_timed_out = False,
     rw_cancel = \<lparr>cw_kill = Response 200 (Some ()) '''', cw_job = NoAnswer\<rparr>, rw_stream_error = False,
     rw_interrupted_stream = False,
     rw_final = [\<lparr>fp_answer = Response 200 (Some (ex_job ''j2'' ''h:0'' '''' JobSucceeded ''w'' 0, 0)) '''',
                   fp_ended = False, fp_wake = TimerFired\<rparr>],
     rw_interrupted_final = False\<rparr>"

definition ex_interrupted :: run_world where
  "ex_interrupted = ex_run_world JobQueued [(ex_poll ex_queued_view)\<lparr>po_woken := True\<rparr>]"

lemma ex_interrupted_run:
  "snd (run_cmd ex_run_flags ex_interrupted) = Some (CmdExit 130)"
  "DoKill ''j2'' ''ann'' \<in> set (fst (run_cmd ex_run_flags ex_interrupted))"
  by (simp_all add: run_cmd_def ex_run_flags_def run_submit_def client_submit_def submit_payload_def
      run_submission_def sub_second_def submitter_of_def ex_interrupted_def ex_run_world_def submit_result_def
      read_answer_def run_queued_def ex_job_def client_wait_scheduled_def ex_poll_def client_job_view_def
      ex_queued_view_def cancel_queued_job_def Let_def)

theorem run_kill_justified_witness:
  "\<exists>j e pre rest. client_submit (rw_post ex_interrupted) (run_submission ex_run_flags ex_interrupted) = Inr j
     \<and> j_state j = JobQueued \<and> rw_polls ex_interrupted = pre @ rest
     \<and> fst (client_wait_scheduled pre) = Some (Inl e) \<and> rw_interrupted_queued ex_interrupted"
  using run_kill_justified[OF surjective_pairing ex_interrupted_run(2)] by (auto simp: ex_run_flags_def)

definition ex_plain_run :: run_world where
  "ex_plain_run = ex_run_world JobAssigned []"

lemma ex_plain_result: "snd (run_cmd ex_run_flags ex_plain_run) = Some CmdOk"
  by (simp add: run_cmd_def ex_run_flags_def run_submit_def client_submit_def submit_payload_def
      run_submission_def sub_second_def submitter_of_def ex_plain_run_def ex_run_world_def submit_result_def
      read_answer_def run_queued_def ex_job_def client_wait_terminal_def client_job_def client_job_view_def
      run_follow_def run_verdict_def Let_def)

theorem run_success_truthful_witness:
  "\<exists>final. client_wait_terminal (rw_final ex_plain_run) = Some (Inr final) \<and> j_state final = JobSucceeded"
  using run_success_truthful[of ex_run_flags ex_plain_run "fst (run_cmd ex_run_flags ex_plain_run)" CmdOk]
    ex_plain_result by (auto simp: prod_eq_iff exit_status_def ex_run_flags_def)

section \<open>A submission at the controller\<close>

















end
