(* ===== verification/Displays.thy ===== *)
theory Displays
  imports Client Serve
begin

text \<open>
  What the listing commands print (\<open>src/internal/cli\<close>: \<open>ps.go\<close>, \<open>jobs.go\<close>, \<open>describe.go\<close>, and
  \<open>renderExplain\<close> of \<open>run.go\<close>). A table is the list of its rows and a row the list of its cells;
  the widths \<open>tabwriter\<close> gives the columns are left out. An instant is a cell of its own kind.
\<close>

section \<open>Text\<close>

definition join_words :: "string list \<Rightarrow> string" where
  "join_words ws = join_with CHR '' '' ws"

fun device_state_text :: "device_state \<Rightarrow> string" where
  "device_state_text DeviceReady = ''ready''"
| "device_state_text DeviceBusy = ''busy''"
| "device_state_text DeviceUnhealthy = ''unhealthy''"
| "device_state_text DeviceUnknown = ''unknown''"

definition job_state_text :: "job_state \<Rightarrow> string" where
  "job_state_text st = (case List.find (\<lambda>e. snd e = st) job_state_names of None \<Rightarrow> '''' | Some (n, s) \<Rightarrow> n)"

definition seconds_text :: "int \<Rightarrow> string" where
  "seconds_text n = duration_text (seconds_dur n)"

section \<open>rc devices, rc ps\<close>

definition device_line :: "device_view \<Rightarrow> string list" where
  "device_line v =
     (let st = device_state_text (d_state (dv_device v));
          quiet = seconds_dur (dv_heartbeat_age v);
          st' = (if heartbeat_grace < quiet then st @ '' (no contact '' @ duration_text quiet @ '')'' else st);
          holder = (if dv_holder v = '''' then ''-''
                    else if dv_reason v \<noteq> '''' then dv_holder v @ '' ('' @ dv_reason v @ '')'' else dv_holder v);
          elapsed = (if dv_holder v = '''' then ''-'' else seconds_text (dv_elapsed v));
          command = (if dv_command v = [] then ''-'' else join_words (dv_command v))
      in [d_id (dv_device v), st', holder, elapsed, command])"

definition render_devices :: "device_view list \<Rightarrow> string list list" where
  "render_devices vs = [''DEVICE'', ''STATE'', ''HOLDER'', ''ELAPSED'', ''COMMAND''] # map device_line vs"

text \<open>With \<open>--select\<close>, the rows the controller says match.\<close>

definition select_devices :: "explain_response \<Rightarrow> device_view list \<Rightarrow> device_view list" where
  "select_devices x vs = filter (\<lambda>v. d_id (dv_device v) \<in> set (xp_matching x)) vs"

definition devices_cmd ::
  "state_response answer \<Rightarrow> string \<Rightarrow> explain_response answer \<Rightarrow> client_error + device_view list" where
  "devices_cmd state selector explain =
     (case client_state state of
        Inl e \<Rightarrow> Inl e
      | Inr st \<Rightarrow>
          if selector = '''' then Inr (st_devices st)
          else (case client_explain explain of
                  Inl e \<Rightarrow> Inl e
                | Inr x \<Rightarrow> Inr (select_devices x (st_devices st))))"

text \<open>Positions count along the queue, per device.\<close>

fun queue_positions :: "(string \<Rightarrow> nat) \<Rightarrow> job_row list \<Rightarrow> (job_row \<times> nat) list" where
  "queue_positions position [] = []"
| "queue_positions position (j # js) =
     (let n = position (j_device_id j) + 1
      in (j, n) # queue_positions (position(j_device_id j := n)) js)"

definition render_jobs :: "state_response \<Rightarrow> string list list" where
  "render_jobs st =
     [[''JOB'', ''DEVICE'', ''STATE'', ''SUBMITTER'', ''COMMAND'']]
     @ map (\<lambda>j. [j_id j, j_device_id j, job_state_text (j_state j), j_submitter j, join_words (j_command j)]) (st_jobs st)
     @ map (\<lambda>(j, n). [j_id j, j_device_id j, ''queued (#'' @ itoa (int n) @ '')'', j_submitter j, join_words (j_command j)])
         (queue_positions (\<lambda>d. 0) (st_queued st))"

section \<open>rc jobs\<close>

datatype cell = TextCell string | TimeCell time

definition value_or_dash :: "string \<Rightarrow> string" where
  "value_or_dash s = (if s = '''' then ''-'' else s)"

text \<open>\<open>Round(time.Second)\<close>: half away from zero, within 64 bits.\<close>

definition round_second :: "duration \<Rightarrow> duration" where
  "round_second d =
     (if d < 0 then max (- (2 ^ 63)) (- (((- d) + go_second div 2) div go_second * go_second))
      else min (2 ^ 63 - 1) ((d + go_second div 2) div go_second * go_second))"

definition job_duration :: "job_row \<Rightarrow> time \<Rightarrow> string" where
  "job_duration j now =
     (case j_started_at j of
        None \<Rightarrow> ''-''
      | Some t \<Rightarrow>
          (let finish = (case j_finished_at j of None \<Rightarrow> now | Some f \<Rightarrow> from_unix f)
           in duration_text (round_second (time_sub finish (from_unix t)))))"

definition state_with_reason :: "string \<Rightarrow> job_row \<Rightarrow> string" where
  "state_with_reason st j = (if j_kill_reason j \<noteq> '''' then st @ '' ('' @ j_kill_reason j @ '')'' else st)"

definition history_line :: "time \<Rightarrow> job_row \<Rightarrow> cell list" where
  "history_line now j =
     [TextCell (value_or_dash (j_id j)), TextCell (value_or_dash (j_device_id j)),
      TextCell (state_with_reason (value_or_dash (job_state_text (j_state j))) j),
      TextCell (value_or_dash (j_submitter j)),
      (case j_started_at j of None \<Rightarrow> TextCell ''-'' | Some t \<Rightarrow> TimeCell (from_unix t)),
      TextCell (job_duration j now), TextCell (value_or_dash (join_words (j_command j)))]"

definition render_job_history :: "job_row list \<Rightarrow> time \<Rightarrow> cell list list" where
  "render_job_history js now =
     map TextCell [''JOB'', ''DEVICE'', ''STATE'', ''SUBMITTER'', ''STARTED'', ''DURATION'', ''COMMAND'']
     # map (history_line now) js"

section \<open>rc describe\<close>

text \<open>Sources of a label in the order they are shown; an unknown one counts as detected.\<close>

definition source_rank :: "string \<Rightarrow> nat" where
  "source_rank src = (if src = SourceDeclared then 1 else 0)"

definition sort_labels :: "label list \<Rightarrow> label list" where
  "sort_labels ls = sort_key (\<lambda>l. (label_key l, source_rank (label_source l))) ls"

text \<open>The hours, days and months of an age go through floating point in the code; for a whole number of
  seconds, which every age shown is, that is exact.\<close>

definition age_magnitude :: "duration \<Rightarrow> string" where
  "age_magnitude d =
     (let sec = go_second
      in if d < 60 * sec then itoa (whole_seconds d) @ ''s''
         else if d < 3600 * sec then itoa (d div (60 * sec)) @ ''m''
         else if d < 24 * (3600 * sec) then itoa (d div (3600 * sec)) @ ''h''
         else if d < 30 * (24 * (3600 * sec)) then itoa (d div (24 * (3600 * sec))) @ ''d''
         else itoa (d div (30 * (24 * (3600 * sec)))) @ ''mo'')"

definition format_age :: "duration \<Rightarrow> string" where
  "format_age d =
     (if d < 0 then age_magnitude (wrap64 (- d)) @ '' in the future (clock skew?)''
      else age_magnitude d @ '' ago'')"

definition unknown_age :: string where
  "unknown_age = ''age unknown (controller may be out of date)''"

definition age_text :: "int option \<Rightarrow> string" where
  "age_text a = (case a of None \<Rightarrow> unknown_age | Some n \<Rightarrow> format_age (seconds_dur n))"

definition render_labels :: "label list \<Rightarrow> (string \<rightharpoonup> int) \<Rightarrow> string list list" where
  "render_labels ls ages =
     (if ls = [] then [[''  (none)'']]
      else map (\<lambda>l. [''  '' @ label_key l @ ''='' @ label_value l,
                     label_source l @ '' '' @ age_text (ages (label_key l @ ''/'' @ label_source l))])
             (sort_labels ls))"

definition render_sheet :: "string \<Rightarrow> int option \<Rightarrow> bool \<Rightarrow> string list" where
  "render_sheet body sheet_age host_wide =
     (if body = '''' then [''  (none on file)'']
      else (''  '' @ (if host_wide then ''host-wide note'' else ''device note'') @ '', updated '' @ age_text sheet_age)
           # map (\<lambda>line. ''  '' @ line) (split_on CHR 0x0A body))"

definition recent_line :: "time \<Rightarrow> job_row \<Rightarrow> string list" where
  "recent_line now j =
     [''  '' @ j_id j, state_with_reason (job_state_text (j_state j)) j, job_duration j now, join_words (j_command j)]"

definition render_recent_jobs :: "job_row list \<Rightarrow> time \<Rightarrow> string list list" where
  "render_recent_jobs js now =
     (if js = [] then [[''  (none)'']]
      else [''  JOB'', ''STATE'', ''DURATION'', ''COMMAND''] # map (recent_line now) js)"

definition render_describe :: "describe_response \<Rightarrow> time \<Rightarrow> string list list" where
  "render_describe out now =
     (let v = ds_view out
      in [[d_id (dv_device v), device_state_text (d_state (dv_device v))]]
         @ (if dv_holder v \<noteq> ''''
            then [[''  held by '' @ dv_holder v, ''job '' @ dv_job v @ '', running '' @ seconds_text (dv_elapsed v)]]
            else [[''  free'', '''']])
         @ [[''  heartbeat'', format_age (seconds_dur (dv_heartbeat_age v))]]
         @ (if dv_quarantine_reason v \<noteq> '''' then [[''  out of the pool'', dv_quarantine_reason v]] else [])
         @ [[], [''LABELS'']] @ render_labels (ds_labels out) (ds_label_ages out)
         @ [[], [''USAGE SHEET'']]
         @ map (\<lambda>l. [l]) (render_sheet (ds_sheet out) (ds_sheet_age out) (ds_sheet_is_host_wide out))
         @ [[], [''RECENT JOBS'']] @ render_recent_jobs (ds_recent out) now)"

section \<open>rc run --explain\<close>

definition render_explain :: "explain_response \<Rightarrow> string list" where
  "render_explain x =
     [''selector: '' @ xp_selector x]
     @ (if xp_matching x = [] then [''matching: (no device matches this selector)'']
        else (''matching ('' @ itoa (int (length (xp_matching x))) @ ''):'')
             # map (\<lambda>d. ''  '' @ d @ ''  '' @ (if d \<in> set (xp_free x) then ''free'' else ''busy'')) (xp_matching x))
     @ [''free: '' @ itoa (int (length (xp_free x))) @ ''/'' @ itoa (int (length (xp_matching x))),
        ''queue depth: '' @ itoa (int (xp_queue_depth x))]"

end
