(* ===== verification/Display_Claims.thy ===== *)
theory Display_Claims
  imports Displays Server_Claims
begin

text \<open>
  Properties of the listings: the queue position \<open>rc ps\<close> counts on its own against the one the
  controller computes.
\<close>

lemma queue_positions_rank:
  assumes "(j, n) \<in> set (queue_positions f js)" and "distinct js"
  shows "j \<in> set js \<and>
    n = f (j_device_id j) + length (filter (\<lambda>q. j_device_id q = j_device_id j) (takeWhile (\<lambda>q. q \<noteq> j) js)) + 1"
  using assms
proof (induction js arbitrary: f)
  case (Cons q js)
  show ?case
  proof (cases "q = j")
    case True
    then have "j \<notin> set js" using Cons(3) by simp
    then have "(j, n) \<notin> set (queue_positions g js)" for g using Cons.IH[of g] Cons(3) by auto
    with True Cons(2) show ?thesis by (auto simp: Let_def)
  next
    case False
    then have "(j, n) \<in> set (queue_positions (f(j_device_id q := f (j_device_id q) + 1)) js)"
      using Cons(2) by (auto simp: Let_def)
    from Cons.IH[OF this] Cons(3) False show ?thesis by auto
  qed
qed simp

text \<open>
  C39. \<open>rc ps\<close> counts positions along the list it gets, without asking for each job, and for every
  queued job that names a device the number is the position the controller reports for that job.
\<close>

theorem ps_position_agrees:
  assumes "db_ok s" and "handle_state clk s = Reply 200 st"
    and "(j, n) \<in> set (queue_positions (\<lambda>d. 0) (st_queued st))" and "j_selector j = ''''" and "0 \<le> j_queued_at j"
  shows "handle_get_job (j_id j) s = Reply 200 (j, n)"
proof -
  have core: "core_ok s" using assms(1) by (simp add: db_ok_def)
  have q: "st_queued st = queued_jobs s" using assms(2) by (auto simp: handle_state_def Let_def)
  have "distinct (queued_jobs s)" using queued_jobs_distinct[OF core] by (simp add: distinct_map)
  then have n: "j \<in> set (queued_jobs s)" "n = length (jobs_ahead j s) + 1"
    using queue_positions_rank[OF assms(3)] q assms(4) by (auto simp: jobs_ahead_def)
  then have j: "j \<in> set (jobs s)" "j_state j = JobQueued" by (simp_all add: queued_jobs_iff)
  from queue_position_ahead[OF core j assms(5)] n(2) get_job_Inr[OF core j(1)]
  show ?thesis by (simp add: handle_get_job_def)
qed

definition ex_ps :: state_response where
  "ex_ps = (case handle_state ex_clock ex_db of Reply _ st \<Rightarrow> st)"

lemma ex_ps_state: "handle_state ex_clock ex_db = Reply 200 ex_ps"
  by (simp add: ex_ps_def handle_state_def Let_def)

lemma ex_ps_queued:
  "st_queued ex_ps = [ex_job ''j2'' ''h:0'' '''' JobQueued '''' 0, ex_job ''j3'' '''' ''gpu=a100'' JobQueued '''' 60]"
  by (simp add: ex_ps_def handle_state_def Let_def ex_queue)

theorem ps_position_agrees_witness:
  "handle_get_job ''j2'' ex_db = Reply 200 (ex_job ''j2'' ''h:0'' '''' JobQueued '''' 0, 1)"
  using ps_position_agrees[OF ex_db_ok ex_ps_state, of "ex_job ''j2'' ''h:0'' '''' JobQueued '''' 0" 1]
  by (simp add: ex_ps_queued) (simp add: ex_job_def)

text \<open>For a job that names a selector the two differ: \<open>rc ps\<close> counts the jobs without a device ahead
  of it, the controller all jobs.\<close>

lemma ps_position_of_selector_job:
  "(ex_job ''j3'' '''' ''gpu=a100'' JobQueued '''' 60, 1) \<in> set (queue_positions (\<lambda>d. 0) (st_queued ex_ps))"
  "queue_position ''j3'' ex_db = Inr 2"
proof -
  show "(ex_job ''j3'' '''' ''gpu=a100'' JobQueued '''' 60, 1) \<in> set (queue_positions (\<lambda>d. 0) (st_queued ex_ps))"
    by (simp add: ex_ps_queued) (simp add: ex_job_def)
  let ?j3 = "ex_job ''j3'' '''' ''gpu=a100'' JobQueued '''' 60"
  have "length (jobs_ahead ?j3 ex_db) = 1" by (simp add: jobs_ahead_def ex_queue) (simp add: ex_defs)
  with queue_position_ahead[of ex_db ?j3] ex_db_ok show "queue_position ''j3'' ex_db = Inr 2"
    by (simp add: db_ok_def ex_defs)
qed

end
