(* ===== verification/Terminal.thy ===== *)
theory Terminal
  imports Client "HOL-Library.Word"
begin

text \<open>
  The two ends of an interactive session: the frames of the input direction
  (\<open>src/internal/server/tty_frame.go\<close>), the client that types them (\<open>client/tty.go\<close>), the worker that
  applies them to the terminal of the job (\<open>runTTY\<close> in \<open>worker/relay.go\<close>), and how both open and give
  back their two halves of the relay (\<open>client/relay.go\<close>, \<open>worker/relay.go\<close>). A stream is the bytes
  that come through it and whether it ends cleanly. The writing of a frame is its JSON text; the JSON
  decoder of the reader is an argument.
\<close>

section \<open>Frames\<close>

record tty_frame =
  tf_t :: string
  tf_b :: string
  tf_rows :: "16 word"
  tf_cols :: "16 word"

abbreviation TTYFrameData :: string where "TTYFrameData \<equiv> ''d''"
abbreviation TTYFrameResize :: string where "TTYFrameResize \<equiv> ''r''"

definition max_tty_frame :: nat where
  "max_tty_frame = 2 ^ 20"

definition tty_data :: "string \<Rightarrow> tty_frame" where
  "tty_data b = \<lparr>tf_t = TTYFrameData, tf_b = b, tf_rows = 0, tf_cols = 0\<rparr>"

definition tty_resize :: "16 word \<Rightarrow> 16 word \<Rightarrow> tty_frame" where
  "tty_resize rows cols = \<lparr>tf_t = TTYFrameResize, tf_b = '''', tf_rows = rows, tf_cols = cols\<rparr>"

text \<open>Standard base64 with padding, as \<open>encoding/json\<close> writes a \<open>[]byte\<close>.\<close>

definition base64_alphabet :: string where
  "base64_alphabet = ''ABCDEFGHIJKLMNOPQRSTUVWXYZabcdefghijklmnopqrstuvwxyz0123456789+/''"

definition b64 :: "nat \<Rightarrow> char" where
  "b64 n = base64_alphabet ! (n mod 64)"

fun base64 :: "string \<Rightarrow> string" where
  "base64 [] = []"
| "base64 [a] = (let n = of_char a * 65536 in [b64 (n div 262144), b64 (n div 4096), CHR ''='', CHR ''=''])"
| "base64 [a, b] =
     (let n = of_char a * 65536 + of_char b * 256
      in [b64 (n div 262144), b64 (n div 4096), b64 (n div 64), CHR ''=''])"
| "base64 (a # b # c # rest) =
     (let n = of_char a * 65536 + of_char b * 256 + of_char c
      in [b64 (n div 262144), b64 (n div 4096), b64 (n div 64), b64 n] @ base64 rest)"

text \<open>\<open>json.Marshal\<close> of a frame of one of the two types; empty fields are omitted.\<close>

definition quoted :: "string \<Rightarrow> string" where
  "quoted s = [CHR 0x22] @ s @ [CHR 0x22]"

definition json_frame :: "tty_frame \<Rightarrow> string" where
  "json_frame f =
     [CHR 0x7B] @ quoted ''t'' @ '':'' @ quoted (tf_t f)
     @ (if tf_b f = '''' then '''' else '','' @ quoted ''b'' @ '':'' @ quoted (base64 (tf_b f)))
     @ (if tf_rows f = 0 then '''' else '','' @ quoted ''rows'' @ '':'' @ itoa (uint (tf_rows f)))
     @ (if tf_cols f = 0 then '''' else '','' @ quoted ''cols'' @ '':'' @ itoa (uint (tf_cols f)))
     @ [CHR 0x7D]"

abbreviation newline :: char where
  "newline \<equiv> CHR 0x0A"

definition write_tty_frame :: "tty_frame \<Rightarrow> string" where
  "write_tty_frame f = json_frame f @ [newline]"

section \<open>Reading frames\<close>

text \<open>\<open>bufio.Scanner\<close> with \<open>ScanLines\<close> and the bound on a token: the lines in order, and how the
  scan ends. How the bytes are cut into reads does not matter.\<close>

datatype scan_end = ScanEOF | ScanTooLong | ScanReadError

definition drop_cr :: "string \<Rightarrow> string" where
  "drop_cr s = (if has_prefix [CHR 0x0D] (rev s) then butlast s else s)"

function scan_lines :: "bool \<Rightarrow> string \<Rightarrow> string list \<times> scan_end" where
  "scan_lines clean s =
     (let line = takeWhile (\<lambda>c. c \<noteq> newline) s
      in if s = [] then ([], if clean then ScanEOF else ScanReadError)
         else if max_tty_frame \<le> length line then ([], ScanTooLong)
         else apfst (\<lambda>ls. drop_cr line # ls) (scan_lines clean (drop (length line + 1) s)))"
  by pat_completeness auto
termination by (relation "measure (\<lambda>(clean, s). length s)") auto

declare scan_lines.simps [simp del]

datatype read_end = ReadEOF | ReadTooLong | ReadFailed | ReadMalformed

text \<open>What calling \<open>Next\<close> until it fails gives. Blank lines and frames of a type this build does not
  know are passed over; a line that does not decode ends the stream.\<close>

fun tty_frames :: "(string \<Rightarrow> tty_frame option) \<Rightarrow> string list \<Rightarrow> scan_end \<Rightarrow> tty_frame list \<times> read_end" where
  "tty_frames decode [] fin =
     ([], case fin of ScanEOF \<Rightarrow> ReadEOF | ScanTooLong \<Rightarrow> ReadTooLong | ScanReadError \<Rightarrow> ReadFailed)"
| "tty_frames decode (l # ls) fin =
     (let line = trim_space l
      in if line = [] then tty_frames decode ls fin
         else
           (case decode line of
              None \<Rightarrow> ([], ReadMalformed)
            | Some f \<Rightarrow>
                if tf_t f \<noteq> TTYFrameData \<and> tf_t f \<noteq> TTYFrameResize then tty_frames decode ls fin
                else apfst (\<lambda>fs. f # fs) (tty_frames decode ls fin)))"

definition read_tty_frames :: "(string \<Rightarrow> tty_frame option) \<Rightarrow> bool \<Rightarrow> string \<Rightarrow> tty_frame list \<times> read_end" where
  "read_tty_frames decode clean s = (case scan_lines clean s of (ls, fin) \<Rightarrow> tty_frames decode ls fin)"

section \<open>The worker's terminal\<close>

datatype pty_effect = PtyWrite string | PtyResize "16 word" "16 word"

text \<open>The input direction of \<open>runTTY\<close>; \<open>writable\<close> says whether the terminal takes a write after so
  many effects, and the copy ends at the first it does not. A failed resize is only logged.\<close>

fun apply_frames :: "(nat \<Rightarrow> bool) \<Rightarrow> nat \<Rightarrow> tty_frame list \<Rightarrow> pty_effect list" where
  "apply_frames writable n [] = []"
| "apply_frames writable n (f # fs) =
     (if tf_t f = TTYFrameData
      then (if writable n then PtyWrite (tf_b f) # apply_frames writable (n + 1) fs else [])
      else if tf_t f = TTYFrameResize
      then (if tf_rows f = 0 \<or> tf_cols f = 0 then apply_frames writable n fs
            else PtyResize (tf_rows f) (tf_cols f) # apply_frames writable (n + 1) fs)
      else apply_frames writable n fs)"

section \<open>The client's terminal\<close>

text \<open>What happens at the local terminal after the streams are open: a read of at most 4096 bytes,
  or a change of size with what asking for the size gives.\<close>

datatype term_event = Typed string | Resized "(16 word \<times> 16 word) option"

definition size_frame :: "(16 word \<times> 16 word) option \<Rightarrow> tty_frame list" where
  "size_frame sz =
     (case sz of None \<Rightarrow> [] | Some (r, c) \<Rightarrow> if 0 < r \<and> 0 < c then [tty_resize r c] else [])"

fun event_frames :: "term_event \<Rightarrow> tty_frame list" where
  "event_frames (Typed b) = (if b = '''' then [] else [tty_data b])"
| "event_frames (Resized sz) = size_frame sz"

text \<open>The frames in the order the mutex lets them through, the size first.\<close>

definition attach_tty_frames :: "(16 word \<times> 16 word) option \<Rightarrow> term_event list \<Rightarrow> tty_frame list" where
  "attach_tty_frames sz evs = size_frame sz @ concat (map event_frames evs)"

definition attach_tty_input :: "(16 word \<times> 16 word) option \<Rightarrow> term_event list \<Rightarrow> string" where
  "attach_tty_input sz evs = concat (map write_tty_frame (attach_tty_frames sz evs))"

section \<open>Opening the two halves\<close>

text \<open>What is opened and closed, in order.\<close>

datatype half_event = OpenOut | OpenIn | CloseOut | CloseIn | ClosePipe

datatype half_open = HalfFailed | HalfStatus nat

text \<open>The client opens the output first, by a request without a body; the body of the input request is
  a pipe.\<close>

definition attach_relay :: "half_open \<Rightarrow> half_open \<Rightarrow> half_event list \<times> bool" where
  "attach_relay out inp =
     (case out of
        HalfFailed \<Rightarrow> ([], False)
      | HalfStatus st \<Rightarrow>
          if st \<noteq> 200 then ([OpenOut, CloseOut], False)
          else
            (case inp of
               HalfFailed \<Rightarrow> ([OpenOut, CloseOut, ClosePipe], False)
             | HalfStatus st' \<Rightarrow>
                 if st' \<noteq> 200 then ([OpenOut, OpenIn, CloseOut, ClosePipe, CloseIn], False)
                 else ([OpenOut, OpenIn], True)))"

definition close_attached :: "half_event list" where
  "close_attached = [ClosePipe, CloseIn, CloseOut]"

text \<open>The worker's output is the request with the pipe.\<close>

definition dial_relay :: "half_open \<Rightarrow> half_open \<Rightarrow> half_event list \<times> bool" where
  "dial_relay out inp =
     (case out of
        HalfFailed \<Rightarrow> ([ClosePipe], False)
      | HalfStatus st \<Rightarrow>
          if st \<noteq> 200 then ([OpenOut, CloseOut, ClosePipe], False)
          else
            (case inp of
               HalfFailed \<Rightarrow> ([OpenOut, CloseOut, ClosePipe], False)
             | HalfStatus st' \<Rightarrow>
                 if st' \<noteq> 200 then ([OpenOut, OpenIn, CloseIn, CloseOut, ClosePipe], False)
                 else ([OpenOut, OpenIn], True)))"

definition close_dialled :: "half_event list" where
  "close_dialled = [ClosePipe, CloseOut, CloseIn]"

end
