(* ===== verification/Terminal_Claims.thy ===== *)
theory Terminal_Claims
  imports Terminal
begin

text \<open>
  Properties of an interactive session: what is typed at the client is what the terminal of the job
  gets, and both ends give back what they opened.
\<close>

section \<open>The text of a frame\<close>

lemma b64_char: "b64 n \<in> set base64_alphabet"
proof -
  have "length base64_alphabet = 64" by (simp add: base64_alphabet_def)
  then show ?thesis unfolding b64_def by (intro nth_mem) simp
qed

lemma base64_chars: "set (base64 s) \<subseteq> set base64_alphabet \<union> {CHR ''=''}"
  using b64_char by (induction s rule: base64.induct) (auto simp: Let_def)

lemma length_base64: "length (base64 s) \<le> 4 * ((length s + 2) div 3)"
proof (induction s rule: base64.induct)
  case (4 a b c rest)
  have "(length (a # b # c # rest) + 2) div 3 = (length rest + 2) div 3 + 1"
    using div_add_self2[of 3 "length rest + 2"] by simp
  with 4 show ?case by (simp add: Let_def)
qed (simp_all add: Let_def)

lemma length_nat_text:
  assumes "0 \<le> n" and "n < 10 ^ (Suc k)"
  shows "length (nat_text n) \<le> Suc k"
  using assms
proof (induction k arbitrary: n)
  case 0
  then show ?case by (subst nat_text.simps) simp
next
  case (Suc k)
  show ?case
  proof (cases "n < 10")
    case False
    have "n < 10 * x \<Longrightarrow> n div 10 < x" for x :: int by presburger
    then have "n div 10 < 10 ^ Suc k" using Suc.prems(2) by simp
    then have "length (nat_text (n div 10)) \<le> Suc k" using Suc by simp
    then show ?thesis using False by (subst nat_text.simps) simp
  qed (subst nat_text.simps, simp)
qed

definition known_type :: "tty_frame \<Rightarrow> bool" where
  "known_type f \<longleftrightarrow> tf_t f = TTYFrameData \<or> tf_t f = TTYFrameResize"

lemma json_frame_ends: "\<exists>m. json_frame f = [CHR 0x7B] @ m @ [CHR 0x7D]"
  by (simp add: json_frame_def)

lemma itoa_no_newline: "newline \<notin> set (itoa (uint (w :: 16 word)))"
proof -
  have "\<not> is_digit newline" by (simp add: is_digit_def)
  then have "newline \<notin> set (nat_text (uint w))"
    using nat_text_digits[of "uint w"] by (auto simp: list_all_iff)
  then show ?thesis by (simp add: itoa_def)
qed

lemma base64_no_newline: "newline \<notin> set (base64 s)"
proof -
  have "newline \<notin> set base64_alphabet \<union> {CHR ''=''}" by (simp add: base64_alphabet_def)
  then show ?thesis using base64_chars by blast
qed

lemma json_frame_one_line: "known_type f \<Longrightarrow> newline \<notin> set (json_frame f)"
  by (cases "tf_t f = TTYFrameData")
    (simp_all add: json_frame_def quoted_def known_type_def base64_no_newline itoa_no_newline)

lemma length_json_frame:
  assumes "known_type f" and "length (tf_b f) \<le> 4096"
  shows "length (json_frame f) < max_tty_frame"
proof -
  have i: "length (itoa (uint (w :: 16 word))) \<le> 5" for w
    using length_nat_text[of "uint w" 4] uint_lt2p[of w] by (simp add: itoa_def)
  have b: "length (base64 (tf_b f)) \<le> 5464"
    using length_base64[of "tf_b f"] assms(2) by (simp add: div_le_mono order_trans)
  show ?thesis
    using assms(1) i[of "tf_rows f"] i[of "tf_cols f"] b
    by (auto simp: json_frame_def quoted_def known_type_def max_tty_frame_def)
qed

lemma json_frame_trimmed: "trim_space (json_frame f) = json_frame f"
proof (rule trim_space_trimmed)
  obtain m where m: "json_frame f = [CHR 0x7B] @ m @ [CHR 0x7D]" using json_frame_ends by blast
  have "starts_clean space_encodings (CHR 0x7B # k)" "starts_clean (map rev space_encodings) (CHR 0x7D # k)" for k
    by (simp_all add: starts_clean_def space_encodings_def)
  then show "trimmed (json_frame f)" unfolding m trimmed_def by simp
qed

section \<open>Reading back what was written\<close>

lemma scan_written:
  assumes "list_all known_type fs" and "list_all (\<lambda>f. length (json_frame f) < max_tty_frame) fs"
  shows "scan_lines clean (concat (map write_tty_frame fs))
    = (map json_frame fs, if clean then ScanEOF else ScanReadError)"
  using assms
proof (induction fs)
  case Nil
  then show ?case by (simp add: scan_lines.simps)
next
  case (Cons f fs)
  let ?rest = "concat (map write_tty_frame fs)"
  have line: "takeWhile (\<lambda>c. c \<noteq> newline) (json_frame f @ newline # ?rest) = json_frame f"
    using json_frame_one_line[of f] Cons(2) by (subst takeWhile_append2) auto
  have "drop_cr (json_frame f) = json_frame f"
    using json_frame_ends[of f] by (auto simp: drop_cr_def)
  then have "scan_lines clean (json_frame f @ newline # ?rest) = apfst (\<lambda>ls. json_frame f # ls) (scan_lines clean ?rest)"
    using Cons(3) by (subst scan_lines.simps) (simp add: line)
  moreover have "concat (map write_tty_frame (f # fs)) = json_frame f @ newline # ?rest"
    by (simp add: write_tty_frame_def)
  ultimately show ?case using Cons by simp
qed

lemma tty_frames_written:
  assumes "list_all known_type fs" and "list_all (\<lambda>f. decode (json_frame f) = Some f) fs"
  shows "tty_frames decode (map json_frame fs) fin = (fs, snd (tty_frames decode [] fin))"
  using assms
proof (induction fs)
  case (Cons f fs)
  have "json_frame f \<noteq> []" using json_frame_ends[of f] by auto
  with Cons show ?case by (auto simp: json_frame_trimmed known_type_def Let_def)
qed simp

definition reads_fit :: "term_event \<Rightarrow> bool" where
  "reads_fit e = (case e of Typed b \<Rightarrow> length b \<le> 4096 | Resized sz \<Rightarrow> True)"

lemma attach_frames_known: "list_all known_type (attach_tty_frames sz evs)"
proof -
  have s: "list_all known_type (size_frame z)" for z
    by (auto simp: size_frame_def known_type_def tty_resize_def split: option.splits)
  have "list_all known_type (event_frames e)" for e
    using s by (cases e) (auto simp: known_type_def tty_data_def)
  with s show ?thesis by (auto simp: attach_tty_frames_def list_all_iff)
qed

lemma attach_frames_fit:
  "list_all reads_fit evs \<Longrightarrow> list_all (\<lambda>f. length (tf_b f) \<le> 4096) (attach_tty_frames sz evs)"
proof -
  assume fit: "list_all reads_fit evs"
  have s: "list_all (\<lambda>f. length (tf_b f) \<le> 4096) (size_frame z)" for z
    by (auto simp: size_frame_def tty_resize_def split: option.splits)
  have "reads_fit e \<Longrightarrow> list_all (\<lambda>f. length (tf_b f) \<le> 4096) (event_frames e)" for e
    using s by (cases e) (auto simp: reads_fit_def tty_data_def)
  with s fit show ?thesis by (auto simp: attach_tty_frames_def list_all_iff)
qed

definition typed_bytes :: "term_event list \<Rightarrow> string" where
  "typed_bytes evs = concat (map (\<lambda>e. case e of Typed b \<Rightarrow> b | Resized sz \<Rightarrow> '''') evs)"

definition written_bytes :: "pty_effect list \<Rightarrow> string" where
  "written_bytes es = concat (map (\<lambda>e. case e of PtyWrite b \<Rightarrow> b | PtyResize r c \<Rightarrow> '''') es)"

fun drawable :: "pty_effect \<Rightarrow> bool" where
  "drawable (PtyWrite b) = True"
| "drawable (PtyResize r c) = (r \<noteq> 0 \<and> c \<noteq> 0)"

lemma apply_frames_drawable: "list_all drawable (apply_frames writable n fs)"
  by (induction writable n fs rule: apply_frames.induct) auto

lemma frames_append: "written_bytes (xs @ ys) = written_bytes xs @ written_bytes ys"
  by (simp add: written_bytes_def)

lemma apply_size_frame:
  "\<exists>es m. apply_frames (\<lambda>k. True) n (size_frame z @ fs) = es @ apply_frames (\<lambda>k. True) m fs \<and> written_bytes es = ''''"
proof (cases "size_frame z")
  case Nil
  then show ?thesis by (intro exI[of _ "[]"] exI[of _ n]) (simp add: written_bytes_def)
next
  case (Cons f rest)
  then obtain r c where "f = tty_resize r c" "rest = []" "r \<noteq> 0" "c \<noteq> 0"
    by (auto simp: size_frame_def split: option.splits if_splits)
  with Cons show ?thesis
    by (intro exI[of _ "[PtyResize r c]"] exI[of _ "n + 1"]) (simp add: written_bytes_def tty_resize_def)
qed

lemma apply_events: "written_bytes (apply_frames (\<lambda>k. True) n (concat (map event_frames evs))) = typed_bytes evs"
proof (induction evs arbitrary: n)
  case Nil
  then show ?case by (simp add: written_bytes_def typed_bytes_def)
next
  case (Cons e evs)
  show ?case
  proof (cases e)
    case (Typed b)
    then show ?thesis using Cons by (auto simp: typed_bytes_def written_bytes_def tty_data_def)
  next
    case (Resized z)
    obtain es m where "apply_frames (\<lambda>k. True) n (size_frame z @ concat (map event_frames evs))
        = es @ apply_frames (\<lambda>k. True) m (concat (map event_frames evs))" "written_bytes es = ''''"
      using apply_size_frame by blast
    then show ?thesis using Cons[of m] Resized by (simp add: frames_append typed_bytes_def)
  qed
qed

text \<open>
  C40. An interactive session is faithful in the input direction: the frames the client writes are
  read back one by one at the worker and the stream ends as it ended, for any bytes typed (a frame
  holds no newline and stays below the reader's bound); the terminal of the job gets exactly the
  bytes typed, in order, and is never given a window with a zero dimension.
\<close>

theorem session_input_faithful:
  assumes "list_all reads_fit evs"
    and "list_all (\<lambda>f. decode (json_frame f) = Some f) (attach_tty_frames sz evs)"
  shows "read_tty_frames decode True (attach_tty_input sz evs) = (attach_tty_frames sz evs, ReadEOF)
    \<and> written_bytes (apply_frames (\<lambda>k. True) 0 (attach_tty_frames sz evs)) = typed_bytes evs
    \<and> list_all drawable (apply_frames (\<lambda>k. True) 0 (attach_tty_frames sz evs))"
proof (intro conjI)
  have "list_all (\<lambda>f. length (json_frame f) < max_tty_frame) (attach_tty_frames sz evs)"
    using attach_frames_known attach_frames_fit[OF assms(1)] length_json_frame
    by (fastforce simp: list_all_iff)
  then have "scan_lines True (attach_tty_input sz evs) = (map json_frame (attach_tty_frames sz evs), ScanEOF)"
    unfolding attach_tty_input_def using attach_frames_known by (subst scan_written) simp_all
  then show "read_tty_frames decode True (attach_tty_input sz evs) = (attach_tty_frames sz evs, ReadEOF)"
    using tty_frames_written[OF attach_frames_known assms(2)] by (simp add: read_tty_frames_def)
  obtain es m where "apply_frames (\<lambda>k. True) 0 (size_frame sz @ concat (map event_frames evs))
      = es @ apply_frames (\<lambda>k. True) m (concat (map event_frames evs))" "written_bytes es = ''''"
    using apply_size_frame by blast
  then show "written_bytes (apply_frames (\<lambda>k. True) 0 (attach_tty_frames sz evs)) = typed_bytes evs"
    using apply_events by (simp add: attach_tty_frames_def frames_append)
  show "list_all drawable (apply_frames (\<lambda>k. True) 0 (attach_tty_frames sz evs))"
    by (rule apply_frames_drawable)
qed

definition ex_decode :: "string \<Rightarrow> tty_frame option" where
  "ex_decode s = List.find (\<lambda>f. json_frame f = s) [tty_resize 48 180, tty_data ''ls'']"

theorem session_input_faithful_witness:
  "read_tty_frames ex_decode True (attach_tty_input (Some (48, 180)) [Typed ''ls'', Resized (Some (0, 0))])
     = ([tty_resize 48 180, tty_data ''ls''], ReadEOF)"
proof -
  have fs: "attach_tty_frames (Some (48, 180)) [Typed ''ls'', Resized (Some (0, 0))] = [tty_resize 48 180, tty_data ''ls'']"
    by (simp add: attach_tty_frames_def size_frame_def)
  have "json_frame (tty_resize 48 180) \<noteq> json_frame (tty_data ''ls'')"
    by (simp add: json_frame_def quoted_def tty_resize_def tty_data_def)
  then have "list_all (\<lambda>f. ex_decode (json_frame f) = Some f) [tty_resize 48 180, tty_data ''ls'']"
    by (simp add: ex_decode_def)
  moreover have "list_all reads_fit [Typed ''ls'', Resized (Some (0, 0))]" by (simp add: reads_fit_def)
  ultimately show ?thesis
    using session_input_faithful[of "[Typed ''ls'', Resized (Some (0, 0))]" ex_decode "Some (48, 180)"] by (simp add: fs)
qed

text \<open>Whatever an end of the relay opened is closed again, when it fails and when it is done.\<close>

definition balanced :: "half_event list \<Rightarrow> bool" where
  "balanced es \<longleftrightarrow> (OpenOut \<in> set es \<longleftrightarrow> CloseOut \<in> set es) \<and> (OpenIn \<in> set es \<longleftrightarrow> CloseIn \<in> set es)"

lemma relay_gives_back:
  "balanced (case attach_relay out inp of (es, ok) \<Rightarrow> if ok then es @ close_attached else es)"
  "balanced (case dial_relay out inp of (es, ok) \<Rightarrow> if ok then es @ close_dialled else es)"
  by (auto simp: attach_relay_def dial_relay_def balanced_def close_attached_def close_dialled_def
      split: half_open.splits)

end
