(* ===== verification/Enrolment.thy ===== *)
theory Enrolment
  imports Probe Worker_API Worker_Config Processes Reporting Paths
begin

text \<open>
  How a worker enrols with the controller and keeps it informed (\<open>src/internal/worker/worker.go\<close>):
  the body of a registration and of a label push, what it makes of the answer to a registration and
  to a poll, and the release hooks it runs at its start. What the worker finds on its host is an
  argument. The requests are the records of \<open>Worker_API\<close>, which stand for both sides of the wire: the
  worker's structures mirror the server's field by field. JSON carries a Go map as its entries in
  the order of the keys, and its texts as UTF-8: \<open>encoding/json\<close> puts U+FFFD for every byte that is
  not part of a rune's encoding.
\<close>

section \<open>Text on the wire\<close>

abbreviation byte :: "char \<Rightarrow> nat" where "byte \<equiv> of_char"

definition cont_byte :: "char \<Rightarrow> bool" where
  "cont_byte c \<longleftrightarrow> 128 \<le> byte c \<and> byte c \<le> 191"

text \<open>The \<open>k\<close> bytes that follow the first of a rune, the next of them in the given range.\<close>

definition tail_ok :: "nat \<Rightarrow> nat \<Rightarrow> nat \<Rightarrow> string \<Rightarrow> bool" where
  "tail_ok k lo hi cs \<longleftrightarrow> k \<le> length cs \<and> lo \<le> byte (cs ! 0) \<and> byte (cs ! 0) \<le> hi \<and> list_all cont_byte (take k cs)"

text \<open>\<open>utf8.DecodeRuneInString\<close>: the length of the encoding a text starts with, zero when it starts
  with none.\<close>

fun rune_width :: "string \<Rightarrow> nat" where
  "rune_width [] = 0"
| "rune_width (c # cs) =
     (let n = byte c
      in if n < 128 then 1
         else if 194 \<le> n \<and> n \<le> 223 \<and> tail_ok 1 128 191 cs then 2
         else if n = 224 \<and> tail_ok 2 160 191 cs then 3
         else if n = 237 \<and> tail_ok 2 128 159 cs then 3
         else if 225 \<le> n \<and> n \<le> 239 \<and> n \<noteq> 237 \<and> tail_ok 2 128 191 cs then 3
         else if n = 240 \<and> tail_ok 3 144 191 cs then 4
         else if n = 244 \<and> tail_ok 3 128 143 cs then 4
         else if 241 \<le> n \<and> n \<le> 243 \<and> tail_ok 3 128 191 cs then 4
         else 0)"

definition replacement :: string where
  "replacement = [CHR 0xEF, CHR 0xBF, CHR 0xBD]"

text \<open>A text after \<open>json.Marshal\<close> and \<open>json.Decode\<close>.\<close>

function wire_text :: "string \<Rightarrow> string" where
  "wire_text s =
     (if s = [] then []
      else if rune_width s = 0 then replacement @ wire_text (tl s)
      else take (rune_width s) s @ wire_text (drop (rune_width s) s))"
  by pat_completeness auto
termination by (relation "measure length") auto

declare wire_text.simps [simp del]

text \<open>The entries of a map after the wire: the last of two that became equal wins.\<close>

definition wire_map :: "('v \<Rightarrow> 'w) \<Rightarrow> (string \<times> 'v) list \<Rightarrow> (string \<times> 'w) list" where
  "wire_map f xs = fold (\<lambda>(k, v). AList.update (wire_text k) (f v)) xs []"

definition wire_facts :: "device_facts \<Rightarrow> device_facts" where
  "wire_facts df =
     \<lparr>df_labels = map_option (wire_map (wire_map wire_text)) (df_labels df),
      df_declared = map_option (wire_map (wire_map wire_text)) (df_declared df),
      df_sheet = map_option wire_text (df_sheet df),
      df_device_sheets = wire_map wire_text (df_device_sheets df)\<rparr>"

definition wire_register :: "register_request \<Rightarrow> register_request" where
  "wire_register req =
     req\<lparr>rq_host := wire_text (rq_host req), rq_boot_id := wire_text (rq_boot_id req),
         rq_devices := map (\<lambda>d. d\<lparr>ds_name := wire_text (ds_name d)\<rparr>) (rq_devices req),
         rq_facts := wire_facts (rq_facts req)\<rparr>"

definition wire_push :: "labels_push_request \<Rightarrow> labels_push_request" where
  "wire_push req =
     req\<lparr>lp_host := wire_text (lp_host req), lp_devices := map wire_text (lp_devices req),
         lp_facts := wire_facts (lp_facts req)\<rparr>"

section \<open>What a request carries\<close>

definition map_entries :: "(string \<rightharpoonup> string) \<Rightarrow> facts" where
  "map_entries m = map (\<lambda>k. (k, the (m k))) (sorted_list_of_set (dom m))"

text \<open>The host as one pass sees it: the sources of its facts, and the sheets.\<close>

record host_view =
  hv_probe :: probe_env
  hv_sheet :: file_read
  hv_device_sheet :: "string \<Rightarrow> file_read"

definition device_names :: "worker_config \<Rightarrow> string list" where
  "device_names c = map dc_name (wc_devices c)"

definition probe_path :: "worker_config \<Rightarrow> string \<Rightarrow> string" where
  "probe_path c n = path_join [wc_probe_dir c, n]"

definition host_pass :: "worker_config \<Rightarrow> host_view \<Rightarrow> probe_memory \<Rightarrow> probe_result \<times> probe_memory" where
  "host_pass c v mem = gather_labels (device_names c) (probe_path c) (hv_probe v) mem"

text \<open>The part \<open>register\<close> and \<open>pushLabels\<close> have in common.\<close>

definition reported_facts :: "worker_config \<Rightarrow> host_view \<Rightarrow> probe_memory \<Rightarrow> device_facts" where
  "reported_facts c v mem =
     (let (sheet, device_sheets) = sheet_payload (hv_sheet v) (hv_device_sheet v) (wc_devices c)
      in \<lparr>df_labels = labels_payload (fst (host_pass c v mem)),
          df_declared = Some (declared_labels_payload (map (\<lambda>d. (dc_name d, map_entries (dc_labels d))) (wc_devices c))),
          df_sheet = sheet, df_device_sheets = map_entries device_sheets\<rparr>)"

definition device_specs :: "worker_config \<Rightarrow> device_spec list" where
  "device_specs c = map (\<lambda>d. \<lparr>ds_name = dc_name d, ds_max_runtime = whole_seconds (dc_max_runtime d)\<rparr>) (wc_devices c)"

definition register_body :: "worker_config \<Rightarrow> string \<Rightarrow> recovery_proof \<Rightarrow> host_view \<Rightarrow> probe_memory \<Rightarrow> register_request" where
  "register_body c boot pf v mem =
     \<lparr>rq_host = wc_host c, rq_boot_id = boot, rq_devices = device_specs c, rq_recovery = pf,
      rq_facts = reported_facts c v mem\<rparr>"

definition push_body :: "worker_config \<Rightarrow> host_view \<Rightarrow> probe_memory \<Rightarrow> labels_push_request" where
  "push_body c v mem =
     \<lparr>lp_host = wc_host c, lp_devices = device_names c, lp_facts = reported_facts c v mem\<rparr>"

section \<open>Answers\<close>

text \<open>What reaches the worker of a reply: its status, and its body when it is the handler's value.\<close>

fun answer_of :: "'a reply \<Rightarrow> http_answer \<times> 'a option" where
  "answer_of (Reply n x) = (Answered (int n), Some x)"
| "answer_of (ReplyErr n code) = (Answered (int n), None)"

datatype exchange_error = Unreachable | BadStatus int | BadBody

text \<open>The identifier a registration got; the worker keeps the one it has when there is none.\<close>

definition register_result :: "http_answer \<times> string option \<Rightarrow> exchange_error + string" where
  "register_result a =
     (case fst a of
        NoAnswer \<Rightarrow> Inl Unreachable
      | Answered n \<Rightarrow>
          if n \<noteq> 200 then Inl (BadStatus n)
          else (case snd a of None \<Rightarrow> Inl BadBody | Some worker \<Rightarrow> Inr worker))"

definition poll_result :: "http_answer \<times> poll_response option \<Rightarrow> exchange_error + poll_response" where
  "poll_result a =
     (case fst a of
        NoAnswer \<Rightarrow> Inl Unreachable
      | Answered n \<Rightarrow>
          if n = 204 then Inr \<lparr>pr_assignments = [], pr_kills = []\<rparr>
          else if n \<noteq> 200 then Inl (BadStatus n)
          else (case snd a of None \<Rightarrow> Inl BadBody | Some resp \<Rightarrow> Inr resp))"

text \<open>Whether a push went through; the worker only logs it when it did not.\<close>

definition push_accepted :: "http_answer \<Rightarrow> bool" where
  "push_accepted a = (case a of NoAnswer \<Rightarrow> False | Answered n \<Rightarrow> n div 100 = 2)"

section \<open>The release hooks of the start\<close>

text \<open>
  The pass over the devices in the order the map gives them, each with whether the budget is used
  up before it and what its hook leaves. A hook gets the budget as its context, so one that is still
  running at the end of it is killed.
\<close>

fun startup_releases :: "(string \<Rightarrow> hook_spec) \<Rightarrow> (string \<times> bool \<times> hook_outcome) list \<Rightarrow> hook_call list" where
  "startup_releases specs [] = []"
| "startup_releases specs ((dev, late, outcome) # rest) =
     (let path = hk_on_release (specs dev)
      in if path = '''' then startup_releases specs rest
         else if late then []
         else \<lparr>hc_event = ''release'', hc_device = dev, hc_job = '''', hc_submitter = '''',
                hc_ok = hook_verdict path (fst outcome) = None\<rparr> # startup_releases specs rest)"

section \<open>Entries of a map\<close>

lemma map_entries_keys: "map fst (map_entries m) = sorted_list_of_set (dom m)"
  by (simp add: map_entries_def comp_def)

lemma map_entries_distinct [simp]: "distinct (map fst (map_entries m))"
  by (simp add: map_entries_keys)

lemma map_of_map_entries:
  assumes "finite (dom m)" shows "map_of (map_entries m) = m"
proof
  fix k
  show "map_of (map_entries m) k = m k"
    using assms by (cases "m k") (auto simp: map_entries_def map_of_map_restrict restrict_map_def domIff)
qed

lemma map_of_entries_in: "finite (dom m) \<Longrightarrow> (k, v) \<in> set (map_entries m) \<Longrightarrow> m k = Some v"
  by (metis map_of_is_SomeI map_entries_distinct map_of_map_entries)

lemma sheets_finite [simp]: "finite (dom (snd (sheet_payload h devs ds)))"
proof (rule finite_subset)
  show "dom (snd (sheet_payload h devs ds)) \<subseteq> set (map dc_name ds)"
    by (auto simp: sheet_payload_def dom_def split: if_splits)
qed simp

section \<open>Facts name no key twice\<close>

definition facts_distinct :: "probe_result \<Rightarrow> bool" where
  "facts_distinct res \<longleftrightarrow> distinct (map fst (pb_host res)) \<and> (\<forall>m \<in> snd ` set (pb_device res). distinct (map fst m))"

lemma facts_distinct_of: "facts_distinct res \<Longrightarrow> distinct (map fst (device_facts_of d res))"
  by (fastforce simp: facts_distinct_def device_facts_of_def dest: map_of_SomeD split: option.splits)

lemma update_values: "snd ` set (AList.update k v xs) \<subseteq> insert v (snd ` set xs)"
  by (induction xs) auto

lemma merge_probe_facts_distinct: "facts_distinct res \<Longrightarrow> facts_distinct (fst (merge_probe_facts names fs res))"
proof (induction names fs res rule: merge_probe_facts.induct)
  case (2 names k v fs res)
  show ?case
  proof (cases "classify_key names k")
    case KeyHost
    with 2(1) 2(4) show ?thesis by (simp add: facts_distinct_def distinct_update)
  next
    case KeyInvalid
    with 2 show ?thesis by simp
  next
    case (KeyDevice dev label)
    have "distinct (map fst (AList.update label v (device_facts_of dev res)))"
      using facts_distinct_of [OF 2(4)] by (simp add: distinct_update)
    with 2(4) have "facts_distinct (res\<lparr>pb_device := AList.update dev (AList.update label v (device_facts_of dev res)) (pb_device res)\<rparr>)"
      using subsetD [OF update_values [of dev "AList.update label v (device_facts_of dev res)" "pb_device res"]]
      unfolding facts_distinct_def by (metis (no_types, lifting) insertE probe_result.select_convs(1,2)
        probe_result.update_convs(2) probe_result.surjective)
    with 2(2) KeyDevice show ?thesis by (simp add: Let_def case_prod_beta)
  qed
qed simp

lemma merge_source_distinct: "facts_distinct (fst p) \<Longrightarrow> facts_distinct (fst (merge_source names source fs p))"
  by (simp add: merge_source_def case_prod_beta merge_probe_facts_distinct)

lemma unconfirm_distinct [simp]: "facts_distinct (fst (unconfirm source ds p)) = facts_distinct (fst p)"
  by (simp add: unconfirm_def facts_distinct_def)

lemma drop_in_failed_distinct [simp]:
  "facts_distinct (fst (drop_in_failed mem path p)) = facts_distinct (fst p)"
  "facts_distinct (fst (fold (\<lambda>m. drop_in_failed mem (f m)) ms p)) = facts_distinct (fst p)"
  by (simp_all add: drop_in_failed_def, induction ms arbitrary: p) (simp_all add: drop_in_failed_def)

lemma probe_loop_distinct: "facts_distinct (fst p) \<Longrightarrow> facts_distinct (fst (probe_loop names path mem sys ns p))"
proof (induction ns arbitrary: p)
  case (Cons n ns)
  show ?case
  proof (cases "ps_late (sys n)")
    case True
    have "probe_loop names path mem sys (n # ns) p = fold (\<lambda>m. drop_in_failed mem (path m)) (n # ns) p"
      using True by (simp add: Let_def)
    then show ?thesis using Cons.prems by (simp only: drop_in_failed_distinct)
  next
    case False
    with Cons show ?thesis by (auto simp: Let_def merge_source_distinct split: sum.splits)
  qed
qed simp

lemma gather_distinct: "facts_distinct (fst (gather_labels names path env mem))"
proof -
  have "facts_distinct (fst (fst (gather_builtin names env mem)))"
    by (auto simp: gather_builtin_def Let_def facts_distinct_def [of "\<lparr>pb_host = [], pb_device = _, pb_unconfirmed = _\<rparr>"]
        intro!: merge_source_distinct split: prod.splits)
  then show ?thesis
    using drop_in_failed_distinct(2) [of mem "\<lambda>s. s"]
    by (auto simp: gather_labels_def case_prod_beta probe_loop_distinct Let_def split: dir_read.splits)
qed


section \<open>Texts that cross the wire unchanged\<close>

definition utf8 :: "string \<Rightarrow> bool" where
  "utf8 s \<longleftrightarrow> wire_text s = s"

lemma tail_ok_append: "tail_ok k lo hi cs \<Longrightarrow> 0 < k \<Longrightarrow> tail_ok k lo hi (cs @ t)"
  by (auto simp: tail_ok_def nth_append)

lemma tail_ok_nth: "tail_ok k lo hi cs \<Longrightarrow> i < k \<Longrightarrow> cont_byte (cs ! i)"
  by (auto simp: tail_ok_def list_all_length)

lemma rune_width_le: "rune_width s \<le> length s"
  by (cases s) (auto simp: Let_def tail_ok_def)

lemma rune_width_cont: "i < rune_width s \<Longrightarrow> 0 < i \<Longrightarrow> cont_byte (s ! i)"
  by (cases s; cases i) (auto simp: Let_def dest!: tail_ok_nth split: if_splits)

lemma rune_width_append: "rune_width s \<noteq> 0 \<Longrightarrow> rune_width (s @ t) = rune_width s"
  by (cases s) (auto simp: Let_def tail_ok_append split: if_splits)

lemma wire_text_Nil [simp]: "wire_text [] = []"
  by (subst wire_text.simps) simp

lemma wire_text_length: "length (wire_text s) \<le> 3 * length s"
proof (induction s rule: wire_text.induct)
  case (1 s)
  show ?case
  proof (cases "s = []")
    case False
    then obtain n where len: "length s = Suc n" "length (tl s) = n" by (cases s) auto
    show ?thesis
    proof (cases "rune_width s = 0")
      case True
      with 1(1) [OF False True] False len show ?thesis by (subst wire_text.simps) (simp add: replacement_def)
    next
      case w: False
      with 1(2) [OF False w] False rune_width_le [of s] show ?thesis by (subst wire_text.simps) simp
    qed
  qed simp
qed

text \<open>A text is unchanged exactly when it is a sequence of encodings.\<close>

lemma wire_text_grows: "length s \<le> length (wire_text s)"
proof (induction s rule: wire_text.induct)
  case (1 s)
  show ?case
  proof (cases "s = []")
    case False
    then obtain n where len: "length s = Suc n" "length (tl s) = n" by (cases s) auto
    show ?thesis
    proof (cases "rune_width s = 0")
      case True
      with 1(1) [OF False True] False len show ?thesis by (subst wire_text.simps) (simp add: replacement_def)
    next
      case w: False
      with 1(2) [OF False w] False rune_width_le [of s] show ?thesis by (subst wire_text.simps) simp
    qed
  qed simp
qed

lemma utf8_Nil [simp]: "utf8 []"
  by (simp add: utf8_def)

lemma utf8_step:
  assumes "s \<noteq> []"
  shows "utf8 s \<longleftrightarrow> rune_width s \<noteq> 0 \<and> utf8 (drop (rune_width s) s)"
proof (cases "rune_width s = 0")
  case True
  have "length s < length (wire_text s)"
    using assms True wire_text_grows [of "tl s"] by (subst wire_text.simps) (cases s; simp add: replacement_def)
  then have "\<not> utf8 s" by (auto simp: utf8_def)
  with True show ?thesis by simp
next
  case False
  then have "wire_text s = take (rune_width s) s @ wire_text (drop (rune_width s) s)"
    using assms by (subst wire_text.simps) simp
  then have "wire_text s = s \<longleftrightarrow> wire_text (drop (rune_width s) s) = drop (rune_width s) s"
    by (metis append_take_drop_id same_append_eq)
  with False show ?thesis by (simp add: utf8_def)
qed

lemma utf8_append: "utf8 s \<Longrightarrow> utf8 t \<Longrightarrow> utf8 (s @ t)"
proof (induction s rule: wire_text.induct)
  case (1 s)
  show ?case
  proof (cases "s = []")
    case False
    with 1 utf8_step [OF False] utf8_step [of "s @ t"] rune_width_append [of s t] rune_width_le [of s] show ?thesis by auto
  qed (use 1 in simp)
qed

lemma utf8_ascii: "list_all (\<lambda>c. byte c < 128) s \<Longrightarrow> utf8 s"
proof (induction s)
  case (Cons c s)
  then show ?case using utf8_step [of "c # s"] by (simp add: Let_def)
qed simp

text \<open>A cut at the start of a rune.\<close>

lemma utf8_cut: "utf8 s \<Longrightarrow> n < length s \<Longrightarrow> \<not> cont_byte (s ! n) \<Longrightarrow> utf8 (take n s)"
proof (induction s arbitrary: n rule: wire_text.induct)
  case (1 s)
  show ?case
  proof (cases "n = 0")
    case False
    have ne: "s \<noteq> []" using 1(4) by auto
    let ?w = "rune_width s"
    have w: "?w \<noteq> 0" "utf8 (drop ?w s)" using utf8_step [OF ne] 1(3) by auto
    have wn: "?w \<le> n" using rune_width_cont [of n s] False 1(5) by (meson not_le_imp_less not_gr_zero)
    have "utf8 (take (n - ?w) (drop ?w s))"
      using 1(2) [OF ne w(1) w(2), of "n - ?w"] 1(4,5) wn rune_width_le [of s] by simp
    moreover have "utf8 (take ?w s)"
    proof -
      have "rune_width (take ?w s) = ?w"
        using w(1) by (cases s) (auto simp: Let_def tail_ok_def split: if_splits)
      then show ?thesis using utf8_step [of "take ?w s"] w(1) ne by simp
    qed
    moreover have "take n s = take ?w s @ take (n - ?w) (drop ?w s)" using wn by (metis le_add_diff_inverse take_add)
    ultimately show ?thesis by (simp add: utf8_append)
  qed simp
qed

lemma rune_start_cont: "rune_start c \<longleftrightarrow> \<not> cont_byte c"
  by (auto simp: rune_start_def cont_byte_def Let_def)

text \<open>The cut of an oversized sheet splits no rune.\<close>

lemma utf8_truncate: "utf8 body \<Longrightarrow> utf8 (truncate_sheet body)"
proof (cases "length body \<le> max_sheet")
  case False
  assume u: "utf8 body"
  let ?n = "back_to_rune body (max_sheet - length sheet_marker)"
  have "?n < length body"
    using back_to_rune_le [of body "max_sheet - length sheet_marker"] False by (simp add: max_sheet_def)
  then have "utf8 (take ?n body)"
    using back_to_rune_start [of body "max_sheet - length sheet_marker"] utf8_cut [OF u] by (auto simp: rune_start_cont)
  moreover have "utf8 sheet_marker" by (rule utf8_ascii) (simp add: sheet_marker_def)
  ultimately show ?thesis using False by (simp add: truncate_sheet_def utf8_append)
qed (simp add: truncate_sheet_def)

lemma update_new: "k \<notin> fst ` set xs \<Longrightarrow> AList.update k v xs = xs @ [(k, v)]"
  by (induction xs) auto

lemma wire_map_id:
  assumes "distinct (map fst xs)" and "\<And>k v. (k, v) \<in> set xs \<Longrightarrow> utf8 k \<and> f v = v"
  shows "wire_map f xs = xs"
proof -
  have "fold (\<lambda>(k, v). AList.update (wire_text k) (f v)) ys zs = zs @ ys"
    if "distinct (map fst (zs @ ys))" "\<And>k v. (k, v) \<in> set ys \<Longrightarrow> utf8 k \<and> f v = v" for ys zs
    using that
  proof (induction ys arbitrary: zs)
    case (Cons y ys)
    obtain k v where y: "y = (k, v)" by (cases y) auto
    have "k \<notin> fst ` set zs" using Cons.prems(1) y by (auto simp: image_iff)
    then have "AList.update k v zs = zs @ [(k, v)]" by (rule update_new)
    moreover have "wire_text k = k" "f v = v" using Cons.prems(2) [of k v] y by (auto simp: utf8_def)
    moreover have "fold (\<lambda>(k, v). AList.update (wire_text k) (f v)) ys (zs @ [(k, v)]) = (zs @ [(k, v)]) @ ys"
      by (rule Cons.IH) (use Cons.prems y in auto)
    ultimately show ?case by (simp add: y)
  qed simp
  from this [of "[]" xs] assms show ?thesis by (simp add: wire_map_def)
qed

end
