(* ===== verification/Enrolment_Claims.thy ===== *)
theory Enrolment_Claims
  imports Enrolment Probe_Claims Controller
begin

text \<open>
  What the controller knows of a host after its worker registered or pushed: worker and controller
  put together, the bodies of \<open>Enrolment\<close> handed to the handlers of \<open>Worker_API\<close>.
\<close>

section \<open>Effect of reported facts\<close>




text \<open>What becomes of the labels of one source, and of one sheet.\<close>

definition label_after :: "string entries entries option \<Rightarrow> string \<Rightarrow> string \<Rightarrow> string option \<Rightarrow> string option" where
  "label_after maps name k old =
     (case maps of
        None \<Rightarrow> old
      | Some m \<Rightarrow>
          (case map_of m name of
             None \<Rightarrow> old
           | Some own \<Rightarrow> map_of (merge_label_maps (case map_of m '''' of None \<Rightarrow> [] | Some h \<Rightarrow> h) own) k))"

definition body_after :: "string option \<Rightarrow> string \<Rightarrow> string" where
  "body_after sheet old = (case sheet of None \<Rightarrow> old | Some body \<Rightarrow> body)"

definition both_sources :: "string set" where
  "both_sources = {SourceDetected, SourceDeclared}"


definition maps_of :: "device_facts \<Rightarrow> string \<Rightarrow> string entries entries option" where
  "maps_of df source = (if source = SourceDetected then df_labels df else df_declared df)"

lemma stored_label_docs [simp]: "stored_label (s\<lparr>host_docs := x\<rparr>) = stored_label s"
  by (intro ext) (simp add: stored_label_def)

lemma host_doc_labels [simp]: "host_doc h d (s\<lparr>device_labels := x\<rparr>) = host_doc h d s"
  by (simp add: host_doc_def)

lemma stored_label_upsert [simp]: "stored_label (upsert_host_doc h d body now s) = stored_label s"
  by (simp add: upsert_host_doc_def)


text \<open>One device, then all of them: nothing fails, and every device gets its own.\<close>

definition facts_applied :: "string \<Rightarrow> device_facts \<Rightarrow> string set \<Rightarrow> db \<Rightarrow> db \<Rightarrow> bool" where
  "facts_applied host df names s s' \<longleftrightarrow>
     (\<forall>n k source. source \<in> both_sources \<longrightarrow>
        stored_label s' (device_id host n) source k
          = (if n \<in> names then label_after (maps_of df source) n k else id) (stored_label s (device_id host n) source k))
     \<and> (\<forall>n. fst (host_doc host (device_id host n) s')
          = (if n \<in> names then body_after (map_of (df_device_sheets df) n) else id) (fst (host_doc host (device_id host n) s)))
     \<and> host_doc host '''' s' = host_doc host '''' s
     \<and> devices s' = devices s \<and> workers s' = workers s"

lemma device_id_eq [simp]: "device_id h n = device_id h n' \<longleftrightarrow> n = n'" "device_id h n \<noteq> ''''" "'''' \<noteq> device_id h n"
  by (simp_all add: device_id_def)




lemma facts_applied_frame: "facts_applied host df A s s' \<Longrightarrow> devices s' = devices s \<and> workers s' = workers s"
  by (simp add: facts_applied_def)

section \<open>What a worker reports is taken\<close>



























section \<open>A registration\<close>

text \<open>The parts of the database a registration's reconciliation does not touch.\<close>

definition kept_by :: "db \<Rightarrow> db \<Rightarrow> bool" where
  "kept_by s s' \<longleftrightarrow> device_labels s' = device_labels s \<and> host_docs s' = host_docs s \<and> workers s' = workers s"

lemma kept_by_refl [simp]: "kept_by s s"
  by (simp add: kept_by_def)






































section \<open>Polls and the start\<close>

text \<open>Whatever a poll is answered with, the worker takes: the work handed out, or none.\<close>

lemma poll_reply_taken:
  assumes "snd (poll_loop clk worker c rounds sv) = Some reply"
  shows "\<exists>resp. poll_result (answer_of reply) = Inr resp
    \<and> (reply = Reply 200 resp \<or> resp = \<lparr>pr_assignments = [], pr_kills = []\<rparr>)"
  using assms
proof (induction rounds arbitrary: clk sv)
  case Nil
  then show ?case by (auto simp: poll_result_def split: prod.splits option.splits)
next
  case (Cons round rounds)
  obtain sv1 o1 where 1: "poll_round clk worker sv = (sv1, o1)" by fastforce
  obtain ev others clk' where r: "round = (ev, others, clk')" by (cases round) auto
  show ?case
  proof (cases o1)
    case (Some resp)
    with 1 Cons.prems show ?thesis by (auto simp: poll_result_def)
  next
    case None
    with 1 r Cons show ?thesis by (cases ev) (auto simp: poll_result_def Let_def)
  qed
qed

text \<open>The start runs the release hooks in the order of the pass, and all of them unless the budget ends it.\<close>

lemma startup_releases_prefix:
  "\<exists>k. map hc_device (startup_releases specs ws) = take k (filter (\<lambda>d. hk_on_release (specs d) \<noteq> '''') (map fst ws))"
proof (induction ws)
  case (Cons w ws)
  obtain d late o' where w: "w = (d, late, o')" by (cases w) auto
  from Cons obtain k where k: "map hc_device (startup_releases specs ws) = take k (filter (\<lambda>d. hk_on_release (specs d) \<noteq> '''') (map fst ws))"
    by blast
  show ?case
  proof (cases "hk_on_release (specs d) = ''''")
    case True
    with w k show ?thesis by auto
  next
    case False
    with w k show ?thesis by (cases late) (auto intro: exI [of _ 0] exI [of _ "Suc k"])
  qed
qed simp

lemma startup_releases_all:
  "\<forall>(d, late, o') \<in> set ws. \<not> late \<Longrightarrow>
     map hc_device (startup_releases specs ws) = filter (\<lambda>d. hk_on_release (specs d) \<noteq> '''') (map fst ws)"
  by (induction ws) auto
end
