(* ===== verification/Spec2Isabelle.thy ===== *)
theory Spec2Isabelle
  imports Store_Claims Upkeep_Claims Submission_Claims Migrate_Claims Server_Claims Platform_Claims
    TTY_Claims Agent_Claims Worker_Claims Probe_Claims Process_Claims Copy_Claims Command_Claims Display_Claims Terminal_Claims Enrolment_Claims
begin

text \<open>
  A verification development of the resource controller (\<open>rc\<close>): a server that hands
  the devices of a fleet of hosts to queued jobs, one job per device, the workers that run
  them, and the commands people and agents use.

  \<^bold>\<open>The program.\<close> Everything durable is one SQLite database (\<open>internal/store\<close>): workers,
  devices, jobs, leases, reservations, labels, usage sheets and recovery records. The pool has
  one connection, so transactions are totally ordered. Workers (\<open>internal/worker\<close>) register
  their devices, poll for assignments, run jobs between lifecycle hooks, verify the device
  afterwards, renew their leases by heartbeats and report outcomes. Clients (\<open>internal/cli\<close> over
  \<open>internal/client\<close>) submit, watch and kill jobs and copy files. A reaper demotes silent workers
  and ends expired leases; a scheduler hands free devices to the queue. The HTTP handlers
  (\<open>internal/server\<close>) are the only callers of the store, beside the two loops of
  \<open>internal/cli/serve.go\<close>.

  \<^bold>\<open>The theories of the controller\<close>, in the order they build on each other:

  \<^item> \<open>RC_Prelude\<close>: time, 64-bit durations, SQL statements as functions on tables (a table is
    the list of its rows in rowid order), the locales \<open>keyed_table\<close> and
    \<open>invariant_system\<close>, and runs of a step relation.
  \<^item> \<open>Go_Strings\<close>, \<open>Go_Float\<close>, \<open>Go_Format\<close>: the functions of \<open>strings\<close>, \<open>strconv\<close> and \<open>time\<close> the
    code uses.
  \<^item> \<open>Selector\<close> (\<open>selector/selector.go\<close>), \<open>Model\<close> (\<open>model/model.go\<close>).
  \<^item> \<open>Store_DB\<close> (\<open>store/schema.sql\<close>), \<open>Store_Migrate\<close> (\<open>store/migrate.go\<close>),
    \<open>Store_Jobs\<close> (\<open>allocate.go\<close>), \<open>Store_Facts\<close> (\<open>labels.go\<close>, \<open>docs.go\<close>,
    \<open>retire.go\<close>), \<open>Store_Workers\<close> (\<open>store.go\<close>), \<open>Store_Reaper\<close> (\<open>reaper.go\<close>),
    \<open>Store_Recover\<close> (\<open>recover.go\<close>), \<open>Store_Queue\<close> (\<open>queue.go\<close>): each exported
    operation of the store as one function on the database, with its guards and errors, and
    the preservation of the invariant \<open>db_ok\<close>.
  \<^item> \<open>Store_Schedule\<close>, \<open>Store_Submission\<close>: lemmas on a scheduling pass and on a submission.
    \<open>Store_Machine\<close>: the store as a step relation with one label per transaction,
    \<open>reachable\<close> databases. \<open>Store_Stability\<close>, \<open>Store_Progress\<close>: what no run undoes.
  \<^item> \<open>Notify\<close> (\<open>notify/notify.go\<close>, \<open>webhook.go\<close>), \<open>Server_Channels\<close>
    (\<open>server/events.go\<close>), \<open>Wakeups\<close> (\<open>server/notify.go\<close>), \<open>Logstore\<close>
    (\<open>logstore/logstore.go\<close>), \<open>TTY\<close> (\<open>server/tty.go\<close>): the concurrent parts beside the store
    as state machines.
  \<^item> \<open>Server_State\<close> (\<open>server/server.go\<close> and the fleet views), \<open>Worker_API\<close>
    (\<open>worker_api.go\<close>), \<open>Client_API\<close> (\<open>client_api.go\<close>, \<open>admin_api.go\<close>), \<open>Serve\<close>
    (\<open>cli/serve.go\<close>): the handlers and the loops over the store. \<open>Server_Machine\<close>: each
    handler is a run of store transactions. \<open>Controller\<close>: routing, authorization, and the
    whole controller as one step relation. \<open>Server_Facts\<close>: lemmas on single handlers.

  \<^bold>\<open>The theories of the worker\<close> (\<open>internal/worker\<close>):

  \<^item> \<open>Exec\<close> (\<open>exec.go\<close>, \<open>watchdog.go\<close>): a command from the answers of the system to the signals sent
    and the result. \<open>Hooks\<close> (\<open>hooks.go\<close>): acquire, scheduled release, timer and drain of each device as
    interleaving steps. \<open>Verify\<close> (\<open>verify.go\<close>), \<open>Reconnect\<close> (\<open>reconnect.go\<close>), \<open>Reporting\<close> (the retry
    loops of the reports), \<open>Worker_Config\<close> (\<open>config.go\<close>, \<open>sheet.go\<close>), \<open>Log_Sink\<close> (the batching of log
    lines), \<open>Probe\<close> (\<open>probe.go\<close> and \<open>labelsPayload\<close>), \<open>Processes\<close> (\<open>pty.go\<close>'s walks over \<open>/proc\<close>,
    \<open>recovery.go\<close>, \<open>sweep.go\<close>, \<open>bootid.go\<close>).
  \<^item> \<open>Agent\<close> (\<open>worker.go\<close>): the whole agent as one step relation, the goroutine of each job through the
    stages of \<open>execute\<close> beside polls, kills, timers and shutdown. \<open>Enrolment\<close> (\<open>worker.go\<close>): the bodies of a
    registration and of a label push, what JSON makes of their texts, the answers, the release hooks of the start.

  \<^bold>\<open>The theories of the commands\<close>:

  \<^item> \<open>Paths\<close>: Go's \<open>path\<close> and the file operations of \<open>os\<close> over a file system with symbolic links.
  \<^item> \<open>Client\<close> (\<open>client/client.go\<close>): the requests, in the types of the handlers, the verdict on each
    answer and the two polling loops. \<open>Copy\<close> (\<open>client/cp.go\<close>, \<open>cli/cp.go\<close>). \<open>Commands\<close> (\<open>cli/run.go\<close>,
    \<open>hold.go\<close>, \<open>kill.go\<close>, \<open>logs.go\<close>, \<open>clear.go\<close>, \<open>retire.go\<close>, \<open>userconfig.go\<close>, \<open>cmd/rc/main.go\<close>): a command
    is a function from its flags and what it meets to its requests, notes and result.
    \<open>Displays\<close> (\<open>ps.go\<close>, \<open>jobs.go\<close>, \<open>describe.go\<close>): the rows it prints.
  \<^item> \<open>Terminal\<close> (\<open>server/tty_frame.go\<close>, \<open>client/tty.go\<close>, \<open>client/relay.go\<close>, \<open>worker/relay.go\<close>): the frames of an
    interactive session at both ends, and how both ends open and give back their halves of the relay.

  The properties are in the theories named \<open>_Claims\<close>; each stands below its claim and above
  its witness. \<open>Store_Examples\<close> holds the fleet the witnesses use.

  \<^bold>\<open>Interfaces.\<close> \<open>keyed_table\<close> (a table with a primary key) is interpreted on every table
  of the store; \<open>invariant_system\<close> on the store, the notifier, the broadcaster, the log
  follower, the relay, the controller, the hooks of a device, and the jobs and the tokens of the
  agent; \<open>wakeups\<close> (no wake-up is lost) on the poll waker and on the log store's listeners.

  \<^bold>\<open>What is shown of the controller.\<close> No two live leases or jobs in flight share a device, and a
  device's state tells the truth, in every database that any interleaving of transactions reaches;
  the controller refines that machine, so the same holds behind the API. A scheduling pass succeeds,
  does not overtake, leaves no usable device idle and fits ceilings and selectors. A job only
  moves forward, is handed out once, and its outcome is final and recorded by its own worker
  alone. Faults stick; the reaper judges after the hold-off, announces what it did once;
  recovery is guarded. Submissions are idempotent, runtimes bounded, selectors round-trip,
  explain agrees with the scheduler. Requests run only with a configured token of the right
  role. Schema migrations of any prefix meet. The notifier is bounded, in order and drains; the
  dashboards, the long poll and the log stream lose nothing they promise; terminals of different
  sessions are never spliced.

  \<^bold>\<open>What is shown of the worker.\<close> Every job goes through the stages of its protocol once, its device
  is quarantined before it is freed, no hook releases a device under a job, a kill sticks, success
  is only reported of a clean run, hooks alternate, log lines arrive complete and in order, a recovery proof
  says exactly that no process survives, and the sweep signals nothing but what the worker's jobs left behind.
  Worker and controller together: a registration and a label push with UTF-8 texts are always taken and leave at the
  controller exactly what the worker's configuration, probes and sheets say, a failed probe erasing nothing; a sheet that is not
  UTF-8 can have the registration refused.

  \<^bold>\<open>What is shown of the commands.\<close> A wait in the queue survives outages, \<open>rc run\<close> kills its job only
  while it waits and only for the user, exits with zero only on success, asks for the limit it was
  given; a refused submission leaves a cancelled job; \<open>rc ps\<close> counts the positions the controller
  reports; an extraction stays in its destination when the links of the archive lead down, and an
  example shows that the check the code makes of links is not enough without that. What is typed in a
  terminal session reaches the terminal of the job byte for byte.

  \<^bold>\<open>Bounds and fuel.\<close> Loops are structural recursion on the rows, the attempts or the events a
  request brings; \<open>drain_chunks\<close>, \<open>trim_front\<close>, \<open>go_fields\<close> and \<open>mkdir_all\<close> have a measure, a path walk
  follows at most 40 links as the kernel does, and a long poll or a polling loop takes the list of
  what ends each wait. The walk to the ancestors of a process is a partial function, and
  \<open>ancestor_walk_total\<close> shows that it ends when finitely many processes are readable. Durations
  computed by multiplication go through \<open>wrap64\<close>.

  \<^bold>\<open>Conventions.\<close> An instant counts nanoseconds. Identifiers drawn at random and readings of
  the clock are arguments. A Go map whose order the code does not fix is the list of its entries
  or a partial map. Errors are values; the text of a message is left out. A handler gets its
  request decoded (\<open>None\<close> when decoding failed) and returns the status and the body as a value; a
  client gets an answer the same way.

  \<^bold>\<open>Not modelled.\<close> Errors of the database driver, the file system and the network; JSON (beyond the writing of a
  frame and the coercion of texts to UTF-8), YAML, tar, HTTP and server-sent-event encoding; log lines; flag parsing; the
  wiring and the shutdown order of the processes, the timing of the worker's heartbeat and probe loops; the embedded
  dashboard page; opening and resizing pseudo terminals, raw mode and the bytes pumped from a terminal to its reader. They
  are input and output whose content the modelled parts take as arguments.
\<close>

end
